(* ===== verification/Prelude.thy ===== *)
theory Prelude
  imports Complex_Main "HOL-Library.Product_Lexorder" "HOL-Library.Code_Target_Numeral"
begin

text \<open>
  Shared vocabulary of the development: Python's exceptions as values, results that may
  raise, and the small list facts that several components use.

  A Python function that may raise is a function into \<^typ>\<open>'a + 'b\<close> with the exception on
  the left. The class hierarchy of the exceptions matters, because the code catches by
  class: \<open>is_ValueError\<close> and its kin say which constructors an \<open>except\<close> clause catches.
\<close>

datatype exn =
    ValueError
  | TypeError
  | KeyError
  | OverflowError
  | UnicodeDecodeError
  | JSONDecodeError string
  | ConfigError string
  | ValidationError string
  | StoreConflict string
  | StoreLimit string
  | SqliteError
  | EnforcementError string
  | PermissionError string
  | OSError
  | HelperError string
  | SnapshotRace string
  | StoreFullError string
  | EnumerationError string
  | RuntimeError string
  | SslError
  | AttributeError
  | SubprocessError
  | HTTPError int
  | BuildError string
  | PortError string
  | SystemExit int
  | ConnectionRefusedError

type_synonym 'a result = "exn + 'a"

text \<open>
  Times (\<open>time.time()\<close>, \<open>time.monotonic()\<close>, \<open>expires_at\<close>) are Python floats; every finite
  float is a rational number, and the model keeps it as one.
\<close>

type_synonym time = rat

fun is_ValueError :: "exn \<Rightarrow> bool" where
  "is_ValueError ValueError = True"
| "is_ValueError UnicodeDecodeError = True"
| "is_ValueError (JSONDecodeError _) = True"
| "is_ValueError (ConfigError _) = True"
| "is_ValueError (ValidationError _) = True"
| "is_ValueError _ = False"

fun is_OSError :: "exn \<Rightarrow> bool" where
  "is_OSError OSError = True"
| "is_OSError (PermissionError _) = True"
| "is_OSError SslError = True"
| "is_OSError ConnectionRefusedError = True"
| "is_OSError (HTTPError _) = True"
| "is_OSError _ = False"

named_theorems result_simps "reasoning about results: when a computation returned or raised"

subsection \<open>Sequencing of computations that may raise\<close>

definition rbind :: "'a result \<Rightarrow> ('a \<Rightarrow> 'b result) \<Rightarrow> 'b result" where
  "rbind r f = (case r of Inl e \<Rightarrow> Inl e | Inr x \<Rightarrow> f x)"

definition rguard :: "bool \<Rightarrow> exn \<Rightarrow> unit result" where
  "rguard b e = (if b then Inr () else Inl e)"

lemma rbind_simps [simp]: "rbind (Inl e) f = Inl e" "rbind (Inr x) f = f x"
  by (simp_all add: rbind_def)

lemma rbind_eq_Inr [result_simps]: "rbind r f = Inr y \<longleftrightarrow> (\<exists>x. r = Inr x \<and> f x = Inr y)"
  by (cases r) auto

lemma rbind_eq_Inl [result_simps]:
  "rbind r f = Inl e \<longleftrightarrow> r = Inl e \<or> (\<exists>x. r = Inr x \<and> f x = Inl e)"
  by (cases r) auto

lemma rguard_simps [simp]: "rguard True e = Inr ()" "rguard False e = Inl e"
  by (simp_all add: rguard_def)

lemma rguard_eq_Inr [result_simps]: "rguard b e = Inr u \<longleftrightarrow> b"
  by (simp add: rguard_def)

lemma rguard_eq_Inl [result_simps]: "rguard b e = Inl e' \<longleftrightarrow> \<not> b \<and> e' = e"
  by (auto simp: rguard_def)

text \<open>
  What a computation returns and what it raises, as one triple. The rule for \<open>rbind\<close> walks
  through a chain of calls, collecting the facts of the calls that returned.
\<close>

definition rspec :: "'a result \<Rightarrow> ('a \<Rightarrow> bool) \<Rightarrow> (exn \<Rightarrow> bool) \<Rightarrow> bool" where
  "rspec r Q E \<longleftrightarrow> (case r of Inl e \<Rightarrow> E e | Inr x \<Rightarrow> Q x)"

lemma rspec_bindI:
  "(\<And>e. r = Inl e \<Longrightarrow> E e) \<Longrightarrow> (\<And>x. r = Inr x \<Longrightarrow> rspec (f x) Q E) \<Longrightarrow> rspec (rbind r f) Q E"
  by (cases r) (simp_all add: rspec_def)

lemma rspec_bind:
  "rspec r P E \<Longrightarrow> (\<And>x. P x \<Longrightarrow> rspec (f x) Q E) \<Longrightarrow> rspec (rbind r f) Q E"
  by (cases r) (simp_all add: rspec_def)

lemma rspec_InrI: "Q x \<Longrightarrow> rspec (Inr x) Q E"
  by (simp add: rspec_def)

lemma rspec_InlI: "E e \<Longrightarrow> rspec (Inl e) Q E"
  by (simp add: rspec_def)

lemma rspec_ifI:
  "(b \<Longrightarrow> rspec r Q E) \<Longrightarrow> (\<not> b \<Longrightarrow> rspec t Q E) \<Longrightarrow> rspec (if b then r else t) Q E"
  by simp

lemma rspecD:
  "rspec r Q E \<Longrightarrow> r = Inr x \<Longrightarrow> Q x"
  "rspec r Q E \<Longrightarrow> r = Inl e \<Longrightarrow> E e"
  by (simp_all add: rspec_def)

lemma rspec_mono:
  "rspec r Q E \<Longrightarrow> (\<And>x. Q x \<Longrightarrow> Q' x) \<Longrightarrow> (\<And>e. E e \<Longrightarrow> E' e) \<Longrightarrow> rspec r Q' E'"
  by (auto simp: rspec_def split: sum.splits)

text \<open>A list comprehension whose element may raise: the first exception ends it.\<close>

fun rmap :: "('a \<Rightarrow> 'b result) \<Rightarrow> 'a list \<Rightarrow> 'b list result" where
  "rmap f [] = Inr []"
| "rmap f (x # xs) = rbind (f x) (\<lambda>y. rbind (rmap f xs) (\<lambda>ys. Inr (y # ys)))"

lemma rmap_eq_Inr: "rmap f xs = Inr ys \<longleftrightarrow> list_all2 (\<lambda>x y. f x = Inr y) xs ys"
  by (induction xs arbitrary: ys) (auto simp: list_all2_Cons1 result_simps)

lemma rmap_length: "rmap f xs = Inr ys \<Longrightarrow> length ys = length xs"
  by (auto simp: rmap_eq_Inr dest: list_all2_lengthD)

lemma rmap_set: "rmap f xs = Inr ys \<Longrightarrow> y \<in> set ys \<Longrightarrow> \<exists>x\<in>set xs. f x = Inr y"
  by (auto simp: rmap_eq_Inr list_all2_conv_all_nth in_set_conv_nth) (metis nth_mem)

lemma rmap_map_Inr: "(\<And>x. x \<in> set xs \<Longrightarrow> f x = Inr (g x)) \<Longrightarrow> rmap f xs = Inr (map g xs)"
  by (induction xs) auto

lemma rmap_eq_Inl: "rmap f xs = Inl e \<Longrightarrow> \<exists>x\<in>set xs. f x = Inl e"
  by (induction xs) (auto simp: result_simps)

lemma rspec_rmap:
  "(\<And>x. x \<in> set xs \<Longrightarrow> rspec (f x) Q E) \<Longrightarrow> rspec (rmap f xs) (list_all Q) E"
proof (induction xs)
  case (Cons x xs)
  then have "rspec (f x) Q E" "rspec (rmap f xs) (list_all Q) E" by simp_all
  then show ?case by (auto intro!: rspec_bind rspec_InrI)
qed (simp add: rspec_def)

text \<open>A loop over a list that carries a state and may raise.\<close>

fun rfold :: "('a \<Rightarrow> 's \<Rightarrow> 's result) \<Rightarrow> 'a list \<Rightarrow> 's \<Rightarrow> 's result" where
  "rfold f [] s = Inr s"
| "rfold f (x # xs) s = rbind (f x s) (rfold f xs)"

lemma rfold_append: "rfold f (xs @ ys) s = rbind (rfold f xs s) (rfold f ys)"
  by (induction xs arbitrary: s) (auto simp: rbind_def split: sum.splits)

lemma rfold_invariant:
  assumes "rfold f xs s = Inr t" and "P s"
    and "\<And>x s t. x \<in> set xs \<Longrightarrow> f x s = Inr t \<Longrightarrow> P s \<Longrightarrow> P t"
  shows "P t"
  using assms
proof (induction xs arbitrary: s)
  case Nil
  then show ?case by simp
next
  case (Cons x xs)
  then obtain u where u: "f x s = Inr u" "rfold f xs u = Inr t"
    by (auto simp: result_simps)
  from Cons.prems(3) [of x s u] u(1) Cons.prems(2) have "P u" by simp
  from Cons.IH [OF u(2) this] Cons.prems(3) show ?case by (meson list.set_intros(2))
qed

subsection \<open>Computations with a state that may raise\<close>

text \<open>
  Code that changes a state (the PF tables, a database, a connection) and may raise: an exception
  leaves the changes made so far, unlike a transaction. \<open>scatch\<close> is \<open>try ... except Exception\<close>.
\<close>

type_synonym ('s, 'a) action = "'s \<Rightarrow> 's \<times> 'a result"

definition sret :: "'a \<Rightarrow> ('s, 'a) action" where
  "sret x s = (s, Inr x)"

definition slift :: "'a result \<Rightarrow> ('s, 'a) action" where
  "slift r s = (s, r)"

definition sbind :: "('s, 'a) action \<Rightarrow> ('a \<Rightarrow> ('s, 'b) action) \<Rightarrow> ('s, 'b) action" where
  "sbind m f s = (case m s of (t, Inl e) \<Rightarrow> (t, Inl e) | (t, Inr x) \<Rightarrow> f x t)"

definition scatch :: "('s, 'a) action \<Rightarrow> (exn \<Rightarrow> ('s, 'a) action) \<Rightarrow> ('s, 'a) action" where
  "scatch m h s = (case m s of (t, Inl e) \<Rightarrow> h e t | (t, Inr x) \<Rightarrow> (t, Inr x))"

lemma action_simps [simp]:
  "sret x s = (s, Inr x)" "slift r s = (s, r)"
  "sbind (sret x) f s = f x s" "sbind (slift (Inl e)) f s = (s, Inl e)"
  "sbind (slift (Inr x)) f s = f x s"
  by (simp_all add: sret_def slift_def sbind_def)

lemma sbind_Inr: "sbind m f s = (u, Inr y) \<longleftrightarrow> (\<exists>t x. m s = (t, Inr x) \<and> f x t = (u, Inr y))"
  by (auto simp: sbind_def split: prod.splits sum.splits)

lemma sbind_Inl:
  "sbind m f s = (u, Inl e) \<longleftrightarrow> m s = (u, Inl e) \<or> (\<exists>t x. m s = (t, Inr x) \<and> f x t = (u, Inl e))"
  by (auto simp: sbind_def split: prod.splits sum.splits)

text \<open>
  The triple of an action: from states that satisfy \<open>P\<close> it returns as \<open>Q\<close> says or raises as
  \<open>E\<close> says.
\<close>

definition striple :: "('s \<Rightarrow> bool) \<Rightarrow> ('s, 'a) action \<Rightarrow> ('a \<Rightarrow> 's \<Rightarrow> bool) \<Rightarrow> (exn \<Rightarrow> 's \<Rightarrow> bool) \<Rightarrow> bool" where
  "striple P m Q E \<longleftrightarrow>
     (\<forall>s. P s \<longrightarrow> (case m s of (t, Inl e) \<Rightarrow> E e t | (t, Inr x) \<Rightarrow> Q x t))"

lemma striple_bind:
  "striple P m R E \<Longrightarrow> (\<And>x. striple (R x) (f x) Q E) \<Longrightarrow> striple P (sbind m f) Q E"
  unfolding striple_def sbind_def by (fastforce split: prod.splits sum.splits)

lemma striple_catch:
  "striple P m Q R \<Longrightarrow> (\<And>e. striple (R e) (h e) Q E) \<Longrightarrow> striple P (scatch m h) Q E"
  unfolding striple_def scatch_def by (fastforce split: prod.splits sum.splits)

lemma striple_ret: "(\<And>s. P s \<Longrightarrow> Q x s) \<Longrightarrow> striple P (sret x) Q E"
  by (simp add: striple_def)

lemma striple_lift:
  "(\<And>s x. P s \<Longrightarrow> r = Inr x \<Longrightarrow> Q x s) \<Longrightarrow> (\<And>s e. P s \<Longrightarrow> r = Inl e \<Longrightarrow> E e s) \<Longrightarrow>
   striple P (slift r) Q E"
  by (auto simp: striple_def split: sum.splits)

lemma striple_mono:
  "striple P m Q E \<Longrightarrow> (\<And>s. P' s \<Longrightarrow> P s) \<Longrightarrow> (\<And>x s. Q x s \<Longrightarrow> Q' x s) \<Longrightarrow>
   (\<And>e s. E e s \<Longrightarrow> E' e s) \<Longrightarrow> striple P' m Q' E'"
  unfolding striple_def by (fastforce split: prod.splits sum.splits)

lemma striple_pure: "(B \<Longrightarrow> striple P m Q E) \<Longrightarrow> striple (\<lambda>s. P s \<and> B) m Q E"
  by (auto simp: striple_def)

lemma striple_if:
  "(b \<Longrightarrow> striple P m Q E) \<Longrightarrow> (\<not> b \<Longrightarrow> striple P n Q E) \<Longrightarrow> striple P (if b then m else n) Q E"
  by simp

lemma stripleD:
  "striple P m Q E \<Longrightarrow> P s \<Longrightarrow> m s = (t, Inr x) \<Longrightarrow> Q x t"
  "striple P m Q E \<Longrightarrow> P s \<Longrightarrow> m s = (t, Inl e) \<Longrightarrow> E e t"
  by (fastforce simp: striple_def)+

text \<open>An action keeps a property of the state, whether it returns or raises.\<close>

definition keeps :: "('s \<Rightarrow> bool) \<Rightarrow> ('s, 'a) action \<Rightarrow> bool" where
  "keeps P m \<longleftrightarrow> (\<forall>s. P s \<longrightarrow> P (fst (m s)))"

named_theorems keeps_rules "rules for properties that an action keeps"

lemma keepsD: "keeps P m \<Longrightarrow> P s \<Longrightarrow> m s = (t, r) \<Longrightarrow> P t"
  by (force simp: keeps_def)

lemma keeps_sbind [keeps_rules]: "keeps P m \<Longrightarrow> (\<And>x. keeps P (f x)) \<Longrightarrow> keeps P (sbind m f)"
  by (auto simp: keeps_def sbind_def split: prod.splits sum.splits)

lemma keeps_scatch [keeps_rules]: "keeps P m \<Longrightarrow> (\<And>e. keeps P (h e)) \<Longrightarrow> keeps P (scatch m h)"
  by (auto simp: keeps_def scatch_def split: prod.splits sum.splits)

lemma keeps_sret [keeps_rules]: "keeps P (sret x)"
  by (simp add: keeps_def)

lemma keeps_slift [keeps_rules]: "keeps P (slift r)"
  by (simp add: keeps_def)

lemma keeps_if [keeps_rules]: "keeps P m \<Longrightarrow> keeps P n \<Longrightarrow> keeps P (if b then m else n)"
  by simp

lemma keeps_prod [keeps_rules]: "(\<And>x y. keeps P (f x y)) \<Longrightarrow> keeps P (case p of (x, y) \<Rightarrow> f x y)"
  by (cases p) simp

lemma keeps_striple: "striple P m (\<lambda>_. P) (\<lambda>_. P) \<longleftrightarrow> keeps P m"
  by (auto simp: striple_def keeps_def split: prod.splits sum.splits) (metis fst_conv sum.exhaust surj_pair)+

subsection \<open>Lists\<close>

text \<open>\<open>all(left < right for left, right in zip(xs, xs[1:]))\<close>: adjacent elements increase.\<close>

lemma sorted_wrt_adjacent:
  fixes xs :: "'a::linorder list"
  shows "list_all (\<lambda>(a, b). a < b) (zip xs (tl xs)) \<longleftrightarrow> sorted_wrt (<) xs"
proof (induction xs)
  case Nil
  then show ?case by simp
next
  case (Cons x xs)
  then show ?case by (cases xs) (auto dest: less_trans)
qed

lemma sorted_wrt_less_last:
  fixes xs :: "'a::linorder list"
  shows "sorted_wrt (<) xs \<Longrightarrow> x \<in> set xs \<Longrightarrow> x \<le> last xs"
  by (induction xs) (auto split: if_splits dest: less_imp_le order.strict_trans2)

lemma sorted_wrt_less_hd:
  fixes xs :: "'a::linorder list"
  shows "sorted_wrt (<) xs \<Longrightarrow> x \<in> set xs \<Longrightarrow> hd xs \<le> x"
  by (cases xs) (auto dest: less_imp_le)

lemma distinct_filter_length_le:
  "distinct xs \<Longrightarrow> set xs \<subseteq> set ys \<Longrightarrow> length xs \<le> length ys"
  by (metis card_length card_mono distinct_card finite_set le_trans)

end
