(* ===== verification/PyStr.thy ===== *)
theory PyStr
  imports Prelude "HOL-Library.Char_ord" "HOL-Library.List_Lexorder"
begin

text \<open>
  The part of Python's \<open>str\<close> and \<open>int\<close> that the program uses. A Python string is a list of
  characters, each a code point below 256 (Latin-1); the whitespace, line-break and case
  tables below are Python's, restricted to that range.
\<close>

type_synonym pystr = string

named_theorems str_simps "characteristic equations of the string operations"

subsection \<open>Character classes\<close>

definition code :: "char \<Rightarrow> nat" where
  "code c = of_char c"

definition is_space :: "char \<Rightarrow> bool" where
  "is_space c = (let n = code c in
     (9 \<le> n \<and> n \<le> 13) \<or> (28 \<le> n \<and> n \<le> 32) \<or> n = 133 \<or> n = 160)"

definition is_linebreak :: "char \<Rightarrow> bool" where
  "is_linebreak c = (let n = code c in
     (10 \<le> n \<and> n \<le> 13) \<or> (28 \<le> n \<and> n \<le> 30) \<or> n = 133)"

definition is_ascii :: "char \<Rightarrow> bool" where
  "is_ascii c = (code c < 128)"

definition is_dec :: "char \<Rightarrow> bool" where
  "is_dec c = (48 \<le> code c \<and> code c \<le> 57)"

definition is_alnum :: "char \<Rightarrow> bool" where
  "is_alnum c = (let n = code c in
     is_dec c \<or> (65 \<le> n \<and> n \<le> 90) \<or> (97 \<le> n \<and> n \<le> 122))"

definition lower_char :: "char \<Rightarrow> char" where
  "lower_char c = (let n = code c in
     if (65 \<le> n \<and> n \<le> 90) \<or> (192 \<le> n \<and> n \<le> 222 \<and> n \<noteq> 215)
     then char_of (n + 32) else c)"

definition py_lower :: "pystr \<Rightarrow> pystr" where
  "py_lower = map lower_char"

definition all_ascii :: "pystr \<Rightarrow> bool" where
  "all_ascii s = list_all is_ascii s"

text \<open>\<open>s.isascii() and s.isdigit()\<close>: \<open>isdigit\<close> is false on the empty string.\<close>

definition is_ascii_digits :: "pystr \<Rightarrow> bool" where
  "is_ascii_digits s = (s \<noteq> [] \<and> list_all is_dec s)"

subsection \<open>Splitting, joining, stripping\<close>

text \<open>\<open>s.split(c)\<close> for a one-character separator, and \<open>c.join(ws)\<close>.\<close>

fun py_split :: "char \<Rightarrow> pystr \<Rightarrow> pystr list" where
  "py_split c [] = [[]]"
| "py_split c (x # xs) =
     (if x = c then [] # py_split c xs
      else (case py_split c xs of [] \<Rightarrow> [[x]] | w # ws \<Rightarrow> (x # w) # ws))"

fun py_join :: "pystr \<Rightarrow> pystr list \<Rightarrow> pystr" where
  "py_join sep [] = []"
| "py_join sep [w] = w"
| "py_join sep (w # ws) = w @ sep @ py_join sep ws"

definition py_lstrip :: "pystr \<Rightarrow> pystr" where
  "py_lstrip s = dropWhile is_space s"

definition py_strip :: "pystr \<Rightarrow> pystr" where
  "py_strip s = rev (dropWhile is_space (rev (dropWhile is_space s)))"

definition py_rstrip_char :: "char \<Rightarrow> pystr \<Rightarrow> pystr" where
  "py_rstrip_char c s = rev (dropWhile (\<lambda>x. x = c) (rev s))"

text \<open>\<open>s.splitlines()\<close>; the first argument holds the current line, reversed.\<close>

fun splitlines_acc :: "pystr \<Rightarrow> pystr \<Rightarrow> pystr list" where
  "splitlines_acc cur [] = (if cur = [] then [] else [rev cur])"
| "splitlines_acc cur [c] =
     (if is_linebreak c then [rev cur] else [rev (c # cur)])"
| "splitlines_acc cur (c # d # cs) =
     (if is_linebreak c
      then rev cur # (if code c = 13 \<and> code d = 10 then splitlines_acc [] cs
                      else splitlines_acc [] (d # cs))
      else splitlines_acc (c # cur) (d # cs))"

definition py_splitlines :: "pystr \<Rightarrow> pystr list" where
  "py_splitlines s = splitlines_acc [] s"

text \<open>\<open>s.split()\<close>: maximal runs of non-space characters.\<close>

fun words_acc :: "pystr \<Rightarrow> pystr \<Rightarrow> pystr list" where
  "words_acc cur [] = (if cur = [] then [] else [rev cur])"
| "words_acc cur (c # cs) =
     (if is_space c then (if cur = [] then words_acc [] cs else rev cur # words_acc [] cs)
      else words_acc (c # cur) cs)"

definition py_words :: "pystr \<Rightarrow> pystr list" where
  "py_words s = words_acc [] s"

definition starts_with :: "pystr \<Rightarrow> pystr \<Rightarrow> bool" where
  "starts_with p s = (take (length p) s = p)"

definition ends_with :: "pystr \<Rightarrow> pystr \<Rightarrow> bool" where
  "ends_with p s = (length p \<le> length s \<and> drop (length s - length p) s = p)"

text \<open>\<open>s.replace(p, '')\<close> for a non-empty \<open>p\<close>: left to right, without overlap.\<close>

function py_delete :: "pystr \<Rightarrow> pystr \<Rightarrow> pystr" where
  "py_delete p s =
     (if p = [] \<or> s = [] then s
      else if starts_with p s then py_delete p (drop (length p) s)
      else hd s # py_delete p (tl s))"
  by pat_completeness auto
termination
  by (relation "measure (\<lambda>(p, s). length s)") auto

declare py_delete.simps [simp del]

lemma py_split_nonempty [simp]: "py_split c s \<noteq> []"
  by (induction s) (auto split: list.splits)

lemma py_split_no_sep: "c \<notin> set s \<Longrightarrow> py_split c s = [s]"
  by (induction s) auto

lemma py_split_append:
  "c \<notin> set w \<Longrightarrow> py_split c (w @ c # s) = w # py_split c s"
  by (induction w) auto

lemma py_split_join:
  assumes "ws \<noteq> []" and "\<And>w. w \<in> set ws \<Longrightarrow> c \<notin> set w"
  shows "py_split c (py_join [c] ws) = ws"
  using assms
proof (induction "[c]" ws rule: py_join.induct)
  case (3 w v va)
  then show ?case by (simp add: py_split_append)
qed (auto simp: py_split_no_sep)

lemma py_join_split: "py_join [c] (py_split c s) = s"
proof (induction s)
  case (Cons x s)
  then show ?case by (cases "py_split c s") (auto split: list.splits, metis append_Cons append_Nil neq_Nil_conv py_join.simps(2,3) py_split_nonempty)
qed simp

lemma set_py_join:
  "set (py_join sep ws) \<subseteq> \<Union> (set ` set ws) \<union> set sep"
  by (induction sep ws rule: py_join.induct) auto

lemma py_join_nonempty: "2 \<le> length ws \<Longrightarrow> sep \<noteq> [] \<Longrightarrow> py_join sep ws \<noteq> []"
  by (cases "(sep, ws)" rule: py_join.cases) auto

lemma sep_in_py_join: "2 \<le> length ws \<Longrightarrow> set sep \<subseteq> set (py_join sep ws)"
  by (cases "(sep, ws)" rule: py_join.cases) auto

lemma py_split_parts: "w \<in> set (py_split c s) \<Longrightarrow> set w \<subseteq> set s - {c}"
  by (induction s arbitrary: w) (fastforce split: if_splits list.splits)+

text \<open>Lines that were written one by one read back as they are.\<close>

lemma splitlines_line:
  "\<forall>c \<in> set v. \<not> is_linebreak c \<Longrightarrow>
   splitlines_acc cur (v @ CHR 0x0A # rest) = (rev cur @ v) # splitlines_acc [] rest"
proof (induction v arbitrary: cur)
  case Nil
  have "is_linebreak (CHR 0x0A)" "code (CHR 0x0A) = 10" by (simp_all add: is_linebreak_def code_def)
  then show ?case by (cases rest) simp_all
next
  case (Cons c v)
  then show ?case by (cases v) simp_all
qed

lemma splitlines_concat:
  "(\<And>v c. v \<in> set vs \<Longrightarrow> c \<in> set v \<Longrightarrow> \<not> is_linebreak c) \<Longrightarrow>
   py_splitlines (concat (map (\<lambda>v. v @ [CHR 0x0A]) vs)) = vs"
  unfolding py_splitlines_def
proof (induction vs)
  case (Cons v vs)
  then have "\<forall>c \<in> set v. \<not> is_linebreak c" by auto
  moreover have "splitlines_acc [] (concat (map (\<lambda>v. v @ [CHR 0x0A]) vs)) = vs"
    by (rule Cons.IH) (rule Cons.prems, simp_all)
  ultimately show ?case by (simp add: splitlines_line)
qed simp

lemma py_strip_absent: "(\<And>c. c \<in> set s \<Longrightarrow> \<not> is_space c) \<Longrightarrow> py_strip s = s"
proof -
  assume no: "\<And>c. c \<in> set s \<Longrightarrow> \<not> is_space c"
  have id: "dropWhile is_space t = t" if "set t \<subseteq> set s" for t
    using that no by (cases t) auto
  show ?thesis by (simp add: py_strip_def id)
qed

subsection \<open>Numbers as text\<close>

definition digit_val :: "char \<Rightarrow> nat option" where
  "digit_val c = (let n = code c in
     if 48 \<le> n \<and> n \<le> 57 then Some (n - 48)
     else if 97 \<le> n \<and> n \<le> 102 then Some (n - 87)
     else if 65 \<le> n \<and> n \<le> 70 then Some (n - 55)
     else None)"

definition digit_char :: "nat \<Rightarrow> char" where
  "digit_char d = char_of (if d < 10 then 48 + d else 87 + d)"

definition is_hex :: "char \<Rightarrow> bool" where
  "is_hex c = (digit_val c \<noteq> None)"

text \<open>
  \<open>str(n)\<close> and \<open>'%x' % n\<close> for a natural number, and the value of a digit string.
\<close>

fun radix_str :: "nat \<Rightarrow> nat \<Rightarrow> pystr" where
  "radix_str b n =
     (if b < 2 \<or> n < b then [digit_char n] else radix_str b (n div b) @ [digit_char (n mod b)])"

declare radix_str.simps [simp del]

definition radix_val :: "nat \<Rightarrow> pystr \<Rightarrow> nat" where
  "radix_val b s =
     foldl (\<lambda>a c. a * b + (case digit_val c of Some d \<Rightarrow> d | None \<Rightarrow> 0)) 0 s"

abbreviation dec_str :: "nat \<Rightarrow> pystr" where
  "dec_str \<equiv> radix_str 10"

abbreviation hex_str :: "nat \<Rightarrow> pystr" where
  "hex_str \<equiv> radix_str 16"

definition int_str :: "int \<Rightarrow> pystr" where
  "int_str i = (if i < 0 then CHR ''-'' # dec_str (nat (- i)) else dec_str (nat i))"

definition zfill :: "nat \<Rightarrow> pystr \<Rightarrow> pystr" where
  "zfill k s = replicate (k - length s) (CHR ''0'') @ s"

lemma code_inj [simp]: "code c = code d \<longleftrightarrow> c = d"
  by (simp add: code_def)

lemma code_char_of: "n < 256 \<Longrightarrow> code (char_of n) = n"
  by (simp add: code_def of_char_of)

lemma digit_val_digit_char: "d < 16 \<Longrightarrow> digit_val (digit_char d) = Some d"
  by (auto simp: digit_val_def digit_char_def code_char_of Let_def)

lemma is_dec_digit_char: "d < 10 \<Longrightarrow> is_dec (digit_char d)"
  by (simp add: is_dec_def digit_char_def code_char_of)

lemma is_hex_digit_char: "d < 16 \<Longrightarrow> is_hex (digit_char d)"
  by (simp add: is_hex_def digit_val_digit_char)

lemma digit_char_inj: "d < 16 \<Longrightarrow> e < 16 \<Longrightarrow> digit_char d = digit_char e \<longleftrightarrow> d = e"
  by (metis digit_val_digit_char option.inject)

lemma digit_char_zero: "digit_char 0 = CHR ''0''"
proof -
  have "char_of (of_char (CHR ''0'') :: nat) = CHR ''0''"
    by (rule char_of_char)
  then show ?thesis by (simp add: digit_char_def)
qed

lemma radix_val_Nil [simp]: "radix_val b [] = 0"
  by (simp add: radix_val_def)

lemma radix_val_snoc:
  "radix_val b (s @ [c]) =
     radix_val b s * b + (case digit_val c of Some d \<Rightarrow> d | None \<Rightarrow> 0)"
  by (simp add: radix_val_def)

lemma radix_val_append: "radix_val b (s @ t) = radix_val b s * b ^ length t + radix_val b t"
  by (induction t rule: rev_induct)
     (simp_all add: radix_val_snoc algebra_simps flip: append_assoc)

lemma radix_val_radix_str:
  assumes "2 \<le> b" "b \<le> 16"
  shows "radix_val b (radix_str b n) = n"
  using assms
proof (induction b n rule: radix_str.induct)
  case (1 b n)
  show ?case
  proof (cases "n < b")
    case True
    with 1 show ?thesis
      using radix_val_snoc [of b "[]" "digit_char n"]
      by (subst radix_str.simps) (simp add: digit_val_digit_char)
  next
    case False
    have "n mod b < b" using 1 by simp
    then have "n mod b < 16" using 1 by linarith
    then show ?thesis
      using 1 False by (subst radix_str.simps) (simp add: radix_val_snoc digit_val_digit_char)
  qed
qed

lemma radix_str_nonempty [simp]: "radix_str b n \<noteq> []"
  by (subst radix_str.simps) simp

lemma radix_str_digits:
  "2 \<le> b \<Longrightarrow> c \<in> set (radix_str b n) \<Longrightarrow> \<exists>d<b. c = digit_char d"
proof (induction b n rule: radix_str.induct)
  case (1 b n)
  show ?case
  proof (cases "n < b")
    case True
    then show ?thesis using 1 by (auto simp: radix_str.simps [of b n])
  next
    case False
    then have "c \<in> set (radix_str b (n div b)) \<or> c = digit_char (n mod b)"
      using 1 by (auto simp: radix_str.simps [of b n])
    then show ?thesis
      using 1 False by (metis less_le_trans mod_less_divisor not_less zero_less_numeral)
  qed
qed

lemma radix_str_length:
  assumes "2 \<le> b" "n < b ^ Suc k"
  shows "length (radix_str b n) \<le> Suc k"
  using assms
proof (induction k arbitrary: n)
  case 0
  then show ?case by (simp add: radix_str.simps [of b n])
next
  case (Suc k)
  then have "n div b < b ^ Suc k"
    by (metis less_mult_imp_div_less mult.commute power_Suc)
  with Suc show ?case by (subst radix_str.simps) simp
qed

lemma radix_str_leading:
  "2 \<le> b \<Longrightarrow> b \<le> 16 \<Longrightarrow> hd (radix_str b n) = CHR ''0'' \<Longrightarrow> n = 0"
proof (induction b n rule: radix_str.induct)
  case (1 b n)
  show ?case
  proof (cases "n < b")
    case True
    then have "digit_char n = digit_char 0" "n < 16"
      using 1 by (auto simp: radix_str.simps [of b n] digit_char_zero)
    then show ?thesis using digit_char_inj [of n 0] by simp
  next
    case False
    then have "hd (radix_str b (n div b)) = CHR ''0''"
      using 1 by (simp add: radix_str.simps [of b n])
    then have "n div b = 0" using 1 False by simp
    with False show ?thesis using 1 by (simp add: div_eq_0_iff)
  qed
qed

lemma radix_str_inj: "2 \<le> b \<Longrightarrow> b \<le> 16 \<Longrightarrow> radix_str b m = radix_str b n \<longleftrightarrow> m = n"
  by (metis radix_val_radix_str)

lemma dec_str_digits: "is_ascii_digits (dec_str n)"
  using radix_str_digits [of 10 _ n] is_dec_digit_char
  by (auto simp: is_ascii_digits_def list_all_iff)

lemma dec_str_no_char: "\<not> is_dec c \<Longrightarrow> c \<notin> set (dec_str n)"
  using dec_str_digits [of n] by (auto simp: is_ascii_digits_def list_all_iff)

lemma hex_str_hex: "list_all is_hex (hex_str n)"
  using radix_str_digits [of 16 _ n] is_hex_digit_char by (auto simp: list_all_iff)

lemma hex_str_no_char: "\<not> is_hex c \<Longrightarrow> c \<notin> set (hex_str n)"
  using hex_str_hex [of n] by (auto simp: list_all_iff)

lemma radix_val_zeros [simp]: "radix_val b (replicate k (CHR ''0'')) = 0"
proof (induction k)
  case (Suc k)
  have "digit_val (CHR ''0'') = Some 0"
    by (simp add: digit_val_def code_def)
  then show ?case
    using Suc radix_val_snoc [of b "replicate k (CHR ''0'')" "CHR ''0''"]
    by (simp add: replicate_append_same)
qed simp

lemma radix_val_zfill: "radix_val b (zfill k s) = radix_val b s"
  by (simp add: zfill_def radix_val_append)

lemma length_zfill: "length s \<le> k \<Longrightarrow> length (zfill k s) = k"
  by (simp add: zfill_def)

lemma digit_val_le: "digit_val c = Some d \<Longrightarrow> d < 16"
  by (auto simp: digit_val_def Let_def split: if_splits)

lemma radix_val_less16: "radix_val 16 s < 16 ^ length s"
proof (induction s rule: rev_induct)
  case Nil
  then show ?case by simp
next
  case (snoc c s)
  have "(case digit_val c of Some d \<Rightarrow> d | None \<Rightarrow> 0) < 16"
    by (auto dest: digit_val_le split: option.splits)
  with snoc show ?case by (simp add: radix_val_snoc)
qed

text \<open>
  \<open>int(s)\<close> on ASCII digits, with the interpreter's limit of 4300 digits on decimal
  conversions (\<open>sys.get_int_max_str_digits\<close>).
\<close>

definition py_int_digits :: "pystr \<Rightarrow> nat result" where
  "py_int_digits s =
     (if is_ascii_digits s \<and> length s \<le> 4300 then Inr (radix_val 10 s) else Inl ValueError)"

lemma py_int_digits_dec_str:
  "length (dec_str n) \<le> 4300 \<Longrightarrow> py_int_digits (dec_str n) = Inr n"
  by (simp add: py_int_digits_def dec_str_digits radix_val_radix_str)

subsection \<open>Canonical text\<close>

text \<open>
  The contract between text and values on which canonical forms rest: every value the parser
  returns is valid, and a valid value survives printing and parsing.
\<close>

locale text_codec =
  fixes parse :: "pystr \<Rightarrow> 'a result"
    and render :: "'a \<Rightarrow> pystr"
    and valid :: "'a \<Rightarrow> bool"
  assumes parse_valid: "parse s = Inr a \<Longrightarrow> valid a"
    and parse_render: "valid a \<Longrightarrow> parse (render a) = Inr a"
begin

lemma render_inj: "valid a \<Longrightarrow> valid b \<Longrightarrow> render a = render b \<longleftrightarrow> a = b"
  by (metis parse_render sum.inject(2))

lemma parse_render_parse: "parse s = Inr a \<Longrightarrow> parse (render a) = Inr a"
  by (blast intro: parse_valid parse_render)

lemma canonical_unique:
  assumes "parse s = Inr a" "render a = s" "parse t = Inr a" "render a = t"
  shows "s = t"
  using assms by simp

lemma render_canonical: "valid a \<Longrightarrow> parse (render a) = Inr b \<Longrightarrow> render b = render a"
  by (simp add: parse_render)

end

end
