(* ===== verification/Ipaddress.thy ===== *)
theory Ipaddress
  imports PyStr
begin

text \<open>
  Python's \<open>ipaddress\<close> module, as far as the program uses it: \<open>ip_address\<close> and \<open>ip_network\<close>
  on text, the canonical text of an address (\<open>str\<close> and \<open>compressed\<close> agree), the special-use
  predicates, and network and broadcast address. The algorithms are those of CPython 3.11
  (octets without leading zeros, at most one \<open>::\<close>, an IPv4 suffix, the longest run of zero
  hextets compressed). The main facts are that every parsed address is in range and that an
  address survives printing and parsing.
\<close>

unbundle bit_operations_syntax

datatype ip_addr =
    IPv4Address nat
  | IPv6Address nat "pystr option"

fun ip_version :: "ip_addr \<Rightarrow> nat" where
  "ip_version (IPv4Address _) = 4"
| "ip_version (IPv6Address _ _) = 6"

fun ip_int :: "ip_addr \<Rightarrow> nat" where
  "ip_int (IPv4Address n) = n"
| "ip_int (IPv6Address n _) = n"

subsection \<open>Positional notation\<close>

definition horner :: "nat \<Rightarrow> nat \<Rightarrow> nat list \<Rightarrow> nat" where
  "horner b a ds = foldl (\<lambda>a d. a * b + d) a ds"

text \<open>\<open>n.to_bytes(k, 'big')\<close> for base 256.\<close>

fun fixed_digits :: "nat \<Rightarrow> nat \<Rightarrow> nat \<Rightarrow> nat list" where
  "fixed_digits b 0 n = []"
| "fixed_digits b (Suc k) n = fixed_digits b k (n div b) @ [n mod b]"

lemma horner_simps [simp]:
  "horner b a [] = a" "horner b a (d # ds) = horner b (a * b + d) ds"
  by (simp_all add: horner_def)

lemma horner_append: "horner b a (ds @ es) = horner b (horner b a ds) es"
  by (simp add: horner_def)

lemma horner_zeros: "horner b a (replicate k 0) = a * b ^ k"
  by (induction k arbitrary: a) (simp_all add: mult.assoc)

lemma horner_fixed_digits: "horner b 0 (fixed_digits b k n) = n mod b ^ k"
proof (induction k arbitrary: n)
  case 0
  then show ?case by simp
next
  case (Suc k)
  then show ?case
    by (simp add: horner_append mod_mult2_eq mult.commute)
qed

lemma length_fixed_digits [simp]: "length (fixed_digits b k n) = k"
  by (induction k arbitrary: n) auto

lemma fixed_digits_nonempty: "0 < k \<Longrightarrow> fixed_digits b k n \<noteq> []"
  by (cases k) auto

lemma fixed_digits_less: "0 < b \<Longrightarrow> d \<in> set (fixed_digits b k n) \<Longrightarrow> d < b"
  by (induction k arbitrary: n) auto

lemma horner_less:
  assumes "\<And>d. d \<in> set ds \<Longrightarrow> d < b"
  shows "horner b a ds < (a + 1) * b ^ length ds"
  using assms
proof (induction ds arbitrary: a)
  case Nil
  then show ?case by simp
next
  case (Cons d ds)
  have "a * b + d + 1 \<le> (a + 1) * b" using Cons.prems [of d] by simp
  then have "(a * b + d + 1) * b ^ length ds \<le> (a + 1) * b * b ^ length ds"
    by (rule mult_le_mono1)
  moreover have "horner b (a * b + d) ds < (a * b + d + 1) * b ^ length ds"
    using Cons by simp
  ultimately show ?case by (simp add: algebra_simps)
qed

subsection \<open>IPv4 text\<close>

definition parse_octet :: "pystr \<Rightarrow> nat result" where
  "parse_octet s =
     (if \<not> is_ascii_digits s then Inl ValueError
      else if 3 < length s then Inl ValueError
      else if s \<noteq> ''0'' \<and> hd s = CHR ''0'' then Inl ValueError
      else if 255 < radix_val 10 s then Inl ValueError
      else Inr (radix_val 10 s))"

definition v4_int_from_string :: "pystr \<Rightarrow> nat result" where
  "v4_int_from_string s =
     (let octets = py_split (CHR ''.'') s in
      if s = [] \<or> length octets \<noteq> 4 then Inl ValueError
      else rbind (rmap parse_octet octets) (\<lambda>ds. Inr (horner 256 0 ds)))"

definition ipv4_address :: "pystr \<Rightarrow> ip_addr result" where
  "ipv4_address s =
     (if CHR ''/'' \<in> set s then Inl ValueError
      else rbind (v4_int_from_string s) (\<lambda>n. Inr (IPv4Address n)))"

definition v4_string :: "nat \<Rightarrow> pystr" where
  "v4_string n = py_join ''.'' (map dec_str (fixed_digits 256 4 n))"

subsection \<open>IPv6 text\<close>

definition parse_hextet :: "pystr \<Rightarrow> nat result" where
  "parse_hextet s =
     (if \<not> list_all is_hex s \<or> 4 < length s \<or> s = [] then Inl ValueError
      else Inr (radix_val 16 s))"

text \<open>The hextets before the gap, the number of zero hextets, the hextets after it.\<close>

definition v6_assemble :: "pystr list \<Rightarrow> nat \<Rightarrow> pystr list \<Rightarrow> nat result" where
  "v6_assemble his skipped los =
     rbind (rmap parse_hextet his) (\<lambda>hs.
     rbind (rmap parse_hextet los) (\<lambda>ls.
       Inr (horner 65536 (horner 65536 0 hs * 65536 ^ skipped) ls)))"

definition v6_of_parts :: "pystr list \<Rightarrow> nat result" where
  "v6_of_parts parts =
     (if 9 < length parts then Inl ValueError
      else (case filter (\<lambda>i. parts ! i = []) [1..<length parts - 1] of
        [] \<Rightarrow>
          if length parts \<noteq> 8 \<or> hd parts = [] \<or> last parts = [] then Inl ValueError
          else v6_assemble parts 0 []
      | [k] \<Rightarrow>
          (let hi = (if hd parts = [] then k - 1 else k);
               lo0 = length parts - k - 1;
               lo = (if last parts = [] then lo0 - 1 else lo0) in
           if (hd parts = [] \<and> hi \<noteq> 0) \<or> (last parts = [] \<and> lo \<noteq> 0) \<or> 7 < hi + lo
           then Inl ValueError
           else v6_assemble (take hi parts) (8 - (hi + lo)) (drop (length parts - lo) parts))
      | _ \<Rightarrow> Inl ValueError))"

definition v6_int_from_string :: "pystr \<Rightarrow> nat result" where
  "v6_int_from_string s =
     (let parts = py_split (CHR '':'') s in
      if s = [] \<or> length parts < 3 then Inl ValueError
      else if CHR ''.'' \<in> set (last parts)
      then rbind (v4_int_from_string (last parts)) (\<lambda>n.
             v6_of_parts (butlast parts @ [hex_str (n div 65536 mod 65536), hex_str (n mod 65536)]))
      else v6_of_parts parts)"

text \<open>The scope id: the text after the first percent sign, which must be non-empty.\<close>

definition split_scope_id :: "pystr \<Rightarrow> (pystr \<times> pystr option) result" where
  "split_scope_id s =
     (let addr = takeWhile (\<lambda>c. c \<noteq> CHR ''%'') s in
      if CHR ''%'' \<notin> set s then Inr (s, None)
      else let scope = drop (Suc (length addr)) s in
        if scope = [] \<or> CHR ''%'' \<in> set scope then Inl ValueError else Inr (addr, Some scope))"

definition ipv6_address :: "pystr \<Rightarrow> ip_addr result" where
  "ipv6_address s =
     (if CHR ''/'' \<in> set s then Inl ValueError
      else rbind (split_scope_id s) (\<lambda>(addr, scope).
           rbind (v6_int_from_string addr) (\<lambda>n. Inr (IPv6Address n scope))))"

text \<open>\<open>_compress_hextets\<close>: start and length of the first longest run of zero hextets.\<close>

fun zero_run :: "nat \<Rightarrow> nat \<Rightarrow> nat \<Rightarrow> nat \<Rightarrow> nat \<Rightarrow> pystr list \<Rightarrow> nat \<times> nat" where
  "zero_run i bs bl cs cl [] = (bs, bl)"
| "zero_run i bs bl cs cl (h # hs) =
     (if h = ''0''
      then (let cs' = (if cl = 0 then i else cs) in
            if bl < Suc cl then zero_run (Suc i) cs' (Suc cl) cs' (Suc cl) hs
            else zero_run (Suc i) bs bl cs' (Suc cl) hs)
      else zero_run (Suc i) bs bl cs 0 hs)"

definition compress_hextets :: "pystr list \<Rightarrow> pystr list" where
  "compress_hextets hs =
     (let (s, l) = zero_run 0 0 0 0 0 hs in
      if 1 < l
      then (let hs1 = (if s + l = length hs then hs @ [[]] else hs);
                hs2 = take s hs1 @ [[]] @ drop (s + l) hs1 in
            if s = 0 then [] # hs2 else hs2)
      else hs)"

fun chunks :: "nat \<Rightarrow> nat \<Rightarrow> 'a list \<Rightarrow> 'a list list" where
  "chunks 0 w xs = []"
| "chunks (Suc k) w xs = take w xs # chunks k w (drop w xs)"

definition v6_hextets :: "nat \<Rightarrow> nat list" where
  "v6_hextets n = map (radix_val 16) (chunks 8 4 (zfill 32 (hex_str n)))"

definition v6_string :: "nat \<Rightarrow> pystr" where
  "v6_string n = py_join '':'' (compress_hextets (map hex_str (v6_hextets n)))"

subsection \<open>Addresses\<close>

definition ip_address :: "pystr \<Rightarrow> ip_addr result" where
  "ip_address s =
     (case ipv4_address s of Inr a \<Rightarrow> Inr a
      | Inl _ \<Rightarrow> (case ipv6_address s of Inr a \<Rightarrow> Inr a | Inl _ \<Rightarrow> Inl ValueError))"

fun compressed :: "ip_addr \<Rightarrow> pystr" where
  "compressed (IPv4Address n) = v4_string n"
| "compressed (IPv6Address n scope) =
     v6_string n @ (case scope of None \<Rightarrow> [] | Some s \<Rightarrow> if s = [] then [] else CHR ''%'' # s)"

fun is_unspecified :: "ip_addr \<Rightarrow> bool" where
  "is_unspecified (IPv4Address n) = (n = 0)"
| "is_unspecified (IPv6Address n _) = (n = 0)"

fun is_multicast :: "ip_addr \<Rightarrow> bool" where
  "is_multicast (IPv4Address n) = (n div 2 ^ 28 = 14)"
| "is_multicast (IPv6Address n _) = (n div 2 ^ 120 = 255)"

fun is_loopback :: "ip_addr \<Rightarrow> bool" where
  "is_loopback (IPv4Address n) = (n div 2 ^ 24 = 127)"
| "is_loopback (IPv6Address n _) = (n = 1)"

fun is_link_local :: "ip_addr \<Rightarrow> bool" where
  "is_link_local (IPv4Address n) = (n div 2 ^ 16 = 43518)"
| "is_link_local (IPv6Address n _) = (n div 2 ^ 118 = 1018)"

fun is_ipv4_mapped :: "ip_addr \<Rightarrow> bool" where
  "is_ipv4_mapped (IPv4Address n) = False"
| "is_ipv4_mapped (IPv6Address n _) = (n div 2 ^ 32 = 65535)"

text \<open>The disjunction with which the receiver, the helper and the sender refuse an address.\<close>

definition is_protected :: "ip_addr \<Rightarrow> bool" where
  "is_protected a =
     (is_unspecified a \<or> is_multicast a \<or> is_loopback a \<or> is_link_local a \<or> is_ipv4_mapped a)"

fun scope_ok :: "pystr option \<Rightarrow> bool" where
  "scope_ok None = True"
| "scope_ok (Some s) = (s \<noteq> [] \<and> CHR ''%'' \<notin> set s \<and> CHR ''/'' \<notin> set s)"

fun valid_addr :: "ip_addr \<Rightarrow> bool" where
  "valid_addr (IPv4Address n) = (n < 2 ^ 32)"
| "valid_addr (IPv6Address n scope) = (n < 2 ^ 128 \<and> scope_ok scope)"

subsection \<open>Round trip of IPv4 text\<close>

lemma dot_not_dec: "\<not> is_dec (CHR ''.'')" "\<not> is_dec (CHR '':'')" "\<not> is_dec (CHR ''/'')" "\<not> is_dec (CHR ''%'')"
  by (simp_all add: is_dec_def code_def)

lemma sep_not_hex: "\<not> is_hex (CHR ''.'')" "\<not> is_hex (CHR '':'')" "\<not> is_hex (CHR ''/'')" "\<not> is_hex (CHR ''%'')"
  by (simp_all add: is_hex_def digit_val_def code_def)

lemma parse_octet_dec_str:
  assumes "d < 256"
  shows "parse_octet (dec_str d) = Inr d"
proof -
  have "length (dec_str d) \<le> Suc 2"
    using assms by (intro radix_str_length) simp_all
  moreover have "dec_str d = ''0'' \<or> hd (dec_str d) \<noteq> CHR ''0''"
    using radix_str_leading [of 10 d] by (auto simp: radix_str.simps [of 10 0] digit_char_zero)
  ultimately show ?thesis
    using assms by (simp add: parse_octet_def dec_str_digits radix_val_radix_str)
qed

lemma v4_string_split:
  "py_split (CHR ''.'') (v4_string n) = map dec_str (fixed_digits 256 4 n)"
  unfolding v4_string_def
  by (rule py_split_join) (auto simp: dec_str_no_char dot_not_dec fixed_digits_nonempty)

lemma set_v4_string: "set (v4_string n) \<subseteq> {c. is_dec c} \<union> {CHR ''.''}"
proof -
  have "set (dec_str d) \<subseteq> {c. is_dec c}" for d
    using dec_str_digits [of d] by (auto simp: is_ascii_digits_def list_all_iff)
  then show ?thesis
    using set_py_join [of "''.''" "map dec_str (fixed_digits 256 4 n)"]
    by (fastforce simp: v4_string_def)
qed

lemma v4_string_no_char: "\<not> is_dec c \<Longrightarrow> c \<noteq> CHR ''.'' \<Longrightarrow> c \<notin> set (v4_string n)"
  using set_v4_string [of n] by auto

lemma v4_string_nonempty [simp]: "v4_string n \<noteq> []"
proof -
  have "length (py_split (CHR ''.'') (v4_string n)) = 4" by (simp add: v4_string_split)
  then show ?thesis by (cases "v4_string n") simp_all
qed

lemma v4_int_from_string_v4_string:
  assumes "n < 2 ^ 32"
  shows "v4_int_from_string (v4_string n) = Inr n"
proof -
  let ?ds = "fixed_digits 256 4 n"
  have "rmap parse_octet (map dec_str ?ds) = Inr ?ds"
    using fixed_digits_less [of 256 _ 4 n]
    by (auto simp: rmap_eq_Inr list_all2_map1 list.rel_refl_strong parse_octet_dec_str
             intro!: list.rel_refl_strong)
  moreover have "horner 256 0 ?ds = n"
    using assms by (simp add: horner_fixed_digits)
  ultimately show ?thesis
    by (simp add: v4_int_from_string_def v4_string_split)
qed

lemma v4_int_from_string_bound: "v4_int_from_string s = Inr n \<Longrightarrow> n < 2 ^ 32"
proof -
  assume "v4_int_from_string s = Inr n"
  then obtain ds where ds: "rmap parse_octet (py_split (CHR ''.'') s) = Inr ds"
      "length (py_split (CHR ''.'') s) = 4" "n = horner 256 0 ds"
    by (auto simp: v4_int_from_string_def Let_def result_simps split: if_splits)
  have "d < 256" if "d \<in> set ds" for d
    using rmap_set [OF ds(1) that] by (auto simp: parse_octet_def split: if_splits)
  then have "horner 256 0 ds < (0 + 1) * 256 ^ length ds"
    by (rule horner_less)
  then show "n < 2 ^ 32" using ds rmap_length [OF ds(1)] by simp
qed

lemma v4_int_from_string_chars:
  "v4_int_from_string s = Inr n \<Longrightarrow> c \<in> set s \<Longrightarrow> is_dec c \<or> c = CHR ''.''"
proof -
  assume h: "v4_int_from_string s = Inr n" "c \<in> set s"
  then obtain ds where ds: "rmap parse_octet (py_split (CHR ''.'') s) = Inr ds"
    by (auto simp: v4_int_from_string_def Let_def result_simps split: if_splits)
  have digits: "list_all is_dec w" if "w \<in> set (py_split (CHR ''.'') s)" for w
  proof -
    from ds that obtain d where "parse_octet w = Inr d"
      by (auto simp: rmap_eq_Inr list_all2_conv_all_nth in_set_conv_nth)
    then show ?thesis by (auto simp: parse_octet_def is_ascii_digits_def split: if_splits)
  qed
  have "c = CHR ''.'' \<or> (\<exists>w\<in>set (py_split (CHR ''.'') s). c \<in> set w)"
    using h(2) by (induction s) (auto split: list.splits)
  with digits show ?thesis by (auto simp: list_all_iff)
qed

subsection \<open>Round trip of IPv6 text\<close>

lemma zero_run_inv:
  assumes "zero_run (length pre) bs bl cs cl rest = (s, l)"
    and "bs + bl \<le> length pre" and "\<And>j. bs \<le> j \<Longrightarrow> j < bs + bl \<Longrightarrow> pre ! j = ''0''"
    and "0 < cl \<Longrightarrow> cs + cl = length pre"
    and "\<And>j. cl > 0 \<Longrightarrow> cs \<le> j \<Longrightarrow> j < cs + cl \<Longrightarrow> pre ! j = ''0''"
  shows "s + l \<le> length (pre @ rest) \<and> (\<forall>j. s \<le> j \<longrightarrow> j < s + l \<longrightarrow> (pre @ rest) ! j = ''0'')"
  using assms
proof (induction rest arbitrary: pre bs bl cs cl)
  case Nil
  then show ?case by auto
next
  case (Cons h hs)
  let ?pre = "pre @ [h]"
  have eq: "pre @ h # hs = ?pre @ hs" by simp
  have len: "Suc (length pre) = length ?pre" by simp
  show ?case
  proof (cases "h = ''0''")
    case False
    then have "zero_run (length ?pre) bs bl cs 0 hs = (s, l)" using Cons.prems(1) by simp
    then show ?thesis unfolding eq
      by (rule Cons.IH) (use Cons.prems in \<open>auto simp: nth_append\<close>)
  next
    case True
    let ?cs = "if cl = 0 then length pre else cs"
    have cs: "?cs + Suc cl = length ?pre"
      using Cons.prems(4) by auto
    have z: "?pre ! j = ''0''" if "?cs \<le> j" "j < ?cs + Suc cl" for j
      using that cs True Cons.prems(5) [of j] by (auto simp: nth_append split: if_splits)
    show ?thesis
    proof (cases "bl < Suc cl")
      case b: True
      then have "zero_run (length ?pre) ?cs (Suc cl) ?cs (Suc cl) hs = (s, l)"
        using Cons.prems(1) True by (simp add: Let_def split: if_splits)
      then show ?thesis unfolding eq
        by (rule Cons.IH) (use cs z in auto)
    next
      case b: False
      then have "zero_run (length ?pre) bs bl ?cs (Suc cl) hs = (s, l)"
        using Cons.prems(1) True by (simp add: Let_def split: if_splits)
      then show ?thesis unfolding eq
        by (rule Cons.IH) (use cs z Cons.prems(2,3) in \<open>auto simp: nth_append\<close>)
    qed
  qed
qed

lemma zero_run_zeros:
  assumes "zero_run 0 0 0 0 0 hs = (s, l)"
  shows "s + l \<le> length hs" and "\<And>j. s \<le> j \<Longrightarrow> j < s + l \<Longrightarrow> hs ! j = ''0''"
  using zero_run_inv [of "[]" 0 0 0 0 hs s l] assms by auto

text \<open>A part list with one gap: the parser finds the gap where the printer put it.\<close>

lemma gap_index:
  assumes "A \<noteq> []" "B \<noteq> []"
    and "\<And>i. 0 < i \<Longrightarrow> i < length A \<Longrightarrow> A ! i \<noteq> []"
    and "\<And>i. Suc i < length B \<Longrightarrow> B ! i \<noteq> []"
  shows "filter (\<lambda>i. (A @ [] # B) ! i = []) [1..<length (A @ [] # B) - 1] = [length A]"
proof -
  let ?a = "length A" and ?P = "\<lambda>i. (A @ [] # B) ! i = []"
  have split: "[1..<length (A @ [] # B) - 1] = [1..<?a] @ ?a # [Suc ?a..<?a + length B]"
  proof -
    have "[1..<?a + length B] = [1..<?a] @ [?a..<?a + length B]"
      using assms(1) by (metis One_nat_def Suc_leI length_greater_0_conv upt_add_eq_append)
    moreover have "[?a..<?a + length B] = ?a # [Suc ?a..<?a + length B]"
      using assms(2) by (simp add: upt_conv_Cons)
    ultimately show ?thesis by simp
  qed
  have "filter ?P [1..<?a] = []"
    using assms(3) by (auto simp: filter_empty_conv nth_append)
  moreover have "filter ?P [Suc ?a..<?a + length B] = []"
  proof -
    have "\<not> ?P i" if "Suc ?a \<le> i" "i < ?a + length B" for i
    proof -
      have "(A @ [] # B) ! i = B ! (i - Suc ?a)"
        using that by (simp add: nth_append nth_Cons' )
      with assms(4) [of "i - Suc ?a"] that show ?thesis by auto
    qed
    then show ?thesis by (auto simp: filter_empty_conv)
  qed
  moreover have "?P ?a" by (simp add: nth_append)
  ultimately show ?thesis unfolding split by simp
qed

lemma rmap_hextets:
  "(\<And>v. v \<in> set vs \<Longrightarrow> v < 65536) \<Longrightarrow> rmap parse_hextet (map hex_str vs) = Inr vs"
proof -
  assume vs: "\<And>v. v \<in> set vs \<Longrightarrow> v < 65536"
  have "parse_hextet (hex_str v) = Inr v" if "v < 65536" for v
  proof -
    have "length (hex_str v) \<le> Suc 3"
      using that by (intro radix_str_length) simp_all
    then show ?thesis
      by (simp add: parse_hextet_def hex_str_hex radix_val_radix_str)
  qed
  with vs show ?thesis by (induction vs) auto
qed

lemma compress_hextets_gap:
  assumes "zero_run 0 0 0 0 0 hs = (s, l)" "1 < l"
  shows "compress_hextets hs =
    (if s = 0 then [[]] else take s hs) @ [] #
    (if s + l = length hs then [[]] else drop (s + l) hs)"
proof -
  have "s + l \<le> length hs" using zero_run_zeros(1) [OF assms(1)] .
  then show ?thesis using assms by (simp add: compress_hextets_def)
qed

lemma v6_of_parts_eval:
  assumes "filter (\<lambda>i. parts ! i = []) [1..<length parts - 1] = [k]"
    and "length parts \<le> 9" and "(hd parts = []) = p" and "(last parts = []) = q"
    and "hi = (if p then k - 1 else k)"
    and "lo = (if q then length parts - k - 2 else length parts - k - 1)"
    and "p \<longrightarrow> hi = 0" and "q \<longrightarrow> lo = 0" and "hi + lo \<le> 7"
  shows "v6_of_parts parts =
    v6_assemble (take hi parts) (8 - (hi + lo)) (drop (length parts - lo) parts)"
  using assms by (auto simp: v6_of_parts_def Let_def)

lemma v6_of_parts_gap:
  assumes "length hs = 8" "s + l \<le> 8" "1 < l" and ne: "\<And>h. h \<in> set hs \<Longrightarrow> h \<noteq> []"
  shows "v6_of_parts ((if s = 0 then [[]] else take s hs) @ [] #
            (if s + l = 8 then [[]] else drop (s + l) hs)) =
         v6_assemble (take s hs) l (drop (s + l) hs)"
proof -
  let ?A = "if s = 0 then [[]] else take s hs"
  let ?B = "if s + l = 8 then [[]] else drop (s + l) hs"
  let ?parts = "?A @ [] # ?B"
  have ABne: "?A \<noteq> []" "?B \<noteq> []" using assms(1-3) by auto
  have Alen: "length ?A = (if s = 0 then 1 else s)" using assms by simp
  have Blen: "length ?B = (if s + l = 8 then 1 else 8 - (s + l))" using assms by simp
  have skip: "filter (\<lambda>i. ?parts ! i = []) [1..<length ?parts - 1] = [length ?A]"
  proof (rule gap_index [OF ABne])
    show "?A ! i \<noteq> []" if "0 < i" "i < length ?A" for i
      using that ne [of "hs ! i"] assms(1) by (auto split: if_splits)
    show "?B ! i \<noteq> []" if "Suc i < length ?B" for i
      using that ne [of "hs ! (s + l + i)"] assms(1) by (auto split: if_splits)
  qed
  have hdp: "hd ?parts = [] \<longleftrightarrow> s = 0"
    using ne [of "hd hs"] assms(1) by (cases hs) (auto simp: hd_append hd_take)
  have "last ?parts = last ?B" using ABne by simp
  moreover have "last (drop (s + l) hs) \<noteq> []" if "s + l \<noteq> 8"
  proof -
    have "drop (s + l) hs \<noteq> []" using that assms by simp
    then show ?thesis using ne last_in_set set_drop_subset by (metis in_mono)
  qed
  ultimately have lastp: "last ?parts = [] \<longleftrightarrow> s + l = 8" by simp
  have eval: "v6_of_parts ?parts =
      v6_assemble (take s ?parts) (8 - (s + (8 - (s + l)))) (drop (length ?parts - (8 - (s + l))) ?parts)"
  proof (rule v6_of_parts_eval [OF skip _ hdp lastp])
    show "length ?parts \<le> 9" using Alen Blen assms by (auto split: if_splits)
    show "s = (if s = 0 then length ?A - 1 else length ?A)"
      using Alen assms by simp
    show "8 - (s + l) =
        (if s + l = 8 then length ?parts - length ?A - 2 else length ?parts - length ?A - 1)"
      using Blen assms by simp
  qed (use assms in auto)
  have "take s ?parts = take s hs" using assms by auto
  moreover have "drop (length ?parts - (8 - (s + l))) ?parts = drop (s + l) hs"
    using assms Alen by (cases "s + l = 8") auto
  moreover have "8 - (s + (8 - (s + l))) = l" using assms by auto
  ultimately show ?thesis unfolding eval by (simp only:)
qed

lemma horner_gap:
  assumes "length vs = 8" "s + l \<le> 8" and "\<And>j. s \<le> j \<Longrightarrow> j < s + l \<Longrightarrow> vs ! j = 0"
  shows "horner b (horner b 0 (take s vs) * b ^ l) (drop (s + l) vs) = horner b 0 vs"
proof -
  have "take l (drop s vs) = replicate l 0"
    using assms by (intro nth_equalityI) auto
  then have "vs = take s vs @ replicate l 0 @ drop (s + l) vs"
    by (metis append_take_drop_id drop_drop add.commute)
  then have "horner b 0 vs = horner b 0 (take s vs @ replicate l 0 @ drop (s + l) vs)" by simp
  then show ?thesis by (simp only: horner_append horner_zeros)
qed

lemma hex_str_zero_iff: "hex_str v = ''0'' \<longleftrightarrow> v = 0"
  using radix_str_inj [of 16 v 0] by (simp add: radix_str.simps [of 16 0] digit_char_zero)

lemma v6_of_compressed:
  assumes len: "length vs = 8" and less: "\<And>v. v \<in> set vs \<Longrightarrow> v < 65536"
  shows "v6_of_parts (compress_hextets (map hex_str vs)) = Inr (horner 65536 0 vs)"
proof -
  let ?hs = "map hex_str vs"
  obtain s l where run: "zero_run 0 0 0 0 0 ?hs = (s, l)" by fastforce
  note z = zero_run_zeros [OF run]
  show ?thesis
  proof (cases "1 < l")
    case True
    have zeros: "vs ! j = 0" if "s \<le> j" "j < s + l" for j
      using z(2) [OF that] that z(1) by (simp add: hex_str_zero_iff)
    have len8: "length ?hs = 8" and sl: "s + l \<le> 8" using z(1) len by simp_all
    have ne: "\<And>h. h \<in> set ?hs \<Longrightarrow> h \<noteq> []" by auto
    have r: "rmap parse_hextet (map hex_str (take s vs)) = Inr (take s vs)"
      "rmap parse_hextet (map hex_str (drop (s + l) vs)) = Inr (drop (s + l) vs)"
      using less by (auto intro!: rmap_hextets dest: in_set_takeD in_set_dropD)
    have "v6_of_parts (compress_hextets ?hs) = v6_assemble (take s ?hs) l (drop (s + l) ?hs)"
      unfolding compress_hextets_gap [OF run True] len8
      by (rule v6_of_parts_gap [OF len8 sl True ne])
    also have "\<dots> = Inr (horner 65536 (horner 65536 0 (take s vs) * 65536 ^ l) (drop (s + l) vs))"
      by (simp add: v6_assemble_def take_map drop_map r)
    also have "\<dots> = Inr (horner 65536 0 vs)"
      using horner_gap [of vs s l 65536] zeros len z(1) by simp
    finally show ?thesis .
  next
    case False
    then have "compress_hextets ?hs = ?hs" by (simp add: compress_hextets_def run)
    moreover have "filter (\<lambda>i. ?hs ! i = []) [1..<length ?hs - 1] = []"
      using len by (auto simp: filter_empty_conv)
    moreover have "hd ?hs \<noteq> []" "last ?hs \<noteq> []" using len
      by (cases vs; simp add: last_map hd_map)+
    ultimately show ?thesis
      using len less by (simp add: v6_of_parts_def v6_assemble_def rmap_hextets)
  qed
qed

lemma length_chunks [simp]: "length (chunks k w xs) = k"
  by (induction k arbitrary: xs) auto

lemma chunks_length: "x \<in> set (chunks k w xs) \<Longrightarrow> length x \<le> w"
  by (induction k arbitrary: xs) auto

lemma horner_chunks:
  assumes "length xs = k * w"
  shows "horner (b ^ w) a (map (radix_val b) (chunks k w xs)) = a * b ^ length xs + radix_val b xs"
  using assms
proof (induction k arbitrary: xs a)
  case 0
  then show ?case by simp
next
  case (Suc k)
  have "radix_val b xs = radix_val b (take w xs) * b ^ (k * w) + radix_val b (drop w xs)"
    using radix_val_append [of b "take w xs" "drop w xs"] Suc.prems by simp
  then show ?case
    using Suc by (simp add: algebra_simps power_add)
qed

lemma v6_hextets:
  assumes "n < 2 ^ 128"
  shows "length (v6_hextets n) = 8" "v \<in> set (v6_hextets n) \<Longrightarrow> v < 65536"
    "horner 65536 0 (v6_hextets n) = n"
proof -
  have "length (hex_str n) \<le> Suc 31"
    using assms by (intro radix_str_length) simp_all
  then have len: "length (zfill 32 (hex_str n)) = 8 * 4" by (simp add: length_zfill)
  show "length (v6_hextets n) = 8" by (simp add: v6_hextets_def)
  show "v < 65536" if "v \<in> set (v6_hextets n)"
  proof -
    from that obtain x where "x \<in> set (chunks 8 4 (zfill 32 (hex_str n)))" "v = radix_val 16 x"
      by (auto simp: v6_hextets_def)
    then have "v < 16 ^ length x" "length x \<le> 4"
      by (auto simp: radix_val_less16 dest: chunks_length)
    then have "v < 16 ^ 4" using power_increasing [of "length x" 4 "16::nat"] by linarith
    then show ?thesis by simp
  qed
  show "horner 65536 0 (v6_hextets n) = n"
    using horner_chunks [OF len, of 16 0]
    by (simp add: v6_hextets_def radix_val_zfill radix_val_radix_str)
qed

lemma compress_hextets_parts:
  assumes "length hs = 8"
  shows "3 \<le> length (compress_hextets hs)" "set (compress_hextets hs) \<subseteq> insert [] (set hs)"
proof -
  obtain s l where run: "zero_run 0 0 0 0 0 hs = (s, l)" by fastforce
  note z = zero_run_zeros(1) [OF run]
  show "3 \<le> length (compress_hextets hs)"
  proof (cases "1 < l")
    case True
    show ?thesis unfolding compress_hextets_gap [OF run True] using z assms True by auto
  qed (simp add: compress_hextets_def run assms)
  show "set (compress_hextets hs) \<subseteq> insert [] (set hs)"
  proof (cases "1 < l")
    case True
    show ?thesis unfolding compress_hextets_gap [OF run True]
      by (auto dest: in_set_takeD in_set_dropD)
  qed (auto simp: compress_hextets_def run)
qed

lemma v6_string_split:
  assumes "n < 2 ^ 128"
  shows "py_split (CHR '':'') (v6_string n) = compress_hextets (map hex_str (v6_hextets n))"
proof -
  let ?hs = "map hex_str (v6_hextets n)"
  have len: "length ?hs = 8" using v6_hextets(1) [OF assms] by simp
  note c = compress_hextets_parts [OF len]
  show ?thesis
    unfolding v6_string_def
  proof (rule py_split_join)
    show "compress_hextets ?hs \<noteq> []" using c(1) by auto
    show "CHR '':'' \<notin> set w" if "w \<in> set (compress_hextets ?hs)" for w
      using c(2) that hex_str_no_char [OF sep_not_hex(2)] by auto
  qed
qed

lemma set_v6_string: "set (v6_string n) \<subseteq> {c. is_hex c} \<union> {CHR '':''}"
proof -
  have hex: "set (hex_str d) \<subseteq> {c. is_hex c}" for d
    using hex_str_hex [of d] by (auto simp: list_all_iff)
  have "length (map hex_str (v6_hextets n)) = 8" by (simp add: v6_hextets_def)
  note c = compress_hextets_parts(2) [OF this]
  have "set w \<subseteq> {c. is_hex c}" if "w \<in> set (compress_hextets (map hex_str (v6_hextets n)))" for w
  proof -
    have "w = [] \<or> (\<exists>d. w = hex_str d)" using c that by auto
    with hex show ?thesis by auto
  qed
  then show ?thesis
    using set_py_join [of "'':''" "compress_hextets (map hex_str (v6_hextets n))"]
    by (fastforce simp: v6_string_def)
qed

lemma v6_string_no_char: "\<not> is_hex c \<Longrightarrow> c \<noteq> CHR '':'' \<Longrightarrow> c \<notin> set (v6_string n)"
  using set_v6_string [of n] by auto

lemma colon_in_v6_string: "CHR '':'' \<in> set (v6_string n)"
proof -
  have "length (map hex_str (v6_hextets n)) = 8" by (simp add: v6_hextets_def)
  from compress_hextets_parts(1) [OF this] show ?thesis
    using sep_in_py_join [of "compress_hextets (map hex_str (v6_hextets n))" "'':''"]
    by (simp add: v6_string_def)
qed

lemma v6_int_from_string_v6_string:
  assumes "n < 2 ^ 128"
  shows "v6_int_from_string (v6_string n) = Inr n"
proof -
  let ?parts = "compress_hextets (map hex_str (v6_hextets n))"
  note h = v6_hextets [OF assms]
  have len: "length (map hex_str (v6_hextets n)) = 8" using h(1) by simp
  note c = compress_hextets_parts [OF len]
  have "last ?parts \<in> set ?parts" using c(1) by (intro last_in_set) auto
  then have "CHR ''.'' \<notin> set (last ?parts)"
    using c(2) hex_str_no_char [OF sep_not_hex(1)] by auto
  moreover have "v6_string n \<noteq> []" using colon_in_v6_string [of n] by auto
  ultimately show ?thesis
    using c(1) v6_of_compressed [OF h(1,2)] h(3)
    by (simp add: v6_int_from_string_def v6_string_split [OF assms])
qed

subsection \<open>Bounds of parsed IPv6 addresses\<close>

lemma v6_assemble_bound:
  assumes "v6_assemble his skipped los = Inr n" and "length his + skipped + length los = 8"
  shows "n < 2 ^ 128"
proof -
  obtain hs ls where h: "rmap parse_hextet his = Inr hs" and l: "rmap parse_hextet los = Inr ls"
    and n: "n = horner 65536 (horner 65536 0 hs * 65536 ^ skipped) ls"
    using assms(1) by (auto simp: v6_assemble_def result_simps)
  have small: "d < 65536" if "parse_hextet w = Inr d" for w d
  proof -
    have "d < 16 ^ length w" "length w \<le> 4"
      using that radix_val_less16 [of w] by (auto simp: parse_hextet_def split: if_splits)
    then have "d < 16 ^ 4" using power_increasing [of "length w" 4 "16::nat"] by linarith
    then show ?thesis by simp
  qed
  have hs: "d < 65536" if "d \<in> set hs" for d using rmap_set [OF h that] small by auto
  have ls: "d < 65536" if "d \<in> set ls" for d using rmap_set [OF l that] small by auto
  let ?vs = "hs @ replicate skipped 0 @ ls"
  have "n = horner 65536 0 ?vs" using n by (simp add: horner_append horner_zeros)
  moreover have "horner 65536 0 ?vs < (0 + 1) * 65536 ^ length ?vs"
    by (rule horner_less) (use hs ls in auto)
  moreover have "length ?vs = 8" using assms(2) rmap_length [OF h] rmap_length [OF l] by simp
  ultimately show ?thesis by simp
qed

lemma v6_of_parts_bound:
  assumes "v6_of_parts parts = Inr n"
  shows "n < 2 ^ 128"
proof -
  let ?skips = "filter (\<lambda>i. parts ! i = []) [1..<length parts - 1]"
  consider "?skips = []" | k where "?skips = [k]" | k m ks where "?skips = k # m # ks"
    by (cases ?skips rule: list.exhaust; metis list.exhaust)
  then show ?thesis
  proof cases
    case 1
    with assms have "v6_assemble parts 0 [] = Inr n" "length parts = 8"
      by (auto simp: v6_of_parts_def split: if_splits)
    then show ?thesis by (intro v6_assemble_bound) auto
  next
    case (2 k)
    then have "k \<in> set ?skips" by simp
    then have k: "1 \<le> k" "k < length parts - 1" by auto
    let ?hi = "if hd parts = [] then k - 1 else k"
    let ?lo = "if last parts = [] then length parts - k - 1 - 1 else length parts - k - 1"
    from assms 2 have a: "v6_assemble (take ?hi parts) (8 - (?hi + ?lo))
        (drop (length parts - ?lo) parts) = Inr n" and "?hi + ?lo \<le> 7"
      by (auto simp: v6_of_parts_def Let_def split: if_splits)
    moreover have "?hi \<le> length parts" "?lo \<le> length parts" using k by auto
    ultimately show ?thesis by (intro v6_assemble_bound [OF a]) simp
  next
    case 3
    with assms show ?thesis by (auto simp: v6_of_parts_def split: if_splits)
  qed
qed

lemma v6_int_from_string_bound: "v6_int_from_string s = Inr n \<Longrightarrow> n < 2 ^ 128"
  by (auto simp: v6_int_from_string_def Let_def result_simps split: if_splits
           dest: v6_of_parts_bound)

subsection \<open>Addresses survive printing and parsing\<close>

lemma split_scope_id_ok: "split_scope_id s = Inr (t, scope) \<Longrightarrow> CHR ''/'' \<notin> set s \<Longrightarrow> scope_ok scope"
  by (auto simp: split_scope_id_def Let_def split: if_splits dest: in_set_dropD)

lemma ipv4_address_valid: "ipv4_address s = Inr a \<Longrightarrow> valid_addr a"
  using v4_int_from_string_bound [of s]
  by (auto simp: ipv4_address_def result_simps split: if_splits)

lemma ipv6_address_valid: "ipv6_address s = Inr a \<Longrightarrow> valid_addr a"
  using v6_int_from_string_bound split_scope_id_ok [of s]
  by (fastforce simp: ipv6_address_def result_simps split: if_splits)

lemma ip_address_valid: "ip_address s = Inr a \<Longrightarrow> valid_addr a"
  by (auto simp: ip_address_def split: sum.splits intro: ipv4_address_valid ipv6_address_valid)

lemma ip_address_raises: "ip_address s = Inl e \<Longrightarrow> e = ValueError"
  by (auto simp: ip_address_def split: sum.splits)

lemma ipv4_address_v4_string: "n < 2 ^ 32 \<Longrightarrow> ipv4_address (v4_string n) = Inr (IPv4Address n)"
  using v4_string_no_char [of "CHR ''/''" n] dot_not_dec
  by (simp add: ipv4_address_def v4_int_from_string_v4_string)

lemma ipv4_address_colon: "CHR '':'' \<in> set s \<Longrightarrow> \<exists>e. ipv4_address s = Inl e"
  using v4_int_from_string_chars [of s _ "CHR '':''"] dot_not_dec(2)
  by (cases "v4_int_from_string s") (auto simp: ipv4_address_def)

lemma split_scope_id_none: "CHR ''%'' \<notin> set s \<Longrightarrow> split_scope_id s = Inr (s, None)"
  by (simp add: split_scope_id_def)

lemma split_scope_id_some:
  assumes "CHR ''%'' \<notin> set t" "scope_ok (Some sc)"
  shows "split_scope_id (t @ CHR ''%'' # sc) = Inr (t, Some sc)"
proof -
  have "takeWhile (\<lambda>c. c \<noteq> CHR ''%'') (t @ CHR ''%'' # sc) = t"
    using assms(1) by (induction t) auto
  then show ?thesis using assms by (simp add: split_scope_id_def)
qed

lemma ip_address_compressed:
  assumes "valid_addr a"
  shows "ip_address (compressed a) = Inr a"
proof (cases a)
  case (IPv4Address n)
  with assms show ?thesis by (simp add: ip_address_def ipv4_address_v4_string)
next
  case (IPv6Address n scope)
  with assms have n: "n < 2 ^ 128" and sc: "scope_ok scope" by simp_all
  have "CHR '':'' \<in> set (compressed a)" using colon_in_v6_string IPv6Address by simp
  from ipv4_address_colon [OF this] obtain e where v4: "ipv4_address (compressed a) = Inl e" ..
  have noslash: "CHR ''/'' \<notin> set (v6_string n)" and nopct: "CHR ''%'' \<notin> set (v6_string n)"
    using v6_string_no_char [OF sep_not_hex(3)] v6_string_no_char [OF sep_not_hex(4)] by simp_all
  have "split_scope_id (compressed a) = Inr (v6_string n, scope)"
    using IPv6Address sc nopct split_scope_id_some [of "v6_string n"]
    by (cases scope) (simp_all add: split_scope_id_none)
  moreover have "CHR ''/'' \<notin> set (compressed a)"
    using IPv6Address sc noslash by (cases scope) auto
  ultimately have "ipv6_address (compressed a) = Inr a"
    using IPv6Address by (simp add: ipv6_address_def v6_int_from_string_v6_string [OF n])
  with v4 show ?thesis by (simp add: ip_address_def)
qed

interpretation ip_codec: text_codec ip_address compressed valid_addr
  by unfold_locales (rule ip_address_valid, assumption, rule ip_address_compressed)

text \<open>The text of an address that is its own canonical form.\<close>

definition canonical_ip_text :: "pystr \<Rightarrow> bool" where
  "canonical_ip_text s = (case ip_address s of Inl _ \<Rightarrow> False | Inr a \<Rightarrow> compressed a = s)"

lemma canonical_ip_text_iff:
  "canonical_ip_text s \<longleftrightarrow> (\<exists>a. valid_addr a \<and> s = compressed a)"
  by (auto simp: canonical_ip_text_def ip_codec.parse_render dest: ip_codec.parse_valid
           split: sum.splits)

lemma compressed_chars:
  assumes "c \<in> set (compressed a)" "\<not> is_hex c" "c \<noteq> CHR ''.''" "c \<noteq> CHR '':''"
  shows "\<exists>n sc. a = IPv6Address n (Some sc)"
proof (cases a)
  case (IPv4Address n)
  have "\<not> is_dec c" using assms(2) by (auto simp: is_hex_def is_dec_def digit_val_def Let_def)
  with IPv4Address assms show ?thesis using v4_string_no_char [of c n] by simp
next
  case (IPv6Address n scope)
  with assms show ?thesis using v6_string_no_char [of c n] by (cases scope) auto
qed

text \<open>A text without a percent sign parses to an address without a scope.\<close>

lemma ip_address_no_scope:
  "ip_address s = Inr a \<Longrightarrow> CHR ''%'' \<notin> set s \<Longrightarrow> (\<exists>n. a = IPv4Address n \<or> a = IPv6Address n None)"
  by (auto simp: ip_address_def ipv4_address_def ipv6_address_def result_simps split_scope_id_none
           split: sum.splits if_splits)

lemma compressed_no_percent:
  "a = IPv4Address n \<or> a = IPv6Address n None \<Longrightarrow> CHR ''%'' \<notin> set (compressed a)"
  using compressed_chars [of "CHR ''%''" a] sep_not_hex(4) by auto

subsection \<open>Claimable addresses\<close>

text \<open>An address as the store keeps it and the helper accepts it: canonical text of an unprotected, unscoped address.\<close>

definition claimable_ip :: "pystr \<Rightarrow> bool" where
  "claimable_ip s =
     (CHR ''%'' \<notin> set s \<and>
      (case ip_address s of Inl _ \<Rightarrow> False | Inr a \<Rightarrow> compressed a = s \<and> \<not> is_protected a))"

lemma claimable_ip_iff:
  "claimable_ip s \<longleftrightarrow>
     CHR ''%'' \<notin> set s \<and> (\<exists>a. ip_address s = Inr a \<and> compressed a = s \<and> \<not> is_protected a)"
  by (auto simp: claimable_ip_def split: sum.splits)

lemma claimable_ip_canonical: "claimable_ip s \<Longrightarrow> canonical_ip_text s"
  by (auto simp: claimable_ip_def canonical_ip_text_def split: sum.splits)

lemma claimable_ip_compressed:
  assumes "ip_address s = Inr a" "CHR ''%'' \<notin> set s" "\<not> is_protected a"
  shows "claimable_ip (compressed a)"
proof -
  obtain n where "a = IPv4Address n \<or> a = IPv6Address n None"
    using ip_address_no_scope [OF assms(1,2)] by blast
  then have "CHR ''%'' \<notin> set (compressed a)" by (rule compressed_no_percent)
  with assms show ?thesis by (simp add: claimable_ip_def ip_codec.parse_render_parse [OF assms(1)])
qed

definition addr_version :: "pystr \<Rightarrow> nat" where
  "addr_version s = (case ip_address s of Inl _ \<Rightarrow> 0 | Inr a \<Rightarrow> ip_version a)"

definition addr_of :: "pystr \<Rightarrow> ip_addr" where
  "addr_of s = (case ip_address s of Inl _ \<Rightarrow> IPv4Address 0 | Inr a \<Rightarrow> a)"

lemma claimable_addr: "claimable_ip s \<Longrightarrow> ip_address s = Inr (addr_of s) \<and> compressed (addr_of s) = s"
  by (auto simp: claimable_ip_iff addr_of_def)

lemma addr_version_of: "claimable_ip s \<Longrightarrow> ip_version (addr_of s) = addr_version s"
  using claimable_addr [of s] by (simp add: addr_version_def)

lemma ip_version_46: "ip_version a = 4 \<or> ip_version a = 6"
  by (cases a) simp_all

lemma addr_version_46: "claimable_ip s \<Longrightarrow> addr_version s = 4 \<or> addr_version s = 6"
  using ip_version_46 addr_version_of by metis

end
