(* ===== verification/Ipnetwork.thy ===== *)
theory Ipnetwork
  imports Ipaddress
begin

text \<open>
  Networks of Python's \<open>ipaddress\<close> module: \<open>ip_network(text, strict)\<close> with a prefix length,
  an IPv4 netmask or an IPv4 hostmask, the network and broadcast address, and the text of a
  network. The set of addresses a network covers is characterised by the shared prefix.
\<close>

record ip_network =
  network_address :: ip_addr
  prefixlen :: nat

definition max_prefixlen :: "ip_addr \<Rightarrow> nat" where
  "max_prefixlen a = (if ip_version a = 4 then 32 else 128)"

definition net_version :: "ip_network \<Rightarrow> nat" where
  "net_version n = ip_version (network_address n)"

definition netmask_int :: "nat \<Rightarrow> nat \<Rightarrow> nat" where
  "netmask_int w p = (mask w XOR drop_bit p (mask w))"

definition broadcast_int :: "ip_network \<Rightarrow> nat" where
  "broadcast_int n =
     (let w = max_prefixlen (network_address n) in
      ip_int (network_address n) OR (netmask_int w (prefixlen n) XOR mask w))"

fun count_righthand_zero_bits :: "nat \<Rightarrow> nat \<Rightarrow> nat" where
  "count_righthand_zero_bits n 0 = 0"
| "count_righthand_zero_bits n (Suc k) =
     (if even n then Suc (count_righthand_zero_bits (n div 2) k) else 0)"

definition prefix_from_ip_int :: "nat \<Rightarrow> nat result" where
  "prefix_from_ip_int n =
     (let z = count_righthand_zero_bits n 32 in
      if n div 2 ^ z \<noteq> 2 ^ (32 - z) - 1 then Inl ValueError else Inr (32 - z))"

definition prefix_from_ip_string :: "pystr \<Rightarrow> nat result" where
  "prefix_from_ip_string s =
     rbind (v4_int_from_string s) (\<lambda>n.
       case prefix_from_ip_int n of Inr p \<Rightarrow> Inr p
       | Inl _ \<Rightarrow> prefix_from_ip_int (n XOR mask 32))"

definition prefix_from_prefix_string :: "nat \<Rightarrow> pystr \<Rightarrow> nat result" where
  "prefix_from_prefix_string w s =
     rbind (py_int_digits s) (\<lambda>p. if p \<le> w then Inr p else Inl ValueError)"

definition make_netmask :: "nat \<Rightarrow> pystr option \<Rightarrow> nat result" where
  "make_netmask w m =
     (case m of None \<Rightarrow> Inr w
      | Some s \<Rightarrow>
         (case prefix_from_prefix_string w s of Inr p \<Rightarrow> Inr p
          | Inl e \<Rightarrow> if w = 32 then prefix_from_ip_string s else Inl e))"

text \<open>\<open>_split_optional_netmask\<close> and \<open>_split_addr_prefix\<close>.\<close>

definition split_addr_prefix :: "pystr \<Rightarrow> (pystr \<times> pystr option) result" where
  "split_addr_prefix s =
     (case py_split (CHR ''/'') s of
        [a] \<Rightarrow> Inr (a, None)
      | [a, m] \<Rightarrow> Inr (a, Some m)
      | _ \<Rightarrow> Inl ValueError)"

fun with_int :: "ip_addr \<Rightarrow> nat \<Rightarrow> ip_addr" where
  "with_int (IPv4Address _) n = IPv4Address n"
| "with_int (IPv6Address _ _) n = IPv6Address n None"

definition network_of :: "bool \<Rightarrow> ip_addr \<Rightarrow> nat \<Rightarrow> ip_network result" where
  "network_of strict a p =
     (let packed = ip_int a; m = netmask_int (max_prefixlen a) p in
      if packed AND m \<noteq> packed
      then if strict then Inl ValueError
           else Inr \<lparr>network_address = with_int a (packed AND m), prefixlen = p\<rparr>
      else Inr \<lparr>network_address = a, prefixlen = p\<rparr>)"

definition ipv4_network :: "bool \<Rightarrow> pystr \<Rightarrow> ip_network result" where
  "ipv4_network strict s =
     rbind (split_addr_prefix s) (\<lambda>(addr, m).
     rbind (ipv4_address addr) (\<lambda>a.
     rbind (make_netmask 32 m) (\<lambda>p. network_of strict a p)))"

definition ipv6_network :: "bool \<Rightarrow> pystr \<Rightarrow> ip_network result" where
  "ipv6_network strict s =
     rbind (split_addr_prefix s) (\<lambda>(addr, m).
     rbind (ipv6_address addr) (\<lambda>a.
     rbind (make_netmask 128 m) (\<lambda>p. network_of strict a p)))"

definition ip_network_of_text :: "bool \<Rightarrow> pystr \<Rightarrow> ip_network result" where
  "ip_network_of_text strict s =
     (case ipv4_network strict s of Inr n \<Rightarrow> Inr n
      | Inl _ \<Rightarrow> (case ipv6_network strict s of Inr n \<Rightarrow> Inr n | Inl _ \<Rightarrow> Inl ValueError))"

definition network_str :: "ip_network \<Rightarrow> pystr" where
  "network_str n = compressed (network_address n) @ CHR ''/'' # dec_str (prefixlen n)"

subsection \<open>Masks as arithmetic\<close>

lemma and_netmask:
  fixes n :: nat
  assumes "n < 2 ^ w" "p \<le> w"
  shows "n AND netmask_int w p = n div 2 ^ (w - p) * 2 ^ (w - p)"
proof -
  have high: "bit n i \<Longrightarrow> i < w" for i
    using assms(1) by (metis bit_take_bit_iff take_bit_nat_eq_self)
  have "n AND netmask_int w p = push_bit (w - p) (drop_bit (w - p) n)"
    by (rule bit_eqI) (use high assms(2) in \<open>auto simp: netmask_int_def bit_simps\<close>)
  then show ?thesis by (simp add: push_bit_eq_mult drop_bit_eq_div)
qed

lemma hostmask:
  "p \<le> w \<Longrightarrow> netmask_int w p XOR mask w = (mask (w - p) :: nat)"
  by (rule bit_eqI) (auto simp: netmask_int_def bit_simps)

lemma or_hostmask:
  fixes q k :: nat
  shows "q * 2 ^ k OR mask k = q * 2 ^ k + (2 ^ k - 1)"
proof -
  have "q * 2 ^ k + mask k = q * 2 ^ k OR mask k"
    by (rule disjunctive_add_eq_or, rule bit_eqI)
       (auto simp: bit_simps simp flip: push_bit_eq_mult)
  then show ?thesis by (simp add: mask_eq_exp_minus_1)
qed

text \<open>What \<open>ip_network\<close> returns: a valid address without host bits and a prefix in range.\<close>

definition network_ok :: "ip_network \<Rightarrow> bool" where
  "network_ok n =
     (valid_addr (network_address n) \<and>
      prefixlen n \<le> max_prefixlen (network_address n) \<and>
      2 ^ (max_prefixlen (network_address n) - prefixlen n) dvd ip_int (network_address n))"

lemma valid_addr_less: "valid_addr a \<Longrightarrow> ip_int a < 2 ^ max_prefixlen a"
  by (cases a) (auto simp: max_prefixlen_def)

lemma valid_with_int: "n < 2 ^ max_prefixlen a \<Longrightarrow> valid_addr (with_int a n)"
  by (cases a) (auto simp: max_prefixlen_def)

lemma with_int_simps [simp]:
  "ip_int (with_int a n) = n" "ip_version (with_int a n) = ip_version a"
  "max_prefixlen (with_int a n) = max_prefixlen a"
  by (cases a; simp add: max_prefixlen_def)+

lemma count_zero_le: "count_righthand_zero_bits n k \<le> k"
  by (induction k arbitrary: n) auto

lemma prefix_from_ip_int_le: "prefix_from_ip_int n = Inr p \<Longrightarrow> p \<le> 32"
  by (auto simp: prefix_from_ip_int_def Let_def split: if_splits)

lemma prefix_from_ip_string_le: "prefix_from_ip_string s = Inr p \<Longrightarrow> p \<le> 32"
proof -
  assume "prefix_from_ip_string s = Inr p"
  then obtain n where "(case prefix_from_ip_int n of Inr p \<Rightarrow> Inr p
      | Inl _ \<Rightarrow> prefix_from_ip_int (n XOR mask 32)) = Inr p"
    by (auto simp: prefix_from_ip_string_def result_simps)
  then show ?thesis by (cases "prefix_from_ip_int n") (auto dest: prefix_from_ip_int_le)
qed

lemma make_netmask_le: "w = 32 \<or> w = 128 \<Longrightarrow> make_netmask w m = Inr p \<Longrightarrow> p \<le> w"
  by (auto simp: make_netmask_def prefix_from_prefix_string_def
           result_simps split: option.splits sum.splits if_splits dest: prefix_from_ip_string_le)

lemma network_of_ok:
  assumes "network_of strict a p = Inr n" "valid_addr a" "p \<le> max_prefixlen a"
  shows "network_ok n \<and> ip_version (network_address n) = ip_version a"
proof -
  let ?w = "max_prefixlen a"
  have e: "ip_int a AND netmask_int ?w p = ip_int a div 2 ^ (?w - p) * 2 ^ (?w - p)"
    by (rule and_netmask [OF valid_addr_less [OF assms(2)] assms(3)])
  then have le: "ip_int a AND netmask_int ?w p \<le> ip_int a" by simp
  note v = valid_with_int [OF le_less_trans [OF le valid_addr_less [OF assms(2)]]]
  show ?thesis
  proof (cases "ip_int a AND netmask_int ?w p = ip_int a")
    case True
    then have "n = \<lparr>network_address = a, prefixlen = p\<rparr>"
      using assms(1) by (simp add: network_of_def Let_def)
    moreover have "2 ^ (?w - p) dvd ip_int a" using True e by (metis dvd_triv_right)
    ultimately show ?thesis using assms(2,3) by (simp add: network_ok_def)
  next
    case False
    then have "n = \<lparr>network_address = with_int a (ip_int a AND netmask_int ?w p), prefixlen = p\<rparr>"
      using assms(1) by (simp add: network_of_def Let_def split: if_splits)
    moreover have "2 ^ (?w - p) dvd (ip_int a AND netmask_int ?w p)" unfolding e by simp
    ultimately show ?thesis using assms(3) v by (simp add: network_ok_def)
  qed
qed

lemma ipv4_address_version: "ipv4_address s = Inr a \<Longrightarrow> ip_version a = 4"
  by (auto simp: ipv4_address_def result_simps split: if_splits)

lemma ipv6_address_version: "ipv6_address s = Inr a \<Longrightarrow> ip_version a = 6"
  by (auto simp: ipv6_address_def result_simps split: if_splits)

lemma ip_network_of_text_ok: "ip_network_of_text strict s = Inr n \<Longrightarrow> network_ok n"
proof -
  have four: "network_ok n" if "ipv4_network strict s = Inr n"
  proof -
    from that obtain addr m a p where "ipv4_address addr = Inr a" "make_netmask 32 m = Inr p"
        "network_of strict a p = Inr n"
      by (auto simp: ipv4_network_def result_simps)
    then show ?thesis
      using network_of_ok [of strict a p n] ipv4_address_valid ipv4_address_version [of addr a]
        make_netmask_le [of 32 m p] by (auto simp: max_prefixlen_def)
  qed
  have six: "network_ok n" if "ipv6_network strict s = Inr n"
  proof -
    from that obtain addr m a p where "ipv6_address addr = Inr a" "make_netmask 128 m = Inr p"
        "network_of strict a p = Inr n"
      by (auto simp: ipv6_network_def result_simps)
    then show ?thesis
      using network_of_ok [of strict a p n] ipv6_address_valid ipv6_address_version [of addr a]
        make_netmask_le [of 128 m p] by (auto simp: max_prefixlen_def)
  qed
  assume "ip_network_of_text strict s = Inr n"
  with four six show ?thesis by (auto simp: ip_network_of_text_def split: sum.splits)
qed

lemma broadcast_int_eq:
  assumes "network_ok n"
  shows "broadcast_int n =
    ip_int (network_address n) + (2 ^ (max_prefixlen (network_address n) - prefixlen n) - 1)"
proof -
  let ?k = "max_prefixlen (network_address n) - prefixlen n"
  from assms obtain q where q: "ip_int (network_address n) = q * 2 ^ ?k"
    by (auto simp: network_ok_def dvd_def mult.commute)
  show ?thesis
    using assms or_hostmask [of q ?k]
    by (simp add: broadcast_int_def Let_def hostmask network_ok_def q)
qed

lemma network_le_broadcast: "network_ok n \<Longrightarrow> ip_int (network_address n) \<le> broadcast_int n"
  by (simp only: broadcast_int_eq le_add1)

text \<open>An address lies in a network exactly when they share the network's prefix bits.\<close>

definition net_covers :: "ip_network \<Rightarrow> ip_addr \<Rightarrow> bool" where
  "net_covers n a =
     (net_version n = ip_version a \<and>
      ip_int (network_address n) \<le> ip_int a \<and> ip_int a \<le> broadcast_int n)"

lemma net_covers_prefix:
  assumes "network_ok n"
  shows "net_covers n a \<longleftrightarrow> net_version n = ip_version a \<and>
    ip_int a div 2 ^ (max_prefixlen (network_address n) - prefixlen n) =
    ip_int (network_address n) div 2 ^ (max_prefixlen (network_address n) - prefixlen n)"
proof -
  let ?b = "2 ^ (max_prefixlen (network_address n) - prefixlen n) :: nat"
  from assms obtain q where q: "ip_int (network_address n) = ?b * q"
    by (auto simp: network_ok_def dvd_def)
  have b: "0 < ?b" by simp
  have key: "(?b * q \<le> x \<and> x \<le> ?b * q + (?b - 1)) = (x div ?b = q)" for x
  proof
    assume h: "?b * q \<le> x \<and> x \<le> ?b * q + (?b - 1)"
    then have "x < ?b * q + ?b" using b by linarith
    with h show "x div ?b = q" by (intro div_nat_eqI) (auto simp: algebra_simps)
  next
    assume "x div ?b = q"
    moreover have "?b * (x div ?b) \<le> x" by simp
    moreover have "x < ?b * (x div ?b) + ?b"
      using b by (metis add.commute mult_Suc_right dividend_less_times_div)
    ultimately show "?b * q \<le> x \<and> x \<le> ?b * q + (?b - 1)" using b by auto
  qed
  have "(?b * q) div ?b = q" using b by simp
  then show ?thesis
    by (simp only: net_covers_def broadcast_int_eq [OF assms] q key)
qed

text \<open>The host network that the PF tables list: full prefix, so it covers one address.\<close>

lemma host_network_covers:
  assumes "network_ok n" "prefixlen n = max_prefixlen (network_address n)"
  shows "net_covers n a \<longleftrightarrow> net_version n = ip_version a \<and> ip_int a = ip_int (network_address n)"
  using net_covers_prefix [OF assms(1), of a] assms(2) by auto

subsection \<open>Round trip of network text\<close>

text \<open>The network of one host, as PF lists it.\<close>

definition host_net :: "ip_addr \<Rightarrow> ip_network" where
  "host_net a = \<lparr>network_address = a, prefixlen = max_prefixlen a\<rparr>"

lemma network_of_exact:
  assumes "valid_addr a" "p \<le> max_prefixlen a" "2 ^ (max_prefixlen a - p) dvd ip_int a"
  shows "network_of strict a p = Inr \<lparr>network_address = a, prefixlen = p\<rparr>"
proof -
  have "ip_int a AND netmask_int (max_prefixlen a) p = ip_int a"
    using and_netmask [OF valid_addr_less [OF assms(1)] assms(2)] assms(3) by simp
  then show ?thesis by (simp add: network_of_def)
qed

lemma compressed_no_slash: "valid_addr a \<Longrightarrow> CHR ''/'' \<notin> set (compressed a)"
  using compressed_chars [of "CHR ''/''" a] sep_not_hex(3)
  by (cases a) (auto simp: v4_string_no_char v6_string_no_char dot_not_dec(3) sep_not_hex(3) elim: scope_ok.elims)

lemma v6_not_v4_text: "\<exists>e. ipv4_address (compressed (IPv6Address n sc)) = Inl e"
  by (rule ipv4_address_colon) (use colon_in_v6_string [of n] in \<open>cases sc; simp\<close>)

lemma v6_address_compressed: "valid_addr (IPv6Address n sc) \<Longrightarrow>
   ipv6_address (compressed (IPv6Address n sc)) = Inr (IPv6Address n sc)"
  using ip_address_compressed [of "IPv6Address n sc"] v6_not_v4_text [of n sc]
  by (auto simp: ip_address_def split: sum.splits)

lemma network_text_parse:
  assumes "valid_addr a" "p \<le> max_prefixlen a" "2 ^ (max_prefixlen a - p) dvd ip_int a"
    and split: "split_addr_prefix s = Inr (compressed a, m)"
    and mask: "make_netmask (max_prefixlen a) m = Inr p"
  shows "ip_network_of_text strict s = Inr \<lparr>network_address = a, prefixlen = p\<rparr>"
proof (cases a)
  case (IPv4Address n)
  then have "ipv4_network strict s = network_of strict a p"
    using assms by (simp add: ipv4_network_def ipv4_address_v4_string max_prefixlen_def)
  then show ?thesis by (simp add: ip_network_of_text_def network_of_exact [OF assms(1-3)])
next
  case (IPv6Address n sc)
  obtain e where "ipv4_network strict s = Inl e"
    using v6_not_v4_text [of n sc] by (auto simp: ipv4_network_def split IPv6Address)
  moreover have "ipv6_network strict s = network_of strict a p"
    using assms v6_address_compressed [of n sc] IPv6Address by (simp add: ipv6_network_def max_prefixlen_def)
  ultimately show ?thesis by (simp add: ip_network_of_text_def network_of_exact [OF assms(1-3)])
qed

lemma ip_network_of_address:
  assumes "valid_addr a"
  shows "ip_network_of_text strict (compressed a) = Inr (host_net a)"
  unfolding host_net_def
  by (rule network_text_parse [where m = None])
     (use assms compressed_no_slash [OF assms] in
       \<open>simp_all add: split_addr_prefix_def py_split_no_sep make_netmask_def\<close>)

lemma ip_network_of_network_str:
  assumes "network_ok n"
  shows "ip_network_of_text strict (network_str n) = Inr n"
proof -
  let ?a = "network_address n"
  have ok: "valid_addr ?a" "prefixlen n \<le> max_prefixlen ?a"
      "2 ^ (max_prefixlen ?a - prefixlen n) dvd ip_int ?a"
    using assms by (simp_all add: network_ok_def)
  have "CHR ''/'' \<notin> set (dec_str (prefixlen n))" by (rule dec_str_no_char [OF dot_not_dec(3)])
  then have "split_addr_prefix (network_str n) = Inr (compressed ?a, Some (dec_str (prefixlen n)))"
    using compressed_no_slash [OF ok(1)]
    by (simp add: split_addr_prefix_def network_str_def py_split_append py_split_no_sep)
  moreover have "make_netmask (max_prefixlen ?a) (Some (dec_str (prefixlen n))) = Inr (prefixlen n)"
  proof -
    have "max_prefixlen ?a \<le> 128" by (cases ?a) (simp_all add: max_prefixlen_def)
    then have "prefixlen n < 10 ^ Suc 2" using ok(2) by simp
    then have "length (dec_str (prefixlen n)) \<le> Suc 2" by (intro radix_str_length) simp_all
    then show ?thesis
      using ok(2) by (simp add: make_netmask_def prefix_from_prefix_string_def py_int_digits_dec_str)
  qed
  ultimately have "ip_network_of_text strict (network_str n) =
      Inr \<lparr>network_address = ?a, prefixlen = prefixlen n\<rparr>"
    by (rule network_text_parse [OF ok])
  then show ?thesis by simp
qed

interpretation network_codec: text_codec "ip_network_of_text strict" network_str network_ok for strict
  by unfold_locales (rule ip_network_of_text_ok, assumption, rule ip_network_of_network_str)

end
