(* ===== verification/Networks.thy ===== *)
theory Networks
  imports Ipnetwork
begin

text \<open>
  \<^verbatim>\<open>src/f2bguard/networks.py\<close>: the membership index over IPv4 and IPv6 networks. Per family
  the address ranges are sorted and merged into disjoint intervals; membership is one
  bisection. The theory ends with the contract that the enforcer and the PF helper rely on,
  as a locale, and its interpretation on the index.
\<close>

subsection \<open>Bisection\<close>

text \<open>\<open>bisect.bisect_right\<close> of the standard library: the loop over \<open>lo\<close> and \<open>hi\<close>.\<close>

function bisect_loop :: "nat list \<Rightarrow> nat \<Rightarrow> nat \<Rightarrow> nat \<Rightarrow> nat" where
  "bisect_loop a x lo hi =
     (if lo < hi
      then (let mid = (lo + hi) div 2 in
            if x < a ! mid then bisect_loop a x lo mid else bisect_loop a x (Suc mid) hi)
      else lo)"
  by pat_completeness auto
termination
  by (relation "measure (\<lambda>(a, x, lo, hi). hi - lo)") auto

declare bisect_loop.simps [simp del]

definition bisect_right :: "nat list \<Rightarrow> nat \<Rightarrow> nat" where
  "bisect_right a x = bisect_loop a x 0 (length a)"

lemma bisect_loop_correct:
  assumes "sorted a" "lo \<le> hi" "hi \<le> length a"
    and "\<And>i. i < lo \<Longrightarrow> a ! i \<le> x" and "\<And>i. hi \<le> i \<Longrightarrow> i < length a \<Longrightarrow> x < a ! i"
  shows "bisect_loop a x lo hi \<le> length a \<and>
    (\<forall>i < bisect_loop a x lo hi. a ! i \<le> x) \<and>
    (\<forall>i. bisect_loop a x lo hi \<le> i \<longrightarrow> i < length a \<longrightarrow> x < a ! i)"
  using assms
proof (induction a x lo hi rule: bisect_loop.induct)
  case (1 a x lo hi)
  show ?case
  proof (cases "lo < hi")
    case False
    then have "bisect_loop a x lo hi = lo" by (simp add: bisect_loop.simps [of a x lo hi])
    with "1.prems" False show ?thesis by auto
  next
    case True
    define mid where "mid = (lo + hi) div 2"
    have m: "lo \<le> mid" "mid < hi" using True by (auto simp: mid_def)
    show ?thesis
    proof (cases "x < a ! mid")
      case lt: True
      have "x < a ! i" if "mid \<le> i" "i < length a" for i
        using lt sorted_nth_mono [OF "1.prems"(1) that] by simp
      with "1.IH"(1) [OF True mid_def lt] "1.prems" m show ?thesis
        by (simp add: bisect_loop.simps [of a x lo hi] True lt mid_def [symmetric])
    next
      case ge: False
      have "a ! i \<le> x" if "i < Suc mid" for i
        using ge that sorted_nth_mono [OF "1.prems"(1), of i mid] m "1.prems"(3) by simp
      with "1.IH"(2) [OF True mid_def ge] "1.prems" m show ?thesis
        by (simp add: bisect_loop.simps [of a x lo hi] True ge mid_def [symmetric])
    qed
  qed
qed

lemma bisect_right_correct:
  assumes "sorted a"
  shows "bisect_right a x \<le> length a" "i < bisect_right a x \<Longrightarrow> a ! i \<le> x"
    "bisect_right a x \<le> i \<Longrightarrow> i < length a \<Longrightarrow> x < a ! i"
  using bisect_loop_correct [of a 0 "length a" x] assms by (auto simp: bisect_right_def)

subsection \<open>The index\<close>

record intervals =
  starts :: "nat list"
  ends :: "nat list"

definition intervals_contains :: "intervals \<Rightarrow> nat \<Rightarrow> bool" where
  "intervals_contains iv v =
     (let position = int (bisect_right (starts iv) v) - 1 in
      0 \<le> position \<and> v \<le> ends iv ! nat position)"

text \<open>
  \<open>_merge\<close>: one iteration of the loop; the list \<open>merged\<close> is kept reversed, so \<open>merged[-1]\<close>
  is its head.
\<close>

fun merge_step :: "nat \<times> nat \<Rightarrow> (nat \<times> nat) list \<Rightarrow> (nat \<times> nat) list" where
  "merge_step (s, e) [] = [(s, e)]"
| "merge_step (s, e) ((s0, e0) # m) =
     (if e0 + 1 < s then (s, e) # (s0, e0) # m
      else if e0 < e then (s0, e) # m
      else (s0, e0) # m)"

definition merge :: "(nat \<times> nat) list \<Rightarrow> intervals" where
  "merge ranges =
     (if ranges = [] then \<lparr>starts = [], ends = []\<rparr>
      else (let merged = rev (fold merge_step (sort ranges) []) in
            \<lparr>starts = map fst merged, ends = map snd merged\<rparr>))"

record network_index =
  family4 :: intervals
  family6 :: intervals

definition network_range :: "ip_network \<Rightarrow> nat \<times> nat" where
  "network_range n = (ip_int (network_address n), broadcast_int n)"

definition network_index_init :: "ip_network list \<Rightarrow> network_index" where
  "network_index_init networks =
     \<lparr>family4 = merge (map network_range (filter (\<lambda>n. net_version n = 4) networks)),
      family6 = merge (map network_range (filter (\<lambda>n. net_version n = 6) networks))\<rparr>"

definition index_contains :: "network_index \<Rightarrow> ip_addr \<Rightarrow> bool" where
  "index_contains idx a =
     intervals_contains (if ip_version a = 4 then family4 idx else family6 idx) (ip_int a)"

text \<open>\<open>contains\<close> on a literal, \<open>__contains__\<close>, \<open>exclude\<close> and \<open>__len__\<close>.\<close>

definition index_contains_text :: "network_index \<Rightarrow> pystr \<Rightarrow> bool result" where
  "index_contains_text idx s = rbind (ip_address s) (\<lambda>a. Inr (index_contains idx a))"

definition index_mem_text :: "network_index \<Rightarrow> pystr \<Rightarrow> bool" where
  "index_mem_text idx s =
     (case index_contains_text idx s of Inl _ \<Rightarrow> False | Inr b \<Rightarrow> b)"

fun index_exclude :: "network_index \<Rightarrow> pystr list \<Rightarrow> pystr list result" where
  "index_exclude idx [] = Inr []"
| "index_exclude idx (s # ss) =
     rbind (index_contains_text idx s) (\<lambda>b.
     rbind (index_exclude idx ss) (\<lambda>r. Inr (if b then r else s # r)))"

definition index_len :: "network_index \<Rightarrow> nat" where
  "index_len idx = length (starts (family4 idx)) + length (starts (family6 idx))"

subsection \<open>Merging keeps the covered set and yields separated intervals\<close>

definition range_set :: "(nat \<times> nat) list \<Rightarrow> nat set" where
  "range_set rs = (\<Union>r \<in> set rs. {fst r..snd r})"

text \<open>Reversed merged lists: each interval starts beyond the end, plus one, of the next.\<close>

definition separated :: "(nat \<times> nat) list \<Rightarrow> bool" where
  "separated m =
     (sorted_wrt (\<lambda>x y. snd y + 1 < fst x) m \<and> (\<forall>r \<in> set m. fst r \<le> snd r))"

lemma merge_step_range_set:
  assumes "s \<le> e" and "m \<noteq> [] \<Longrightarrow> fst (hd m) \<le> s"
  shows "range_set (merge_step (s, e) m) = {s..e} \<union> range_set m"
proof (cases m)
  case Nil
  then show ?thesis by (simp add: range_set_def)
next
  case (Cons p m')
  obtain s0 e0 where p: "p = (s0, e0)" by fastforce
  with Cons assms have "s0 \<le> s" by simp
  then show ?thesis using assms(1) Cons p by (auto simp: range_set_def)
qed

lemma merge_step_separated:
  assumes "s \<le> e" "separated m" "m \<noteq> [] \<Longrightarrow> fst (hd m) \<le> s"
  shows "separated (merge_step (s, e) m)" "fst (hd (merge_step (s, e) m)) \<le> s"
    "merge_step (s, e) m \<noteq> []"
proof -
  show "separated (merge_step (s, e) m)"
  proof (cases m)
    case (Cons p m')
    then show ?thesis using assms by (cases p) (fastforce simp: separated_def)
  qed (use assms in \<open>simp add: separated_def\<close>)
  show "fst (hd (merge_step (s, e) m)) \<le> s" "merge_step (s, e) m \<noteq> []"
    using assms(3) by (cases "((s, e), m)" rule: merge_step.cases; simp)+
qed

lemma fold_merge_step:
  assumes "sorted rs" "\<And>s e. (s, e) \<in> set rs \<Longrightarrow> s \<le> e" "separated m"
    and "m \<noteq> [] \<Longrightarrow> (\<forall>r \<in> set rs. fst (hd m) \<le> fst r)"
  shows "separated (fold merge_step rs m) \<and>
    range_set (fold merge_step rs m) = range_set rs \<union> range_set m"
  using assms
proof (induction rs arbitrary: m)
  case Nil
  then show ?case by (simp add: range_set_def)
next
  case (Cons r rs)
  obtain s e where r: "r = (s, e)" by fastforce
  have se: "s \<le> e" using Cons.prems(2) r by auto
  have hd: "m \<noteq> [] \<Longrightarrow> fst (hd m) \<le> s" using Cons.prems(4) r by auto
  note st = merge_step_separated [OF se Cons.prems(3) hd]
  have later: "s \<le> fst x" if "x \<in> set rs" for x
    using Cons.prems(1) r that by (cases x) (auto simp: less_eq_prod_def)
  have "separated (fold merge_step rs (merge_step r m)) \<and>
      range_set (fold merge_step rs (merge_step r m)) = range_set rs \<union> range_set (merge_step r m)"
    by (rule Cons.IH) (use Cons.prems st later r in \<open>auto intro: order_trans\<close>)
  then show ?case
    using merge_step_range_set [OF se hd] r by (auto simp: range_set_def)
qed

lemma merge_spec:
  assumes "\<And>s e. (s, e) \<in> set rs \<Longrightarrow> s \<le> e"
  obtains m where "separated m" "range_set m = range_set rs"
    "merge rs = \<lparr>starts = map fst (rev m), ends = map snd (rev m)\<rparr>"
proof -
  let ?m = "fold merge_step (sort rs) []"
  have "separated ?m \<and> range_set ?m = range_set (sort rs) \<union> range_set []"
    by (rule fold_merge_step) (use assms in \<open>auto simp: separated_def\<close>)
  moreover have "merge rs = \<lparr>starts = map fst (rev ?m), ends = map snd (rev ?m)\<rparr>"
    by (simp add: merge_def Let_def)
  ultimately show ?thesis by (intro that [of ?m]) (auto simp: range_set_def)
qed

lemma intervals_contains_separated:
  assumes "separated m"
  shows "intervals_contains \<lparr>starts = map fst (rev m), ends = map snd (rev m)\<rparr> v
    \<longleftrightarrow> v \<in> range_set m"
proof -
  let ?r = "rev m" let ?a = "map fst ?r"
  have ord: "snd (?r ! i) + 1 < fst (?r ! j)" if "i < j" "j < length ?r" for i j
  proof -
    have "sorted_wrt (\<lambda>x y. snd x + 1 < fst y) ?r"
      using assms by (simp add: separated_def sorted_wrt_rev)
    with that show ?thesis by (auto simp: sorted_wrt_iff_nth_less)
  qed
  have le: "fst (?r ! i) \<le> snd (?r ! i)" if "i < length ?r" for i
  proof -
    have "?r ! i \<in> set m" using that nth_mem [of i ?r] by simp
    with assms show ?thesis by (auto simp: separated_def)
  qed
  have "sorted ?a"
  proof (rule sorted_iff_nth_mono_less [THEN iffD2], intro allI impI)
    fix i j assume "i < j" "j < length ?a"
    with ord [of i j] le [of i] show "?a ! i \<le> ?a ! j" by simp
  qed
  note b = bisect_right_correct [OF this]
  let ?k = "bisect_right ?a v"
  have mem: "v \<in> range_set m \<longleftrightarrow> (\<exists>i < length ?r. fst (?r ! i) \<le> v \<and> v \<le> snd (?r ! i))"
  proof -
    have "v \<in> range_set m \<longleftrightarrow> (\<exists>x \<in> set ?r. fst x \<le> v \<and> v \<le> snd x)"
      by (auto simp: range_set_def)
    then show ?thesis by (metis in_set_conv_nth)
  qed
  have contains: "intervals_contains \<lparr>starts = ?a, ends = map snd ?r\<rparr> v \<longleftrightarrow>
      0 < ?k \<and> v \<le> snd (?r ! (?k - 1))"
    using b(1) [of v] by (auto simp: intervals_contains_def Let_def nat_diff_distrib)
  show ?thesis
  proof (cases "?k = 0")
    case True
    have "\<not> (fst (?r ! i) \<le> v)" if "i < length ?r" for i
      using b(3) [of v i] that True by simp
    with True contains mem show ?thesis by auto
  next
    case False
    have k: "?k - 1 < length ?r" using b(1) [of v] False by simp
    have lek: "fst (?r ! (?k - 1)) \<le> v" using b(2) [of "?k - 1" v] False k by simp
    have "v \<le> snd (?r ! (?k - 1))" if "i < length ?r" "fst (?r ! i) \<le> v" "v \<le> snd (?r ! i)" for i
    proof -
      have "i < ?k" using b(3) [of v i] that by (cases "i < ?k") auto
      then have "i = ?k - 1 \<or> i < ?k - 1" by linarith
      then show ?thesis using ord [of i "?k - 1"] k that lek by auto
    qed
    with False contains mem k lek show ?thesis by auto
  qed
qed

lemma intervals_contains_merge:
  assumes "\<And>s e. (s, e) \<in> set rs \<Longrightarrow> s \<le> e"
  shows "intervals_contains (merge rs) v \<longleftrightarrow> (\<exists>(s, e) \<in> set rs. s \<le> v \<and> v \<le> e)"
proof -
  obtain m where "separated m" "range_set m = range_set rs"
      "merge rs = \<lparr>starts = map fst (rev m), ends = map snd (rev m)\<rparr>"
    using merge_spec [OF assms] by blast
  then show ?thesis by (force simp: intervals_contains_separated range_set_def)
qed


lemma index_contains_init:
  assumes "\<And>n. n \<in> set ns \<Longrightarrow> network_ok n"
  shows "index_contains (network_index_init ns) a \<longleftrightarrow> (\<exists>n \<in> set ns. net_covers n a)"
proof -
  have ranges: "s \<le> e" if "(s, e) \<in> set (map network_range (filter P ns))" for s e P
    using that assms network_le_broadcast by (auto simp: network_range_def)
  have "index_contains (network_index_init ns) a \<longleftrightarrow>
      (\<exists>n \<in> set ns. net_version n = ip_version a \<and>
         ip_int (network_address n) \<le> ip_int a \<and> ip_int a \<le> broadcast_int n)"
    using intervals_contains_merge
      [of "map network_range (filter (\<lambda>n. net_version n = ip_version a) ns)" "ip_int a", OF ranges]
    by (cases a) (auto simp: index_contains_def network_index_init_def network_range_def)
  then show ?thesis by (simp add: net_covers_def)
qed

lemma merge_separated_len:
  assumes "\<And>s e. (s, e) \<in> set rs \<Longrightarrow> s \<le> e"
  shows "length (starts (merge rs)) = length (ends (merge rs)) \<and>
    (\<forall>i j. i < j \<longrightarrow> j < length (starts (merge rs)) \<longrightarrow>
       ends (merge rs) ! i + 1 < starts (merge rs) ! j)"
proof -
  obtain m where m: "separated m"
      "merge rs = \<lparr>starts = map fst (rev m), ends = map snd (rev m)\<rparr>"
    using merge_spec [OF assms] by blast
  have "sorted_wrt (\<lambda>x y. snd x + 1 < fst y) (rev m)"
    using m(1) by (simp add: separated_def sorted_wrt_rev)
  then show ?thesis by (auto simp: m(2) sorted_wrt_iff_nth_less)
qed

subsection \<open>The contract of a membership index\<close>

text \<open>
  What the clients of the index rely on: built from networks that satisfy \<open>ok\<close>, it contains
  exactly the addresses that some network covers.
\<close>

locale membership_index =
  fixes build :: "'n list \<Rightarrow> 'i"
    and contains :: "'i \<Rightarrow> 'a \<Rightarrow> bool"
    and covers :: "'n \<Rightarrow> 'a \<Rightarrow> bool"
    and ok :: "'n \<Rightarrow> bool"
  assumes contains_build:
    "list_all ok ns \<Longrightarrow> contains (build ns) a \<longleftrightarrow> (\<exists>n \<in> set ns. covers n a)"
begin

lemma contains_mono:
  "list_all ok ms \<Longrightarrow> set ns \<subseteq> set ms \<Longrightarrow> contains (build ns) a \<Longrightarrow> contains (build ms) a"
  by (auto simp: contains_build list_all_iff subset_iff)

lemma contains_cong:
  "list_all ok ms \<Longrightarrow> set ns = set ms \<Longrightarrow> contains (build ns) a = contains (build ms) a"
  by (auto simp: contains_build list_all_iff)

lemma filter_not_contains:
  "list_all ok ns \<Longrightarrow>
   set (filter (\<lambda>a. \<not> contains (build ns) a) as) = {a \<in> set as. \<forall>n \<in> set ns. \<not> covers n a}"
  by (auto simp: contains_build)

lemma contains_append:
  "list_all ok ns \<Longrightarrow> list_all ok ms \<Longrightarrow>
   contains (build (ns @ ms)) a \<longleftrightarrow> contains (build ns) a \<or> contains (build ms) a"
  by (auto simp: contains_build)

end

interpretation whitelist_index:
  membership_index network_index_init index_contains net_covers network_ok
  by unfold_locales (simp add: index_contains_init list_all_iff)

subsection \<open>Membership of literals\<close>

lemma index_contains_text_eq:
  "ip_address s = Inr a \<Longrightarrow> index_contains_text idx s = Inr (index_contains idx a)"
  by (simp add: index_contains_text_def)

lemma index_exclude_map:
  assumes "list_all valid_addr as"
  shows "index_exclude idx (map compressed as) =
    Inr (map compressed (filter (\<lambda>a. \<not> index_contains idx a) as))"
  using assms by (induction as) (auto simp: index_contains_text_eq ip_codec.parse_render)

lemma index_exclude_set:
  assumes "index_exclude idx ss = Inr rs"
  shows "set rs = {s \<in> set ss. index_contains_text idx s = Inr False}" "length rs \<le> length ss"
  using assms by (induction ss arbitrary: rs) (fastforce simp: result_simps split: if_splits)+

lemma merge_step_length: "length (merge_step r m) \<le> Suc (length m)"
  by (cases r; cases m) auto

lemma fold_merge_step_length: "length (fold merge_step rs m) \<le> length rs + length m"
proof (induction rs arbitrary: m)
  case (Cons r rs)
  from Cons [of "merge_step r m"] merge_step_length [of r m] show ?case by simp
qed simp

lemma merge_length: "length (starts (merge rs)) \<le> length rs"
  using fold_merge_step_length [of "sort rs" "[]"] by (simp add: merge_def Let_def)

lemma index_exclude_filter:
  "index_exclude idx ss = Inr rs \<longleftrightarrow>
     (\<forall>s \<in> set ss. \<exists>a. ip_address s = Inr a) \<and>
     rs = filter (\<lambda>s. index_contains_text idx s = Inr False) ss"
proof (induction ss arbitrary: rs)
  case (Cons s ss)
  show ?case
  proof (cases "ip_address s")
    case (Inl e)
    then show ?thesis by (simp add: index_contains_text_def)
  next
    case (Inr a)
    show ?thesis
    proof (cases "index_exclude idx ss")
      case (Inl e)
      then have "\<not> (\<forall>s \<in> set ss. \<exists>a. ip_address s = Inr a)"
        using Cons [of "filter (\<lambda>s. index_contains_text idx s = Inr False) ss"] by auto
      with Inr Inl show ?thesis by (auto simp: index_contains_text_def)
    next
      case (Inr ts)
      with Cons [of ts] \<open>ip_address s = Inr a\<close> show ?thesis
        by (auto simp: index_contains_text_def)
    qed
  qed
qed auto

subsection \<open>Properties\<close>

text \<open>
  C1. The index answers exactly prefix membership: an address is contained in the index built from
  a list of networks if and only if some network of the same IP version agrees with it on the
  network's prefix bits. Sorting, merging and bisection lose and add nothing.
\<close>

theorem network_index_membership:
  assumes "list_all network_ok ns"
  shows "index_contains (network_index_init ns) a \<longleftrightarrow>
    (\<exists>n \<in> set ns. net_version n = ip_version a \<and>
       ip_int a div 2 ^ (max_prefixlen (network_address n) - prefixlen n) =
       ip_int (network_address n) div 2 ^ (max_prefixlen (network_address n) - prefixlen n))"
  using whitelist_index.contains_build [OF assms, of a] assms
  by (auto simp: list_all_iff net_covers_prefix)

definition sample_net :: ip_network where
  "sample_net = \<lparr>network_address = IPv4Address 3405803776, prefixlen = 24\<rparr>"

lemma sample_net_ok: "network_ok sample_net"
  by (simp add: sample_net_def network_ok_def max_prefixlen_def)

lemma sample_net_covers:
  "net_covers sample_net a \<longleftrightarrow>
     ip_version a = 4 \<and> 3405803776 \<le> ip_int a \<and> ip_int a \<le> 3405804031"
  unfolding net_covers_def broadcast_int_eq [OF sample_net_ok]
  by (auto simp: sample_net_def net_version_def max_prefixlen_def)

lemma network_index_membership_witness:
  "index_contains (network_index_init [sample_net]) (IPv4Address 3405803783) \<and>
   \<not> index_contains (network_index_init [sample_net]) (IPv4Address 3405804032)"
  using network_index_membership [of "[sample_net]"] sample_net_ok
  by (simp add: sample_net_def net_version_def max_prefixlen_def)

text \<open>
  C2. \<open>_merge\<close> yields a canonical form of the covered set: the same values are contained, the
  intervals are ordered with a gap between neighbours, and there are never more of them than ranges.
\<close>

theorem merge_canonical:
  assumes "\<forall>(s, e) \<in> set rs. s \<le> e"
  shows "(intervals_contains (merge rs) v \<longleftrightarrow> (\<exists>(s, e) \<in> set rs. s \<le> v \<and> v \<le> e)) \<and>
    (\<forall>i j. i < j \<longrightarrow> j < length (starts (merge rs)) \<longrightarrow> ends (merge rs) ! i + 1 < starts (merge rs) ! j) \<and>
    length (starts (merge rs)) = length (ends (merge rs)) \<and>
    length (starts (merge rs)) \<le> length rs"
  using intervals_contains_merge [of rs v] merge_separated_len [of rs] merge_length [of rs] assms
  by blast

lemma merge_canonical_witness:
  "intervals_contains (merge [(5, 9), (1, 4), (20, 30)]) 7 \<and>
   length (starts (merge [(5, 9), (1, 4), (20, 30)])) \<le> 3"
  using merge_canonical [of "[(5, 9), (1, 4), (20, 30)]" 7] by simp

lemma index_exclude_iff:
  assumes "list_all network_ok ns"
  shows "index_exclude (network_index_init ns) ss = Inr rs \<longleftrightarrow>
    (\<forall>s \<in> set ss. \<exists>a. ip_address s = Inr a) \<and>
    rs = filter (\<lambda>s. \<forall>a n. ip_address s = Inr a \<longrightarrow> n \<in> set ns \<longrightarrow> \<not> net_covers n a) ss"
proof -
  have "filter (\<lambda>s. index_contains_text (network_index_init ns) s = Inr False) ss =
      filter (\<lambda>s. \<forall>a n. ip_address s = Inr a \<longrightarrow> n \<in> set ns \<longrightarrow> \<not> net_covers n a) ss"
    if "\<forall>s \<in> set ss. \<exists>a. ip_address s = Inr a"
    using that whitelist_index.contains_build [OF assms]
    by (intro filter_cong refl) (auto simp: index_contains_text_def)
  then show ?thesis by (auto simp: index_exclude_filter)
qed

text \<open>
  \<open>exclude\<close> keeps, in order, exactly the literals that no indexed network covers, and it
  returns exactly when every literal parses.
\<close>

theorem exclude_exact:
  assumes "list_all network_ok ns"
  shows "index_exclude (network_index_init ns) ss = Inr rs \<longleftrightarrow>
    (\<forall>s \<in> set ss. \<exists>a. ip_address s = Inr a) \<and>
    rs = filter (\<lambda>s. \<forall>a n. ip_address s = Inr a \<longrightarrow> n \<in> set ns \<longrightarrow> \<not> net_covers n a) ss"
  by (rule index_exclude_iff [OF assms])

lemma exclude_exact_witness:
  "index_exclude (network_index_init [sample_net]) [''203.0.113.7'', ''198.51.100.2''] =
     Inr [''198.51.100.2'']"
proof -
  have ip: "ip_address ''203.0.113.7'' = Inr (IPv4Address 3405803783)"
      "ip_address ''198.51.100.2'' = Inr (IPv4Address 3325256706)"
    by code_simp+
  have "list_all network_ok [sample_net]" using sample_net_ok by simp
  from exclude_exact [OF this, of "[''203.0.113.7'', ''198.51.100.2'']" "[''198.51.100.2'']"] ip
  show ?thesis
    by (simp add: sample_net_covers del: index_exclude.simps)
qed

end
