(* ===== verification/PyFloat.thy ===== *)
theory PyFloat
  imports PyStr
begin

text \<open>
  Python floats where the program meets them: JSON numbers with a fraction, \<open>float(i)\<close> of an
  integer, and \<open>repr\<close> inside \<open>json.dumps\<close>. A finite double is kept as the rational number it
  denotes; rounding is to 53 significant bits, ties to even, with the exponent range of IEEE
  double precision. NaN arises only in the PF helper, whose JSON reader accepts
  the constant.
\<close>

datatype pyfloat = Fin rat | PosInf | NegInf | NaN

fun bit_len :: "nat \<Rightarrow> nat" where
  "bit_len n = (if n = 0 then 0 else Suc (bit_len (n div 2)))"

declare bit_len.simps [simp del]

definition pow2 :: "int \<Rightarrow> rat" where
  "pow2 e = (if 0 \<le> e then 2 ^ nat e else 1 / 2 ^ nat (- e))"

definition round_half_even :: "rat \<Rightarrow> int" where
  "round_half_even x =
     (let f = \<lfloor>x\<rfloor>; d = x - of_int f in
      if d < 1 / 2 then f else if 1 / 2 < d then f + 1 else if even f then f else f + 1)"

definition round_pos :: "rat \<Rightarrow> pyfloat" where
  "round_pos x =
     (let (a, b) = quotient_of x;
          e0 = int (bit_len (nat a)) - int (bit_len (nat b));
          e = (if x < pow2 e0 then e0 - 1 else e0);
          u = max (e - 52) (- 1074);
          y = of_int (round_half_even (x / pow2 u)) * pow2 u in
      if pow2 1024 \<le> y then PosInf else Fin y)"

definition round_double :: "rat \<Rightarrow> pyfloat" where
  "round_double x =
     (if x = 0 then Fin 0
      else if 0 < x then round_pos x
      else (case round_pos (- x) of Fin y \<Rightarrow> Fin (- y) | PosInf \<Rightarrow> NegInf | NegInf \<Rightarrow> PosInf
           | NaN \<Rightarrow> NaN))"

text \<open>\<open>float(i)\<close> raises \<open>OverflowError\<close> where the rounded value leaves the finite range.\<close>

definition float_of_int :: "int \<Rightarrow> rat result" where
  "float_of_int i =
     (case round_double (of_int i) of Fin y \<Rightarrow> Inr y | _ \<Rightarrow> Inl OverflowError)"

text \<open>
  \<open>repr(x)\<close>: the fewest decimal digits that read back as the same double; positional notation
  where the decimal point lies within sixteen digits, scientific notation otherwise.
\<close>

definition dec_exponent :: "rat \<Rightarrow> int" where
  "dec_exponent x =
     (let (a, b) = quotient_of x;
          d0 = int (length (dec_str (nat a))) - int (length (dec_str (nat b))) in
      if x < (if 0 \<le> d0 then 10 ^ nat d0 else 1 / 10 ^ nat (- d0)) then d0 else d0 + 1)"

definition pow10 :: "int \<Rightarrow> rat" where
  "pow10 e = (if 0 \<le> e then 10 ^ nat e else 1 / 10 ^ nat (- e))"

fun shortest_digits :: "nat \<Rightarrow> nat \<Rightarrow> rat \<Rightarrow> int \<Rightarrow> int \<times> int" where
  "shortest_digits 0 n x e = (round_half_even (x / pow10 (e - int n)), e - int n)"
| "shortest_digits (Suc k) n x e =
     (let m = round_half_even (x / pow10 (e - int n)) in
      if round_double (of_int m * pow10 (e - int n)) = Fin x then (m, e - int n)
      else shortest_digits k (Suc n) x e)"

definition strip_zeros :: "pystr \<Rightarrow> pystr" where
  "strip_zeros s = (let t = py_rstrip_char (CHR ''0'') s in if t = [] then ''0'' else t)"

definition repr_pos :: "rat \<Rightarrow> pystr" where
  "repr_pos x =
     (let (m, s) = shortest_digits 16 1 x (dec_exponent x);
          ds0 = dec_str (nat m);
          pt = int (length ds0) + s;
          ds = strip_zeros ds0 in
      if - 4 < pt \<and> pt \<le> 16
      then (if pt \<le> 0 then ''0.'' @ replicate (nat (- pt)) (CHR ''0'') @ ds
            else if int (length ds) \<le> pt
            then ds @ replicate (nat pt - length ds) (CHR ''0'') @ ''.0''
            else take (nat pt) ds @ ''.'' @ drop (nat pt) ds)
      else (let frac = tl ds; ex = pt - 1 in
            hd ds # (if frac = [] then [] else ''.'' @ frac) @ ''e'' @
            (if ex < 0 then ''-'' else ''+'') @ zfill 2 (dec_str (nat \<bar>ex\<bar>))))"

definition float_repr :: "rat \<Rightarrow> pystr" where
  "float_repr x =
     (if x = 0 then ''0.0'' else if 0 < x then repr_pos x else ''-'' @ repr_pos (- x))"

subsection \<open>The overflow of \<open>float\<close>\<close>

lemma bit_len_pow2: "bit_len (2 ^ k) = Suc k"
proof (induction k)
  case (Suc k)
  have "bit_len (2 ^ Suc k) = Suc (bit_len (2 ^ Suc k div 2))"
    by (subst bit_len.simps) simp
  with Suc show ?case by simp
qed (simp add: bit_len.simps)

lemma round_half_even_int: "round_half_even (of_int i) = i"
  by (simp add: round_half_even_def)

lemma pow2_of_nat: "pow2 (int k) = 2 ^ k"
  by (simp add: pow2_def)

lemma round_pos_pow2:
  assumes "52 \<le> k"
  shows "round_pos (2 ^ k) = (if 1024 \<le> k then PosInf else Fin (2 ^ k))"
proof -
  have q: "quotient_of (2 ^ k :: rat) = (2 ^ k, 1)"
    using quotient_of_int [of "2 ^ k"] by (simp add: Rat.of_int_def)
  have n: "nat (2 ^ k) = 2 ^ k" by (simp add: nat_power_eq)
  have b1: "bit_len (nat 1) = 1" using bit_len_pow2 [of 0] by simp
  have e: "int (Suc k) - int 1 = int k" by simp
  have u: "max (int k - 52) (- 1074) = int (k - 52)" using assms by (simp add: of_nat_diff)
  have d: "(2 ^ k :: rat) / pow2 (int (k - 52)) = of_int (2 ^ 52)"
    unfolding pow2_of_nat using assms by (simp add: power_diff)
  have p: "of_int (2 ^ 52) * pow2 (int (k - 52)) = (2 ^ k :: rat)"
    unfolding pow2_of_nat using assms by (simp add: power_diff)
  have c: "pow2 1024 \<le> (2 ^ k :: rat) \<longleftrightarrow> 1024 \<le> k"
    using power_increasing_iff [of "2::rat" 1024 k] pow2_of_nat [of 1024] by simp
  show ?thesis
    by (simp only: round_pos_def q Let_def prod.case n bit_len_pow2 b1 e pow2_of_nat [of k] less_irrefl
          if_False u d round_half_even_int p c)
qed

lemma float_of_int_pow2: "52 \<le> k \<Longrightarrow> 1024 \<le> k \<Longrightarrow> float_of_int (2 ^ k) = Inl OverflowError"
  by (simp add: float_of_int_def round_double_def round_pos_pow2)

end
