(* ===== verification/Json.thy ===== *)
theory Json
  imports PyFloat
begin

text \<open>
  JSON values as Python's \<open>json\<close> module builds them, the object hook that refuses duplicate
  keys, and \<open>json.dumps\<close> with compact separators and sorted keys. A decoded object is an
  association list in insertion order.

  The decoder's input is the syntax tree of the text: \<open>jraw\<close> keeps every member of an object,
  duplicates included, and the non-finite constants, which the strict reader refuses.
\<close>

datatype json =
    JNull
  | JBool bool
  | JInt int
  | JFloat pyfloat
  | JStr pystr
  | JArr "json list"
  | JObj "(pystr \<times> json) list"

datatype jraw =
    RNull
  | RBool bool
  | RInt int
  | RFloat pyfloat
  | RConst pystr
  | RStr pystr
  | RArr "jraw list"
  | RObj "(pystr \<times> jraw) list"

text \<open>\<open>_unique_object\<close>, \<open>no_duplicate_keys\<close>, \<open>reject_duplicate\<close>: the hook over the pairs.\<close>

fun unique_object :: "(pystr \<Rightarrow> exn) \<Rightarrow> (pystr \<times> json) list \<Rightarrow> (pystr \<times> json) list \<Rightarrow>
    (pystr \<times> json) list result" where
  "unique_object err acc [] = Inr acc"
| "unique_object err acc ((k, v) # ps) =
     (if k \<in> fst ` set acc then Inl (err k) else unique_object err (acc @ [(k, v)]) ps)"

text \<open>
  \<open>json.loads(..., object_pairs_hook, parse_constant)\<close> over the syntax tree: members are
  decoded from left to right, the hook runs when an object closes.
\<close>

fun decode_raw :: "(pystr \<Rightarrow> exn) \<Rightarrow> (pystr \<Rightarrow> json result) \<Rightarrow> jraw \<Rightarrow> json result"
  and decode_list :: "(pystr \<Rightarrow> exn) \<Rightarrow> (pystr \<Rightarrow> json result) \<Rightarrow> jraw list \<Rightarrow> json list result"
  and decode_members :: "(pystr \<Rightarrow> exn) \<Rightarrow> (pystr \<Rightarrow> json result) \<Rightarrow> (pystr \<times> jraw) list \<Rightarrow>
        (pystr \<times> json) list result" where
  "decode_raw err const RNull = Inr JNull"
| "decode_raw err const (RBool b) = Inr (JBool b)"
| "decode_raw err const (RInt i) = Inr (JInt i)"
| "decode_raw err const (RFloat x) = Inr (JFloat x)"
| "decode_raw err const (RConst c) = const c"
| "decode_raw err const (RStr s) = Inr (JStr s)"
| "decode_raw err const (RArr xs) = rbind (decode_list err const xs) (\<lambda>ys. Inr (JArr ys))"
| "decode_raw err const (RObj ps) =
     rbind (decode_members err const ps) (\<lambda>qs.
     rbind (unique_object err [] qs) (\<lambda>d. Inr (JObj d)))"
| "decode_list err const [] = Inr []"
| "decode_list err const (x # xs) =
     rbind (decode_raw err const x) (\<lambda>y.
     rbind (decode_list err const xs) (\<lambda>ys. Inr (y # ys)))"
| "decode_members err const [] = Inr []"
| "decode_members err const ((k, x) # ps) =
     rbind (decode_raw err const x) (\<lambda>y.
     rbind (decode_members err const ps) (\<lambda>ys. Inr ((k, y) # ys)))"

text \<open>Every object of a decoded value has distinct keys.\<close>

fun wf_json :: "json \<Rightarrow> bool" where
  "wf_json (JArr xs) = list_all wf_json xs"
| "wf_json (JObj ps) = (distinct (map fst ps) \<and> list_all (\<lambda>p. wf_json (snd p)) ps)"
| "wf_json _ = True"

lemma unique_object_eq:
  "unique_object err acc ps = Inr d \<Longrightarrow> distinct (map fst acc) \<Longrightarrow>
   d = acc @ ps \<and> distinct (map fst d)"
proof (induction err acc ps rule: unique_object.induct)
  case (2 err acc k v ps)
  then have k: "k \<notin> fst ` set acc" "unique_object err (acc @ [(k, v)]) ps = Inr d"
    by (auto split: if_splits)
  then have "distinct (map fst (acc @ [(k, v)]))" using 2 by simp
  from "2.IH" [OF k this] show ?case by (metis append.assoc append_Cons append_Nil)
qed simp

definition const_ok :: "(pystr \<Rightarrow> json result) \<Rightarrow> bool" where
  "const_ok const \<longleftrightarrow> (\<forall>c v. const c = Inr v \<longrightarrow> wf_json v)"

lemma decode_wf:
  "decode_raw err const r = Inr v \<Longrightarrow> const_ok const \<Longrightarrow> wf_json v"
  "decode_list err const rs = Inr vs \<Longrightarrow> const_ok const \<Longrightarrow> list_all wf_json vs"
  "decode_members err const ms = Inr ps \<Longrightarrow> const_ok const \<Longrightarrow> list_all (\<lambda>p. wf_json (snd p)) ps"
proof (induction err const r and err const rs and err const ms
    arbitrary: v and vs and ps rule: decode_raw_decode_list_decode_members.induct)
  case (8 err const ps)
  then obtain qs d where qs: "decode_members err const ps = Inr qs"
      "unique_object err [] qs = Inr d" "v = JObj d"
    by (auto simp: result_simps)
  with unique_object_eq [OF qs(2)] 8 show ?case by auto
qed (auto simp: result_simps const_ok_def)

subsection \<open>Objects\<close>

definition jget :: "json \<Rightarrow> pystr \<Rightarrow> json option" where
  "jget v k = (case v of JObj ps \<Rightarrow> map_of ps k | _ \<Rightarrow> None)"

definition jkeys :: "(pystr \<times> json) list \<Rightarrow> pystr list" where
  "jkeys ps = map fst ps"

definition is_object :: "json \<Rightarrow> bool" where
  "is_object v = (case v of JObj _ \<Rightarrow> True | _ \<Rightarrow> False)"

text \<open>\<open>sorted(a - b)\<close> over sets of strings.\<close>

definition sorted_diff :: "pystr list \<Rightarrow> pystr list \<Rightarrow> pystr list" where
  "sorted_diff xs ys = sort (remdups (filter (\<lambda>x. x \<notin> set ys) xs))"

lemma sorted_diff_empty: "sorted_diff xs ys = [] \<longleftrightarrow> set xs \<subseteq> set ys"
proof -
  have "sort zs = [] \<longleftrightarrow> zs = []" for zs :: "pystr list"
    by (metis length_0_conv length_sort)
  then show ?thesis by (auto simp: sorted_diff_def filter_empty_conv)
qed

subsection \<open>json.dumps with separators (',', ':')\<close>

definition hex4 :: "nat \<Rightarrow> pystr" where
  "hex4 n = zfill 4 (hex_str n)"

definition json_escape_char :: "char \<Rightarrow> pystr" where
  "json_escape_char c = (let n = code c; bs = char_of (92::nat) in
     if n = 92 then [bs, bs]
     else if n = 34 then [bs, c]
     else if n = 10 then [bs, CHR ''n'']
     else if n = 13 then [bs, CHR ''r'']
     else if n = 9 then [bs, CHR ''t'']
     else if n = 12 then [bs, CHR ''f'']
     else if n = 8 then [bs, CHR ''b'']
     else if 32 \<le> n \<and> n \<le> 126 then [c]
     else bs # CHR ''u'' # hex4 n)"

definition json_quote :: "pystr \<Rightarrow> pystr" where
  "json_quote s = CHR 0x22 # concat (map json_escape_char s) @ [CHR 0x22]"

definition dumps_float :: "pyfloat \<Rightarrow> pystr" where
  "dumps_float f = (case f of Fin x \<Rightarrow> float_repr x | PosInf \<Rightarrow> ''Infinity'' | NegInf \<Rightarrow> ''-Infinity''
     | NaN \<Rightarrow> ''NaN'')"

text \<open>The flag says whether keys are sorted (\<open>sort_keys=True\<close>).\<close>

fun json_dumps :: "bool \<Rightarrow> json \<Rightarrow> pystr" where
  "json_dumps sk JNull = ''null''"
| "json_dumps sk (JBool b) = (if b then ''true'' else ''false'')"
| "json_dumps sk (JInt i) = int_str i"
| "json_dumps sk (JFloat f) = dumps_float f"
| "json_dumps sk (JStr s) = json_quote s"
| "json_dumps sk (JArr xs) = ''['' @ py_join '','' (map (json_dumps sk) xs) @ '']''"
| "json_dumps sk (JObj ps) =
     (let qs = map (\<lambda>(k, v). (k, json_dumps sk v)) ps;
          rs = (if sk then sort_key fst qs else qs) in
      ''{'' @ py_join '','' (map (\<lambda>(k, t). json_quote k @ '':'' @ t) rs) @ ''}'')"

end
