(* ===== verification/PyUuid.thy ===== *)
theory PyUuid
  imports PyStr
begin

text \<open>
  \<open>uuid.UUID(text)\<close> and \<open>str\<close> of a UUID as in CPython 3.11: prefixes, braces and hyphens are
  dropped before the 32 remaining characters are read by \<open>int(_, 16)\<close>, which itself accepts
  surrounding space, a sign, a \<open>0x\<close> prefix and single underscores. The receiver compares the
  canonical text with the lower-cased input; the last lemma says what that comparison accepts.
\<close>

subsection \<open>\<open>int(s, 16)\<close>\<close>

text \<open>Digits with single underscores between them; the flag says that a digit came just before.\<close>

fun hex_digits_ok :: "bool \<Rightarrow> pystr \<Rightarrow> bool" where
  "hex_digits_ok prev [] = prev"
| "hex_digits_ok prev (c # cs) =
     (if c = CHR ''_'' then prev \<and> cs \<noteq> [] \<and> hex_digits_ok False cs
      else is_hex c \<and> hex_digits_ok True cs)"

definition strip_sign :: "pystr \<Rightarrow> bool \<times> pystr" where
  "strip_sign s =
     (case s of c # cs \<Rightarrow>
        if c = CHR ''-'' then (True, cs) else if c = CHR ''+'' then (False, cs) else (False, s)
      | [] \<Rightarrow> (False, s))"

definition py_int_base16 :: "pystr \<Rightarrow> int result" where
  "py_int_base16 s =
     (let (neg, t) = strip_sign (py_strip s);
          pre = (starts_with ''0x'' t \<or> starts_with ''0X'' t);
          u = (if pre then drop 2 t else t);
          v = (if pre \<and> starts_with ''_'' u then tl u else u) in
      if hex_digits_ok False v
      then let n = int (radix_val 16 (filter (\<lambda>c. c \<noteq> CHR ''_'') v)) in
        Inr (if neg then - n else n)
      else Inl ValueError)"

subsection \<open>\<open>uuid.UUID\<close>\<close>

definition is_brace :: "char \<Rightarrow> bool" where
  "is_brace c = (c = CHR 0x7B \<or> c = CHR 0x7D)"

definition strip_braces :: "pystr \<Rightarrow> pystr" where
  "strip_braces s = rev (dropWhile is_brace (rev (dropWhile is_brace s)))"

definition uuid_of_text :: "pystr \<Rightarrow> nat result" where
  "uuid_of_text s =
     (let h = py_delete ''-'' (strip_braces (py_delete ''uuid:'' (py_delete ''urn:'' s))) in
      if length h \<noteq> 32 then Inl ValueError
      else rbind (py_int_base16 h) (\<lambda>n.
             if 0 \<le> n \<and> n < 2 ^ 128 then Inr (nat n) else Inl ValueError))"

definition uuid_format :: "pystr \<Rightarrow> pystr" where
  "uuid_format h =
     take 8 h @ CHR ''-'' # take 4 (drop 8 h) @ CHR ''-'' # take 4 (drop 12 h) @
     CHR ''-'' # take 4 (drop 16 h) @ CHR ''-'' # drop 20 h"

definition uuid_str :: "nat \<Rightarrow> pystr" where
  "uuid_str n = uuid_format (zfill 32 (hex_str n))"

text \<open>The canonical shape: 8-4-4-4-12 lower-case hexadecimal digits.\<close>

definition is_lower_hex :: "char \<Rightarrow> bool" where
  "is_lower_hex c = (is_dec c \<or> (97 \<le> code c \<and> code c \<le> 102))"

definition no_hyphens :: "pystr \<Rightarrow> pystr" where
  "no_hyphens s = filter (\<lambda>c. c \<noteq> CHR ''-'') s"

definition canonical_uuid :: "pystr \<Rightarrow> bool" where
  "canonical_uuid s =
     (let h = no_hyphens s in
      length h = 32 \<and> list_all is_lower_hex h \<and> s = uuid_format h)"

subsection \<open>Which texts are canonical\<close>

lemma lower_hex_facts:
  "is_lower_hex c \<Longrightarrow> is_hex c" "is_lower_hex c \<Longrightarrow> c \<noteq> CHR ''-''"
  by (auto simp: is_lower_hex_def is_hex_def digit_val_def is_dec_def Let_def code_def)

lemma is_lower_hex_digit_char: "d < 16 \<Longrightarrow> is_lower_hex (digit_char d)"
  by (auto simp: is_lower_hex_def is_dec_def digit_char_def code_char_of)

lemma zfill_lower_hex: "list_all is_lower_hex (zfill k (hex_str n))"
proof -
  have "is_lower_hex (CHR ''0'')" by (simp add: is_lower_hex_def is_dec_def code_def)
  then show ?thesis
    using radix_str_digits [of 16 _ n] is_lower_hex_digit_char
    by (auto simp: zfill_def list_all_iff)
qed

lemma digit_val_inj_lower:
  assumes "is_lower_hex c" "is_lower_hex d" "digit_val c = digit_val d"
  shows "c = d"
proof -
  have "code c = code d"
    using assms
    by (auto simp: digit_val_def is_lower_hex_def is_dec_def Let_def simp del: code_inj
             split: if_splits)
  then show ?thesis by simp
qed

lemma radix_val_inj_lower:
  assumes "length s = length t" "list_all is_lower_hex s" "list_all is_lower_hex t"
    and "radix_val 16 s = radix_val 16 t"
  shows "s = t"
  using assms
proof (induction s arbitrary: t rule: rev_induct)
  case Nil
  then show ?case by simp
next
  case (snoc c s)
  then obtain t' d where t: "t = t' @ [d]"
    by (metis length_0_conv rev_exhaust snoc_eq_iff_butlast)
  have "is_hex c" "is_hex d" using snoc.prems(2,3) t lower_hex_facts(1) by auto
  then obtain m n where m: "digit_val c = Some m" "digit_val d = Some n"
    by (auto simp: is_hex_def)
  have "m < 16" "n < 16" using m digit_val_le by blast+
  then have mm: "(a * 16 + m) mod 16 = m" "(a * 16 + n) mod 16 = n" for a by simp_all
  have eq: "radix_val 16 s * 16 + m = radix_val 16 t' * 16 + n"
    using snoc.prems(4) t m by (simp add: radix_val_snoc)
  have "m = n" using mm(1) [of "radix_val 16 s"] mm(2) [of "radix_val 16 t'"] eq by metis
  moreover from this eq have "radix_val 16 s = radix_val 16 t'" by simp
  ultimately show ?case using snoc t m digit_val_inj_lower by auto
qed

lemma zfill_hex_str_radix_val:
  assumes "length h = k" "0 < k" "list_all is_lower_hex h"
  shows "zfill k (hex_str (radix_val 16 h)) = h"
proof (rule radix_val_inj_lower)
  have "radix_val 16 h < 16 ^ Suc (k - 1)" using radix_val_less16 [of h] assms by simp
  from radix_str_length [OF _ this] assms(2) have "length (hex_str (radix_val 16 h)) \<le> k" by simp
  then show "length (zfill k (hex_str (radix_val 16 h))) = length h"
    using assms(1) by (simp add: length_zfill)
  show "list_all is_lower_hex (zfill k (hex_str (radix_val 16 h)))" by (rule zfill_lower_hex)
  show "radix_val 16 (zfill k (hex_str (radix_val 16 h))) = radix_val 16 h"
    by (simp add: radix_val_zfill radix_val_radix_str)
qed (rule assms)

lemma take_drop_parts:
  "take 8 h @ take 4 (drop 8 h) @ take 4 (drop 12 h) @ take 4 (drop 16 h) @ drop 20 h = h"
proof -
  have step: "take 4 (drop k h) @ drop (k + 4) h = drop k h" for k
    by (metis add.commute append_take_drop_id drop_drop)
  show ?thesis using step [of 8] step [of 12] step [of 16] by simp
qed

lemma no_hyphens_format:
  assumes "CHR ''-'' \<notin> set h"
  shows "no_hyphens (uuid_format h) = h"
proof -
  have "filter (\<lambda>c. c \<noteq> CHR ''-'') t = t" if "set t \<subseteq> set h" for t
    using that assms by (intro filter_True) auto
  then show ?thesis
    by (simp add: no_hyphens_def uuid_format_def set_take_subset set_drop_subset
        order_trans [OF set_take_subset set_drop_subset] take_drop_parts)
qed

lemma lower_hex_no_hyphen: "list_all is_lower_hex h \<Longrightarrow> CHR ''-'' \<notin> set h"
  using lower_hex_facts(2) by (auto simp: list_all_iff)

lemma canonical_uuid_str:
  assumes "n < 2 ^ 128"
  shows "canonical_uuid (uuid_str n)"
proof -
  let ?h = "zfill 32 (hex_str n)"
  have "length (hex_str n) \<le> Suc 31" using assms by (intro radix_str_length) simp_all
  then have "length ?h = 32" by (simp add: length_zfill)
  moreover note zfill_lower_hex [of 32 n]
  ultimately show ?thesis
    by (simp add: canonical_uuid_def uuid_str_def no_hyphens_format lower_hex_no_hyphen)
qed

lemma py_delete_hyphen: "py_delete ''-'' s = no_hyphens s"
proof (induction s)
  case Nil
  then show ?case by (simp add: no_hyphens_def py_delete.simps)
next
  case (Cons c s)
  then show ?case
    by (subst py_delete.simps) (auto simp: no_hyphens_def starts_with_def)
qed

lemma py_delete_absent: "c \<in> set p \<Longrightarrow> c \<notin> set s \<Longrightarrow> py_delete p s = s"
proof (induction s)
  case Nil
  then show ?case by (simp add: py_delete.simps)
next
  case (Cons d s)
  have "\<not> starts_with p (d # s)"
    using Cons.prems set_take_subset [of "length p" "d # s"]
    by (auto simp: starts_with_def)
  with Cons show ?case by (subst py_delete.simps) auto
qed

lemma strip_braces_absent: "(\<And>c. c \<in> set s \<Longrightarrow> \<not> is_brace c) \<Longrightarrow> strip_braces s = s"
proof -
  assume no: "\<And>c. c \<in> set s \<Longrightarrow> \<not> is_brace c"
  have id: "dropWhile is_brace t = t" if "set t \<subseteq> set s" for t
    using that no by (cases t) auto
  show ?thesis by (simp add: strip_braces_def id)
qed

lemma hex_code: "is_hex c \<Longrightarrow> (48 \<le> code c \<and> code c \<le> 57) \<or> (97 \<le> code c \<and> code c \<le> 102) \<or>
    (65 \<le> code c \<and> code c \<le> 70)"
  by (auto simp: is_hex_def digit_val_def Let_def split: if_splits)

lemma hex_not_special:
  assumes "is_hex c"
  shows "\<not> is_space c" "\<not> is_brace c" "c \<noteq> CHR ''u''" "c \<noteq> CHR ''x''" "c \<noteq> CHR ''X''"
    "c \<noteq> CHR ''_''" "c \<noteq> CHR ''+''" "c \<noteq> CHR ''-''"
  using hex_code [OF assms] by (auto simp: is_space_def is_brace_def code_def Let_def)

lemma hex_digits_ok_hex: "list_all is_hex h \<Longrightarrow> h \<noteq> [] \<or> prev \<Longrightarrow> hex_digits_ok prev h"
  by (induction h arbitrary: prev) (auto dest: hex_not_special(6))

lemma py_int_base16_hex:
  assumes "list_all is_hex h" "2 \<le> length h"
  shows "py_int_base16 h = Inr (int (radix_val 16 h))"
proof -
  obtain c d t where h: "h = c # d # t" using assms(2)
    by (metis One_nat_def Suc_1 Suc_le_length_iff)
  with assms(1) have cd: "is_hex c" "is_hex d" by auto
  have "py_strip h = h"
    using assms(1) hex_not_special(1) by (intro py_strip_absent) (auto simp: list_all_iff)
  moreover have "strip_sign h = (False, h)"
    using cd(1) h hex_not_special(7,8) by (auto simp: strip_sign_def)
  moreover have "\<not> starts_with ''0x'' h" "\<not> starts_with ''0X'' h"
    using cd(2) h hex_not_special(4,5) by (auto simp: starts_with_def)
  moreover have "filter (\<lambda>c. c \<noteq> CHR ''_'') h = h"
    using assms(1) hex_not_special(6) by (intro filter_True) (auto simp: list_all_iff)
  moreover have "hex_digits_ok False h"
    using assms h by (intro hex_digits_ok_hex) auto
  ultimately show ?thesis by (simp add: py_int_base16_def)
qed

text \<open>Reading a hyphenated text of 32 hexadecimal digits.\<close>

lemma uuid_of_text_hex:
  assumes "length (no_hyphens s) = 32" "list_all is_hex (no_hyphens s)"
  shows "uuid_of_text s = Inr (radix_val 16 (no_hyphens s))"
proof -
  have chars: "is_hex c \<or> c = CHR ''-''" if "c \<in> set s" for c
    using assms(2) that by (auto simp: no_hyphens_def list_all_iff)
  then have nou: "CHR ''u'' \<notin> set s" using hex_not_special(3) by fastforce
  have "strip_braces s = s"
    using chars hex_not_special(2) by (intro strip_braces_absent) (fastforce simp: is_brace_def)
  moreover have "py_delete ''urn:'' s = s" "py_delete ''uuid:'' s = s"
    using nou by (auto intro!: py_delete_absent [of "CHR ''u''"])
  moreover have "radix_val 16 (no_hyphens s) < 2 ^ 128"
    using radix_val_less16 [of "no_hyphens s"] assms(1) by simp
  ultimately show ?thesis
    using assms by (simp add: uuid_of_text_def py_delete_hyphen py_int_base16_hex)
qed

lemma lower_char_hex: "is_lower_hex (lower_char c) \<Longrightarrow> is_hex c"
  by (auto simp: is_lower_hex_def lower_char_def is_dec_def is_hex_def digit_val_def Let_def
           code_char_of split: if_splits)

lemma lower_char_hyphen: "lower_char c = CHR ''-'' \<longleftrightarrow> c = CHR ''-''"
proof
  assume "lower_char c = CHR ''-''"
  then have "code (lower_char c) = 45" by (simp add: code_def)
  moreover have "code c < 256" by (simp add: code_def)
  ultimately have "code c = code (CHR ''-'')"
    by (auto simp: lower_char_def Let_def code_char_of code_def split: if_splits)
  then show "c = CHR ''-''" by simp
qed (simp add: lower_char_def code_def)


lemma digit_val_lower_char: "is_hex c \<Longrightarrow> digit_val (lower_char c) = digit_val c"
proof -
  assume "is_hex c"
  from hex_code [OF this] show ?thesis
    by (auto simp: digit_val_def lower_char_def Let_def code_char_of)
qed

lemma radix_val_lower: "list_all is_hex h \<Longrightarrow> radix_val b (py_lower h) = radix_val b h"
  by (induction h rule: rev_induct)
     (simp_all add: py_lower_def radix_val_snoc digit_val_lower_char)

lemma no_hyphens_lower: "no_hyphens (py_lower s) = py_lower (no_hyphens s)"
  by (simp add: no_hyphens_def py_lower_def filter_map o_def lower_char_hyphen)

lemma uuid_of_text_bound: "uuid_of_text s = Inr n \<Longrightarrow> n < 2 ^ 128"
  by (auto simp: uuid_of_text_def Let_def result_simps split: if_splits)

lemma uuid_of_canonical:
  assumes "canonical_uuid (py_lower s)"
  shows "\<exists>n. uuid_of_text s = Inr n \<and> py_lower s = uuid_str n"
proof -
  let ?h = "no_hyphens s"
  have h: "length ?h = 32" "list_all is_lower_hex (py_lower ?h)"
      "py_lower s = uuid_format (py_lower ?h)"
    using assms unfolding canonical_uuid_def Let_def no_hyphens_lower
    by (auto simp: py_lower_def)
  then have hex: "list_all is_hex ?h"
    by (auto simp: py_lower_def list_all_iff dest: lower_char_hex)
  have "zfill 32 (hex_str (radix_val 16 (py_lower ?h))) = py_lower ?h"
    by (rule zfill_hex_str_radix_val) (use h in \<open>auto simp: py_lower_def\<close>)
  then have "uuid_str (radix_val 16 ?h) = py_lower s"
    using h(3) hex by (simp add: uuid_str_def radix_val_lower)
  with uuid_of_text_hex [OF h(1) hex] show ?thesis by auto
qed

lemma uuid_accepts_iff:
  "(\<exists>n. uuid_of_text s = Inr n \<and> py_lower s = uuid_str n) \<longleftrightarrow> canonical_uuid (py_lower s)"
  using uuid_of_canonical [of s] canonical_uuid_str uuid_of_text_bound [of s] by metis

lemma uuid_of_text_uuid_str:
  assumes "n < 2 ^ 128"
  shows "uuid_of_text (uuid_str n) = Inr n"
proof -
  let ?h = "zfill 32 (hex_str n)"
  have "length (hex_str n) \<le> Suc 31" using assms by (intro radix_str_length) simp_all
  then have len: "length ?h = 32" by (simp add: length_zfill)
  have nh: "no_hyphens (uuid_str n) = ?h"
    using zfill_lower_hex [of 32 n] by (simp add: uuid_str_def no_hyphens_format lower_hex_no_hyphen)
  have "list_all is_hex ?h"
    using zfill_lower_hex [of 32 n] lower_hex_facts(1) by (auto simp: list_all_iff)
  with uuid_of_text_hex [of "uuid_str n"] nh len show ?thesis
    by (simp add: radix_val_zfill radix_val_radix_str)
qed

interpretation uuid_codec: text_codec uuid_of_text uuid_str "\<lambda>n. n < 2 ^ 128"
  by unfold_locales (rule uuid_of_text_bound, assumption, rule uuid_of_text_uuid_str)

end
