(* ===== verification/Validation.thy ===== *)
theory Validation
  imports Json PyUuid Ipaddress
begin

text \<open>
  The validation half of \<^verbatim>\<open>src/f2bguard/store.py\<close>: events and claims as the wire carries them,
  field checks, \<open>parse_event\<close>, \<open>parse_claim\<close>, and the batch checks \<open>validate_events\<close> and
  \<open>validate_snapshot\<close>. Raw values are decoded JSON; every refusal carries the message of the
  source.

  The parameter \<open>fromiso\<close> stands for \<open>datetime.fromisoformat(text).timestamp()\<close>, whose accepted
  language is that of the interpreter's C code and differs between releases.
\<close>

datatype iso_result = IsoInvalid | IsoNaive | IsoAware time

type_synonym iso_parser = "pystr \<Rightarrow> iso_result"

record event =
  ev_event_id :: pystr
  ev_seq :: int
  ev_op :: pystr
  ev_jail :: pystr
  ev_ban_id :: pystr
  ev_ip :: pystr
  ev_permanent :: "bool option"
  ev_expires_at :: "time option"

record claim =
  cl_jail :: pystr
  cl_ban_id :: pystr
  cl_ip :: pystr
  cl_permanent :: bool
  cl_expires_at :: "time option"

definition json_opt_bool :: "bool option \<Rightarrow> json" where
  "json_opt_bool b = (case b of None \<Rightarrow> JNull | Some v \<Rightarrow> JBool v)"

definition json_opt_time :: "time option \<Rightarrow> json" where
  "json_opt_time t = (case t of None \<Rightarrow> JNull | Some x \<Rightarrow> JFloat (Fin x))"

definition event_wire :: "event \<Rightarrow> json" where
  "event_wire e = JObj
     [(''event_id'', JStr (ev_event_id e)), (''seq'', JInt (ev_seq e)),
      (''op'', JStr (ev_op e)), (''jail'', JStr (ev_jail e)),
      (''ban_id'', JStr (ev_ban_id e)), (''ip'', JStr (ev_ip e)),
      (''permanent'', json_opt_bool (ev_permanent e)),
      (''expires_at'', json_opt_time (ev_expires_at e))]"

definition claim_wire :: "claim \<Rightarrow> json" where
  "claim_wire c = JObj
     [(''jail'', JStr (cl_jail c)), (''ban_id'', JStr (cl_ban_id c)), (''ip'', JStr (cl_ip c)),
      (''permanent'', JBool (cl_permanent c)), (''expires_at'', json_opt_time (cl_expires_at c))]"

subsection \<open>Field checks\<close>

definition uuid_field :: "json \<Rightarrow> pystr \<Rightarrow> pystr result" where
  "uuid_field v name =
     (case v of
        JStr s \<Rightarrow>
          (case uuid_of_text s of
             Inl _ \<Rightarrow> Inl (ValidationError (name @ '' must be a UUID string''))
           | Inr n \<Rightarrow>
               if py_lower s \<noteq> uuid_str n
               then Inl (ValidationError (name @ '' must be a canonical UUID''))
               else Inr (uuid_str n))
      | _ \<Rightarrow> Inl (ValidationError (name @ '' must be a UUID string'')))"

definition seq_field :: "json \<Rightarrow> int result" where
  "seq_field v =
     (case v of
        JInt i \<Rightarrow> if 0 < i \<and> i \<le> 2 ^ 63 - 1 then Inr i
                  else Inl (ValidationError ''seq must be an integer between 1 and 2^63-1'')
      | _ \<Rightarrow> Inl (ValidationError ''seq must be an integer between 1 and 2^63-1''))"

text \<open>\<open>_ID_RE.fullmatch\<close>, shared with the receiver's configuration.\<close>

definition id_char :: "char \<Rightarrow> bool" where
  "id_char c = (is_alnum c \<or> c = CHR ''_'' \<or> c = CHR ''.'' \<or> c = CHR '':'' \<or> c = CHR ''-'')"

definition id_re :: "pystr \<Rightarrow> bool" where
  "id_re s = (case s of [] \<Rightarrow> False
     | c # cs \<Rightarrow> is_alnum c \<and> list_all id_char cs \<and> length cs \<le> 127)"

definition identifier_field :: "json \<Rightarrow> pystr \<Rightarrow> pystr result" where
  "identifier_field v name =
     (case v of
        JStr s \<Rightarrow> if id_re s then Inr s else Inl (ValidationError (name @ '' is invalid''))
      | _ \<Rightarrow> Inl (ValidationError (name @ '' is invalid'')))"

definition ip_field :: "json \<Rightarrow> pystr result" where
  "ip_field v =
     (case v of
        JStr s \<Rightarrow>
          if CHR ''%'' \<in> set s then Inl (ValidationError ''ip must be an IP literal'')
          else (case ip_address s of
             Inl _ \<Rightarrow> Inl (ValidationError ''ip must be an IP literal'')
           | Inr a \<Rightarrow>
               if is_protected a
               then Inl (ValidationError ''ip is a protected special-purpose address'')
               else Inr (compressed a))
      | _ \<Rightarrow> Inl (ValidationError ''ip must be an IP literal''))"

definition expires_at_field :: "iso_parser \<Rightarrow> json \<Rightarrow> time option result" where
  "expires_at_field fromiso v =
     (let bad = ValidationError ''expires_at must be null, a Unix timestamp, or RFC3339'';
          range = (\<lambda>x. if 0 \<le> x \<and> x \<le> 253402300799 then Inr (Some x)
                 else Inl (ValidationError ''expires_at is outside the supported range'')) in
      case v of
        JNull \<Rightarrow> Inr None
      | JBool _ \<Rightarrow> Inl bad
      | JInt i \<Rightarrow> rbind (float_of_int i) range
      | JFloat f \<Rightarrow>
          (case f of Fin x \<Rightarrow> range x
           | _ \<Rightarrow> Inl (ValidationError ''expires_at is outside the supported range''))
      | JStr s \<Rightarrow>
          (case fromiso (if ends_with ''Z'' s then butlast s @ ''+00:00'' else s) of
             IsoInvalid \<Rightarrow> Inl (ValidationError ''expires_at must be RFC3339'')
           | IsoNaive \<Rightarrow> Inl (ValidationError ''expires_at must include a timezone'')
           | IsoAware t \<Rightarrow> Inr (Some t))
      | _ \<Rightarrow> Inl bad)"

subsection \<open>Events and claims\<close>

definition event_required :: "pystr list" where
  "event_required = [''event_id'', ''seq'', ''op'', ''jail'', ''ban_id'', ''ip'']"

definition claim_required :: "pystr list" where
  "claim_required = [''jail'', ''ban_id'', ''ip'', ''permanent'', ''expires_at'']"

definition comma_join :: "pystr list \<Rightarrow> pystr" where
  "comma_join = py_join '', ''"

text \<open>The checks on the key set, shared by both parsers; \<open>what\<close> is the noun of the message.\<close>

definition check_fields :: "pystr \<Rightarrow> pystr list \<Rightarrow> pystr list \<Rightarrow> (pystr \<times> json) list \<Rightarrow> unit result" where
  "check_fields what required allowed raw =
     (let missing = sorted_diff required (jkeys raw); unknown = sorted_diff (jkeys raw) allowed in
      if missing \<noteq> []
      then Inl (ValidationError (what @ '' missing field(s): '' @ comma_join missing))
      else if unknown \<noteq> []
      then Inl (ValidationError (what @ '' has unknown field(s): '' @ comma_join unknown))
      else Inr ())"

text \<open>\<open>raw[k]\<close> and \<open>raw.get(k)\<close>; a missing key of \<open>raw[k]\<close> raises.\<close>

definition item :: "(pystr \<times> json) list \<Rightarrow> pystr \<Rightarrow> json result" where
  "item raw k = (case map_of raw k of None \<Rightarrow> Inl KeyError | Some v \<Rightarrow> Inr v)"

definition get_item :: "(pystr \<times> json) list \<Rightarrow> pystr \<Rightarrow> json" where
  "get_item raw k = (case map_of raw k of None \<Rightarrow> JNull | Some v \<Rightarrow> v)"

definition event_permanent :: "pystr \<Rightarrow> json \<Rightarrow> bool option result" where
  "event_permanent op v =
     (case v of
        JBool b \<Rightarrow> Inr (Some b)
      | JNull \<Rightarrow> if op = ''ban'' then Inl (ValidationError ''ban permanent must be a boolean'')
                 else Inr None
      | _ \<Rightarrow> if op = ''ban'' then Inl (ValidationError ''ban permanent must be a boolean'')
             else Inl (ValidationError ''unban permanent must be a boolean when present''))"

definition op_field :: "json \<Rightarrow> pystr result" where
  "op_field v =
     (case v of
        JStr s \<Rightarrow> if s = ''ban'' \<or> s = ''unban'' then Inr s
                  else Inl (ValidationError ''op must be ban or unban'')
      | _ \<Rightarrow> Inl (ValidationError ''op must be ban or unban''))"

definition parse_event :: "iso_parser \<Rightarrow> json \<Rightarrow> event result" where
  "parse_event fromiso v =
     (case v of
        JObj raw \<Rightarrow>
          rbind (check_fields ''event'' event_required
                  (event_required @ [''permanent'', ''expires_at'']) raw) (\<lambda>_.
          rbind (item raw ''op'') (\<lambda>opv.
          rbind (op_field opv) (\<lambda>op.
          rbind (event_permanent op (get_item raw ''permanent'')) (\<lambda>permanent.
          rbind (expires_at_field fromiso (get_item raw ''expires_at'')) (\<lambda>expires.
          rbind (rbind (item raw ''event_id'') (\<lambda>x. uuid_field x ''event_id'')) (\<lambda>event_id.
          rbind (rbind (item raw ''seq'') seq_field) (\<lambda>seq.
          rbind (rbind (item raw ''jail'') (\<lambda>x. identifier_field x ''jail'')) (\<lambda>jail.
          rbind (rbind (item raw ''ban_id'') (\<lambda>x. uuid_field x ''ban_id'')) (\<lambda>ban_id.
          rbind (rbind (item raw ''ip'') ip_field) (\<lambda>ip.
            Inr \<lparr>ev_event_id = event_id, ev_seq = seq, ev_op = op, ev_jail = jail,
                 ev_ban_id = ban_id, ev_ip = ip, ev_permanent = permanent,
                 ev_expires_at = expires\<rparr>))))))))))
      | _ \<Rightarrow> Inl (ValidationError ''event must be an object''))"

definition bool_item :: "json \<Rightarrow> bool result" where
  "bool_item v =
     (case v of JBool b \<Rightarrow> Inr b | _ \<Rightarrow> Inl (ValidationError ''claim permanent must be a boolean''))"

definition parse_claim :: "iso_parser \<Rightarrow> json \<Rightarrow> claim result" where
  "parse_claim fromiso v =
     (case v of
        JObj raw \<Rightarrow>
          rbind (check_fields ''claim'' claim_required claim_required raw) (\<lambda>_.
          rbind (rbind (item raw ''permanent'') bool_item) (\<lambda>permanent.
          rbind (rbind (item raw ''expires_at'') (expires_at_field fromiso)) (\<lambda>expires.
          rbind (rbind (item raw ''jail'') (\<lambda>x. identifier_field x ''jail'')) (\<lambda>jail.
          rbind (rbind (item raw ''ban_id'') (\<lambda>x. uuid_field x ''ban_id'')) (\<lambda>ban_id.
          rbind (rbind (item raw ''ip'') ip_field) (\<lambda>ip.
            Inr \<lparr>cl_jail = jail, cl_ban_id = ban_id, cl_ip = ip, cl_permanent = permanent,
                 cl_expires_at = expires\<rparr>))))))
      | _ \<Rightarrow> Inl (ValidationError ''claim must be an object''))"

subsection \<open>Batches\<close>

definition strictly_increasing :: "int list \<Rightarrow> bool" where
  "strictly_increasing seqs = (\<not> list_ex (\<lambda>(l, r). l \<ge> r) (zip seqs (drop 1 seqs)))"

definition validate_events :: "iso_parser \<Rightarrow> json \<Rightarrow> nat \<Rightarrow> event list result" where
  "validate_events fromiso raw_events maximum =
     (case raw_events of
        JArr raws \<Rightarrow>
          if raws = [] then Inl (ValidationError ''events must be a non-empty array'')
          else if maximum < length raws then Inl (ValidationError ''too many events'')
          else rbind (rmap (parse_event fromiso) raws) (\<lambda>events.
            if \<not> strictly_increasing (map ev_seq events)
            then Inl (ValidationError ''event seq values must strictly increase'')
            else if \<not> distinct (map ev_event_id events)
            then Inl (ValidationError ''event_id values must be unique within a batch'')
            else Inr events)
      | _ \<Rightarrow> Inl (ValidationError ''events must be a non-empty array''))"

definition claim_key :: "claim \<Rightarrow> pystr \<times> pystr" where
  "claim_key c = (cl_jail c, cl_ban_id c)"

definition validate_snapshot ::
  "iso_parser \<Rightarrow> json \<Rightarrow> json \<Rightarrow> json \<Rightarrow> nat \<Rightarrow> (pystr \<times> int \<times> claim list) result" where
  "validate_snapshot fromiso snapshot_id seq raw_claims maximum =
     rbind (uuid_field snapshot_id ''snapshot_id'') (\<lambda>parsed_id.
     rbind (seq_field seq) (\<lambda>parsed_seq.
       case raw_claims of
         JArr raws \<Rightarrow>
           if maximum < length raws then Inl (ValidationError ''too many claims'')
           else rbind (rmap (parse_claim fromiso) raws) (\<lambda>claims.
             if \<not> distinct (map claim_key claims)
             then Inl (ValidationError ''snapshot contains duplicate claim identities'')
             else Inr (parsed_id, parsed_seq, claims))
       | _ \<Rightarrow> Inl (ValidationError ''claims must be an array'')))"

subsection \<open>What each field check accepts\<close>

named_theorems field_simps_iff "which raw values a field check accepts, and what it returns"

lemma lower_char_id: "is_lower_hex c \<or> c = CHR ''-'' \<Longrightarrow> lower_char c = c"
  by (auto simp: is_lower_hex_def is_dec_def lower_char_def Let_def code_def)

lemma canonical_uuid_lower: "canonical_uuid s \<Longrightarrow> py_lower s = s"
  unfolding py_lower_def canonical_uuid_def no_hyphens_def Let_def
  by (rule map_idI, rule lower_char_id) (auto simp: list_all_iff)

lemma uuid_field_iff [field_simps_iff]:
  "uuid_field v name = Inr u \<longleftrightarrow> (\<exists>s. v = JStr s \<and> canonical_uuid (py_lower s) \<and> u = py_lower s)"
proof (cases v)
  case (JStr s)
  show ?thesis
  proof (cases "uuid_of_text s")
    case (Inl e)
    with uuid_accepts_iff [of s] show ?thesis by (simp add: uuid_field_def JStr)
  next
    case (Inr n)
    with uuid_accepts_iff [of s] show ?thesis by (auto simp: uuid_field_def JStr)
  qed
qed (simp_all add: uuid_field_def)

lemma seq_field_iff [field_simps_iff]:
  "seq_field v = Inr i \<longleftrightarrow> v = JInt i \<and> 0 < i \<and> i \<le> 2 ^ 63 - 1"
  by (cases v) (auto simp: seq_field_def)

lemma identifier_field_iff [field_simps_iff]:
  "identifier_field v name = Inr s \<longleftrightarrow> v = JStr s \<and> id_re s"
  by (cases v) (auto simp: identifier_field_def)

lemma op_field_iff [field_simps_iff]:
  "op_field v = Inr s \<longleftrightarrow> v = JStr s \<and> (s = ''ban'' \<or> s = ''unban'')"
  by (cases v) (auto simp: op_field_def)

lemma bool_item_iff [field_simps_iff]: "bool_item v = Inr b \<longleftrightarrow> v = JBool b"
  by (cases v) (auto simp: bool_item_def)

lemma event_permanent_iff [field_simps_iff]:
  "event_permanent op v = Inr p \<longleftrightarrow>
     (\<exists>b. v = JBool b \<and> p = Some b) \<or> (v = JNull \<and> op \<noteq> ''ban'' \<and> p = None)"
  by (cases v) (auto simp: event_permanent_def)

lemma ip_field_iff [field_simps_iff]:
  "ip_field v = Inr t \<longleftrightarrow>
     (\<exists>s a. v = JStr s \<and> CHR ''%'' \<notin> set s \<and> ip_address s = Inr a \<and> \<not> is_protected a \<and>
            t = compressed a)"
  by (cases v) (auto simp: ip_field_def split: sum.splits)

lemma ip_field_claimable: "ip_field v = Inr t \<Longrightarrow> claimable_ip t"
  by (auto simp: ip_field_iff intro: claimable_ip_compressed)

lemma ip_field_idem: "claimable_ip t \<Longrightarrow> ip_field (JStr t) = Inr t"
  by (auto simp: ip_field_iff claimable_ip_def split: sum.splits)

definition time_in_range :: "time \<Rightarrow> bool" where
  "time_in_range x = (0 \<le> x \<and> x \<le> 253402300799)"

lemma expires_at_numeric:
  "expires_at_field fromiso (JFloat f) = Inr t \<longleftrightarrow> (\<exists>x. f = Fin x \<and> time_in_range x \<and> t = Some x)"
  "expires_at_field fromiso (JInt i) = Inr t \<longleftrightarrow>
     (\<exists>x. float_of_int i = Inr x \<and> time_in_range x \<and> t = Some x)"
  by (auto simp: expires_at_field_def time_in_range_def result_simps Let_def
           split: pyfloat.splits if_splits)

text \<open>Only the text form escapes the range check: whatever \<open>fromisoformat\<close> returns is kept.\<close>

lemma expires_at_range:
  assumes "expires_at_field fromiso v = Inr (Some x)"
  shows "time_in_range x \<or> (\<exists>s t. v = JStr s \<and> fromiso t = IsoAware x)"
  using assms
  by (cases v) (auto simp: expires_at_numeric, auto simp: expires_at_field_def split: iso_result.splits)

lemma expires_at_raises:
  assumes "expires_at_field fromiso v = Inl e"
  shows "(\<exists>m. e = ValidationError m) \<or> (\<exists>i. v = JInt i \<and> float_of_int i = Inl e)"
  using assms
  by (cases v)
     (auto simp: expires_at_field_def Let_def result_simps split: pyfloat.splits iso_result.splits if_splits)

lemma expires_at_wire:
  "(\<And>x. t = Some x \<Longrightarrow> time_in_range x) \<Longrightarrow> expires_at_field fromiso (json_opt_time t) = Inr t"
  by (cases t) (simp_all add: json_opt_time_def expires_at_numeric, simp add: expires_at_field_def)

subsection \<open>Well-formed events and claims\<close>

definition event_ok :: "event \<Rightarrow> bool" where
  "event_ok e =
     (canonical_uuid (ev_event_id e) \<and> 0 < ev_seq e \<and> ev_seq e \<le> 2 ^ 63 - 1 \<and>
      (ev_op e = ''ban'' \<or> ev_op e = ''unban'') \<and> id_re (ev_jail e) \<and>
      canonical_uuid (ev_ban_id e) \<and> claimable_ip (ev_ip e) \<and>
      (ev_op e = ''ban'' \<longrightarrow> ev_permanent e \<noteq> None))"

definition claim_ok :: "claim \<Rightarrow> bool" where
  "claim_ok c =
     (id_re (cl_jail c) \<and> canonical_uuid (cl_ban_id c) \<and> claimable_ip (cl_ip c))"

definition expiry_ok :: "time option \<Rightarrow> bool" where
  "expiry_ok t = (case t of None \<Rightarrow> True | Some x \<Rightarrow> time_in_range x)"

lemma item_iff [field_simps_iff]: "item raw k = Inr v \<longleftrightarrow> map_of raw k = Some v"
  by (auto simp: item_def split: option.splits)

lemma uuid_field_canonical: "uuid_field v name = Inr u \<Longrightarrow> canonical_uuid u"
  by (auto simp: uuid_field_iff)

lemma uuid_field_idem: "canonical_uuid u \<Longrightarrow> uuid_field (JStr u) name = Inr u"
  by (simp add: uuid_field_iff canonical_uuid_lower)

text \<open>What the check on the key set establishes.\<close>

lemma check_fields_ok:
  "set required \<subseteq> set (jkeys raw) \<Longrightarrow> set (jkeys raw) \<subseteq> set allowed \<Longrightarrow>
   check_fields what required allowed raw = Inr ()"
  by (simp add: check_fields_def sorted_diff_empty)

lemma check_fields_iff:
  "check_fields what required allowed raw = Inr u \<longleftrightarrow>
   set required \<subseteq> set (jkeys raw) \<and> set (jkeys raw) \<subseteq> set allowed"
  by (simp add: check_fields_def sorted_diff_empty Let_def)

subsection \<open>What the parsers return and raise\<close>

definition validation_exn :: "exn \<Rightarrow> bool" where
  "validation_exn e = (case e of ValidationError _ \<Rightarrow> True | _ \<Rightarrow> False)"

lemma validation_exn_iff: "validation_exn e \<longleftrightarrow> (\<exists>m. e = ValidationError m)"
  by (cases e) (simp_all add: validation_exn_def)

lemma validation_exn_ValidationError [simp]: "validation_exn (ValidationError m)"
  by (simp add: validation_exn_def)

lemma field_raises:
  "uuid_field v name = Inl e \<Longrightarrow> validation_exn e"
  "seq_field v = Inl e \<Longrightarrow> validation_exn e"
  "identifier_field v name = Inl e \<Longrightarrow> validation_exn e"
  "op_field v = Inl e \<Longrightarrow> validation_exn e"
  "bool_item v = Inl e \<Longrightarrow> validation_exn e"
  "event_permanent op v = Inl e \<Longrightarrow> validation_exn e"
  "ip_field v = Inl e \<Longrightarrow> validation_exn e"
  "check_fields what req allowed raw = Inl e \<Longrightarrow> validation_exn e"
  by (auto simp: uuid_field_def seq_field_def identifier_field_def op_field_def bool_item_def
        event_permanent_def ip_field_def check_fields_def Let_def validation_exn_def
        split: json.splits sum.splits if_splits)

lemma item_present: "k \<in> set (jkeys raw) \<Longrightarrow> \<exists>v. item raw k = Inr v"
  by (cases "map_of raw k") (auto simp: item_def jkeys_def map_of_eq_None_iff)

lemma float_of_int_raises: "float_of_int i = Inl e \<Longrightarrow> e = OverflowError"
  by (auto simp: float_of_int_def split: pyfloat.splits)

text \<open>
  After the field check every \<open>raw[k]\<close> succeeds, so a parse raises a validation error, with
  one exception: an integer \<open>expires_at\<close> that no double can hold.
\<close>

definition huge_expiry :: "json \<Rightarrow> bool" where
  "huge_expiry v =
     (case jget v ''expires_at'' of Some (JInt i) \<Rightarrow> float_of_int i = Inl OverflowError | _ \<Rightarrow> False)"

lemma expires_at_raises_overflow:
  "expires_at_field fromiso v = Inl e \<Longrightarrow>
   validation_exn e \<or> (e = OverflowError \<and> (\<exists>i. v = JInt i \<and> float_of_int i = Inl OverflowError))"
  by (auto simp: validation_exn_def dest!: expires_at_raises dest: float_of_int_raises)

text \<open>The field checks as triples, for any exception predicate that allows a validation error.\<close>

lemma field_spec:
  assumes "validation_exn \<le> E"
  shows "rspec (uuid_field v name) canonical_uuid E"
    and "rspec (seq_field v) (\<lambda>i. 0 < i \<and> i \<le> 2 ^ 63 - 1) E"
    and "rspec (identifier_field v name) id_re E"
    and "rspec (op_field v) (\<lambda>s. s = ''ban'' \<or> s = ''unban'') E"
    and "rspec (bool_item v) (\<lambda>_. True) E"
    and "rspec (event_permanent op v) (\<lambda>p. op = ''ban'' \<longrightarrow> p \<noteq> None) E"
    and "rspec (ip_field v) claimable_ip E"
    and "rspec (check_fields what req allowed raw) (\<lambda>_. set req \<subseteq> set (jkeys raw)) E"
  using predicate1D [OF assms]
  by (auto simp: rspec_def seq_field_iff identifier_field_iff op_field_iff event_permanent_iff
        check_fields_iff uuid_field_canonical ip_field_claimable dest: field_raises split: sum.splits)

lemma item_field:
  "k \<in> set (jkeys raw) \<Longrightarrow> (\<And>v. map_of raw k = Some v \<Longrightarrow> rspec (f v) P E) \<Longrightarrow>
   rspec (rbind (item raw k) f) P E"
  by (drule item_present, elim exE) (simp add: item_iff [symmetric])

definition parse_exn :: "json \<Rightarrow> exn \<Rightarrow> bool" where
  "parse_exn v e = (validation_exn e \<or> (e = OverflowError \<and> huge_expiry v))"

lemma parse_exnI: "validation_exn \<le> parse_exn v"
  by (auto simp: parse_exn_def)

lemma expires_at_spec:
  "rspec (expires_at_field fromiso (get_item raw ''expires_at'')) (\<lambda>_. True) (parse_exn (JObj raw))"
  by (auto simp: rspec_def parse_exn_def huge_expiry_def jget_def get_item_def
        dest!: expires_at_raises_overflow split: sum.splits option.splits)

lemma parse_event_obj_spec: "rspec (parse_event fromiso (JObj raw)) event_ok (parse_exn (JObj raw))"
proof -
  note F = field_spec [OF parse_exnI]
  show ?thesis
    unfolding parse_event_def json.case
    apply (rule rspec_bind, rule F(8))
    apply (rule item_field, (simp add: event_required_def))
    apply (rule rspec_bind, rule F(4))
    apply (rule rspec_bind, rule F(6))
    apply (rule rspec_bind, rule expires_at_spec)
    apply (rule rspec_bind, rule item_field, (simp add: event_required_def), rule F(1))
    apply (rule rspec_bind, rule item_field, (simp add: event_required_def), rule F(2))
    apply (rule rspec_bind, rule item_field, (simp add: event_required_def), rule F(3))
    apply (rule rspec_bind, rule item_field, (simp add: event_required_def), rule F(1))
    apply (rule rspec_bind, rule item_field, (simp add: event_required_def), rule F(7))
    by (rule rspec_InrI) (simp add: event_ok_def)
qed

lemma parse_event_spec: "rspec (parse_event fromiso v) event_ok (parse_exn v)"
  using parse_event_obj_spec
  by (cases v) (simp_all add: parse_event_def rspec_def parse_exn_def validation_exn_def)

lemma parse_claim_obj_spec: "rspec (parse_claim fromiso (JObj raw)) claim_ok (parse_exn (JObj raw))"
proof -
  note F = field_spec [OF parse_exnI]
  have X: "rspec (expires_at_field fromiso w) (\<lambda>_. True) (parse_exn (JObj raw))"
    if "map_of raw ''expires_at'' = Some w" for w
    using expires_at_spec [of fromiso raw] that by (simp add: get_item_def)
  show ?thesis
    unfolding parse_claim_def json.case
    apply (rule rspec_bind, rule F(8))
    apply (rule rspec_bind, rule item_field, (simp add: claim_required_def), rule F(5))
    apply (rule rspec_bind, rule item_field, (simp add: claim_required_def), erule X)
    apply (rule rspec_bind, rule item_field, (simp add: claim_required_def), rule F(3))
    apply (rule rspec_bind, rule item_field, (simp add: claim_required_def), rule F(1))
    apply (rule rspec_bind, rule item_field, (simp add: claim_required_def), rule F(7))
    by (rule rspec_InrI) (simp add: claim_ok_def)
qed

lemma parse_claim_spec: "rspec (parse_claim fromiso v) claim_ok (parse_exn v)"
  using parse_claim_obj_spec
  by (cases v) (simp_all add: parse_claim_def rspec_def parse_exn_def validation_exn_def)

lemmas parse_event_ok = rspecD(1) [OF parse_event_spec]
lemmas parse_event_raises = rspecD(2) [OF parse_event_spec]
lemmas parse_claim_ok = rspecD(1) [OF parse_claim_spec]
lemmas parse_claim_raises = rspecD(2) [OF parse_claim_spec]

lemma event_permanent_wire:
  "op = ''ban'' \<longrightarrow> p \<noteq> None \<Longrightarrow> event_permanent op (json_opt_bool p) = Inr p"
  by (cases p) (auto simp: event_permanent_def json_opt_bool_def)

lemma parse_event_wire:
  assumes "event_ok e" "expiry_ok (ev_expires_at e)"
  shows "parse_event fromiso (event_wire e) = Inr e"
proof -
  have ex: "expires_at_field fromiso (json_opt_time (ev_expires_at e)) = Inr (ev_expires_at e)"
    by (rule expires_at_wire) (use assms(2) in \<open>simp add: expiry_ok_def\<close>)
  have op: "op_field (JStr (ev_op e)) = Inr (ev_op e)"
    using assms(1) by (simp add: op_field_iff event_ok_def)
  have sq: "seq_field (JInt (ev_seq e)) = Inr (ev_seq e)"
    using assms(1) by (simp add: seq_field_iff event_ok_def)
  have jl: "identifier_field (JStr (ev_jail e)) n = Inr (ev_jail e)" for n
    using assms(1) by (simp add: identifier_field_iff event_ok_def)
  have "event_permanent (ev_op e) (json_opt_bool (ev_permanent e)) = Inr (ev_permanent e)"
    by (rule event_permanent_wire) (use assms(1) in \<open>simp add: event_ok_def\<close>)
  moreover have "canonical_uuid (ev_event_id e)" "canonical_uuid (ev_ban_id e)" "claimable_ip (ev_ip e)"
    using assms(1) by (simp_all add: event_ok_def)
  ultimately show ?thesis
    using ex op sq jl
    by (simp add: parse_event_def event_wire_def check_fields_ok event_required_def jkeys_def item_def
          get_item_def uuid_field_idem ip_field_idem)
qed

lemma parse_claim_wire:
  assumes "claim_ok c" "expiry_ok (cl_expires_at c)"
  shows "parse_claim fromiso (claim_wire c) = Inr c"
proof -
  have ex: "expires_at_field fromiso (json_opt_time (cl_expires_at c)) = Inr (cl_expires_at c)"
    by (rule expires_at_wire) (use assms(2) in \<open>simp add: expiry_ok_def\<close>)
  have jl: "identifier_field (JStr (cl_jail c)) n = Inr (cl_jail c)" for n
    using assms(1) by (simp add: identifier_field_iff claim_ok_def)
  have "canonical_uuid (cl_ban_id c)" "claimable_ip (cl_ip c)"
    using assms(1) by (simp_all add: claim_ok_def)
  with ex jl show ?thesis
    by (simp add: parse_claim_def claim_wire_def check_fields_ok claim_required_def jkeys_def item_def
          bool_item_def uuid_field_idem ip_field_idem)
qed

subsection \<open>Batches\<close>

lemma strictly_increasing_sorted: "strictly_increasing xs \<longleftrightarrow> sorted_wrt (<) xs"
proof -
  have "list_all (\<lambda>(l, r). l < r) zs \<longleftrightarrow> \<not> list_ex (\<lambda>(l, r). l \<ge> r) zs" for zs :: "(int \<times> int) list"
    by (induction zs) auto
  with sorted_wrt_adjacent [of xs] show ?thesis by (simp add: strictly_increasing_def drop_Suc)
qed

text \<open>A batch as \<open>apply_events\<close> receives it.\<close>

definition batch_ok :: "event list \<Rightarrow> bool" where
  "batch_ok es =
     (es \<noteq> [] \<and> list_all event_ok es \<and> sorted_wrt (<) (map ev_seq es) \<and>
      distinct (map ev_event_id es))"

definition claims_ok :: "claim list \<Rightarrow> bool" where
  "claims_ok cs = (list_all claim_ok cs \<and> distinct (map claim_key cs))"

lemma rmap_parse_event_ok: "rmap (parse_event fromiso) raws = Inr es \<Longrightarrow> list_all event_ok es"
  by (auto simp: list_all_iff dest!: rmap_set parse_event_ok)

lemma rmap_parse_claim_ok: "rmap (parse_claim fromiso) raws = Inr cs \<Longrightarrow> list_all claim_ok cs"
  by (auto simp: list_all_iff dest!: rmap_set parse_claim_ok)

lemma validate_events_iff:
  "validate_events fromiso v m = Inr es \<longleftrightarrow>
     (\<exists>raws. v = JArr raws \<and> rmap (parse_event fromiso) raws = Inr es \<and> length es \<le> m \<and> batch_ok es)"
proof (cases v)
  case (JArr raws)
  show ?thesis
  proof (cases "rmap (parse_event fromiso) raws")
    case (Inl e)
    then show ?thesis by (simp add: validate_events_def JArr)
  next
    case (Inr fs)
    have len: "length raws = length fs" using rmap_length [OF Inr] by simp
    then have ne: "raws = [] \<longleftrightarrow> fs = []" by (cases raws; cases fs) simp_all
    show ?thesis
      using rmap_parse_event_ok [OF Inr] len ne
      by (auto simp: validate_events_def JArr Inr batch_ok_def strictly_increasing_sorted)
  qed
qed (simp_all add: validate_events_def)

lemma validate_snapshot_iff:
  "validate_snapshot fromiso sid seq v m = Inr (i, n, cs) \<longleftrightarrow>
     uuid_field sid ''snapshot_id'' = Inr i \<and> seq_field seq = Inr n \<and>
     (\<exists>raws. v = JArr raws \<and> rmap (parse_claim fromiso) raws = Inr cs \<and> length cs \<le> m \<and> claims_ok cs)"
proof (cases v)
  case (JArr raws)
  show ?thesis
  proof (cases "rmap (parse_claim fromiso) raws")
    case (Inl e)
    then show ?thesis by (simp add: validate_snapshot_def JArr result_simps)
  next
    case (Inr fs)
    show ?thesis
      using rmap_parse_claim_ok [OF Inr] rmap_length [OF Inr]
      by (auto simp: validate_snapshot_def JArr Inr claims_ok_def result_simps)
  qed
qed (simp_all add: validate_snapshot_def result_simps)

lemma rmap_event_wire:
  "list_all event_ok es \<Longrightarrow> list_all (\<lambda>e. expiry_ok (ev_expires_at e)) es \<Longrightarrow>
   rmap (parse_event fromiso) (map event_wire es) = Inr es"
  by (induction es) (auto simp: parse_event_wire)

lemma rmap_claim_wire:
  "list_all claim_ok cs \<Longrightarrow> list_all (\<lambda>c. expiry_ok (cl_expires_at c)) cs \<Longrightarrow>
   rmap (parse_claim fromiso) (map claim_wire cs) = Inr cs"
  by (induction cs) (auto simp: parse_claim_wire)

lemma validate_events_raises:
  assumes "validate_events fromiso v m = Inl x"
  shows "validation_exn x \<or> (x = OverflowError \<and> (\<exists>raws. v = JArr raws \<and> list_ex huge_expiry raws))"
proof (cases v)
  case (JArr raws)
  let ?E = "\<lambda>e. validation_exn e \<or> (e = OverflowError \<and> list_ex huge_expiry raws)"
  have "rspec (rmap (parse_event fromiso) raws) (list_all event_ok) ?E"
    by (rule rspec_rmap, rule rspec_mono [OF parse_event_spec]) (auto simp: parse_exn_def list_ex_iff)
  then show ?thesis
    using assms
    by (auto simp: validate_events_def JArr result_simps rspec_def split: if_splits sum.splits)
qed (use assms in \<open>auto simp: validate_events_def\<close>)

lemma validate_snapshot_raises:
  assumes "validate_snapshot fromiso sid seq v m = Inl x"
  shows "validation_exn x \<or> (x = OverflowError \<and> (\<exists>raws. v = JArr raws \<and> list_ex huge_expiry raws))"
proof (cases v)
  case (JArr raws)
  let ?E = "\<lambda>e. validation_exn e \<or> (e = OverflowError \<and> list_ex huge_expiry raws)"
  have "rspec (rmap (parse_claim fromiso) raws) (list_all claim_ok) ?E"
    by (rule rspec_rmap, rule rspec_mono [OF parse_claim_spec]) (auto simp: parse_exn_def list_ex_iff)
  then show ?thesis
    using assms field_raises(1) [of sid "''snapshot_id''" x] field_raises(2) [of seq x]
    by (auto simp: validate_snapshot_def JArr result_simps rspec_def split: if_splits sum.splits)
qed (use assms field_raises(1,2) in
      \<open>auto simp: validate_snapshot_def result_simps\<close>)

subsection \<open>Properties\<close>

text \<open>
  C3. What a validated event batch guarantees to the store: it is not empty and not longer than
  the configured maximum, sequence numbers lie between 1 and 2^63-1 and strictly increase, event
  ids do not repeat, every identifier and UUID is canonical, and every address is the canonical
  text of an unscoped address that is not a protected special-purpose one.
\<close>

theorem validate_events_guarantees:
  assumes "validate_events fromiso v m = Inr es"
  shows "es \<noteq> [] \<and> length es \<le> m \<and> sorted_wrt (<) (map ev_seq es) \<and>
    distinct (map ev_event_id es) \<and>
    (\<forall>e \<in> set es. 0 < ev_seq e \<and> ev_seq e < 2 ^ 63 \<and> id_re (ev_jail e) \<and>
       canonical_uuid (ev_event_id e) \<and> canonical_uuid (ev_ban_id e) \<and>
       (\<exists>a. ip_address (ev_ip e) = Inr a \<and> compressed a = ev_ip e \<and> \<not> is_protected a))"
  using assms
  by (auto simp: validate_events_iff batch_ok_def list_all_iff event_ok_def claimable_ip_iff
        split: sum.splits)

definition sample_event :: event where
  "sample_event = \<lparr>ev_event_id = ''00000000-0000-0000-0000-00000000000a'', ev_seq = 7, ev_op = ''ban'',
     ev_jail = ''sshd'', ev_ban_id = ''00000000-0000-0000-0000-0000000000b1'', ev_ip = ''203.0.113.7'',
     ev_permanent = Some True, ev_expires_at = Some 12345\<rparr>"

lemma sample_event_ok: "batch_ok [sample_event]"
  by code_simp

lemma validate_events_guarantees_witness:
  "distinct (map ev_event_id [sample_event])"
proof -
  have "expiry_ok (ev_expires_at sample_event)" by code_simp
  with sample_event_ok have "validate_events fi (JArr (map event_wire [sample_event])) 1 = Inr [sample_event]" for fi
    by (simp add: validate_events_iff batch_ok_def parse_event_wire)
  from validate_events_guarantees [OF this] show ?thesis by blast
qed

text \<open>
  C4. The wire form of a batch reads back unchanged: for events with a timestamp in the numeric
  range, the receiver's validation of the serialised batch returns the same batch, exactly when the
  batch is well-formed and within the maximum.
\<close>

theorem validate_events_roundtrip:
  assumes "list_all (\<lambda>e. event_ok e \<and> expiry_ok (ev_expires_at e)) es"
  shows "validate_events fromiso (JArr (map event_wire es)) m = Inr es \<longleftrightarrow>
    es \<noteq> [] \<and> length es \<le> m \<and> strictly_increasing (map ev_seq es) \<and> distinct (map ev_event_id es)"
proof -
  have "list_all event_ok es" "list_all (\<lambda>e. expiry_ok (ev_expires_at e)) es"
    using assms by (simp_all add: list_all_iff)
  then show ?thesis
    by (auto simp: validate_events_iff batch_ok_def rmap_event_wire strictly_increasing_sorted)
qed

lemma validate_events_roundtrip_witness:
  "validate_events (\<lambda>_. IsoInvalid) (JArr (map event_wire [sample_event])) 1 = Inr [sample_event]"
proof -
  have "list_all (\<lambda>e. event_ok e \<and> expiry_ok (ev_expires_at e)) [sample_event]" by code_simp
  from validate_events_roundtrip [OF this, of "\<lambda>_. IsoInvalid" 1]
  show ?thesis by (simp add: strictly_increasing_def)
qed

text \<open>
  What a validated snapshot guarantees: the identifier and sequence number are canonical, there
  are at most \<open>maximum\<close> claims, no two claims share a jail and ban id, and every claim carries
  canonical fields and an unprotected address.
\<close>

theorem validate_snapshot_guarantees:
  assumes "validate_snapshot fromiso sid seq v m = Inr (i, n, cs)"
  shows "canonical_uuid i \<and> 0 < n \<and> n < 2 ^ 63 \<and> length cs \<le> m \<and> distinct (map claim_key cs) \<and>
    (\<forall>c \<in> set cs. id_re (cl_jail c) \<and> canonical_uuid (cl_ban_id c) \<and>
       (\<exists>a. ip_address (cl_ip c) = Inr a \<and> compressed a = cl_ip c \<and> \<not> is_protected a))"
  using assms
  by (auto simp: validate_snapshot_iff claims_ok_def list_all_iff claim_ok_def claimable_ip_iff
        seq_field_iff split: sum.splits dest: uuid_field_canonical)

lemma validate_snapshot_guarantees_witness:
  "canonical_uuid ''00000000-0000-0000-0000-00000000000a''"
proof -
  have "validate_snapshot (\<lambda>_. IsoInvalid) (JStr ''00000000-0000-0000-0000-00000000000A'') (JInt 3)
      (JArr []) 0 = Inr (''00000000-0000-0000-0000-00000000000a'', 3, [])"
    by code_simp
  from validate_snapshot_guarantees [OF this] show ?thesis by blast
qed

text \<open>
  C5. Malformed batches are refused with a \<open>ValidationError\<close>, which the server answers with a 400.
  The one exception that escapes this class is \<open>OverflowError\<close>, raised by \<open>float()\<close> on an
  integer \<open>expires_at\<close> outside the range of a double.
\<close>

theorem validate_events_error_class:
  assumes "validate_events fromiso v m = Inl x"
  shows "(\<exists>msg. x = ValidationError msg) \<or>
    (x = OverflowError \<and> (\<exists>raws. v = JArr raws \<and> list_ex huge_expiry raws))"
  using validate_events_raises [OF assms] by (simp add: validation_exn_iff)

definition huge_event :: json where
  "huge_event = JObj [(''event_id'', JStr ''00000000-0000-0000-0000-00000000000a''), (''seq'', JInt 1),
     (''op'', JStr ''ban''), (''jail'', JStr ''sshd''),
     (''ban_id'', JStr ''00000000-0000-0000-0000-0000000000b1''), (''ip'', JStr ''203.0.113.7''),
     (''permanent'', JBool True), (''expires_at'', JInt (2 ^ 1024))]"

lemma huge_event_overflows:
  assumes "0 < maximum"
  shows "validate_events fi (JArr [huge_event]) maximum = Inl OverflowError" "huge_expiry huge_event"
proof -
  have over: "float_of_int (2 ^ 1024) = Inl OverflowError" by (rule float_of_int_pow2) simp_all
  then show "huge_expiry huge_event"
    unfolding huge_expiry_def huge_event_def jget_def by (simp del: power_numeral)
  have "parse_event fi huge_event = Inl OverflowError"
    using over unfolding parse_event_def huge_event_def
    by (simp add: check_fields_ok event_required_def jkeys_def item_def op_field_def get_item_def
          event_permanent_def expires_at_field_def del: power_numeral)
  with assms show "validate_events fi (JArr [huge_event]) maximum = Inl OverflowError"
    by (simp add: validate_events_def)
qed

lemma validate_events_error_class_witness:
  "validate_events (\<lambda>_. IsoInvalid) (JArr [huge_event]) 1 = Inl OverflowError \<and>
   list_ex huge_expiry [huge_event]"
  using validate_events_error_class [OF huge_event_overflows(1) [where maximum = 1 and fi = "\<lambda>_. IsoInvalid"]]
    huge_event_overflows(1) [where maximum = 1 and fi = "\<lambda>_. IsoInvalid"]
    huge_event_overflows(2) [where maximum = 1] by simp

end
