(* ===== verification/Table.thy ===== *)
theory Table
  imports Prelude
begin

text \<open>
  Relational tables as lists of rows in rowid order, with the statements the store issues: a
  select by key, an insert under a key constraint, an upsert, a delete. A key is a function of
  the row; a table is keyed when no two rows share it. The locale at the end states what the
  store's loops rely on, and it is interpreted on these definitions.
\<close>

definition keyed :: "('r \<Rightarrow> 'k) \<Rightarrow> 'r list \<Rightarrow> bool" where
  "keyed key t = distinct (map key t)"

definition tlookup :: "('r \<Rightarrow> 'k) \<Rightarrow> 'k \<Rightarrow> 'r list \<Rightarrow> 'r option" where
  "tlookup key k t = find (\<lambda>r. key r = k) t"

text \<open>\<open>INSERT\<close>: a row with a key that is present violates the constraint.\<close>

definition tinsert :: "('r \<Rightarrow> 'k) \<Rightarrow> 'r \<Rightarrow> 'r list \<Rightarrow> 'r list result" where
  "tinsert key r t = (if list_ex (\<lambda>x. key x = key r) t then Inl SqliteError else Inr (t @ [r]))"

text \<open>\<open>INSERT OR IGNORE\<close> keeps the row that is there.\<close>

definition tinsert_ignore :: "('r \<Rightarrow> 'k) \<Rightarrow> 'r \<Rightarrow> 'r list \<Rightarrow> 'r list" where
  "tinsert_ignore key r t = (if list_ex (\<lambda>x. key x = key r) t then t else t @ [r])"

text \<open>\<open>INSERT ... ON CONFLICT(key) DO UPDATE SET\<close> of every other column.\<close>

definition tupsert :: "('r \<Rightarrow> 'k) \<Rightarrow> 'r \<Rightarrow> 'r list \<Rightarrow> 'r list" where
  "tupsert key r t =
     (if list_ex (\<lambda>x. key x = key r) t then map (\<lambda>x. if key x = key r then r else x) t
      else t @ [r])"

definition tdelete :: "('r \<Rightarrow> bool) \<Rightarrow> 'r list \<Rightarrow> 'r list" where
  "tdelete p t = filter (\<lambda>r. \<not> p r) t"

definition tupdate :: "('r \<Rightarrow> bool) \<Rightarrow> ('r \<Rightarrow> 'r) \<Rightarrow> 'r list \<Rightarrow> 'r list" where
  "tupdate p f t = map (\<lambda>r. if p r then f r else r) t"

subsection \<open>Lookup\<close>

lemma tlookup_simps [simp]:
  "tlookup key k [] = None"
  "tlookup key k (r # t) = (if key r = k then Some r else tlookup key k t)"
  by (simp_all add: tlookup_def)

lemma tlookup_append:
  "tlookup key k (t @ u) = (case tlookup key k t of None \<Rightarrow> tlookup key k u | Some r \<Rightarrow> Some r)"
  by (induction t) auto

lemma tlookup_None: "tlookup key k t = None \<longleftrightarrow> k \<notin> key ` set t"
  by (induction t) auto

lemma tlookup_SomeD: "tlookup key k t = Some r \<Longrightarrow> r \<in> set t \<and> key r = k"
  by (induction t) (auto split: if_splits)

lemma list_ex_key: "list_ex (\<lambda>x. key x = k) t \<longleftrightarrow> k \<in> key ` set t"
  by (auto simp: list_ex_iff)

lemma list_ex_lookup: "list_ex (\<lambda>x. key x = k) t \<longleftrightarrow> tlookup key k t \<noteq> None"
  by (simp add: list_ex_key tlookup_None)

lemma keyed_simps [simp]: "keyed key []" "keyed key (r # t) \<longleftrightarrow> key r \<notin> key ` set t \<and> keyed key t"
  by (auto simp: keyed_def)

lemma keyed_append_row [simp]: "keyed key (t @ [r]) \<longleftrightarrow> keyed key t \<and> key r \<notin> key ` set t"
  by (auto simp: keyed_def)

lemma keyed_distinct: "keyed key t \<Longrightarrow> distinct t"
  by (auto simp: keyed_def distinct_map)

lemma tlookup_Some: "keyed key t \<Longrightarrow> tlookup key k t = Some r \<longleftrightarrow> r \<in> set t \<and> key r = k"
  by (induction t) (auto simp: image_iff)

lemma keyed_unique: "keyed key t \<Longrightarrow> r \<in> set t \<Longrightarrow> s \<in> set t \<Longrightarrow> key r = key s \<Longrightarrow> r = s"
  by (auto simp: keyed_def distinct_map dest: inj_onD)

subsection \<open>Statements\<close>

lemma tinsert_Inr: "tinsert key r t = Inr u \<longleftrightarrow> key r \<notin> key ` set t \<and> u = t @ [r]"
  by (auto simp: tinsert_def list_ex_key)

lemma tinsert_Inl: "tinsert key r t = Inl e \<longleftrightarrow> key r \<in> key ` set t \<and> e = SqliteError"
  by (auto simp: tinsert_def list_ex_key)

lemma tlookup_tinsert_ignore:
  "tlookup key k (tinsert_ignore key r t) =
     (if k = key r \<and> tlookup key k t = None then Some r else tlookup key k t)"
  by (auto simp: tinsert_ignore_def list_ex_lookup tlookup_append split: option.splits)

lemma keyed_tinsert_ignore: "keyed key t \<Longrightarrow> keyed key (tinsert_ignore key r t)"
  by (auto simp: tinsert_ignore_def list_ex_key)

lemma set_tinsert_ignore: "set (tinsert_ignore key r t) \<subseteq> insert r (set t)" "set t \<subseteq> set (tinsert_ignore key r t)"
  by (auto simp: tinsert_ignore_def)

lemma keys_tinsert_ignore: "key ` set (tinsert_ignore key r t) = insert (key r) (key ` set t)"
  by (auto simp: tinsert_ignore_def list_ex_key)

lemma tlookup_map_same:
  assumes "\<And>x. key (f x) = key x"
  shows "tlookup key k (map f t) = map_option f (tlookup key k t)"
  using assms by (induction t) auto

lemma keyed_map_same: "(\<And>x. key (f x) = key x) \<Longrightarrow> keyed key (map f t) \<longleftrightarrow> keyed key t"
  by (simp add: keyed_def o_def)

lemma keys_map_same: "(\<And>x. key (f x) = key x) \<Longrightarrow> key ` set (map f t) = key ` set t"
  by (simp add: image_image)

lemma tlookup_tupsert:
  "tlookup key k (tupsert key r t) = (if k = key r then Some r else tlookup key k t)"
proof (cases "list_ex (\<lambda>x. key x = key r) t")
  case True
  have "tlookup key k (map (\<lambda>x. if key x = key r then r else x) t) =
      map_option (\<lambda>x. if key x = key r then r else x) (tlookup key k t)"
    by (rule tlookup_map_same) simp
  with True show ?thesis
    by (cases "tlookup key k t")
       (auto simp: tupsert_def list_ex_lookup dest: tlookup_SomeD)
next
  case False
  then show ?thesis
    by (auto simp: tupsert_def list_ex_lookup tlookup_append split: option.splits)
qed

lemma keyed_tupsert: "keyed key t \<Longrightarrow> keyed key (tupsert key r t)"
proof (cases "list_ex (\<lambda>x. key x = key r) t")
  case True
  have "keyed key (map (\<lambda>x. if key x = key r then r else x) t) = keyed key t"
    by (rule keyed_map_same) simp
  with True show "keyed key t \<Longrightarrow> ?thesis" by (simp add: tupsert_def)
qed (auto simp: tupsert_def list_ex_key)

text \<open>An upsert on one key keeps another one, if only the replaced row may share it.\<close>

lemma keyed_tupsert_unique:
  assumes "keyed key t" "keyed other t" "\<And>x. x \<in> set t \<Longrightarrow> other x = other r \<Longrightarrow> key x = key r"
  shows "keyed other (tupsert key r t)"
proof (cases "list_ex (\<lambda>x. key x = key r) t")
  case False
  then have "other r \<notin> other ` set t" using assms(3) by (auto simp: list_ex_iff) metis
  with False assms(2) show ?thesis by (simp add: tupsert_def)
next
  case True
  have "keyed other (map (\<lambda>x. if key x = key r then r else x) t)"
    using assms
  proof (induction t)
    case (Cons x t)
    show ?case
    proof (cases "key x = key r")
      case True
      then have "\<forall>y \<in> set t. key y \<noteq> key r" using Cons.prems(1) imageI [of _ "set t" key] by (metis keyed_simps(2))
      moreover from this have "map (\<lambda>y. if key y = key r then r else y) t = t"
        by (simp add: map_idI)
      moreover have "other r \<notin> other ` set t" using Cons.prems(3) calculation(1) by force
      ultimately show ?thesis using True Cons.prems(2) by simp
    next
      case False
      have "other x \<noteq> other r" using False Cons.prems(3) [of x] by auto
      moreover have "keyed other (map (\<lambda>y. if key y = key r then r else y) t)"
        by (rule Cons.IH) (use Cons.prems in auto)
      ultimately show ?thesis using False Cons.prems(2) by (auto split: if_splits)
    qed
  qed simp
  with True show ?thesis by (simp add: tupsert_def)
qed

lemma set_tupsert: "set (tupsert key r t) \<subseteq> insert r (set t)"
  by (auto simp: tupsert_def)

lemma tlookup_tdelete:
  "keyed key t \<Longrightarrow> tlookup key k (tdelete p t) =
     (case tlookup key k t of None \<Rightarrow> None | Some r \<Rightarrow> if p r then None else Some r)"
proof (induction t)
  case (Cons a t)
  then have "tlookup key (key a) (tdelete p t) = None" "tlookup key (key a) t = None"
    by (auto simp: tlookup_None tdelete_def)
  with Cons show ?case by (auto simp: tdelete_def)
qed (simp add: tdelete_def)

lemma keyed_tdelete: "keyed key t \<Longrightarrow> keyed key (tdelete p t)"
  by (auto simp: keyed_def tdelete_def distinct_map_filter)

lemma set_tdelete [simp]: "set (tdelete p t) = {r \<in> set t. \<not> p r}"
  by (auto simp: tdelete_def)

lemma tlookup_tupdate:
  "(\<And>r. key (f r) = key r) \<Longrightarrow>
   tlookup key k (tupdate p f t) = map_option (\<lambda>r. if p r then f r else r) (tlookup key k t)"
  unfolding tupdate_def by (rule tlookup_map_same) simp

lemma keyed_tupdate: "(\<And>r. key (f r) = key r) \<Longrightarrow> keyed key (tupdate p f t) \<longleftrightarrow> keyed key t"
  unfolding tupdate_def by (rule keyed_map_same) simp

lemma keys_tupdate: "(\<And>r. key (f r) = key r) \<Longrightarrow> key ` set (tupdate p f t) = key ` set t"
  unfolding tupdate_def by (rule keys_map_same) simp

subsection \<open>The contract of a keyed table\<close>

text \<open>
  A table abstracts to a partial map from keys to rows: what a lookup finds after an insertion
  and after a deletion, and that both keep the key constraint. A sequence of operations then
  refines the corresponding sequence of map updates.
\<close>

datatype ('k, 'r) table_op = Put 'r | Drop 'k

locale keyed_table =
  fixes key :: "'r \<Rightarrow> 'k"
    and look :: "'k \<Rightarrow> 't \<Rightarrow> 'r option"
    and put :: "'r \<Rightarrow> 't \<Rightarrow> 't"
    and del :: "'k \<Rightarrow> 't \<Rightarrow> 't"
    and ok :: "'t \<Rightarrow> bool"
  assumes look_put: "ok t \<Longrightarrow> look k (put r t) = (if k = key r then Some r else look k t)"
    and look_del: "ok t \<Longrightarrow> look k (del k' t) = (if k = k' then None else look k t)"
    and ok_put: "ok t \<Longrightarrow> ok (put r t)"
    and ok_del: "ok t \<Longrightarrow> ok (del k t)"
begin

fun run :: "('k, 'r) table_op \<Rightarrow> 't \<Rightarrow> 't" where
  "run (Put r) t = put r t"
| "run (Drop k) t = del k t"

fun spec :: "('k, 'r) table_op \<Rightarrow> ('k \<Rightarrow> 'r option) \<Rightarrow> ('k \<Rightarrow> 'r option)" where
  "spec (Put r) m = m(key r \<mapsto> r)"
| "spec (Drop k) m = m(k := None)"

lemma run_ok: "ok t \<Longrightarrow> ok (run a t)"
  by (cases a) (auto intro: ok_put ok_del)

lemma run_refines: "ok t \<Longrightarrow> (\<lambda>k. look k (run a t)) = spec a (\<lambda>k. look k t)"
  by (cases a) (auto simp: look_put look_del)

lemma fold_refines:
  "ok t \<Longrightarrow> ok (fold run as t) \<and> (\<lambda>k. look k (fold run as t)) = fold spec as (\<lambda>k. look k t)"
  by (induction as arbitrary: t) (auto simp: run_ok run_refines)

lemma put_commute:
  "ok t \<Longrightarrow> key r \<noteq> key s \<Longrightarrow> look k (put r (put s t)) = look k (put s (put r t))"
  by (simp add: look_put ok_put)

end

interpretation row_table:
  keyed_table key "tlookup key" "tupsert key" "\<lambda>k. tdelete (\<lambda>r. key r = k)" "keyed key" for key
  by unfold_locales
     (auto simp: tlookup_tupsert tlookup_tdelete keyed_tupsert keyed_tdelete
       split: option.splits dest: tlookup_SomeD)

end
