(* ===== verification/ClaimStore.thy ===== *)
theory ClaimStore
  imports Validation Table
begin

text \<open>
  The durable half of \<^verbatim>\<open>src/f2bguard/store.py\<close>: the five tables, the statements that the
  methods of \<open>ClaimStore\<close> issue on them, and the methods themselves. A table is its rows in
  rowid order. A write method runs between \<open>BEGIN IMMEDIATE\<close> and \<open>COMMIT\<close>; an exception rolls
  back to the state before \<open>BEGIN\<close>. The clock reading \<open>now\<close> and the digest \<open>sha\<close> (hexadecimal
  SHA-256 of the encoded text) are arguments.
\<close>

record client_row =
  cs_client :: pystr
  cs_last_seq :: int
  cs_updated_at :: time

record claim_row =
  cr_client :: pystr
  cr_jail :: pystr
  cr_ban_id :: pystr
  cr_ip :: pystr
  cr_permanent :: bool
  cr_expires_at :: "time option"
  cr_updated_at :: time

record event_row =
  er_client :: pystr
  er_event_id :: pystr
  er_seq :: int
  er_payload_hash :: pystr
  er_op :: pystr
  er_jail :: pystr
  er_ban_id :: pystr
  er_ip :: pystr
  er_received_at :: time

record snapshot_row =
  sr_client :: pystr
  sr_snapshot_id :: pystr
  sr_seq :: int
  sr_payload_hash :: pystr
  sr_received_at :: time

record enforcement_row =
  en_desired_digest :: "pystr option"
  en_applied_digest :: "pystr option"
  en_applied_ipv4 :: int
  en_applied_ipv6 :: int
  en_last_attempt :: "time option"
  en_last_success :: "time option"
  en_last_error :: "pystr option"

record db =
  db_clients :: "client_row list"
  db_claims :: "claim_row list"
  db_events :: "event_row list"
  db_snapshots :: "snapshot_row list"
  db_enforcement :: enforcement_row

definition empty_db :: db where
  "empty_db = \<lparr>db_clients = [], db_claims = [], db_events = [], db_snapshots = [],
     db_enforcement = \<lparr>en_desired_digest = None, en_applied_digest = None, en_applied_ipv4 = 0,
       en_applied_ipv6 = 0, en_last_attempt = None, en_last_success = None, en_last_error = None\<rparr>\<rparr>"

record apply_result =
  ar_accepted :: bool
  ar_duplicate :: bool
  ar_stale :: bool
  ar_last_seq :: int

definition max_history_events :: nat where "max_history_events = 100000"
definition max_history_snapshots :: nat where "max_history_snapshots = 1000"
definition max_total_claims :: nat where "max_total_claims = 100000"

text \<open>The primary and unique keys of the schema.\<close>

definition claim_pk :: "claim_row \<Rightarrow> pystr \<times> pystr \<times> pystr" where
  "claim_pk r = (cr_client r, cr_jail r, cr_ban_id r)"

definition event_pk :: "event_row \<Rightarrow> pystr \<times> pystr" where
  "event_pk r = (er_client r, er_event_id r)"

definition event_uk :: "event_row \<Rightarrow> pystr \<times> int" where
  "event_uk r = (er_client r, er_seq r)"

definition snapshot_pk :: "snapshot_row \<Rightarrow> pystr \<times> pystr" where
  "snapshot_pk r = (sr_client r, sr_snapshot_id r)"

definition snapshot_uk :: "snapshot_row \<Rightarrow> pystr \<times> int" where
  "snapshot_uk r = (sr_client r, sr_seq r)"

text \<open>\<open>_payload_hash\<close>: the digest of the compact JSON text with sorted keys.\<close>

definition payload_hash :: "(pystr \<Rightarrow> pystr) \<Rightarrow> json \<Rightarrow> pystr" where
  "payload_hash sha v = sha (json_dumps True v)"

subsection \<open>Transactions\<close>

definition transaction :: "(db \<Rightarrow> (db \<times> 'a) result) \<Rightarrow> db \<Rightarrow> db \<times> 'a result" where
  "transaction body s = (case body s of Inl e \<Rightarrow> (s, Inl e) | Inr (s', x) \<Rightarrow> (s', Inr x))"

subsection \<open>Statements\<close>

text \<open>SQLite integers have 64 bits; binding a larger Python integer raises.\<close>

definition bind_int :: "int \<Rightarrow> int result" where
  "bind_int i = (if - (2 ^ 63) \<le> i \<and> i < 2 ^ 63 then Inr i else Inl OverflowError)"

definition touch_client :: "pystr \<Rightarrow> time \<Rightarrow> db \<Rightarrow> db" where
  "touch_client c now s = s\<lparr>db_clients :=
     tinsert_ignore cs_client \<lparr>cs_client = c, cs_last_seq = 0, cs_updated_at = now\<rparr> (db_clients s)\<rparr>"

text \<open>\<open>fetchone()[...]\<close> on an empty result subscripts \<open>None\<close>.\<close>

definition select_last_seq :: "pystr \<Rightarrow> db \<Rightarrow> int result" where
  "select_last_seq c s =
     (case tlookup cs_client c (db_clients s) of None \<Rightarrow> Inl TypeError | Some r \<Rightarrow> Inr (cs_last_seq r))"

definition select_event :: "pystr \<Rightarrow> pystr \<Rightarrow> db \<Rightarrow> (int \<times> pystr) option" where
  "select_event c i s =
     map_option (\<lambda>r. (er_seq r, er_payload_hash r)) (tlookup event_pk (c, i) (db_events s))"

definition select_snapshot :: "pystr \<Rightarrow> pystr \<Rightarrow> db \<Rightarrow> (int \<times> pystr) option" where
  "select_snapshot c i s =
     map_option (\<lambda>r. (sr_seq r, sr_payload_hash r)) (tlookup snapshot_pk (c, i) (db_snapshots s))"

definition select_claim_ip :: "pystr \<Rightarrow> pystr \<Rightarrow> pystr \<Rightarrow> db \<Rightarrow> pystr option" where
  "select_claim_ip c j b s = map_option cr_ip (tlookup claim_pk (c, j, b) (db_claims s))"

text \<open>A claim references its client: \<open>FOREIGN KEY (client_id)\<close> with \<open>foreign_keys=ON\<close>.\<close>

definition fk_ok :: "pystr \<Rightarrow> db \<Rightarrow> bool" where
  "fk_ok c s = list_ex (\<lambda>r. cs_client r = c) (db_clients s)"

definition upsert_claim :: "claim_row \<Rightarrow> db \<Rightarrow> db result" where
  "upsert_claim r s =
     (if fk_ok (cr_client r) s then Inr (s\<lparr>db_claims := tupsert claim_pk r (db_claims s)\<rparr>)
      else Inl SqliteError)"

definition insert_claim :: "claim_row \<Rightarrow> db \<Rightarrow> db result" where
  "insert_claim r s =
     (if fk_ok (cr_client r) s
      then rbind (tinsert claim_pk r (db_claims s)) (\<lambda>t. Inr (s\<lparr>db_claims := t\<rparr>))
      else Inl SqliteError)"

definition delete_claim :: "pystr \<Rightarrow> pystr \<Rightarrow> pystr \<Rightarrow> pystr \<Rightarrow> db \<Rightarrow> db" where
  "delete_claim c j b ip s = s\<lparr>db_claims :=
     tdelete (\<lambda>r. cr_client r = c \<and> cr_jail r = j \<and> cr_ban_id r = b \<and> cr_ip r = ip) (db_claims s)\<rparr>"

definition delete_client_claims :: "pystr \<Rightarrow> db \<Rightarrow> db" where
  "delete_client_claims c s = s\<lparr>db_claims := tdelete (\<lambda>r. cr_client r = c) (db_claims s)\<rparr>"

text \<open>An insert into a table with a primary and a unique key.\<close>

definition insert_event :: "event_row \<Rightarrow> db \<Rightarrow> db result" where
  "insert_event r s =
     rbind (bind_int (er_seq r)) (\<lambda>_.
     rbind (tinsert event_pk r (db_events s)) (\<lambda>_.
     rbind (tinsert event_uk r (db_events s)) (\<lambda>t.
       Inr (s\<lparr>db_events := t\<rparr>))))"

definition insert_snapshot :: "snapshot_row \<Rightarrow> db \<Rightarrow> db result" where
  "insert_snapshot r s =
     rbind (bind_int (sr_seq r)) (\<lambda>_.
     rbind (tinsert snapshot_pk r (db_snapshots s)) (\<lambda>_.
     rbind (tinsert snapshot_uk r (db_snapshots s)) (\<lambda>t.
       Inr (s\<lparr>db_snapshots := t\<rparr>))))"

definition count_client_claims :: "pystr \<Rightarrow> db \<Rightarrow> nat" where
  "count_client_claims c s = length (filter (\<lambda>r. cr_client r = c) (db_claims s))"

definition count_claims :: "db \<Rightarrow> nat" where
  "count_claims s = length (db_claims s)"

definition update_client :: "pystr \<Rightarrow> int \<Rightarrow> time \<Rightarrow> db \<Rightarrow> db" where
  "update_client c seq now s = s\<lparr>db_clients :=
     tupdate (\<lambda>r. cs_client r = c) (\<lambda>r. r\<lparr>cs_last_seq := seq, cs_updated_at := now\<rparr>) (db_clients s)\<rparr>"

text \<open>
  \<open>DELETE ... WHERE rowid IN (SELECT rowid ... ORDER BY received_at DESC,seq DESC LIMIT -1
  OFFSET n)\<close>: all of the client's rows but the \<open>n\<close> newest.
\<close>

definition trim_events :: "pystr \<Rightarrow> nat \<Rightarrow> db \<Rightarrow> db" where
  "trim_events c n s =
     (let mine = sort_key (\<lambda>r. (- er_received_at r, - er_seq r)) (filter (\<lambda>r. er_client r = c) (db_events s));
          doomed = drop n mine in
      s\<lparr>db_events := tdelete (\<lambda>r. r \<in> set doomed) (db_events s)\<rparr>)"

definition trim_snapshots :: "pystr \<Rightarrow> nat \<Rightarrow> db \<Rightarrow> db" where
  "trim_snapshots c n s =
     (let mine = sort_key (\<lambda>r. (- sr_received_at r, - sr_seq r)) (filter (\<lambda>r. sr_client r = c) (db_snapshots s));
          doomed = drop n mine in
      s\<lparr>db_snapshots := tdelete (\<lambda>r. r \<in> set doomed) (db_snapshots s)\<rparr>)"

subsection \<open>Applying events\<close>

definition claim_row_of_event :: "pystr \<Rightarrow> time \<Rightarrow> event \<Rightarrow> claim_row" where
  "claim_row_of_event c now e =
     \<lparr>cr_client = c, cr_jail = ev_jail e, cr_ban_id = ev_ban_id e, cr_ip = ev_ip e,
      cr_permanent = (ev_permanent e = Some True), cr_expires_at = ev_expires_at e, cr_updated_at = now\<rparr>"

definition event_row_of :: "pystr \<Rightarrow> time \<Rightarrow> pystr \<Rightarrow> event \<Rightarrow> event_row" where
  "event_row_of c now digest e =
     \<lparr>er_client = c, er_event_id = ev_event_id e, er_seq = ev_seq e, er_payload_hash = digest,
      er_op = ev_op e, er_jail = ev_jail e, er_ban_id = ev_ban_id e, er_ip = ev_ip e,
      er_received_at = now\<rparr>"

text \<open>The body of the loop over \<open>zip(events, hashes)\<close>.\<close>

definition apply_claim_change :: "pystr \<Rightarrow> time \<Rightarrow> event \<Rightarrow> db \<Rightarrow> db result" where
  "apply_claim_change c now e s =
     (let current = select_claim_ip c (ev_jail e) (ev_ban_id e) s in
      if ev_op e = ''ban''
      then (if current \<noteq> None \<and> current \<noteq> Some (ev_ip e)
            then Inl (StoreConflict ''ban identity cannot change IP'')
            else upsert_claim (claim_row_of_event c now e) s)
      else (if current \<noteq> None \<and> current \<noteq> Some (ev_ip e)
            then Inl (StoreConflict ''unban IP does not match the existing claim'')
            else Inr (delete_claim c (ev_jail e) (ev_ban_id e) (ev_ip e) s)))"

definition apply_event :: "pystr \<Rightarrow> time \<Rightarrow> event \<times> pystr \<Rightarrow> db \<Rightarrow> db result" where
  "apply_event c now p s =
     rbind (apply_claim_change c now (fst p) s) (insert_event (event_row_of c now (snd p) (fst p)))"

definition reused_event :: "event \<Rightarrow> pystr \<Rightarrow> (int \<times> pystr) option \<Rightarrow> bool" where
  "reused_event e digest prior =
     (case prior of None \<Rightarrow> False | Some (q, h) \<Rightarrow> q \<noteq> ev_seq e \<or> h \<noteq> digest)"

text \<open>The body of \<open>apply_events\<close> between \<open>BEGIN IMMEDIATE\<close> and \<open>COMMIT\<close>.\<close>

definition apply_events_body ::
  "(pystr \<Rightarrow> pystr) \<Rightarrow> pystr \<Rightarrow> event list \<Rightarrow> nat \<Rightarrow> time \<Rightarrow> db \<Rightarrow> (db \<times> apply_result) result" where
  "apply_events_body sha c events claims_limit now s0 =
     (let hashes = map (\<lambda>e. payload_hash sha (event_wire e)) events;
          s1 = touch_client c now s0 in
      rbind (select_last_seq c s1) (\<lambda>last_seq.
      let existing = map (\<lambda>e. select_event c (ev_event_id e) s1) events in
      if list_ex (\<lambda>(e, digest, prior). reused_event e digest prior) (zip events (zip hashes existing))
      then Inl (StoreConflict ''event_id was reused with different content'')
      else if ev_seq (hd events) \<le> last_seq
      then (if last_seq < ev_seq (last events)
            then Inl (StoreConflict ''event batch crosses the stored sequence boundary'')
            else if list_all (\<lambda>p. p \<noteq> None) existing
            then Inr (s1, \<lparr>ar_accepted = True, ar_duplicate = True, ar_stale = False, ar_last_seq = last_seq\<rparr>)
            else Inr (s1, \<lparr>ar_accepted = True, ar_duplicate = False, ar_stale = True, ar_last_seq = last_seq\<rparr>))
      else if list_ex (\<lambda>p. p \<noteq> None) existing
      then Inl (StoreConflict ''new event batch contains a previously used event_id'')
      else rbind (rfold (apply_event c now) (zip events hashes) s1) (\<lambda>s2.
        if claims_limit < count_client_claims c s2
        then Inl (StoreLimit ''claims_per_client limit exceeded'')
        else if max_total_claims < count_claims s2
        then Inl (StoreLimit ''global claim limit exceeded'')
        else (let new_seq = ev_seq (last events);
                  s3 = update_client c new_seq now s2;
                  s4 = trim_events c max_history_events s3 in
              Inr (s4, \<lparr>ar_accepted = True, ar_duplicate = False, ar_stale = False, ar_last_seq = new_seq\<rparr>)))))"

definition apply_events ::
  "(pystr \<Rightarrow> pystr) \<Rightarrow> pystr \<Rightarrow> event list \<Rightarrow> nat \<Rightarrow> time \<Rightarrow> db \<Rightarrow> db \<times> apply_result result" where
  "apply_events sha c events claims_limit now s =
     (if events = [] then (s, Inl (ValidationError ''events must not be empty''))
      else if \<not> strictly_increasing (map ev_seq events)
      then (s, Inl (ValidationError ''event seq values must strictly increase''))
      else transaction (apply_events_body sha c events claims_limit now) s)"

subsection \<open>Applying a snapshot\<close>

definition claim_row_of :: "pystr \<Rightarrow> time \<Rightarrow> claim \<Rightarrow> claim_row" where
  "claim_row_of c now cl =
     \<lparr>cr_client = c, cr_jail = cl_jail cl, cr_ban_id = cl_ban_id cl, cr_ip = cl_ip cl,
      cr_permanent = cl_permanent cl, cr_expires_at = cl_expires_at cl, cr_updated_at = now\<rparr>"

definition snapshot_payload :: "pystr \<Rightarrow> int \<Rightarrow> claim list \<Rightarrow> json" where
  "snapshot_payload sid seq cls =
     JObj [(''snapshot_id'', JStr sid), (''seq'', JInt seq), (''claims'', JArr (map claim_wire cls))]"

text \<open>\<open>existing_claims.get(key)\<close> on the dictionary built from the client's rows: the last row wins.\<close>

definition existing_ip :: "pystr \<Rightarrow> db \<Rightarrow> pystr \<times> pystr \<Rightarrow> pystr option" where
  "existing_ip c s k =
     map_of (rev (map (\<lambda>r. ((cr_jail r, cr_ban_id r), cr_ip r)) (filter (\<lambda>r. cr_client r = c) (db_claims s)))) k"

definition rebinds :: "pystr \<Rightarrow> db \<Rightarrow> claim \<Rightarrow> bool" where
  "rebinds c s cl =
     (case existing_ip c s (claim_key cl) of None \<Rightarrow> False | Some ip \<Rightarrow> ip \<noteq> cl_ip cl)"

definition apply_snapshot_body ::
  "(pystr \<Rightarrow> pystr) \<Rightarrow> pystr \<Rightarrow> pystr \<Rightarrow> int \<Rightarrow> claim list \<Rightarrow> time \<Rightarrow> db \<Rightarrow> (db \<times> apply_result) result" where
  "apply_snapshot_body sha c sid seq cls now s0 =
     (let digest = payload_hash sha (snapshot_payload sid seq cls);
          s1 = touch_client c now s0 in
      rbind (select_last_seq c s1) (\<lambda>last_seq.
      let prior = select_snapshot c sid s1 in
      if (case prior of None \<Rightarrow> False | Some (q, h) \<Rightarrow> q \<noteq> seq \<or> h \<noteq> digest)
      then Inl (StoreConflict ''snapshot_id was reused with different content'')
      else if seq \<le> last_seq
      then Inr (s1, \<lparr>ar_accepted = True, ar_duplicate = (prior \<noteq> None), ar_stale = (prior = None),
                     ar_last_seq = last_seq\<rparr>)
      else if list_ex (rebinds c s1) cls
      then Inl (StoreConflict ''snapshot cannot rebind a claim identity to a new IP'')
      else rbind (rfold (\<lambda>cl. insert_claim (claim_row_of c now cl)) cls (delete_client_claims c s1)) (\<lambda>s2.
        if max_total_claims < count_claims s2
        then Inl (StoreLimit ''global claim limit exceeded'')
        else rbind (insert_snapshot \<lparr>sr_client = c, sr_snapshot_id = sid, sr_seq = seq,
                      sr_payload_hash = digest, sr_received_at = now\<rparr> s2) (\<lambda>s3.
          let s4 = update_client c seq now s3;
              s5 = trim_snapshots c max_history_snapshots s4 in
          Inr (s5, \<lparr>ar_accepted = True, ar_duplicate = False, ar_stale = False, ar_last_seq = seq\<rparr>)))))"

definition apply_snapshot ::
  "(pystr \<Rightarrow> pystr) \<Rightarrow> pystr \<Rightarrow> pystr \<Rightarrow> int \<Rightarrow> claim list \<Rightarrow> nat \<Rightarrow> time \<Rightarrow> db \<Rightarrow> db \<times> apply_result result" where
  "apply_snapshot sha c sid seq cls claims_limit now s =
     (if claims_limit < length cls then (s, Inl (StoreLimit ''claims_per_client limit exceeded''))
      else transaction (apply_snapshot_body sha c sid seq cls now) s)"

subsection \<open>Queries\<close>

definition in_force :: "time \<Rightarrow> claim_row \<Rightarrow> bool" where
  "in_force boundary r =
     (cr_permanent r \<and> (case cr_expires_at r of None \<Rightarrow> True | Some x \<Rightarrow> boundary < x))"

definition addr_key :: "pystr \<Rightarrow> nat" where
  "addr_key s = (case ip_address s of Inl _ \<Rightarrow> 0 | Inr a \<Rightarrow> ip_int a)"

text \<open>The loop over the rows and the two sorted lists.\<close>

definition split_families :: "pystr list \<Rightarrow> (pystr list \<times> pystr list) result" where
  "split_families ips =
     rbind (rmap ip_address ips) (\<lambda>as.
       let v4 = remdups (map compressed (filter (\<lambda>a. ip_version a = 4) as));
           v6 = remdups (map compressed (filter (\<lambda>a. ip_version a \<noteq> 4) as)) in
       Inr (sort_key addr_key v4, sort_key addr_key v6))"

definition effective_ips :: "time \<Rightarrow> db \<Rightarrow> (pystr list \<times> pystr list) result" where
  "effective_ips boundary s =
     split_families (remdups (map cr_ip (filter (in_force boundary) (db_claims s))))"

definition client_effective_ips :: "pystr \<Rightarrow> time \<Rightarrow> db \<Rightarrow> (pystr list \<times> pystr list) result" where
  "client_effective_ips c boundary s =
     split_families (remdups (map cr_ip
       (filter (\<lambda>r. cr_client r = c \<and> in_force boundary r) (db_claims s))))"

record client_status =
  st_client_id :: pystr
  st_last_seq :: int
  st_claim_count :: nat
  st_effective_claim_count :: nat
  st_updated_at :: "time option"
  st_last_attempt :: "time option"
  st_last_success :: "time option"
  st_last_error :: "pystr option"

definition client_status :: "pystr \<Rightarrow> time \<Rightarrow> db \<Rightarrow> client_status" where
  "client_status c boundary s =
     (let state = tlookup cs_client c (db_clients s);
          mine = filter (\<lambda>r. cr_client r = c) (db_claims s) in
      \<lparr>st_client_id = c,
       st_last_seq = (case state of None \<Rightarrow> 0 | Some r \<Rightarrow> cs_last_seq r),
       st_claim_count = length mine,
       st_effective_claim_count = sum_list (map (\<lambda>r. if in_force boundary r then 1 else 0) mine),
       st_updated_at = map_option cs_updated_at state,
       st_last_attempt = en_last_attempt (db_enforcement s),
       st_last_success = en_last_success (db_enforcement s),
       st_last_error = en_last_error (db_enforcement s)\<rparr>)"

subsection \<open>Enforcement records and history\<close>

definition record_enforcement_attempt :: "pystr \<Rightarrow> time \<Rightarrow> db \<Rightarrow> db" where
  "record_enforcement_attempt desired now s = s\<lparr>db_enforcement :=
     (db_enforcement s)\<lparr>en_desired_digest := Some desired, en_last_attempt := Some now\<rparr>\<rparr>"

definition record_enforcement_success ::
  "pystr \<Rightarrow> pystr option \<Rightarrow> int \<Rightarrow> int \<Rightarrow> time \<Rightarrow> db \<Rightarrow> db result" where
  "record_enforcement_success desired applied ipv4 ipv6 now s =
     rbind (bind_int ipv4) (\<lambda>n4. rbind (bind_int ipv6) (\<lambda>n6. Inr (s\<lparr>db_enforcement :=
       \<lparr>en_desired_digest = Some desired, en_applied_digest = applied, en_applied_ipv4 = n4,
        en_applied_ipv6 = n6, en_last_attempt = Some now, en_last_success = Some now,
        en_last_error = None\<rparr>\<rparr>)))"

definition record_enforcement_failure :: "pystr \<Rightarrow> pystr \<Rightarrow> time \<Rightarrow> db \<Rightarrow> db" where
  "record_enforcement_failure desired msg now s = s\<lparr>db_enforcement :=
     (db_enforcement s)\<lparr>en_desired_digest := Some desired, en_last_attempt := Some now,
        en_last_error := Some (take 1024 msg)\<rparr>\<rparr>"

definition prune_history :: "nat \<Rightarrow> time \<Rightarrow> db \<Rightarrow> db \<times> nat" where
  "prune_history history_days now s =
     (let boundary = now - of_nat history_days * 86400;
          evs = tdelete (\<lambda>r. er_received_at r < boundary) (db_events s);
          sns = tdelete (\<lambda>r. sr_received_at r < boundary) (db_snapshots s) in
      (s\<lparr>db_events := evs, db_snapshots := sns\<rparr>,
       (length (db_events s) - length evs) + (length (db_snapshots s) - length sns)))"

end
