(* ===== verification/TrustedFile.thy ===== *)
theory TrustedFile
  imports Networks "HOL-Library.Word"
begin

text \<open>
  The trusted whitelist file, which the PF helper (\<^verbatim>\<open>pf_helper.py\<close>) and the server
  (\<^verbatim>\<open>server.py\<close>) both read: the walk over the parent directories, the checks on the opened
  file, and the line format. The file system is an argument: \<open>fs_lstat\<close> is \<open>lstat\<close>, \<open>fs_open\<close> is
  \<open>os.open\<close> with \<open>O_NOFOLLOW\<close> followed by \<open>fstat\<close>, together with the bytes of the file. A string
  of bytes is a string of characters below 256.
\<close>

unbundle bit_operations_syntax

datatype file_kind = Directory | Regular | Symlink | SocketKind | OtherKind

record file_info =
  fi_kind :: file_kind
  fi_uid :: nat
  fi_mode :: nat
  fi_size :: nat

record fs =
  fs_lstat :: "pystr \<Rightarrow> file_info result"
  fs_open :: "pystr \<Rightarrow> (file_info \<times> pystr) result"

subsection \<open>Paths\<close>

text \<open>\<open>PurePosixPath\<close>: empty and \<open>.\<close> components vanish, \<open>..\<close> stays.\<close>

definition path_parts :: "pystr \<Rightarrow> pystr list" where
  "path_parts p = filter (\<lambda>x. x \<noteq> '''' \<and> x \<noteq> ''.'') (py_split (CHR ''/'') p)"

definition path_root :: "pystr \<Rightarrow> pystr" where
  "path_root p =
     (if starts_with ''//'' p \<and> \<not> starts_with ''///'' p then ''//''
      else if starts_with ''/'' p then ''/'' else '''')"

definition is_absolute :: "pystr \<Rightarrow> bool" where
  "is_absolute p = (path_root p \<noteq> '''')"

definition path_text :: "pystr \<Rightarrow> pystr list \<Rightarrow> pystr" where
  "path_text anchor parts = anchor @ py_join ''/'' parts"

definition path_str :: "pystr \<Rightarrow> pystr" where
  "path_str p = path_text (path_root p) (path_parts p)"

text \<open>\<open>reversed(p.parents)\<close>, from the root downwards.\<close>

definition parents_from_root :: "pystr \<Rightarrow> pystr list" where
  "parents_from_root p =
     map (\<lambda>i. path_text (path_root p) (take i (path_parts p))) [0 ..< length (path_parts p)]"

definition group_or_world_writable :: "nat \<Rightarrow> bool" where
  "group_or_world_writable mode = (mode AND 18 \<noteq> 0)"

definition trusted_dir :: "nat \<Rightarrow> file_info \<Rightarrow> bool" where
  "trusted_dir owner i =
     (fi_kind i = Directory \<and> fi_uid i = owner \<and> \<not> group_or_world_writable (fi_mode i))"

definition trusted_regular :: "nat \<Rightarrow> file_info \<Rightarrow> bool" where
  "trusted_regular owner i =
     (fi_kind i = Regular \<and> fi_uid i = owner \<and> \<not> group_or_world_writable (fi_mode i))"

text \<open>The walk over the parents, with the exception for an unsafe one.\<close>

fun check_parents :: "fs \<Rightarrow> nat \<Rightarrow> exn \<Rightarrow> pystr list \<Rightarrow> unit result" where
  "check_parents fs owner unsafe [] = Inr ()"
| "check_parents fs owner unsafe (d # ds) =
     rbind (fs_lstat fs d) (\<lambda>i.
       if \<not> trusted_dir owner i then Inl unsafe else check_parents fs owner unsafe ds)"

definition decode_ascii :: "pystr \<Rightarrow> pystr result" where
  "decode_ascii b = (if all_ascii b then Inr b else Inl UnicodeDecodeError)"

text \<open>Text mode translates the line ends of the file to a newline.\<close>

fun universal_newlines :: "pystr \<Rightarrow> pystr" where
  "universal_newlines [] = []"
| "universal_newlines (c # s) =
     (if c = CHR 0x0D
      then CHR 0x0A # (case s of [] \<Rightarrow> [] | d # t \<Rightarrow> if d = CHR 0x0A then universal_newlines t else universal_newlines s)
      else c # universal_newlines s)"

subsection \<open>Lines\<close>

text \<open>The loop of both \<open>parse_whitelist\<close> functions; only the exceptions differ.\<close>

fun whitelist_loop :: "exn \<Rightarrow> exn \<Rightarrow> exn \<Rightarrow> nat \<Rightarrow> pystr list \<Rightarrow> ip_network list \<Rightarrow> ip_network list result" where
  "whitelist_loop scoped invalid many maximum [] acc = Inr acc"
| "whitelist_loop scoped invalid many maximum (line # lines) acc =
     (let v = py_strip line in
      if v = '''' \<or> starts_with ''#'' v then whitelist_loop scoped invalid many maximum lines acc
      else if CHR ''%'' \<in> set v then Inl scoped
      else (case ip_network_of_text False v of
              Inl _ \<Rightarrow> Inl invalid
            | Inr n \<Rightarrow>
                if maximum < length (acc @ [n]) then Inl many
                else whitelist_loop scoped invalid many maximum lines (acc @ [n])))"

lemma check_parents_iff:
  "check_parents fs owner unsafe ds = Inr u \<longleftrightarrow>
     (\<forall>d \<in> set ds. \<exists>i. fs_lstat fs d = Inr i \<and> trusted_dir owner i)"
  by (induction ds) (auto simp: result_simps)

text \<open>A line that holds an entry, and the networks of a text that parses.\<close>

definition entry_line :: "pystr \<Rightarrow> bool" where
  "entry_line line = (py_strip line \<noteq> '''' \<and> \<not> starts_with ''#'' (py_strip line))"

lemma whitelist_loop_iff:
  "whitelist_loop scoped invalid many maximum lines acc = Inr ns \<longleftrightarrow>
     (\<exists>new. ns = acc @ new \<and> (new = [] \<or> length ns \<le> maximum) \<and>
        list_all2 (\<lambda>l n. CHR ''%'' \<notin> set (py_strip l) \<and> ip_network_of_text False (py_strip l) = Inr n)
          (filter entry_line lines) new)"
proof (induction lines arbitrary: acc)
  case Nil
  then show ?case by auto
next
  case (Cons line lines)
  let ?P = "\<lambda>l n. CHR ''%'' \<notin> set (py_strip l) \<and> ip_network_of_text False (py_strip l) = Inr n"
  show ?case
  proof (cases "entry_line line")
    case False
    then have "whitelist_loop scoped invalid many maximum (line # lines) acc =
        whitelist_loop scoped invalid many maximum lines acc"
      by (auto simp: entry_line_def Let_def)
    with False Cons [of acc] show ?thesis by simp
  next
    case entry: True
    show ?thesis
    proof (cases "\<exists>n. ?P line n")
      case False
      then have "\<nexists>ns. whitelist_loop scoped invalid many maximum (line # lines) acc = Inr ns"
        using entry by (auto simp: entry_line_def Let_def split: sum.splits)
      with False entry show ?thesis by (auto simp: list_all2_Cons1)
    next
      case True
      then obtain n where n: "?P line n" by blast
      then have loop: "whitelist_loop scoped invalid many maximum (line # lines) acc =
          (if maximum < length (acc @ [n]) then Inl many
           else whitelist_loop scoped invalid many maximum lines (acc @ [n]))"
        using entry by (simp add: entry_line_def Let_def)
      have "(\<exists>new. ns = acc @ new \<and> (new = [] \<or> length ns \<le> maximum) \<and>
            list_all2 ?P (filter entry_line (line # lines)) new) \<longleftrightarrow>
          length (acc @ [n]) \<le> maximum \<and>
          (\<exists>new. ns = (acc @ [n]) @ new \<and> (new = [] \<or> length ns \<le> maximum) \<and>
            list_all2 ?P (filter entry_line lines) new)"
        using entry n by (auto simp: list_all2_Cons1)
      with loop Cons [of "acc @ [n]"] show ?thesis by auto
    qed
  qed
qed

lemma whitelist_loop_ok:
  assumes "whitelist_loop scoped invalid many maximum lines [] = Inr ns"
  shows "list_all network_ok ns" "length ns \<le> maximum"
proof -
  from assms obtain lines' where l: "list_all2 (\<lambda>l n. CHR ''%'' \<notin> set (py_strip l) \<and>
        ip_network_of_text False (py_strip l) = Inr n) lines' ns" and len: "ns = [] \<or> length ns \<le> maximum"
    by (auto simp: whitelist_loop_iff)
  from l show "list_all network_ok ns"
    by (induction rule: list_all2_induct) (auto dest: ip_network_of_text_ok)
  from len show "length ns \<le> maximum" by auto
qed

lemma whitelist_raises:
  "whitelist_loop scoped invalid many maximum lines acc = Inl e \<Longrightarrow> e \<in> {scoped, invalid, many}"
  by (induction lines arbitrary: acc)
     (auto simp: Let_def split: if_splits sum.splits)

end
