(* ===== verification/Config.thy ===== *)
theory Config
  imports Validation TrustedFile
begin

text \<open>
  \<^verbatim>\<open>src/f2bguard/config.py\<close>: the strict JSON reader that the configuration, the HTTP bodies and
  the helper's responses share, the parser of the configuration, the lookup of a client by the
  fingerprint of its certificate, and the secure reading of the file.
\<close>

subsection \<open>Strict JSON\<close>

text \<open>\<open>str(exc)\<close> where the exception carries its message in the model.\<close>

definition exn_text :: "exn \<Rightarrow> pystr" where
  "exn_text e = (case e of JSONDecodeError m \<Rightarrow> m | ConfigError m \<Rightarrow> m | ValidationError m \<Rightarrow> m
     | StoreConflict m \<Rightarrow> m | StoreLimit m \<Rightarrow> m | EnforcementError m \<Rightarrow> m | PermissionError m \<Rightarrow> m
     | HelperError m \<Rightarrow> m | RuntimeError m \<Rightarrow> m | _ \<Rightarrow> '''')"

definition duplicate_key :: "pystr \<Rightarrow> exn" where
  "duplicate_key k = ConfigError (''duplicate JSON key: '' @ k)"

definition config_unique_object :: "(pystr \<times> json) list \<Rightarrow> (pystr \<times> json) list result" where
  "config_unique_object = unique_object duplicate_key []"

definition reject_constant :: "pystr \<Rightarrow> json result" where
  "reject_constant c = Inl (ConfigError (''invalid JSON number: '' @ c))"

definition strict_json_loads :: "(pystr \<Rightarrow> jraw result) \<Rightarrow> pystr \<Rightarrow> json result" where
  "strict_json_loads scan data =
     (case rbind (scan data) (decode_raw duplicate_key reject_constant) of
        Inr v \<Rightarrow> Inr v
      | Inl e \<Rightarrow>
          (case e of
             JSONDecodeError m \<Rightarrow> Inl (ConfigError (''invalid JSON: '' @ exn_text e))
           | UnicodeDecodeError \<Rightarrow> Inl (ConfigError (''invalid JSON: '' @ exn_text e))
           | _ \<Rightarrow> Inl e))"

subsection \<open>Typed fields\<close>

definition expect_dict :: "json \<Rightarrow> pystr \<Rightarrow> (pystr \<times> json) list result" where
  "expect_dict v name = (case v of JObj d \<Rightarrow> Inr d | _ \<Rightarrow> Inl (ConfigError (name @ '' must be an object'')))"

definition reject_unknown :: "(pystr \<times> json) list \<Rightarrow> pystr list \<Rightarrow> pystr \<Rightarrow> unit result" where
  "reject_unknown d allowed name =
     (let unknown = sorted_diff (jkeys d) allowed in
      if unknown \<noteq> [] then Inl (ConfigError (''unknown '' @ name @ '' field(s): '' @ comma_join unknown))
      else Inr ())"

definition integer_field :: "json \<Rightarrow> pystr \<Rightarrow> int \<Rightarrow> int \<Rightarrow> int result" where
  "integer_field v name minimum maximum =
     (case v of
        JInt i \<Rightarrow>
          if \<not> (minimum \<le> i \<and> i \<le> maximum)
          then Inl (ConfigError (name @ '' must be between '' @ int_str minimum @ '' and '' @ int_str maximum))
          else Inr i
      | _ \<Rightarrow> Inl (ConfigError (name @ '' must be an integer'')))"

definition path_field :: "json \<Rightarrow> pystr \<Rightarrow> pystr result" where
  "path_field v name =
     (case v of
        JStr s \<Rightarrow>
          if s = '''' \<or> CHR 0x00 \<in> set s then Inl (ConfigError (name @ '' must be a non-empty path''))
          else if \<not> starts_with ''/'' s then Inl (ConfigError (name @ '' must be an absolute path''))
          else Inr s
      | _ \<Rightarrow> Inl (ConfigError (name @ '' must be a non-empty path'')))"

definition get_default :: "(pystr \<times> json) list \<Rightarrow> pystr \<Rightarrow> json \<Rightarrow> json" where
  "get_default d k v = (case map_of d k of None \<Rightarrow> v | Some x \<Rightarrow> x)"

subsection \<open>The configuration\<close>

record tls_config =
  tls_cert :: pystr
  tls_key :: pystr
  tls_ca :: pystr

record client_config =
  cc_id :: pystr
  cc_cert_sha256 :: "pystr list"
  cc_allowed_jails :: "pystr list"

record limits =
  lm_body_bytes :: int
  lm_events_per_request :: int
  lm_claims_per_client :: int
  lm_requests_per_minute :: int

record config =
  cf_enabled :: bool
  cf_listen :: pystr
  cf_port :: int
  cf_tls :: tls_config
  cf_clients :: "client_config list"
  cf_database :: pystr
  cf_whitelist_file :: pystr
  cf_enforcement_socket :: pystr
  cf_limits :: limits
  cf_history_days :: int

text \<open>\<open>clients_by_fingerprint\<close>: a dictionary comprehension, so a later entry replaces an earlier one.\<close>

definition clients_by_fingerprint :: "config \<Rightarrow> pystr \<Rightarrow> client_config option" where
  "clients_by_fingerprint cfg fp =
     map_of (rev (concat (map (\<lambda>cl. map (\<lambda>f. (f, cl)) (cc_cert_sha256 cl)) (cf_clients cfg)))) fp"

definition fingerprint_re :: "pystr \<Rightarrow> bool" where
  "fingerprint_re s = (length s = 64 \<and> list_all is_hex s)"

definition client_label :: "nat \<Rightarrow> pystr" where
  "client_label i = ''clients['' @ dec_str i @ '']''"

text \<open>The loop over the fingerprints of one client; \<open>seen\<close> holds those of all clients so far.\<close>

fun parse_fingerprints :: "pystr \<Rightarrow> json list \<Rightarrow> pystr list \<Rightarrow> (pystr list \<times> pystr list) result" where
  "parse_fingerprints label [] seen = Inr ([], seen)"
| "parse_fingerprints label (v # vs) seen =
     (case v of
        JStr s \<Rightarrow>
          if \<not> fingerprint_re s
          then Inl (ConfigError (label @ '' contains an invalid certificate fingerprint''))
          else let n = py_lower s in
            if n \<in> set seen
            then Inl (ConfigError (''certificate fingerprint is assigned more than once: '' @ n))
            else rbind (parse_fingerprints label vs (n # seen)) (\<lambda>(fps, seen'). Inr (n # fps, seen'))
      | _ \<Rightarrow> Inl (ConfigError (label @ '' contains an invalid certificate fingerprint'')))"

fun parse_jails :: "pystr \<Rightarrow> json list \<Rightarrow> pystr list \<Rightarrow> pystr list result" where
  "parse_jails label [] jails = Inr jails"
| "parse_jails label (v # vs) jails =
     (case v of
        JStr s \<Rightarrow>
          if \<not> id_re s then Inl (ConfigError (label @ '' contains an invalid jail''))
          else if s \<in> set jails then Inl (ConfigError (label @ '' contains duplicate jail '' @ s))
          else parse_jails label vs (jails @ [s])
      | _ \<Rightarrow> Inl (ConfigError (label @ '' contains an invalid jail'')))"

definition nonempty_array :: "json \<Rightarrow> pystr \<Rightarrow> json list result" where
  "nonempty_array v name =
     (case v of JArr vs \<Rightarrow> if vs = [] then Inl (ConfigError (name @ '' must be a non-empty array'')) else Inr vs
      | _ \<Rightarrow> Inl (ConfigError (name @ '' must be a non-empty array'')))"

definition client_id_field :: "json \<Rightarrow> pystr \<Rightarrow> pystr list \<Rightarrow> pystr result" where
  "client_id_field v label ids =
     (case v of
        JStr s \<Rightarrow>
          if \<not> id_re s then Inl (ConfigError (label @ ''.id is invalid''))
          else if s \<in> set ids then Inl (ConfigError (''duplicate client id: '' @ s))
          else Inr s
      | _ \<Rightarrow> Inl (ConfigError (label @ ''.id is invalid'')))"

definition parse_client :: "nat \<Rightarrow> json \<Rightarrow> pystr list \<Rightarrow> pystr list \<Rightarrow> (client_config \<times> pystr list) result" where
  "parse_client i v ids fps =
     (let label = client_label i in
      rbind (expect_dict v label) (\<lambda>d.
      rbind (reject_unknown d [''id'', ''cert_sha256'', ''allowed_jails''] label) (\<lambda>_.
      rbind (client_id_field (get_default d ''id'' JNull) label ids) (\<lambda>client_id.
      rbind (nonempty_array (get_default d ''cert_sha256'' JNull) (label @ ''.cert_sha256'')) (\<lambda>fp_raw.
      rbind (parse_fingerprints label fp_raw fps) (\<lambda>(client_fps, fps').
      rbind (nonempty_array (get_default d ''allowed_jails'' JNull) (label @ ''.allowed_jails'')) (\<lambda>jails_raw.
      rbind (parse_jails label jails_raw []) (\<lambda>jails.
        Inr (\<lparr>cc_id = client_id, cc_cert_sha256 = client_fps, cc_allowed_jails = jails\<rparr>, fps')))))))))"

fun parse_clients :: "nat \<Rightarrow> json list \<Rightarrow> pystr list \<Rightarrow> pystr list \<Rightarrow> client_config list result" where
  "parse_clients i [] ids fps = Inr []"
| "parse_clients i (v # vs) ids fps =
     rbind (parse_client i v ids fps) (\<lambda>(client, fps').
     rbind (parse_clients (Suc i) vs (cc_id client # ids) fps') (\<lambda>rest. Inr (client # rest)))"

definition optional_path :: "(pystr \<times> json) list \<Rightarrow> pystr \<Rightarrow> pystr result" where
  "optional_path d k =
     (case map_of d k of None \<Rightarrow> Inr '''' | Some v \<Rightarrow> path_field v (''tls.'' @ k))"

definition listen_field :: "json \<Rightarrow> pystr result" where
  "listen_field v =
     (case v of
        JStr s \<Rightarrow>
          (case ip_address s of
             Inl _ \<Rightarrow> Inl (ConfigError ''listen must be an IP literal'')
           | Inr a \<Rightarrow>
               if is_unspecified a then Inl (ConfigError ''listen must not be a wildcard address'')
               else Inr (compressed a))
      | _ \<Rightarrow> Inl (ConfigError ''listen must be an IP literal''))"

definition parse_tls :: "bool \<Rightarrow> json \<Rightarrow> tls_config result" where
  "parse_tls enabled v =
     rbind (expect_dict v ''tls'') (\<lambda>d.
     rbind (reject_unknown d [''cert'', ''key'', ''ca''] ''tls'') (\<lambda>_.
     rbind (optional_path d ''cert'') (\<lambda>cert.
     rbind (optional_path d ''key'') (\<lambda>key.
     rbind (optional_path d ''ca'') (\<lambda>ca.
       if enabled \<and> \<not> (cert \<noteq> '''' \<and> key \<noteq> '''' \<and> ca \<noteq> '''')
       then Inl (ConfigError ''enabled service requires tls.cert, tls.key, and tls.ca'')
       else Inr \<lparr>tls_cert = cert, tls_key = key, tls_ca = ca\<rparr>)))))"

definition parse_limits :: "json \<Rightarrow> limits result" where
  "parse_limits v =
     rbind (expect_dict v ''limits'') (\<lambda>d.
     rbind (reject_unknown d [''body_bytes'', ''events_per_request'', ''claims_per_client'', ''requests_per_minute'']
       ''limits'') (\<lambda>_.
     rbind (integer_field (get_default d ''body_bytes'' (JInt 1048576)) ''limits.body_bytes'' 1024 4194304) (\<lambda>body.
     rbind (integer_field (get_default d ''events_per_request'' (JInt 1000)) ''limits.events_per_request'' 1 10000) (\<lambda>evs.
     rbind (integer_field (get_default d ''claims_per_client'' (JInt 10000)) ''limits.claims_per_client'' 1 1000000) (\<lambda>cls.
     rbind (integer_field (get_default d ''requests_per_minute'' (JInt 120)) ''limits.requests_per_minute'' 1 100000) (\<lambda>rpm.
       Inr \<lparr>lm_body_bytes = body, lm_events_per_request = evs, lm_claims_per_client = cls,
            lm_requests_per_minute = rpm\<rparr>))))))"

definition enabled_field :: "json \<Rightarrow> bool result" where
  "enabled_field v = (case v of JBool b \<Rightarrow> Inr b | _ \<Rightarrow> Inl (ConfigError ''enabled must be a boolean''))"

definition array_field :: "json \<Rightarrow> pystr \<Rightarrow> json list result" where
  "array_field v name = (case v of JArr vs \<Rightarrow> Inr vs | _ \<Rightarrow> Inl (ConfigError (name @ '' must be an array'')))"

definition config_fields :: "pystr list" where
  "config_fields = [''enabled'', ''listen'', ''port'', ''tls'', ''clients'', ''database'', ''whitelist_file'',
     ''enforcement_socket'', ''limits'', ''history_days'']"

definition parse_config :: "json \<Rightarrow> config result" where
  "parse_config raw =
     rbind (expect_dict raw ''config'') (\<lambda>obj.
     rbind (reject_unknown obj config_fields ''config'') (\<lambda>_.
     rbind (enabled_field (get_default obj ''enabled'' (JBool False))) (\<lambda>enabled.
     rbind (listen_field (get_default obj ''listen'' (JStr ''127.0.0.1''))) (\<lambda>listen.
     rbind (integer_field (get_default obj ''port'' (JInt 9443)) ''port'' 1 65535) (\<lambda>port.
     rbind (parse_tls enabled (get_default obj ''tls'' (JObj []))) (\<lambda>tls.
     rbind (array_field (get_default obj ''clients'' (JArr [])) ''clients'') (\<lambda>clients_raw.
     rbind (parse_clients 0 clients_raw [] []) (\<lambda>clients.
     rbind (parse_limits (get_default obj ''limits'' (JObj []))) (\<lambda>lims.
     rbind (path_field (get_default obj ''database'' (JStr ''/var/db/f2bguard/state.sqlite'')) ''database'') (\<lambda>database.
     rbind (path_field (get_default obj ''whitelist_file'' (JStr ''/usr/local/etc/f2bguard/whitelist.txt''))
       ''whitelist_file'') (\<lambda>whitelist.
     rbind (path_field (get_default obj ''enforcement_socket'' (JStr ''/var/run/f2bguard/pf.sock''))
       ''enforcement_socket'') (\<lambda>socket.
     rbind (integer_field (get_default obj ''history_days'' (JInt 90)) ''history_days'' 1 3650) (\<lambda>days.
       Inr \<lparr>cf_enabled = enabled, cf_listen = listen, cf_port = port, cf_tls = tls, cf_clients = clients,
            cf_database = database, cf_whitelist_file = whitelist, cf_enforcement_socket = socket,
            cf_limits = lims, cf_history_days = days\<rparr>)))))))))))))"

subsection \<open>The file\<close>

definition os_error_to :: "pystr \<Rightarrow> 'a result \<Rightarrow> 'a result" where
  "os_error_to msg r = (case r of Inl e \<Rightarrow> Inl (if is_OSError e then ConfigError msg else e) | Inr x \<Rightarrow> Inr x)"

text \<open>The walk over the parents names the unsafe directory in its exception.\<close>

fun check_config_parents :: "fs \<Rightarrow> pystr list \<Rightarrow> unit result" where
  "check_config_parents fs [] = Inr ()"
| "check_config_parents fs (d # ds) =
     rbind (fs_lstat fs d) (\<lambda>i.
       if \<not> trusted_dir 0 i then Inl (ConfigError (''unsafe config parent directory: '' @ d))
       else check_config_parents fs ds)"

definition max_config_bytes :: nat where "max_config_bytes = 1048576"

definition load_config :: "(pystr \<Rightarrow> jraw result) \<Rightarrow> fs \<Rightarrow> pystr \<Rightarrow> config result" where
  "load_config scan fs path =
     (if \<not> is_absolute path then Inl (ConfigError ''config path must be absolute'')
      else rbind (os_error_to ''cannot securely open config: '' (rbind (check_config_parents fs (parents_from_root path)) (\<lambda>_.
          fs_open fs (path_str path)))) (\<lambda>(info, content).
        if fi_kind info \<noteq> Regular then Inl (ConfigError ''config must be a regular file'')
        else if fi_uid info \<noteq> 0 then Inl (ConfigError ''config must be owned by root'')
        else if fi_mode info mod 4096 \<noteq> 416 then Inl (ConfigError ''config mode must be 0640'')
        else let data = take (max_config_bytes + 1) content in
          if max_config_bytes < length data then Inl (ConfigError ''config exceeds 1 MiB'')
          else rbind (strict_json_loads scan data) parse_config))"

subsection \<open>What an accepted configuration guarantees\<close>

lemma lower_hex_of_hex: "is_hex c \<Longrightarrow> is_lower_hex (lower_char c)"
proof -
  assume h: "is_hex c"
  have "code (char_of n :: char) = n" if "n < 256" for n using that by (rule code_char_of)
  with hex_code [OF h] show ?thesis
    by (auto simp: is_lower_hex_def is_dec_def lower_char_def Let_def)
qed

definition fingerprint_ok :: "pystr \<Rightarrow> bool" where
  "fingerprint_ok f = (length f = 64 \<and> list_all is_lower_hex f)"

lemma fingerprint_ok_lower: "fingerprint_re s \<Longrightarrow> fingerprint_ok (py_lower s)"
  by (auto simp: fingerprint_re_def fingerprint_ok_def py_lower_def list_all_iff lower_hex_of_hex)

lemma parse_fingerprints_spec:
  assumes "parse_fingerprints label vs seen = Inr (fps, seen')"
  shows "set seen' = set fps \<union> set seen \<and> distinct fps \<and> set fps \<inter> set seen = {} \<and>
    length fps = length vs \<and> list_all fingerprint_ok fps"
  using assms
proof (induction label vs seen arbitrary: fps seen' rule: parse_fingerprints.induct)
  case (2 label v vs seen)
  from "2.prems" obtain s rest where v: "v = JStr s" "fingerprint_re s" "py_lower s \<notin> set seen"
      "parse_fingerprints label vs (py_lower s # seen) = Inr (rest, seen')" "fps = py_lower s # rest"
    by (auto simp: Let_def result_simps split: json.splits if_splits)
  from "2.IH" [OF v(1) _ refl v(3) v(4)] v show ?case
    by (auto simp: fingerprint_ok_lower)
qed simp

lemma parse_jails_spec:
  assumes "parse_jails label vs jails = Inr js" "distinct jails" "list_all id_re jails"
  shows "distinct js \<and> list_all id_re js \<and> length js = length jails + length vs"
  using assms
proof (induction label vs jails rule: parse_jails.induct)
  case (2 label v vs jails)
  from "2.prems" obtain s where v: "v = JStr s" "id_re s" "s \<notin> set jails"
      "parse_jails label vs (jails @ [s]) = Inr js"
    by (auto split: json.splits if_splits)
  from "2.IH" [OF v(1) _ v(3) v(4)] v "2.prems" show ?case by auto
qed simp

definition client_ok :: "client_config \<Rightarrow> bool" where
  "client_ok cl = (id_re (cc_id cl) \<and> cc_cert_sha256 cl \<noteq> [] \<and> list_all fingerprint_ok (cc_cert_sha256 cl) \<and>
     cc_allowed_jails cl \<noteq> [] \<and> distinct (cc_allowed_jails cl) \<and> list_all id_re (cc_allowed_jails cl))"

lemma nonempty_array_iff: "nonempty_array v name = Inr vs \<longleftrightarrow> v = JArr vs \<and> vs \<noteq> []"
  by (cases v) (auto simp: nonempty_array_def)

lemma parse_client_spec:
  assumes "parse_client i v ids fps = Inr (cl, fps')"
  shows "client_ok cl \<and> cc_id cl \<notin> set ids \<and> distinct (cc_cert_sha256 cl) \<and>
    set (cc_cert_sha256 cl) \<inter> set fps = {} \<and> set fps' = set (cc_cert_sha256 cl) \<union> set fps"
proof -
  from assms obtain d cid fp_raw cfps jails_raw js where p:
      "client_id_field (get_default d ''id'' JNull) (client_label i) ids = Inr cid"
      "nonempty_array (get_default d ''cert_sha256'' JNull) (client_label i @ ''.cert_sha256'') = Inr fp_raw"
      "parse_fingerprints (client_label i) fp_raw fps = Inr (cfps, fps')"
      "nonempty_array (get_default d ''allowed_jails'' JNull) (client_label i @ ''.allowed_jails'') = Inr jails_raw"
      "parse_jails (client_label i) jails_raw [] = Inr js"
      "cl = \<lparr>cc_id = cid, cc_cert_sha256 = cfps, cc_allowed_jails = js\<rparr>"
    by (auto simp: parse_client_def Let_def rbind_eq_Inr)
  have "id_re cid \<and> cid \<notin> set ids"
    using p(1) by (auto simp: client_id_field_def split: json.splits if_splits)
  moreover have "cfps \<noteq> []" using parse_fingerprints_spec [OF p(3)] p(2) by (auto simp: nonempty_array_iff)
  moreover have "js \<noteq> []" using parse_jails_spec [OF p(5)] p(4) by (auto simp: nonempty_array_iff)
  ultimately show ?thesis
    using parse_fingerprints_spec [OF p(3)] parse_jails_spec [OF p(5)] by (auto simp: client_ok_def p(6))
qed

lemma parse_clients_spec:
  assumes "parse_clients i vs ids fps = Inr cls"
  shows "list_all client_ok cls \<and> distinct (map cc_id cls) \<and> set (map cc_id cls) \<inter> set ids = {} \<and>
    distinct (concat (map cc_cert_sha256 cls)) \<and> set (concat (map cc_cert_sha256 cls)) \<inter> set fps = {}"
  using assms
proof (induction i vs ids fps arbitrary: cls rule: parse_clients.induct)
  case (2 i v vs ids fps)
  from "2.prems" obtain cl fps' rest where p: "parse_client i v ids fps = Inr (cl, fps')"
      "parse_clients (Suc i) vs (cc_id cl # ids) fps' = Inr rest" "cls = cl # rest"
    by (auto simp: result_simps)
  note a = parse_client_spec [OF p(1)] and b = "2.IH" [OF p(2)]
  have "set (cc_cert_sha256 cl) \<inter> set (concat (map cc_cert_sha256 rest)) = {}" using a b by blast
  moreover have "set (concat (map cc_cert_sha256 cls)) \<inter> set fps = {}"
    using a b unfolding p(3) by auto
  ultimately show ?case using a b unfolding p(3) by auto
qed simp

lemma integer_field_iff: "integer_field v name lo hi = Inr i \<longleftrightarrow> v = JInt i \<and> lo \<le> i \<and> i \<le> hi"
  by (cases v) (auto simp: integer_field_def)

lemma path_field_iff:
  "path_field v name = Inr s \<longleftrightarrow> v = JStr s \<and> CHR 0x00 \<notin> set s \<and> starts_with ''/'' s"
  by (cases v) (auto simp: path_field_def starts_with_def)

lemma listen_field_spec:
  "listen_field v = Inr s \<Longrightarrow> \<exists>a. ip_address s = Inr a \<and> compressed a = s \<and> \<not> is_unspecified a"
  by (cases v)
     (auto simp: listen_field_def ip_codec.parse_render_parse split: sum.splits if_splits)

text \<open>A path of the TLS section is absolute, or absent and then empty.\<close>

definition abs_path :: "pystr \<Rightarrow> bool" where
  "abs_path s \<longleftrightarrow> starts_with ''/'' s \<and> CHR 0x00 \<notin> set s"

lemma optional_path_spec: "optional_path d k = Inr s \<Longrightarrow> s = [] \<or> abs_path s"
  by (auto simp: optional_path_def abs_path_def path_field_iff split: option.splits)

definition tls_ok :: "bool \<Rightarrow> tls_config \<Rightarrow> bool" where
  "tls_ok enabled t \<longleftrightarrow> (\<forall>p \<in> {tls_cert t, tls_key t, tls_ca t}. abs_path p \<or> \<not> enabled \<and> p = [])"

lemma parse_tls_spec: "parse_tls enabled v = Inr t \<Longrightarrow> tls_ok enabled t"
  unfolding parse_tls_def rbind_eq_Inr tls_ok_def by (auto split: if_splits dest!: optional_path_spec)

definition limits_ok :: "limits \<Rightarrow> bool" where
  "limits_ok l = (1024 \<le> lm_body_bytes l \<and> lm_body_bytes l \<le> 4194304 \<and>
     1 \<le> lm_events_per_request l \<and> lm_events_per_request l \<le> 10000 \<and>
     1 \<le> lm_claims_per_client l \<and> lm_claims_per_client l \<le> 1000000 \<and>
     1 \<le> lm_requests_per_minute l \<and> lm_requests_per_minute l \<le> 100000)"

lemma parse_limits_spec: "parse_limits v = Inr l \<Longrightarrow> limits_ok l"
  unfolding parse_limits_def rbind_eq_Inr integer_field_iff by (auto simp: limits_ok_def)

definition config_ok :: "config \<Rightarrow> bool" where
  "config_ok c \<longleftrightarrow>
     (\<exists>a. ip_address (cf_listen c) = Inr a \<and> compressed a = cf_listen c \<and> \<not> is_unspecified a) \<and>
     1 \<le> cf_port c \<and> cf_port c \<le> 65535 \<and>
     tls_ok (cf_enabled c) (cf_tls c) \<and>
     list_all client_ok (cf_clients c) \<and> distinct (map cc_id (cf_clients c)) \<and>
     distinct (concat (map cc_cert_sha256 (cf_clients c))) \<and> limits_ok (cf_limits c) \<and>
     abs_path (cf_database c) \<and> abs_path (cf_whitelist_file c) \<and> abs_path (cf_enforcement_socket c) \<and> 1 \<le> cf_history_days c \<and> cf_history_days c \<le> 3650"

lemma parse_config_ok:
  assumes "parse_config raw = Inr c"
  shows "config_ok c"
proof -
  from assms obtain obj clients_raw where p:
      "listen_field (get_default obj ''listen'' (JStr ''127.0.0.1'')) = Inr (cf_listen c)"
      "integer_field (get_default obj ''port'' (JInt 9443)) ''port'' 1 65535 = Inr (cf_port c)"
      "parse_tls (cf_enabled c) (get_default obj ''tls'' (JObj [])) = Inr (cf_tls c)"
      "parse_clients 0 clients_raw [] [] = Inr (cf_clients c)"
      "parse_limits (get_default obj ''limits'' (JObj [])) = Inr (cf_limits c)"
      "path_field (get_default obj ''database'' (JStr ''/var/db/f2bguard/state.sqlite'')) ''database'' = Inr (cf_database c)"
      "path_field (get_default obj ''whitelist_file'' (JStr ''/usr/local/etc/f2bguard/whitelist.txt'')) ''whitelist_file'' =
        Inr (cf_whitelist_file c)"
      "path_field (get_default obj ''enforcement_socket'' (JStr ''/var/run/f2bguard/pf.sock'')) ''enforcement_socket'' =
        Inr (cf_enforcement_socket c)"
      "integer_field (get_default obj ''history_days'' (JInt 90)) ''history_days'' 1 3650 = Inr (cf_history_days c)"
    unfolding parse_config_def rbind_eq_Inr by auto
  show ?thesis
    using listen_field_spec [OF p(1)] p(2) [unfolded integer_field_iff] parse_tls_spec [OF p(3)]
      parse_clients_spec [OF p(4)] parse_limits_spec [OF p(5)] p(6-8) [unfolded path_field_iff]
      p(9) [unfolded integer_field_iff]
    unfolding config_ok_def abs_path_def by blast
qed

subsection \<open>Properties\<close>

text \<open>
  C16. A configuration that parses is safe to serve: the listener is a canonical address and not a
  wildcard, client ids are unique, every certificate fingerprint is 64 lower-case hexadecimal digits and
  belongs to one client only, every client has at least one fingerprint and one valid jail, the port, the
  four limits and the history lie within their bounds, and the database, the whitelist, the socket and the
  TLS files are absolute paths without NUL; only a service that is not enabled may leave TLS files out.
\<close>

theorem parse_config_guarantees:
  assumes "parse_config raw = Inr c"
  shows "(\<exists>a. ip_address (cf_listen c) = Inr a \<and> compressed a = cf_listen c \<and> \<not> is_unspecified a) \<and>
    distinct (map cc_id (cf_clients c)) \<and> distinct (concat (map cc_cert_sha256 (cf_clients c))) \<and>
    (\<forall>cl \<in> set (cf_clients c). id_re (cc_id cl) \<and> cc_allowed_jails cl \<noteq> [] \<and> list_all id_re (cc_allowed_jails cl) \<and>
       cc_cert_sha256 cl \<noteq> [] \<and> (\<forall>f \<in> set (cc_cert_sha256 cl). length f = 64 \<and> list_all is_lower_hex f)) \<and>
    cf_port c \<in> {1..65535} \<and> lm_body_bytes (cf_limits c) \<in> {1024..4194304} \<and>
    lm_events_per_request (cf_limits c) \<in> {1..10000} \<and> lm_claims_per_client (cf_limits c) \<in> {1..1000000} \<and>
    lm_requests_per_minute (cf_limits c) \<in> {1..100000} \<and> cf_history_days c \<in> {1..3650} \<and>
    (\<forall>p \<in> {cf_database c, cf_whitelist_file c, cf_enforcement_socket c}. hd p = CHR ''/'' \<and> p \<noteq> [] \<and> CHR 0x00 \<notin> set p) \<and>
    (\<forall>p \<in> {tls_cert (cf_tls c), tls_key (cf_tls c), tls_ca (cf_tls c)}.
       hd p = CHR ''/'' \<and> p \<noteq> [] \<and> CHR 0x00 \<notin> set p \<or> \<not> cf_enabled c \<and> p = [])"
proof -
  have abs: "hd p = CHR ''/'' \<and> p \<noteq> [] \<and> CHR 0x00 \<notin> set p" if "abs_path p" for p
    using that by (cases p) (auto simp: abs_path_def starts_with_def)
  have "config_ok c" by (rule parse_config_ok [OF assms])
  then show ?thesis
    using abs by (auto simp: config_ok_def tls_ok_def client_ok_def limits_ok_def fingerprint_ok_def list_all_iff)
qed

definition sample_fingerprint :: pystr where
  "sample_fingerprint = replicate 64 (CHR ''A'')"

definition sample_config_json :: json where
  "sample_config_json = JObj [(''clients'', JArr [JObj [(''id'', JStr ''web''),
     (''cert_sha256'', JArr [JStr sample_fingerprint]), (''allowed_jails'', JArr [JStr ''sshd''])]])]"

definition sample_config :: config where
  "sample_config = \<lparr>cf_enabled = False, cf_listen = ''127.0.0.1'', cf_port = 9443,
     cf_tls = \<lparr>tls_cert = '''', tls_key = '''', tls_ca = ''''\<rparr>,
     cf_clients = [\<lparr>cc_id = ''web'', cc_cert_sha256 = [replicate 64 (CHR ''a'')], cc_allowed_jails = [''sshd'']\<rparr>],
     cf_database = ''/var/db/f2bguard/state.sqlite'', cf_whitelist_file = ''/usr/local/etc/f2bguard/whitelist.txt'',
     cf_enforcement_socket = ''/var/run/f2bguard/pf.sock'',
     cf_limits = \<lparr>lm_body_bytes = 1048576, lm_events_per_request = 1000, lm_claims_per_client = 10000,
       lm_requests_per_minute = 120\<rparr>, cf_history_days = 90\<rparr>"

lemma sample_config_parses: "parse_config sample_config_json = Inr sample_config"
  by code_simp

lemma parse_config_guarantees_witness: "distinct (concat (map cc_cert_sha256 (cf_clients sample_config)))"
  using parse_config_guarantees [OF sample_config_parses] by blast

text \<open>
  A certificate identifies one client: under a parsed configuration a fingerprint resolves to a
  client exactly when that client lists it, so no two clients can be confused.
\<close>

theorem fingerprint_identifies_client:
  assumes "parse_config raw = Inr c"
  shows "clients_by_fingerprint c f = Some cl \<longleftrightarrow> cl \<in> set (cf_clients c) \<and> f \<in> set (cc_cert_sha256 cl)"
proof -
  let ?ps = "concat (map (\<lambda>cl. map (\<lambda>f. (f, cl)) (cc_cert_sha256 cl)) (cf_clients c))"
  have "map fst ?ps = concat (map cc_cert_sha256 (cf_clients c))"
    by (simp add: map_concat o_def)
  then have "distinct (map fst (rev ?ps))"
    using parse_config_ok [OF assms] by (simp add: config_ok_def rev_map [symmetric])
  then show ?thesis
    unfolding clients_by_fingerprint_def by (simp only: map_of_eq_Some_iff) auto
qed

lemma fingerprint_identifies_client_witness:
  "\<exists>cl. clients_by_fingerprint sample_config (replicate 64 (CHR ''a'')) = Some cl \<and> cc_id cl = ''web''"
  using fingerprint_identifies_client [OF sample_config_parses, of "replicate 64 (CHR ''a'')"]
  by (auto simp: sample_config_def)

text \<open>
  \<open>load_config\<close> reads only trusted files: when it returns, the path is absolute, every parent
  directory is a real directory owned by root that neither group nor others can write, and the file is
  a regular one of root with mode exactly 0640 and at most 1 MiB of content.
\<close>

theorem load_config_trusted:
  assumes "load_config scan fs path = Inr c"
  shows "is_absolute path \<and>
    (\<forall>d \<in> set (parents_from_root path). \<exists>i. fs_lstat fs d = Inr i \<and> fi_kind i = Directory \<and>
       fi_uid i = 0 \<and> fi_mode i AND 18 = 0) \<and>
    (\<exists>i content. fs_open fs (path_str path) = Inr (i, content) \<and> fi_kind i = Regular \<and> fi_uid i = 0 \<and>
       fi_mode i mod 4096 = 416 \<and> length content \<le> 1048576) \<and> config_ok c"
proof -
  have parents: "check_config_parents fs ds = Inr () \<longleftrightarrow>
      (\<forall>d \<in> set ds. \<exists>i. fs_lstat fs d = Inr i \<and> trusted_dir 0 i)" for ds
    by (induction ds) (auto simp: result_simps)
  obtain i content where p: "is_absolute path" "check_config_parents fs (parents_from_root path) = Inr ()"
      "fs_open fs (path_str path) = Inr (i, content)" "fi_kind i = Regular" "fi_uid i = 0" "fi_mode i mod 4096 = 416"
      "\<not> max_config_bytes < length (take (max_config_bytes + 1) content)"
      "rbind (strict_json_loads scan (take (max_config_bytes + 1) content)) parse_config = Inr c"
    using assms
    by (auto simp: load_config_def os_error_to_def Let_def rbind_eq_Inr split: sum.splits if_splits)
  have "length content \<le> 1048576" using p(7) by (simp add: max_config_bytes_def min_def split: if_splits)
  moreover have "config_ok c" using p(8) parse_config_ok by (auto simp: rbind_eq_Inr)
  ultimately show ?thesis
    using p(1-6) unfolding parents by (auto simp: trusted_dir_def group_or_world_writable_def)
qed

definition sample_fs :: fs where
  "sample_fs = \<lparr>fs_lstat = (\<lambda>_. Inr \<lparr>fi_kind = Directory, fi_uid = 0, fi_mode = 16877, fi_size = 0\<rparr>),
     fs_open = (\<lambda>_. Inr (\<lparr>fi_kind = Regular, fi_uid = 0, fi_mode = 33184, fi_size = 2\<rparr>, ''{}''))\<rparr>"

lemma load_config_trusted_witness:
  "\<exists>c. load_config (\<lambda>_. Inr (RObj [])) sample_fs ''/usr/local/etc/c.json'' = Inr c \<and> config_ok c"
proof -
  let ?load = "load_config (\<lambda>_. Inr (RObj [])) sample_fs ''/usr/local/etc/c.json''"
  have "?load = Inr (sample_config\<lparr>cf_clients := []\<rparr>)" by code_simp
  with load_config_trusted [OF this] show ?thesis by blast
qed

end
