(* ===== verification/HelperClient.thy ===== *)
theory HelperClient
  imports Config
begin

text \<open>
  Two parts of \<^verbatim>\<open>src/f2bguard/server.py\<close> between the store and the PF helper: the reading of
  the trusted whitelist, with the server's exceptions, and \<open>HelperClient\<close>, which sends one
  replacement request over the socket, checks the framing and the content of the reply, and retries.

  The peer is a parameter: \<open>hp_talk\<close> connects, sends the request and half-closes, and gives what
  the socket will deliver; \<open>hp_pause\<close> is \<open>time.sleep\<close>; both act on a world of type \<open>'w\<close>.
\<close>

definition max_helper_message :: nat where "max_helper_message = 4 * 1024 * 1024"
definition max_whitelist_bytes :: nat where "max_whitelist_bytes = 4 * 1024 * 1024"
definition max_whitelist_entries :: nat where "max_whitelist_entries = 100000"

definition digest_re :: "pystr \<Rightarrow> bool" where
  "digest_re s = (length s = 64 \<and> list_all is_lower_hex s)"

subsection \<open>The whitelist\<close>

definition os_error_as :: "pystr \<Rightarrow> 'a result \<Rightarrow> 'a result" where
  "os_error_as msg r = (case r of Inl e \<Rightarrow> Inl (if is_OSError e then EnforcementError msg else e) | Inr x \<Rightarrow> Inr x)"

definition secure_read_root_file :: "fs \<Rightarrow> pystr \<Rightarrow> nat \<Rightarrow> pystr result" where
  "secure_read_root_file fs path maximum =
     (if \<not> is_absolute path then Inl (EnforcementError ''whitelist path must be absolute'')
      else rbind (os_error_as ''whitelist is missing or inaccessible''
          (rbind (check_parents fs 0 (EnforcementError ''unsafe whitelist parent directory'') (parents_from_root path)) (\<lambda>_.
             fs_open fs (path_str path)))) (\<lambda>(info, content).
        if \<not> trusted_regular 0 info then Inl (EnforcementError ''unsafe whitelist file'')
        else if maximum < fi_size info then Inl (EnforcementError ''whitelist exceeds size limit'')
        else let data = take (maximum + 1) content in
          if maximum < length data then Inl (EnforcementError ''whitelist exceeds size limit'')
          else Inr data))"

definition server_parse_whitelist :: "pystr \<Rightarrow> ip_network list result" where
  "server_parse_whitelist data =
     (case decode_ascii data of
        Inl _ \<Rightarrow> Inl (EnforcementError ''whitelist must be ASCII'')
      | Inr text \<Rightarrow>
          whitelist_loop (EnforcementError ''whitelist contains a scoped address'')
            (EnforcementError ''whitelist contains an invalid entry'')
            (EnforcementError ''whitelist contains too many entries'') max_whitelist_entries (py_splitlines text) [])"

definition load_whitelist :: "fs \<Rightarrow> pystr \<Rightarrow> ip_network list result" where
  "load_whitelist fs path =
     rbind (secure_read_root_file fs path max_whitelist_bytes) server_parse_whitelist"

subsection \<open>One exchange with the helper\<close>

text \<open>
  What the socket delivers after the request was sent: the segments in the order of arrival, a
  \<open>Broken\<close> where \<open>recv\<close> raises, and the end of the list where the peer has closed.
\<close>

datatype segment = Segment pystr | Broken exn

record 'w helper_peer =
  hp_talk :: "pystr \<Rightarrow> ('w, segment list) action"
  hp_pause :: "time \<Rightarrow> 'w \<Rightarrow> 'w"
  hp_scan :: "pystr \<Rightarrow> jraw result"

text \<open>\<open>connection.recv(n)\<close> takes at most \<open>n\<close> bytes of the first segment.\<close>

definition recv :: "nat \<Rightarrow> segment list \<Rightarrow> pystr result \<times> segment list" where
  "recv n stream =
     (case stream of
        [] \<Rightarrow> (Inr '''', [])
      | Broken e # rest \<Rightarrow> (Inl e, rest)
      | Segment s # rest \<Rightarrow> (Inr (take n s), if length s \<le> n then rest else Segment (drop n s) # rest))"

fun stream_size :: "segment list \<Rightarrow> nat" where
  "stream_size [] = 0"
| "stream_size (Broken e # rest) = Suc (stream_size rest)"
| "stream_size (Segment s # rest) = Suc (length s + stream_size rest)"

lemma recv_size: "recv n stream = (Inr chunk, rest) \<Longrightarrow> chunk \<noteq> '''' \<Longrightarrow> stream_size rest < stream_size stream"
  by (cases stream rule: stream_size.cases) (auto simp: recv_def split: if_splits)

definition chunk_limit :: "nat \<Rightarrow> nat" where
  "chunk_limit received = min 65536 (max_helper_message + 1 - received)"

function recv_loop :: "pystr \<Rightarrow> segment list \<Rightarrow> pystr result" where
  "recv_loop response stream =
     (if CHR 0x0A \<in> set response then Inr response
      else (case recv (chunk_limit (length response)) stream of
          (Inl e, _) \<Rightarrow> Inl e
        | (Inr chunk, rest) \<Rightarrow>
            if chunk = '''' then Inr response
            else if max_helper_message < length (response @ chunk)
            then Inl (EnforcementError ''helper response exceeds size limit'')
            else recv_loop (response @ chunk) rest))"
  by pat_completeness auto
termination
  by (relation "measure (\<lambda>(response, stream). stream_size stream)") (auto dest!: recv_size [OF sym])

declare recv_loop.simps [simp del]

definition unframe :: "pystr \<Rightarrow> pystr result" where
  "unframe response =
     (if \<not> ends_with [CHR 0x0A] response \<or> count_list response (CHR 0x0A) \<noteq> 1
      then Inl (EnforcementError ''invalid helper response framing'')
      else Inr (butlast response))"

definition exchange :: "'w helper_peer \<Rightarrow> pystr \<Rightarrow> ('w, json) action" where
  "exchange peer request =
     sbind (hp_talk peer request) (\<lambda>stream.
       slift (rbind (recv_loop '''' stream) (\<lambda>response.
              rbind (unframe response) (strict_json_loads (hp_scan peer)))))"

subsection \<open>The reply\<close>

record applied_state =
  ap_ipv4 :: int
  ap_ipv6 :: int
  ap_digest :: "pystr option"

definition count_field :: "json option \<Rightarrow> int option" where
  "count_field v = (case v of Some (JInt i) \<Rightarrow> if i < 0 then None else Some i | _ \<Rightarrow> None)"

definition digest_field :: "json option \<Rightarrow> pystr option option" where
  "digest_field v =
     (case v of None \<Rightarrow> Some None | Some JNull \<Rightarrow> Some None
      | Some (JStr s) \<Rightarrow> if digest_re s then Some (Some s) else None | Some _ \<Rightarrow> None)"

definition validate_response :: "json \<Rightarrow> applied_state result" where
  "validate_response response =
     (case jget response ''ok'' of
        Some (JBool ok) \<Rightarrow>
          if \<not> ok
          then Inl (EnforcementError (case jget response ''error'' of
                 Some (JStr m) \<Rightarrow> if m \<noteq> '''' then m else ''helper rejected replacement''
               | _ \<Rightarrow> ''helper rejected replacement''))
          else (case (count_field (jget response ''applied_ipv4''), count_field (jget response ''applied_ipv6''),
                      digest_field (jget response ''digest'')) of
                 (Some n4, Some n6, Some d) \<Rightarrow> Inr \<lparr>ap_ipv4 = n4, ap_ipv6 = n6, ap_digest = d\<rparr>
               | _ \<Rightarrow> Inl (EnforcementError ''helper returned invalid applied-state metadata''))
      | _ \<Rightarrow> Inl (EnforcementError ''invalid helper response''))"

subsection \<open>Replacing with retries\<close>

definition replace_request :: "pystr list \<Rightarrow> pystr list \<Rightarrow> json" where
  "replace_request ipv4 ipv6 = JObj [(''op'', JStr ''replace''), (''ipv4'', JArr (map JStr ipv4)),
     (''ipv6'', JArr (map JStr ipv6))]"

definition request_line :: "pystr list \<Rightarrow> pystr list \<Rightarrow> pystr" where
  "request_line ipv4 ipv6 = json_dumps False (replace_request ipv4 ipv6) @ [CHR 0x0A]"

fun retryable :: "exn \<Rightarrow> bool" where
  "retryable (JSONDecodeError _) = True"
| "retryable (ConfigError _) = True"
| "retryable (EnforcementError _) = True"
| "retryable e = is_OSError e"

definition exn_class :: "exn \<Rightarrow> pystr" where
  "exn_class e = (case e of JSONDecodeError _ \<Rightarrow> ''JSONDecodeError'' | ConfigError _ \<Rightarrow> ''ConfigError''
     | EnforcementError _ \<Rightarrow> ''EnforcementError'' | _ \<Rightarrow> ''Exception'')"

definition failure_text :: "exn \<Rightarrow> pystr" where
  "failure_text e =
     (if is_OSError e then ''PF helper unavailable''
      else if exn_text e \<noteq> '''' then exn_text e else exn_class e)"

text \<open>The float \<open>0.1\<close> is this rational; multiplying by a power of two is exact.\<close>

definition pause_length :: "nat \<Rightarrow> time" where
  "pause_length attempt = 3602879701896397 / 36028797018963968 * 2 ^ attempt"

definition attempt_once :: "'w helper_peer \<Rightarrow> pystr \<Rightarrow> ('w, applied_state) action" where
  "attempt_once peer request = sbind (exchange peer request) (\<lambda>response. slift (validate_response response))"

fun attempts :: "'w helper_peer \<Rightarrow> pystr \<Rightarrow> nat \<Rightarrow> nat list \<Rightarrow> pystr \<Rightarrow> 'w \<Rightarrow> 'w \<times> applied_state result" where
  "attempts peer request retries [] last_error w =
     (w, Inl (EnforcementError (''PF helper failed after '' @ dec_str retries @ '' attempts: '' @ last_error)))"
| "attempts peer request retries (attempt # later) last_error w =
     (case attempt_once peer request w of
        (u, Inr r) \<Rightarrow> (u, Inr r)
      | (u, Inl e) \<Rightarrow>
          if \<not> retryable e then (u, Inl e)
          else attempts peer request retries later (failure_text e)
                 (if attempt + 1 < retries then hp_pause peer (pause_length attempt) u else u))"

definition helper_replace :: "'w helper_peer \<Rightarrow> nat \<Rightarrow> pystr list \<Rightarrow> pystr list \<Rightarrow> ('w, applied_state) action" where
  "helper_replace peer retries ipv4 ipv6 w =
     (let request = request_line ipv4 ipv6 in
      if max_helper_message < length request
      then (w, Inl (EnforcementError ''helper request exceeds size limit''))
      else attempts peer request retries [0 ..< retries] ''helper unavailable'' w)"


subsection \<open>Framing does not depend on the segmentation\<close>

definition oversize_reply :: exn where
  "oversize_reply = EnforcementError ''helper response exceeds size limit''"

definition bad_framing :: exn where
  "bad_framing = EnforcementError ''invalid helper response framing''"

lemma recv_segment:
  assumes "0 < n" "s \<noteq> ''''" "'''' \<notin> set ss"
  obtains chunk ss' where "recv n (map Segment (s # ss)) = (Inr chunk, map Segment ss')" "chunk \<noteq> ''''"
    "length chunk \<le> n" "chunk @ concat ss' = concat (s # ss)" "'''' \<notin> set ss'"
proof (cases "length s \<le> n")
  case True
  then show ?thesis using assms by (intro that [of s ss]) (auto simp: recv_def)
next
  case False
  then show ?thesis using assms by (intro that [of "take n s" "drop n s # ss"]) (auto simp: recv_def)
qed

lemma recv_loop_total:
  assumes "'''' \<notin> set ss" "CHR 0x0A \<notin> set (butlast (response @ concat ss))"
    "length response \<le> max_helper_message"
  shows "recv_loop response (map Segment ss) =
    (if max_helper_message < length (response @ concat ss) then Inl oversize_reply
     else Inr (response @ concat ss))"
  using assms
proof (induction "stream_size (map Segment ss)" arbitrary: response ss rule: less_induct)
  case less
  note unfold = recv_loop.simps [of response "map Segment ss"]
  show ?case
  proof (cases ss)
    case Nil
    then show ?thesis using less.prems(3) unfold by (simp add: recv_def)
  next
    case (Cons s ss0)
    have nl: "CHR 0x0A \<notin> set response"
      using less.prems(1,2) Cons by (auto simp: butlast_append split: if_splits)
    have "0 < chunk_limit (length response)" using less.prems(3) by (simp add: chunk_limit_def)
    then obtain chunk ss' where c: "recv (chunk_limit (length response)) (map Segment ss) = (Inr chunk, map Segment ss')"
        "chunk \<noteq> ''''" "length chunk \<le> chunk_limit (length response)" "chunk @ concat ss' = concat ss" "'''' \<notin> set ss'"
      by (rule recv_segment [of _ s ss0]) (use less.prems(1) Cons in auto)
    have sz: "stream_size (map Segment ss') < stream_size (map Segment ss)"
      by (rule recv_size [OF c(1,2)])
    have total: "response @ concat ss = (response @ chunk) @ concat ss'" using c(4) by simp
    show ?thesis
    proof (cases "max_helper_message < length (response @ chunk)")
      case True
      then show ?thesis using unfold nl c(1,2) total by (simp add: oversize_reply_def)
    next
      case False
      then have "recv_loop response (map Segment ss) = recv_loop (response @ chunk) (map Segment ss')"
        using unfold nl c(1,2) by simp
      also have "\<dots> = (if max_helper_message < length ((response @ chunk) @ concat ss') then Inl oversize_reply
          else Inr ((response @ chunk) @ concat ss'))"
        by (rule less.hyps [OF sz c(5)]) (use less.prems(2) total False in auto)
      finally show ?thesis by (simp only: total)
    qed
  qed
qed

lemma unframe_line:
  assumes "CHR 0x0A \<notin> set (butlast r)"
  shows "unframe r = (if r \<noteq> [] \<and> last r = CHR 0x0A then Inr (butlast r) else Inl bad_framing)"
proof (cases r rule: rev_cases)
  case (snoc ys y)
  with assms show ?thesis
    by (auto simp: unframe_def ends_with_def bad_framing_def count_list_0_iff)
qed (simp add: unframe_def ends_with_def bad_framing_def)

text \<open>
  However the reply is cut into segments, the client reads the same: a reply of at most 4 MiB
  whose only newline is its last byte is accepted, without that newline; one that ends without a
  newline is a framing error; one that is longer is refused for its size.
\<close>

theorem reply_framing:
  assumes "'''' \<notin> set ss" "CHR 0x0A \<notin> set (butlast (concat ss))"
  shows "rbind (recv_loop '''' (map Segment ss)) unframe =
    (if 4194304 < length (concat ss) then Inl (EnforcementError ''helper response exceeds size limit'')
     else if concat ss \<noteq> [] \<and> last (concat ss) = CHR 0x0A then Inr (butlast (concat ss))
     else Inl (EnforcementError ''invalid helper response framing''))"
  using recv_loop_total [OF assms(1), of "''''"] unframe_line [OF assms(2)] assms(2)
  by (simp add: oversize_reply_def bad_framing_def max_helper_message_def)

lemma reply_framing_witness:
  "rbind (recv_loop '''' (map Segment [''{}'', [CHR 0x0A]])) unframe = Inr ''{}''"
  using reply_framing [of "[''{}'', [CHR 0x0A]]"] by simp


subsection \<open>The attempts\<close>

datatype peer_event = Talk pystr | Pause time

definition traced_peer :: "'w helper_peer \<Rightarrow> ('w \<times> peer_event list) helper_peer" where
  "traced_peer peer =
     \<lparr>hp_talk = (\<lambda>req (w, hist). case hp_talk peer req w of (u, r) \<Rightarrow> ((u, hist @ [Talk req]), r)),
      hp_pause = (\<lambda>t (w, hist). (hp_pause peer t w, hist @ [Pause t])),
      hp_scan = hp_scan peer\<rparr>"

text \<open>The trace of \<open>k\<close> attempts that start with number \<open>i\<close>: a pause between any two.\<close>

fun attempt_trace :: "pystr \<Rightarrow> nat \<Rightarrow> nat \<Rightarrow> peer_event list" where
  "attempt_trace req i 0 = []"
| "attempt_trace req i (Suc 0) = [Talk req]"
| "attempt_trace req i (Suc (Suc k)) = Talk req # Pause (pause_length i) # attempt_trace req (Suc i) (Suc k)"

text \<open>The state after \<open>k\<close> failed attempts and the pauses after them, and the last error.\<close>

fun after_failures :: "'w helper_peer \<Rightarrow> pystr \<Rightarrow> nat \<Rightarrow> nat \<Rightarrow> nat \<Rightarrow> pystr \<Rightarrow> 'w \<Rightarrow> ('w \<times> pystr) option" where
  "after_failures peer req n i 0 m w = Some (w, m)"
| "after_failures peer req n i (Suc k) m w =
     (case attempt_once peer req w of
        (u, Inr r) \<Rightarrow> None
      | (u, Inl e) \<Rightarrow> if retryable e
          then after_failures peer req n (Suc i) k (failure_text e)
                 (if i + 1 < n then hp_pause peer (pause_length i) u else u)
          else None)"

definition give_up :: "nat \<Rightarrow> pystr \<Rightarrow> exn" where
  "give_up n m = EnforcementError (''PF helper failed after '' @ dec_str n @ '' attempts: '' @ m)"

lemma attempts_exact:
  assumes "i \<le> n"
  shows "attempts peer req n [i ..< n] m w = (u, Inr r) \<longleftrightarrow>
    (\<exists>k v m'. k < n - i \<and> after_failures peer req n i k m w = Some (v, m') \<and> attempt_once peer req v = (u, Inr r))"
  using assms
proof (induction "n - i" arbitrary: i m w)
  case (Suc d)
  then have i: "i < n" "[i ..< n] = i # [Suc i ..< n]" by (auto simp: upt_conv_Cons)
  obtain v res where a: "attempt_once peer req w = (v, res)" by fastforce
  let ?w = "if i + 1 < n then hp_pause peer (pause_length i) v else v"
  have IH: "attempts peer req n [Suc i ..< n] (failure_text e) ?w = (u, Inr r) \<longleftrightarrow>
      (\<exists>k x m'. k < n - Suc i \<and> after_failures peer req n (Suc i) k (failure_text e) ?w = Some (x, m') \<and>
         attempt_once peer req x = (u, Inr r))" for e
    by (rule Suc.hyps(1)) (use Suc.hyps(2) i in auto)
  have split: "(\<exists>k. k < n - i \<and> P k) \<longleftrightarrow> P 0 \<or> (\<exists>k. k < n - Suc i \<and> P (Suc k))" for P
  proof -
    have "n - i = Suc (n - Suc i)" using i by simp
    then show ?thesis by (metis Ex_less_Suc2)
  qed
  show ?case
  proof (cases res)
    case (Inl e)
    then show ?thesis
      using IH [of e] by (cases "i + 1 < n"; cases "retryable e") (simp_all add: i(2) a split)
  qed (simp add: i(2) a split)
qed auto

lemma attempts_raise:
  assumes "i \<le> n" "attempts peer req n [i ..< n] m w = (u, Inl e)" "retryable e"
  shows "\<exists>v m'. after_failures peer req n i (n - i) m w = Some (v, m') \<and> e = give_up n m'"
  using assms
proof (induction "n - i" arbitrary: i m w)
  case 0
  then show ?case by (auto simp: give_up_def)
next
  case (Suc d)
  then have i: "i < n" "[i ..< n] = i # [Suc i ..< n]" by (auto simp: upt_conv_Cons)
  have d: "n - i = Suc d" "n - Suc i = d" using Suc.hyps(2) by simp_all
  obtain v res where a: "attempt_once peer req w = (v, res)" by fastforce
  from Suc.prems a i obtain e' where e': "res = Inl e'" "retryable e'"
      "attempts peer req n [Suc i ..< n] (failure_text e') (if i + 1 < n then hp_pause peer (pause_length i) v else v) = (u, Inl e)"
    by (auto split: sum.splits if_splits)
  from Suc.hyps(1) [OF _ _ e'(3) Suc.prems(3)] d i obtain x m' where
      "after_failures peer req n (Suc i) d (failure_text e') (if i + 1 < n then hp_pause peer (pause_length i) v else v) = Some (x, m')"
      "e = give_up n m'" by auto
  then show ?case using a e' d by auto
qed

lemma traced_attempt_once:
  "attempt_once (traced_peer peer) req (w, hist) =
     (case attempt_once peer req w of (u, r) \<Rightarrow> ((u, hist @ [Talk req]), r))"
  by (auto simp: attempt_once_def exchange_def traced_peer_def sbind_def split: prod.splits sum.splits)

lemma traced_pause [simp]: "hp_pause (traced_peer peer) t (w, hist) = (hp_pause peer t w, hist @ [Pause t])"
  by (simp add: traced_peer_def)

lemma attempts_trace:
  assumes "i \<le> n" "attempts (traced_peer peer) req n [i ..< n] m (w, hist) = ((u, hist'), r)"
  shows "\<exists>k \<le> n - i. hist' = hist @ attempt_trace req i k \<and> (i < n \<longrightarrow> 0 < k) \<and> (\<forall>e. r = Inl e \<and> retryable e \<longrightarrow> k = n - i)"
  using assms
proof (induction "n - i" arbitrary: i m w hist)
  case 0
  then show ?case by (intro exI [of _ 0]) auto
next
  case (Suc d)
  then have i: "i < n" "[i ..< n] = i # [Suc i ..< n]" "n - i = Suc (n - Suc i)" by (auto simp: upt_conv_Cons)
  obtain v res where a: "attempt_once peer req w = (v, res)" by fastforce
  show ?case
  proof (cases "\<exists>e. res = Inl e \<and> retryable e")
    case False
    then have "hist' = hist @ [Talk req] \<and> r = res"
      using Suc.prems(2) a i by (auto simp: traced_attempt_once split: sum.splits)
    with False i show ?thesis by (intro exI [of _ 1]) auto
  next
    case True
    then obtain e where e: "res = Inl e" "retryable e" by blast
    let ?p = "if i + 1 < n then [Pause (pause_length i)] else []"
    from Suc.prems(2) a i e have run: "attempts (traced_peer peer) req n [Suc i ..< n] (failure_text e)
        (if i + 1 < n then hp_pause peer (pause_length i) v else v, hist @ [Talk req] @ ?p) = ((u, hist'), r)"
      by (cases "i + 1 < n") (auto simp: traced_attempt_once traced_pause)
    from Suc.hyps(1) [OF _ _ run] Suc.hyps(2) i obtain k where k: "k \<le> n - Suc i"
        "hist' = (hist @ [Talk req] @ ?p) @ attempt_trace req (Suc i) k" "Suc i < n \<longrightarrow> 0 < k"
        "\<forall>e. r = Inl e \<and> retryable e \<longrightarrow> k = n - Suc i" by auto
    have "[Talk req] @ ?p @ attempt_trace req (Suc i) k = attempt_trace req i (Suc k)"
      using k(1,3) by (cases k) auto
    with k i show ?thesis by (intro exI [of _ "Suc k"]) auto
  qed
qed


text \<open>
  A replacement succeeds exactly when one of the \<open>retries\<close> attempts does after only retryable
  failures: an unreachable or silent helper, an unreadable or malformed reply, a rejection. The
  result is that attempt's, and the world is as that attempt left it.
\<close>

theorem replace_succeeds_iff:
  assumes "length (request_line ipv4 ipv6) \<le> 4194304"
  shows "helper_replace peer n ipv4 ipv6 w = (u, Inr r) \<longleftrightarrow>
    (\<exists>k v m. k < n \<and> after_failures peer (request_line ipv4 ipv6) n 0 k ''helper unavailable'' w = Some (v, m) \<and>
       attempt_once peer (request_line ipv4 ipv6) v = (u, Inr r))"
  using assms attempts_exact [of 0 n peer "request_line ipv4 ipv6" "''helper unavailable''" w u r]
  by (simp add: helper_replace_def max_helper_message_def not_less)

text \<open>A peer that fails as often as the world says and then accepts.\<close>

definition sample_peer :: "nat helper_peer" where
  "sample_peer = \<lparr>hp_talk = (\<lambda>req w. if w = 0 then (0, Inr [Segment ''{}'', Segment [CHR 0x0A]]) else (w - 1, Inl OSError)),
     hp_pause = (\<lambda>_ w. w),
     hp_scan = (\<lambda>_. Inr (RObj [(''ok'', RBool True), (''applied_ipv4'', RInt 1), (''applied_ipv6'', RInt 0)]))\<rparr>"

lemma replace_succeeds_iff_witness:
  "helper_replace sample_peer 3 [''198.51.100.2''] [] 2 =
     (0, Inr \<lparr>ap_ipv4 = 1, ap_ipv6 = 0, ap_digest = None\<rparr>)"
proof -
  let ?req = "request_line [''198.51.100.2''] []"
  have len: "length ?req \<le> 4194304" by code_simp
  have fail: "attempt_once sample_peer req w = (w - 1, Inl OSError)" if "w \<noteq> 0" for req w
    using that by (simp add: attempt_once_def exchange_def sample_peer_def sbind_def)
  have pause: "hp_pause sample_peer t w = w" for t w by (simp add: sample_peer_def)
  have "after_failures sample_peer ?req 3 0 2 ''helper unavailable'' 2 = Some (0, ''PF helper unavailable'')"
    by (simp add: numeral_2_eq_2 fail pause failure_text_def)
  moreover have "attempt_once sample_peer ?req 0 = (0, Inr \<lparr>ap_ipv4 = 1, ap_ipv6 = 0, ap_digest = None\<rparr>)"
    by code_simp
  ultimately show ?thesis
    by (intro replace_succeeds_iff [OF len, THEN iffD2] exI [of _ 2] exI [of _ 0] exI conjI) auto
qed

text \<open>
  The helper is contacted a bounded number of times: the trace of a replacement is at most
  \<open>retries\<close> transmissions of the same request of at most 4 MiB, with a doubling pause between any
  two and none after the last. Giving up means that all attempts were made; an oversized request
  is never sent at all.
\<close>

theorem replace_trace:
  assumes "helper_replace (traced_peer peer) n ipv4 ipv6 (w, []) = ((u, hist), r)"
  shows "\<exists>k \<le> n. hist = attempt_trace (request_line ipv4 ipv6) 0 k \<and>
    (0 < k \<longrightarrow> length (request_line ipv4 ipv6) \<le> 4194304) \<and>
    (\<forall>e. r = Inl e \<and> retryable e \<and> length (request_line ipv4 ipv6) \<le> 4194304 \<longrightarrow> k = n)"
proof (cases "length (request_line ipv4 ipv6) \<le> 4194304")
  case True
  with assms have "attempts (traced_peer peer) (request_line ipv4 ipv6) n [0 ..< n] ''helper unavailable'' (w, []) = ((u, hist), r)"
    by (simp add: helper_replace_def max_helper_message_def)
  from attempts_trace [OF _ this] True show ?thesis by auto
next
  case False
  with assms have "hist = []" by (simp add: helper_replace_def max_helper_message_def)
  with False show ?thesis by (intro exI [of _ 0]) simp
qed

lemma sample_peer_gives_up:
  "helper_replace (traced_peer sample_peer) 2 [] [] (5, []) =
     ((3, [Talk (request_line [] []), Pause (pause_length 0), Talk (request_line [] [])]),
      Inl (EnforcementError ''PF helper failed after 2 attempts: PF helper unavailable''))"
  by code_simp

lemma replace_trace_witness:
  "\<exists>k \<le> 2. [Talk (request_line [] []), Pause (pause_length 0), Talk (request_line [] [])] =
     attempt_trace (request_line [] []) 0 k"
  using replace_trace [OF sample_peer_gives_up] by blast

end
