(* ===== verification/Enforcer.thy ===== *)
theory Enforcer
  imports ClaimStore HelperClient
begin

text \<open>
  \<open>Enforcer\<close> of \<^verbatim>\<open>src/f2bguard/server.py\<close>: it computes the wanted addresses from the store,
  reloads the whitelist, removes the whitelisted addresses, hands the rest to the PF helper, and
  records the outcome.

  The state holds the database, the enforcer's two attributes and the world of the helper. The
  environment supplies what the process does not control: the clock, the failures of SQLite, and
  what the other threads commit to the database between two calls on the store (the enforcer's lock
  does not cover the store). Every call on the store is one tick: first the others' commits, then
  either \<open>sqlite3.Error\<close> or the call at the time of the tick. \<open>env_threads\<close> is what they do while this
  thread waits for the enforcer's lock: whole runs of their own, which may also change the index and the
  firewall.
\<close>

record 'w guard =
  gd_db :: db
  gd_last_valid :: "ip_network list option"
  gd_last_index :: "network_index option"
  gd_world :: 'w
  gd_tick :: nat

record 'w environment =
  env_clock :: "nat \<Rightarrow> time"
  env_fault :: "nat \<Rightarrow> bool"
  env_others :: "nat \<Rightarrow> db \<Rightarrow> db"
  env_threads :: "nat \<Rightarrow> 'w guard \<Rightarrow> 'w guard"
  env_sha :: "pystr \<Rightarrow> pystr"
  env_fs :: "nat \<Rightarrow> fs"
  env_whitelist :: pystr
  env_peer :: "'w helper_peer"

definition store_call :: "'w environment \<Rightarrow> (time \<Rightarrow> db \<Rightarrow> db \<times> 'a result) \<Rightarrow> ('w guard, 'a) action" where
  "store_call env call s =
     (let n = gd_tick s; d = env_others env n (gd_db s) in
      if env_fault env n then (s\<lparr>gd_db := d, gd_tick := Suc n\<rparr>, Inl SqliteError)
      else (case call (env_clock env n) d of (d', r) \<Rightarrow> (s\<lparr>gd_db := d', gd_tick := Suc n\<rparr>, r)))"

definition on_result :: "(db \<Rightarrow> 'a result) \<Rightarrow> db \<Rightarrow> db \<times> 'a result" where
  "on_result f d = (d, f d)"

definition on_update :: "(db \<Rightarrow> db result) \<Rightarrow> db \<Rightarrow> db \<times> unit result" where
  "on_update f d = (case f d of Inl e \<Rightarrow> (d, Inl e) | Inr d' \<Rightarrow> (d', Inr ()))"

text \<open>Taking the enforcer's lock; the methods below are their bodies, which hold it.\<close>

definition locked :: "'w environment \<Rightarrow> ('w guard, 'a) action \<Rightarrow> ('w guard, 'a) action" where
  "locked env m s = m (env_threads env (gd_tick s) s)"

text \<open>\<open>HelperClient(config.enforcement_socket)\<close> has the default of three retries.\<close>

definition helper_retries :: nat where "helper_retries = 3"

definition desired_digest_of :: "(pystr \<Rightarrow> pystr) \<Rightarrow> pystr list \<Rightarrow> pystr list \<Rightarrow> pystr" where
  "desired_digest_of sha v4 v6 = sha (py_join [CHR 0x0A] (v4 @ v6))"

subsection \<open>The parts of enforce\<close>

text \<open>\<open>Whitelist.reload\<close>: a failure leaves \<open>last_valid\<close> and raises.\<close>

definition reload :: "'w environment \<Rightarrow> ('w guard, ip_network list) action" where
  "reload env s =
     (case load_whitelist (env_fs env (gd_tick s)) (env_whitelist env) of
        Inl e \<Rightarrow> (s, Inl e)
      | Inr parsed \<Rightarrow> (s\<lparr>gd_last_valid := Some parsed\<rparr>, Inr parsed))"

definition ask_helper :: "'w environment \<Rightarrow> pystr list \<Rightarrow> pystr list \<Rightarrow> ('w guard, applied_state) action" where
  "ask_helper env v4 v6 s =
     (case helper_replace (env_peer env) helper_retries v4 v6 (gd_world s) of
        (w, r) \<Rightarrow> (s\<lparr>gd_world := w\<rparr>, r))"

text \<open>The body of the \<open>try\<close>: the index of the current whitelist and the helper's reply.\<close>

definition apply_desired ::
  "'w environment \<Rightarrow> pystr list \<Rightarrow> pystr list \<Rightarrow> ('w guard, network_index \<times> applied_state) action" where
  "apply_desired env desired4 desired6 =
     sbind (reload env) (\<lambda>networks.
     let index = network_index_init networks in
     sbind (slift (index_exclude index desired4)) (\<lambda>v4.
     sbind (slift (index_exclude index desired6)) (\<lambda>v6.
     sbind (ask_helper env v4 v6) (\<lambda>response. sret (index, response)))))"

definition enforcement_message :: "exn \<Rightarrow> pystr" where
  "enforcement_message e = (case e of EnforcementError m \<Rightarrow> m | _ \<Rightarrow> ''enforcement failed'')"

text \<open>The \<open>except Exception\<close> clause: the failure is recorded, then an \<open>EnforcementError\<close> is raised.\<close>

definition record_failure :: "'w environment \<Rightarrow> pystr \<Rightarrow> exn \<Rightarrow> ('w guard, 'a) action" where
  "record_failure env digest e =
     (let msg = enforcement_message e in
      sbind (store_call env (\<lambda>now. on_update (\<lambda>d. Inr (record_enforcement_failure digest msg now d)))) (\<lambda>_.
        slift (Inl (EnforcementError msg))))"

definition set_last_index :: "network_index \<Rightarrow> ('w guard, unit) action" where
  "set_last_index index s = (s\<lparr>gd_last_index := Some index\<rparr>, Inr ())"

text \<open>What follows a reply that passed the checks, the run for given addresses, and the method.\<close>

definition confirm :: "'w environment \<Rightarrow> pystr \<Rightarrow> network_index \<Rightarrow> applied_state \<Rightarrow> ('w guard, int) action" where
  "confirm env digest index response =
     sbind (store_call env (\<lambda>now. on_update
              (record_enforcement_success digest (ap_digest response) (ap_ipv4 response) (ap_ipv6 response) now))) (\<lambda>_.
     sbind (set_last_index index) (\<lambda>_.
       sret (ap_ipv4 response + ap_ipv6 response)))"

definition enforce_desired :: "'w environment \<Rightarrow> pystr list \<Rightarrow> pystr list \<Rightarrow> ('w guard, int) action" where
  "enforce_desired env desired4 desired6 =
     (let digest = desired_digest_of (env_sha env) desired4 desired6 in
      sbind (store_call env (\<lambda>now. on_update (\<lambda>d. Inr (record_enforcement_attempt digest now d)))) (\<lambda>_.
      sbind (scatch (apply_desired env desired4 desired6) (record_failure env digest)) (\<lambda>(index, response).
        confirm env digest index response)))"

definition enforce :: "'w environment \<Rightarrow> ('w guard, int) action" where
  "enforce env =
     sbind (store_call env (\<lambda>now. on_result (effective_ips now))) (\<lambda>(desired4, desired6).
       enforce_desired env desired4 desired6)"

definition client_effective_count :: "'w environment \<Rightarrow> pystr \<Rightarrow> ('w guard, nat) action" where
  "client_effective_count env c s =
     sbind (store_call env (\<lambda>now. on_result (client_effective_ips c now))) (\<lambda>(v4, v6).
       if v4 = [] \<and> v6 = [] then sret 0
       else (\<lambda>t. case gd_last_index t of
           None \<Rightarrow> (t, Inl (EnforcementError ''no valid whitelist has been loaded''))
         | Some index \<Rightarrow>
             (t, rbind (index_exclude index v4) (\<lambda>x4. rbind (index_exclude index v6) (\<lambda>x6.
                   Inr (length x4 + length x6)))))) s"

end
