(* ===== verification/RateLimiter.thy ===== *)
theory RateLimiter
  imports PyStr
begin

text \<open>
  \<open>RateLimiter\<close> of \<^verbatim>\<open>src/f2bguard/server.py\<close>: per client a queue of the times of admitted
  requests, oldest first. The specification keeps the whole log and counts the last minute; the
  queue refines it as long as the clock does not run backwards (\<open>time.monotonic\<close>).
\<close>

type_synonym rate_state = "pystr \<Rightarrow> time list"

definition allow :: "nat \<Rightarrow> pystr \<Rightarrow> time \<Rightarrow> rate_state \<Rightarrow> rate_state \<times> bool" where
  "allow cap client current requests =
     (let history = dropWhile (\<lambda>t. t \<le> current - 60) (requests client) in
      if cap \<le> length history then (requests(client := history), False)
      else (requests(client := history @ [current]), True))"

text \<open>A sequence of requests and the decisions on them.\<close>

fun decisions :: "nat \<Rightarrow> (pystr \<times> time) list \<Rightarrow> rate_state \<Rightarrow> bool list" where
  "decisions cap [] s = []"
| "decisions cap ((c, t) # rs) s = (case allow cap c t s of (s', b) \<Rightarrow> b # decisions cap rs s')"

definition recent :: "pystr \<Rightarrow> time \<Rightarrow> (pystr \<times> time) list \<Rightarrow> (pystr \<times> time) list" where
  "recent c t hist = filter (\<lambda>r. fst r = c \<and> t - 60 < snd r) hist"

fun spec_decisions :: "nat \<Rightarrow> (pystr \<times> time) list \<Rightarrow> (pystr \<times> time) list \<Rightarrow> bool list" where
  "spec_decisions cap [] hist = []"
| "spec_decisions cap ((c, t) # rs) hist =
     (let ok = length (recent c t hist) < cap in
      ok # spec_decisions cap rs (if ok then hist @ [(c, t)] else hist))"

text \<open>The requests that were admitted, in order.\<close>

definition admitted :: "nat \<Rightarrow> (pystr \<times> time) list \<Rightarrow> (pystr \<times> time) list" where
  "admitted cap rs = map fst (filter snd (zip rs (decisions cap rs (\<lambda>_. []))))"

subsection \<open>The queue refines the log\<close>

text \<open>
  Every queue is sorted and agrees with the log on the times that can still matter after \<open>now\<close>.
\<close>

definition agrees :: "time \<Rightarrow> rate_state \<Rightarrow> (pystr \<times> time) list \<Rightarrow> bool" where
  "agrees now s hist \<longleftrightarrow>
     (\<forall>c. sorted (s c) \<and> (\<forall>t \<in> set (s c). t \<le> now)) \<and>
     (\<forall>c t. now \<le> t \<longrightarrow> filter (\<lambda>x. t - 60 < x) (s c) = map snd (recent c t hist))"

lemma dropWhile_sorted: "sorted xs \<Longrightarrow> dropWhile (\<lambda>x. x \<le> b) xs = filter (\<lambda>x. b < x) (xs :: time list)"
proof (induction xs)
  case (Cons x xs)
  show ?case
  proof (cases "x \<le> b")
    case False
    with Cons.prems have "\<forall>y \<in> set (x # xs). b < y" by auto
    then have "filter (\<lambda>y. b < y) (x # xs) = x # xs" by (simp only: filter_id_conv)
    with False show ?thesis by simp
  qed (use Cons in simp)
qed simp

lemma filter_later: "t \<le> (u :: time) \<Longrightarrow> filter (\<lambda>x. u - 60 < x) (filter (\<lambda>x. t - 60 < x) xs) = filter (\<lambda>x. u - 60 < x) xs"
  by (auto intro: filter_cong)

lemma agrees_allow:
  assumes a: "agrees now s hist" and t: "now \<le> t" and run: "allow cap c t s = (s', b)"
  shows "b \<longleftrightarrow> length (recent c t hist) < cap"
    and "agrees t s' (if b then hist @ [(c, t)] else hist)"
proof -
  let ?h = "dropWhile (\<lambda>x. x \<le> t - 60) (s c)"
  have sc: "sorted (s c)" "\<forall>x \<in> set (s c). x \<le> now" using a by (auto simp: agrees_def)
  have h: "?h = filter (\<lambda>x. t - 60 < x) (s c)" by (rule dropWhile_sorted [OF sc(1)])
  have hist: "filter (\<lambda>x. t - 60 < x) (s c) = map snd (recent c t hist)" using a t by (simp add: agrees_def)
  then have len: "length ?h = length (recent c t hist)" by (simp add: h)
  show b: "b \<longleftrightarrow> length (recent c t hist) < cap"
    using run len by (auto simp: allow_def Let_def split: if_splits)
  have s': "s' = s(c := if b then ?h @ [t] else ?h)"
    using run len b by (auto simp: allow_def Let_def split: if_splits)
  have sorted_h: "sorted ?h" "\<forall>x \<in> set ?h. x \<le> t"
    using sc t by (auto simp: h sorted_filter [where f = id, simplified])
  have other: "filter (\<lambda>x. u - 60 < x) (s d) = map snd (recent d u hist)" if "t \<le> u" for d u
    using a t that by (simp add: agrees_def)
  have mine: "filter (\<lambda>x. u - 60 < x) ?h = map snd (recent c u hist)" if "t \<le> u" for u
    using other [OF that, of c] by (simp only: h filter_later [OF that])
  have old: "sorted (s d) \<and> (\<forall>x \<in> set (s d). x \<le> t)" for d
    using a t by (auto simp: agrees_def intro: order_trans)
  show "agrees t s' (if b then hist @ [(c, t)] else hist)"
    unfolding agrees_def
  proof (intro conjI allI impI)
    fix d
    show "sorted (s' d)" "\<forall>x \<in> set (s' d). x \<le> t"
      using old sorted_h by (auto simp: s' sorted_append)
  next
    fix d u assume "t \<le> u"
    then show "filter (\<lambda>x. u - 60 < x) (s' d) = map snd (recent d u (if b then hist @ [(c, t)] else hist))"
      using other mine by (auto simp: s' recent_def)
  qed
qed

lemma decisions_refine:
  assumes "agrees now s hist" "sorted (map snd rs)" "\<forall>r \<in> set rs. now \<le> snd r"
  shows "decisions cap rs s = spec_decisions cap rs hist"
  using assms
proof (induction rs arbitrary: now s hist)
  case (Cons r rs)
  obtain c t where r: "r = (c, t)" by fastforce
  obtain s' b where run: "allow cap c t s = (s', b)" by fastforce
  have "now \<le> t" using Cons.prems(3) by (simp add: r)
  note step = agrees_allow [OF Cons.prems(1) this run]
  have "decisions cap rs s' = spec_decisions cap rs (if b then hist @ [(c, t)] else hist)"
    by (rule Cons.IH [OF step(2)]) (use Cons.prems in \<open>auto simp: r\<close>)
  with step(1) show ?case by (simp add: r run Let_def)
qed simp

lemma agrees_empty: "agrees now (\<lambda>_. []) []"
  by (simp add: agrees_def recent_def)

subsection \<open>The bound on every window\<close>

definition window :: "pystr \<Rightarrow> time \<Rightarrow> (pystr \<times> time) list \<Rightarrow> (pystr \<times> time) list" where
  "window c t hist = filter (\<lambda>r. fst r = c \<and> t - 60 < snd r \<and> snd r \<le> t) hist"

text \<open>The log of the specification after a sequence of requests.\<close>

fun spec_log :: "nat \<Rightarrow> (pystr \<times> time) list \<Rightarrow> (pystr \<times> time) list \<Rightarrow> (pystr \<times> time) list" where
  "spec_log cap [] hist = hist"
| "spec_log cap ((c, t) # rs) hist =
     spec_log cap rs (if length (recent c t hist) < cap then hist @ [(c, t)] else hist)"

lemma spec_log_admitted:
  "spec_log cap rs hist = hist @ map fst (filter snd (zip rs (spec_decisions cap rs hist)))"
  by (induction cap rs hist rule: spec_log.induct) (auto simp: Let_def)

lemma window_append: "window c t (hist @ [(d, u)]) =
    (if d = c \<and> t - 60 < u \<and> u \<le> t then window c t hist @ [(d, u)] else window c t hist)"
  by (simp add: window_def)

lemma window_recent:
  assumes "\<forall>r \<in> set hist. snd r \<le> u" "u \<le> t"
  shows "length (window c t hist) \<le> length (recent c u hist)"
  using assms unfolding window_def recent_def
  by (induction hist) auto

lemma spec_log_window:
  assumes "\<forall>c t. length (window c t hist) \<le> cap" "sorted (map snd rs)"
    "\<forall>r \<in> set rs. \<forall>l \<in> set hist. snd l \<le> snd r"
  shows "length (window c t (spec_log cap rs hist)) \<le> cap"
  using assms
proof (induction rs arbitrary: hist)
  case (Cons r rs)
  obtain d u where r: "r = (d, u)" by fastforce
  let ?hist = "if length (recent d u hist) < cap then hist @ [(d, u)] else hist"
  have "length (window e v ?hist) \<le> cap" for e v
    using Cons.prems(1) window_recent [of hist u v d] Cons.prems(3)
    by (auto simp: window_append r intro: Suc_leI le_less_trans)
  moreover have "\<forall>q \<in> set rs. \<forall>l \<in> set ?hist. snd l \<le> snd q"
    using Cons.prems(2,3) by (auto simp: r)
  ultimately have "length (window c t (spec_log cap rs ?hist)) \<le> cap"
    using Cons.IH [of ?hist] Cons.prems(2) by simp
  then show ?case by (simp add: r)
qed simp

subsection \<open>Properties\<close>

text \<open>
  C17. The rate limiter decides exactly by the sliding minute: on a clock that does not run
  backwards, a request is admitted if and only if fewer than \<open>limit\<close> requests of the same client
  were admitted during the preceding sixty seconds; other clients never matter.
\<close>

theorem rate_limiter_exact:
  assumes "sorted (map snd rs)"
  shows "decisions cap rs (\<lambda>_. []) = spec_decisions cap rs []"
proof (cases rs)
  case (Cons r rest)
  show ?thesis
    by (rule decisions_refine [OF agrees_empty [of "snd r"] assms]) (use assms Cons in auto)
qed simp

lemma rate_limiter_exact_witness:
  "decisions 1 [(''a'', 0), (''a'', 30), (''b'', 31), (''a'', 60)] (\<lambda>_. []) = [True, False, True, True]"
  using rate_limiter_exact [of "[(''a'', 0), (''a'', 30), (''b'', 31), (''a'', 60)]" 1]
  by (simp add: recent_def)

text \<open>
  No client ever gets more than its limit through: in every window of sixty seconds at most
  \<open>limit\<close> of a client's requests are admitted.
\<close>

theorem rate_limit_window:
  assumes "sorted (map snd rs)"
  shows "length (filter (\<lambda>r. fst r = c \<and> t - 60 < snd r \<and> snd r \<le> t) (admitted cap rs)) \<le> cap"
proof -
  have "decisions cap rs (\<lambda>_. []) = spec_decisions cap rs []"
  proof (cases rs)
    case (Cons r rest)
    show ?thesis
      by (rule decisions_refine [OF agrees_empty [of "snd r"] assms]) (use assms Cons in auto)
  qed simp
  then have "admitted cap rs = spec_log cap rs []" by (simp add: admitted_def spec_log_admitted)
  moreover have "length (window c t (spec_log cap rs [])) \<le> cap"
    by (rule spec_log_window) (use assms in \<open>simp_all add: window_def\<close>)
  ultimately show ?thesis by (simp add: window_def)
qed

lemma rate_limit_window_witness:
  "length (filter (\<lambda>r. fst r = ''a'' \<and> 59 - 60 < snd r \<and> snd r \<le> 59) (admitted 1 [(''a'', 0), (''a'', 30)])) \<le> 1"
  using rate_limit_window [of "[(''a'', 0), (''a'', 30)]" "''a''" 59 1] by simp

end
