(* ===== verification/PyInt.thy ===== *)
theory PyInt
  imports PyUuid
begin

text \<open>
  \<open>int(text, 10)\<close> of Python: surrounding space, a sign, decimal digits with single underscores
  between them, and the interpreter's limit of 4300 digits.
\<close>

fun dec_digits_ok :: "bool \<Rightarrow> pystr \<Rightarrow> bool" where
  "dec_digits_ok prev [] = prev"
| "dec_digits_ok prev (c # cs) =
     (if c = CHR ''_'' then prev \<and> cs \<noteq> [] \<and> dec_digits_ok False cs
      else is_dec c \<and> dec_digits_ok True cs)"

definition py_int10 :: "pystr \<Rightarrow> int result" where
  "py_int10 s =
     (let (neg, t) = strip_sign (py_strip s);
          digits = filter (\<lambda>c. c \<noteq> CHR ''_'') t in
      if dec_digits_ok False t \<and> length digits \<le> 4300
      then let n = int (radix_val 10 digits) in Inr (if neg then - n else n)
      else Inl ValueError)"

lemma signs_not_dec: "\<not> is_dec (CHR ''_'')" "\<not> is_dec (CHR ''-'')" "\<not> is_dec (CHR ''+'')"
  by code_simp+

lemma dec_not_space: "is_dec c \<Longrightarrow> \<not> is_space c"
  by (auto simp: is_dec_def is_space_def Let_def)

lemma dec_digits_ok_plain: "list_all is_dec s \<Longrightarrow> dec_digits_ok prev s \<longleftrightarrow> s \<noteq> [] \<or> prev"
proof (induction s arbitrary: prev)
  case (Cons c s)
  then have "c \<noteq> CHR ''_''" using signs_not_dec(1) by auto
  with Cons show ?case by simp
qed simp

lemma py_int10_raises: "py_int10 s = Inl e \<Longrightarrow> e = ValueError"
  by (auto simp: py_int10_def Let_def split: prod.splits if_splits)

lemma py_int10_dec_str:
  assumes "length (dec_str n) \<le> 4300"
  shows "py_int10 (dec_str n) = Inr (int n)"
proof -
  have d: "list_all is_dec (dec_str n)" "dec_str n \<noteq> []"
    using dec_str_digits [of n] by (auto simp: is_ascii_digits_def)
  have c: "c \<noteq> CHR ''_'' \<and> c \<noteq> CHR ''-'' \<and> c \<noteq> CHR ''+'' \<and> \<not> is_space c" if "c \<in> set (dec_str n)" for c
    using d that signs_not_dec dec_not_space by (metis list_all_iff)
  then have f: "filter (\<lambda>c. c \<noteq> CHR ''_'') (dec_str n) = dec_str n" by (simp add: filter_id_conv)
  have strip: "py_strip (dec_str n) = dec_str n"
    by (rule py_strip_absent) (use c in auto)
  have "strip_sign (dec_str n) = (False, dec_str n)"
    using d(2) c by (cases "dec_str n") (auto simp: strip_sign_def)
  then show ?thesis
    using assms d f strip by (simp add: py_int10_def dec_digits_ok_plain radix_val_radix_str)
qed

end
