(* ===== verification/Server.thy ===== *)
theory Server
  imports Enforcer RateLimiter PyInt
begin

text \<open>
  The HTTP side of \<^verbatim>\<open>src/f2bguard/server.py\<close>: the identification of the client by its
  certificate, the rate limit, the checks on a request body, the handlers of POST and GET, and the
  periodic enforcement.

  A request is what the connection delivers: the path, the headers in order, the peer's certificate
  and the bytes after the headers. A handler is an action on the server's state; it returns the
  reply that \<open>_json\<close> sends, or raises what the handler lets escape. Sending the reply is always the
  last thing a handler does.
\<close>

record http_request =
  rq_path :: pystr
  rq_headers :: "(pystr \<times> pystr) list"
  rq_cert :: "pystr option result"
  rq_bytes :: pystr
  rq_end :: "exn option"
  rq_monotonic :: time

record reply =
  rp_status :: nat
  rp_body :: json

record 'w server =
  sv_guard :: "'w guard"
  sv_rate :: rate_state

record 'w server_env =
  se_env :: "'w environment"
  se_config :: config
  se_iso :: iso_parser
  se_scan :: "pystr \<Rightarrow> jraw result"

definition on_guard :: "('w guard, 'a) action \<Rightarrow> ('w server, 'a) action" where
  "on_guard m s = (case m (sv_guard s) of (g, r) \<Rightarrow> (s\<lparr>sv_guard := g\<rparr>, r))"

definition error_reply :: "nat \<Rightarrow> pystr \<Rightarrow> reply" where
  "error_reply status msg = \<lparr>rp_status = status, rp_body = JObj [(''error'', JStr msg)]\<rparr>"

subsection \<open>The client\<close>

text \<open>\<open>certificate_fingerprint\<close>: no certificate and an empty one are refused.\<close>

definition certificate_fingerprint :: "(pystr \<Rightarrow> pystr) \<Rightarrow> pystr option result \<Rightarrow> pystr result" where
  "certificate_fingerprint sha peercert =
     rbind peercert (\<lambda>certificate.
       case certificate of None \<Rightarrow> Inl (PermissionError ''client certificate required'')
       | Some der \<Rightarrow> if der = '''' then Inl (PermissionError ''client certificate required'') else Inr (sha der))"

fun no_client_exn :: "exn \<Rightarrow> bool" where
  "no_client_exn (PermissionError _) = True"
| "no_client_exn SslError = True"
| "no_client_exn AttributeError = True"
| "no_client_exn _ = False"

definition client_of :: "'w server_env \<Rightarrow> http_request \<Rightarrow> client_config option result" where
  "client_of senv req =
     (case certificate_fingerprint (env_sha (se_env senv)) (rq_cert req) of
        Inl e \<Rightarrow> if no_client_exn e then Inr None else Inl e
      | Inr fp \<Rightarrow> Inr (clients_by_fingerprint (se_config senv) fp))"

definition rate_allow :: "'w server_env \<Rightarrow> pystr \<Rightarrow> time \<Rightarrow> ('w server, bool) action" where
  "rate_allow senv c now s =
     (case allow (nat (lm_requests_per_minute (cf_limits (se_config senv)))) c now (sv_rate s) of
        (rate, ok) \<Rightarrow> (s\<lparr>sv_rate := rate\<rparr>, Inr ok))"

text \<open>\<open>_authorize\<close>: the client, or the reply that was sent instead.\<close>

definition authorize :: "'w server_env \<Rightarrow> http_request \<Rightarrow> ('w server, reply + client_config) action" where
  "authorize senv req =
     sbind (slift (client_of senv req)) (\<lambda>client.
       case client of
         None \<Rightarrow> sret (Inl (error_reply 403 ''unknown client certificate''))
       | Some cl \<Rightarrow>
           sbind (rate_allow senv (cc_id cl) (rq_monotonic req)) (\<lambda>ok.
             if \<not> ok then sret (Inl (error_reply 429 ''rate limit exceeded'')) else sret (Inr cl)))"

subsection \<open>The body\<close>

text \<open>Header fields of \<open>http.client.HTTPMessage\<close>: names compare without case.\<close>

definition header_values :: "pystr \<Rightarrow> http_request \<Rightarrow> pystr list" where
  "header_values name req = map snd (filter (\<lambda>h. py_lower (fst h) = py_lower name) (rq_headers req))"

text \<open>\<open>get_content_type\<close>: the first Content-Type up to a semicolon, lower-cased.\<close>

definition content_type :: "http_request \<Rightarrow> pystr" where
  "content_type req =
     (case header_values ''content-type'' req of
        [] \<Rightarrow> ''text/plain''
      | v # _ \<Rightarrow>
          let t = py_lower (py_strip (hd (py_split (CHR '';'') v))) in
          if count_list t (CHR ''/'') \<noteq> 1 then ''text/plain'' else t)"

text \<open>\<open>rfile.read(length)\<close>: all of it, what came before the end of the stream, or the exception.\<close>

definition read_exactly :: "http_request \<Rightarrow> nat \<Rightarrow> pystr result" where
  "read_exactly req n =
     (if n \<le> length (rq_bytes req) then Inr (take n (rq_bytes req))
      else (case rq_end req of None \<Rightarrow> Inr (rq_bytes req) | Some e \<Rightarrow> Inl e))"

definition content_length :: "http_request \<Rightarrow> reply + int" where
  "content_length req =
     (let lengths = header_values ''Content-Length'' req in
      if length lengths \<noteq> 1 \<or> CHR '','' \<in> set (hd lengths)
      then (if lengths = [] then Inl (error_reply 411 ''Content-Length required'')
            else Inl (error_reply 400 ''exactly one Content-Length required''))
      else (case py_int10 (hd lengths) of
              Inl _ \<Rightarrow> Inl (error_reply 400 ''invalid Content-Length'')
            | Inr n \<Rightarrow> if n < 0 then Inl (error_reply 400 ''invalid Content-Length'') else Inr n))"

fun config_error :: "exn \<Rightarrow> pystr option" where
  "config_error (ConfigError m) = Some m"
| "config_error _ = None"

text \<open>\<open>_body\<close>: the decoded body, or the reply that was sent instead (\<open>_NO_BODY\<close>).\<close>

definition request_body :: "'w server_env \<Rightarrow> http_request \<Rightarrow> (reply + json) result" where
  "request_body senv req =
     (if header_values ''Transfer-Encoding'' req \<noteq> []
      then Inr (Inl (error_reply 400 ''transfer encoding is unsupported''))
      else (case content_length req of
        Inl refused \<Rightarrow> Inr (Inl refused)
      | Inr n \<Rightarrow>
          if lm_body_bytes (cf_limits (se_config senv)) < n
          then Inr (Inl (error_reply 413 ''request body too large''))
          else if content_type req \<noteq> ''application/json''
          then Inr (Inl (error_reply 415 ''application/json required''))
          else rbind (read_exactly req (nat n)) (\<lambda>data.
            if length data \<noteq> nat n then Inr (Inl (error_reply 400 ''incomplete request body''))
            else (case strict_json_loads (se_scan senv) data of
                Inr v \<Rightarrow> Inr (Inr v)
              | Inl e \<Rightarrow> (case config_error e of Some m \<Rightarrow> Inr (Inl (error_reply 400 m)) | None \<Rightarrow> Inl e)))))"

definition outer_object :: "json \<Rightarrow> pystr list \<Rightarrow> (pystr \<times> json) list result" where
  "outer_object raw required =
     (let err = Inl (ValidationError (''request must contain exactly: '' @ comma_join (sort required))) in
      case raw of JObj d \<Rightarrow> if set (jkeys d) \<noteq> set required then err else Inr d | _ \<Rightarrow> err)"

definition jails_allowed :: "client_config \<Rightarrow> pystr list \<Rightarrow> unit result" where
  "jails_allowed cl jails =
     (if list_ex (\<lambda>j. j \<notin> set (cc_allowed_jails cl)) jails
      then Inl (PermissionError ''jail is not allowed for this client'') else Inr ())"

subsection \<open>Writes\<close>

definition field_of :: "(pystr \<times> json) list \<Rightarrow> pystr \<Rightarrow> json" where
  "field_of d k = the (map_of d k)"

definition post_events :: "'w server_env \<Rightarrow> client_config \<Rightarrow> json \<Rightarrow> ('w server, apply_result) action" where
  "post_events senv cl raw =
     (let cfg = se_config senv; env = se_env senv in
      sbind (slift (outer_object raw [''events''])) (\<lambda>body.
      sbind (slift (validate_events (se_iso senv) (field_of body ''events'')
                      (nat (lm_events_per_request (cf_limits cfg))))) (\<lambda>events.
      sbind (slift (jails_allowed cl (map ev_jail events))) (\<lambda>_.
        on_guard (store_call env (\<lambda>now. apply_events (env_sha env) (cc_id cl) events
                    (nat (lm_claims_per_client (cf_limits cfg))) now))))))"

definition post_snapshot :: "'w server_env \<Rightarrow> client_config \<Rightarrow> json \<Rightarrow> ('w server, apply_result) action" where
  "post_snapshot senv cl raw =
     (let cap = nat (lm_claims_per_client (cf_limits (se_config senv))); env = se_env senv in
      sbind (slift (outer_object raw [''snapshot_id'', ''seq'', ''claims''])) (\<lambda>body.
      sbind (slift (validate_snapshot (se_iso senv) (field_of body ''snapshot_id'') (field_of body ''seq'')
                      (field_of body ''claims'') cap)) (\<lambda>(snapshot_id, seq, claims).
      sbind (slift (jails_allowed cl (map cl_jail claims))) (\<lambda>_.
        on_guard (store_call env (\<lambda>now. apply_snapshot (env_sha env) (cc_id cl) snapshot_id seq claims cap now))))))"

text \<open>The \<open>except\<close> clauses of \<open>do_POST\<close>, in their order; \<open>None\<close> is an exception that escapes.\<close>

definition post_error :: "exn \<Rightarrow> reply option" where
  "post_error e = (case e of
       PermissionError m \<Rightarrow> Some (error_reply 403 m)
     | ValidationError m \<Rightarrow> Some (error_reply 400 m)
     | StoreLimit m \<Rightarrow> Some (error_reply 400 m)
     | StoreConflict m \<Rightarrow> Some (error_reply 409 m)
     | SqliteError \<Rightarrow> Some \<lparr>rp_status = 503, rp_body = JObj [(''accepted'', JBool False),
         (''error'', JStr ''durable store unavailable'')]\<rparr>
     | _ \<Rightarrow> None)"

fun unavailable :: "exn \<Rightarrow> pystr option" where
  "unavailable (EnforcementError m) = Some m"
| "unavailable SqliteError = Some ''enforcement state unavailable''"
| "unavailable _ = None"

definition write_reply :: "apply_result \<Rightarrow> nat \<Rightarrow> reply" where
  "write_reply r n = \<lparr>rp_status = 200, rp_body = JObj [(''accepted'', JBool (ar_accepted r)),
     (''duplicate'', JBool (ar_duplicate r)), (''stale'', JBool (ar_stale r)),
     (''last_seq'', JInt (ar_last_seq r)), (''effective_ip_count'', JInt (int n))]\<rparr>"

definition unenforced_reply :: "apply_result \<Rightarrow> pystr \<Rightarrow> reply" where
  "unenforced_reply r msg = \<lparr>rp_status = 503, rp_body = JObj [(''accepted'', JBool (ar_accepted r)),
     (''durable'', JBool (ar_duplicate r \<or> \<not> ar_stale r)), (''enforced'', JBool False),
     (''stale'', JBool (ar_stale r)), (''error'', JStr msg)]\<rparr>"

definition finish_write :: "'w server_env \<Rightarrow> client_config \<Rightarrow> apply_result \<Rightarrow> ('w server, reply) action" where
  "finish_write senv cl result =
     scatch (sbind (on_guard (locked (se_env senv) (enforce (se_env senv)))) (\<lambda>_.
             sbind (on_guard (locked (se_env senv) (client_effective_count (se_env senv) (cc_id cl)))) (\<lambda>n.
               sret (write_reply result n))))
       (\<lambda>e. case unavailable e of Some msg \<Rightarrow> sret (unenforced_reply result msg) | None \<Rightarrow> slift (Inl e))"

text \<open>The \<open>try\<close> of \<open>do_POST\<close>: the result of the write, or the reply for its exception.\<close>

definition perform_write :: "'w server_env \<Rightarrow> client_config \<Rightarrow> pystr \<Rightarrow> json \<Rightarrow> ('w server, reply + apply_result) action" where
  "perform_write senv cl path raw =
     scatch
       (if path = ''/v1/events'' then sbind (post_events senv cl raw) (\<lambda>r. sret (Inr r))
        else if path = ''/v1/snapshot'' then sbind (post_snapshot senv cl raw) (\<lambda>r. sret (Inr r))
        else sret (Inl (error_reply 404 ''not found'')))
       (\<lambda>e. case post_error e of Some reply \<Rightarrow> sret (Inl reply) | None \<Rightarrow> slift (Inl e))"

definition do_POST :: "'w server_env \<Rightarrow> http_request \<Rightarrow> ('w server, reply) action" where
  "do_POST senv req =
     sbind (authorize senv req) (\<lambda>auth.
       case auth of Inl refused \<Rightarrow> sret refused
       | Inr cl \<Rightarrow>
           sbind (slift (request_body senv req)) (\<lambda>body.
             case body of Inl refused \<Rightarrow> sret refused
             | Inr raw \<Rightarrow>
                 sbind (perform_write senv cl (rq_path req) raw) (\<lambda>outcome.
                   case outcome of Inl refused \<Rightarrow> sret refused
                   | Inr result \<Rightarrow> finish_write senv cl result)))"

subsection \<open>Status\<close>

definition json_time :: "time option \<Rightarrow> json" where
  "json_time t = (case t of None \<Rightarrow> JNull | Some x \<Rightarrow> JFloat (Fin x))"

definition json_text :: "pystr option \<Rightarrow> json" where
  "json_text t = (case t of None \<Rightarrow> JNull | Some x \<Rightarrow> JStr x)"

definition status_reply :: "client_status \<Rightarrow> nat \<Rightarrow> reply" where
  "status_reply st n = \<lparr>rp_status = 200, rp_body = JObj [(''client_id'', JStr (st_client_id st)),
     (''last_seq'', JInt (st_last_seq st)), (''claim_count'', JInt (int (st_claim_count st))),
     (''updated_at'', json_time (st_updated_at st)),
     (''enforcement'', JObj [(''last_attempt'', json_time (st_last_attempt st)),
        (''last_success'', json_time (st_last_success st)), (''last_error'', json_text (st_last_error st))]),
     (''effective_ip_count'', JInt (int n))]\<rparr>"

definition do_GET :: "'w server_env \<Rightarrow> http_request \<Rightarrow> ('w server, reply) action" where
  "do_GET senv req =
     sbind (authorize senv req) (\<lambda>auth.
       case auth of Inl refused \<Rightarrow> sret refused
       | Inr cl \<Rightarrow>
           if rq_path req \<noteq> ''/v1/status'' then sret (error_reply 404 ''not found'')
           else scatch
             (sbind (on_guard (store_call (se_env senv) (\<lambda>now. on_result (\<lambda>d. Inr (client_status (cc_id cl) now d))))) (\<lambda>st.
              sbind (on_guard (locked (se_env senv) (client_effective_count (se_env senv) (cc_id cl)))) (\<lambda>n.
                sret (status_reply st n))))
             (\<lambda>e. case unavailable e of Some msg \<Rightarrow> sret (error_reply 503 msg) | None \<Rightarrow> slift (Inl e)))"

subsection \<open>Periodic enforcement\<close>

fun periodic_exn :: "exn \<Rightarrow> bool" where
  "periodic_exn (EnforcementError _) = True"
| "periodic_exn SqliteError = True"
| "periodic_exn e = is_OSError e"

definition periodic_once :: "'w server_env \<Rightarrow> ('w server, unit) action" where
  "periodic_once senv =
     scatch
       (sbind (on_guard (locked (se_env senv) (enforce (se_env senv)))) (\<lambda>_.
        sbind (on_guard (store_call (se_env senv) (\<lambda>now d.
          case prune_history (nat (cf_history_days (se_config senv))) now d of (d', n) \<Rightarrow> (d', Inr n)))) (\<lambda>_.
          sret ())))
       (\<lambda>e. if periodic_exn e then sret () else slift (Inl e))"

text \<open>
  \<open>_periodic\<close>: each element of the list is what \<open>stop_event.is_set\<close> returns before one pass and
  \<open>stop_event.wait\<close> after it. The result tells whether the loop has ended; the end of the list is the
  observation's end.
\<close>

fun periodic :: "'w server_env \<Rightarrow> (bool \<times> bool) list \<Rightarrow> 'w server \<Rightarrow> 'w server \<times> bool result" where
  "periodic senv [] s = (s, Inr False)"
| "periodic senv ((is_set, waited) # flags) s =
     (if is_set then (s, Inr True)
      else (case periodic_once senv s of
          (t, Inl e) \<Rightarrow> (t, Inl e)
        | (t, Inr u) \<Rightarrow> if waited then (t, Inr True) else periodic senv flags t))"

end
