(* ===== verification/StoreInvariant.thy ===== *)
theory StoreInvariant
  imports ClaimStore
begin

text \<open>
  The invariant of the database and its preservation by every method of the store. The loops of
  \<open>apply_events\<close> and \<open>apply_snapshot\<close> are reduced to closed forms: the claims table after the
  loop is a fold of upserts and deletes, the history table is extended by one row per event.
  Under the invariant no constraint of the schema is ever violated, so the only exceptions a
  write method raises are its own conflicts and limits.
\<close>

definition last_seq_of :: "db \<Rightarrow> pystr \<Rightarrow> int" where
  "last_seq_of s c =
     (case tlookup cs_client c (db_clients s) of None \<Rightarrow> 0 | Some r \<Rightarrow> cs_last_seq r)"

text \<open>
  The constraints of the schema, the canonical addresses, and a bound on the sequence numbers in
  the history of each client. Inside a transaction the bound runs ahead of the stored one.
\<close>

definition inv_below :: "(pystr \<Rightarrow> int) \<Rightarrow> db \<Rightarrow> bool" where
  "inv_below b s \<longleftrightarrow>
     keyed cs_client (db_clients s) \<and> keyed claim_pk (db_claims s) \<and>
     keyed event_pk (db_events s) \<and> keyed event_uk (db_events s) \<and>
     keyed snapshot_pk (db_snapshots s) \<and> keyed snapshot_uk (db_snapshots s) \<and>
     (\<forall>r \<in> set (db_claims s). fk_ok (cr_client r) s \<and> claimable_ip (cr_ip r)) \<and>
     (\<forall>r \<in> set (db_events s). er_seq r \<le> b (er_client r)) \<and>
     (\<forall>r \<in> set (db_snapshots s). sr_seq r \<le> b (sr_client r))"

definition db_ok :: "db \<Rightarrow> bool" where
  "db_ok s \<longleftrightarrow> inv_below (last_seq_of s) s \<and> (\<forall>c. 0 \<le> last_seq_of s c) \<and>
     length (db_claims s) \<le> max_total_claims"

definition is_conflict :: "exn \<Rightarrow> bool" where
  "is_conflict e \<longleftrightarrow> (\<exists>m. e = StoreConflict m)"

definition store_exn :: "exn \<Rightarrow> bool" where
  "store_exn e \<longleftrightarrow> (\<exists>m. e = StoreConflict m \<or> e = StoreLimit m)"

lemma is_conflict_store_exn: "is_conflict e \<Longrightarrow> store_exn e"
  by (auto simp: is_conflict_def store_exn_def)

lemma exn_intros [simp]:
  "is_conflict (StoreConflict m)" "store_exn (StoreConflict m)" "store_exn (StoreLimit m)"
  by (auto simp: is_conflict_def store_exn_def)

lemma inv_below_mono: "inv_below b s \<Longrightarrow> (\<And>c. b c \<le> b' c) \<Longrightarrow> inv_below b' s"
  by (auto simp: inv_below_def intro: order_trans)

lemma fk_ok_iff: "fk_ok c s \<longleftrightarrow> tlookup cs_client c (db_clients s) \<noteq> None"
  by (simp add: fk_ok_def list_ex_lookup)

lemma select_last_seq_fk: "fk_ok c s \<Longrightarrow> select_last_seq c s = Inr (last_seq_of s c)"
  by (auto simp: fk_ok_iff select_last_seq_def last_seq_of_def)

lemma fk_ok_cong: "db_clients s = db_clients t \<Longrightarrow> fk_ok c s = fk_ok c t"
  by (simp add: fk_ok_def)

lemma last_seq_of_cong: "db_clients s = db_clients t \<Longrightarrow> last_seq_of s = last_seq_of t"
  by (simp add: last_seq_of_def fun_eq_iff)

subsection \<open>Transactions\<close>

lemma transaction_Inl: "transaction body s = (s', Inl e) \<Longrightarrow> s' = s \<and> body s = Inl e"
  by (auto simp: transaction_def split: sum.splits)

lemma transaction_Inr: "transaction body s = (s', Inr x) \<longleftrightarrow> body s = Inr (s', x)"
  by (auto simp: transaction_def split: sum.splits)

subsection \<open>Touching and updating the client row\<close>

lemma touch_client_simps [simp]:
  "db_claims (touch_client c now s) = db_claims s"
  "db_events (touch_client c now s) = db_events s"
  "db_snapshots (touch_client c now s) = db_snapshots s"
  "db_enforcement (touch_client c now s) = db_enforcement s"
  by (simp_all add: touch_client_def)

lemma fk_ok_touch: "fk_ok d (touch_client c now s) \<longleftrightarrow> d = c \<or> fk_ok d s"
  by (auto simp: fk_ok_iff touch_client_def tlookup_tinsert_ignore)

lemma last_seq_of_touch [simp]: "last_seq_of (touch_client c now s) = last_seq_of s"
  by (rule ext) (auto simp: last_seq_of_def touch_client_def tlookup_tinsert_ignore split: option.splits)

lemma inv_below_touch: "inv_below b s \<Longrightarrow> inv_below b (touch_client c now s)"
  by (auto simp: inv_below_def fk_ok_touch, simp add: touch_client_def keyed_tinsert_ignore)

lemma db_ok_touch: "db_ok s \<Longrightarrow> db_ok (touch_client c now s)"
  by (simp add: db_ok_def inv_below_touch)

lemma update_client_simps [simp]:
  "db_claims (update_client c q now s) = db_claims s"
  "db_events (update_client c q now s) = db_events s"
  "db_snapshots (update_client c q now s) = db_snapshots s"
  "db_enforcement (update_client c q now s) = db_enforcement s"
  by (simp_all add: update_client_def)

lemma lookup_update_client:
  "tlookup cs_client d (db_clients (update_client c q now s)) =
     map_option (\<lambda>r. if cs_client r = c then r\<lparr>cs_last_seq := q, cs_updated_at := now\<rparr> else r)
       (tlookup cs_client d (db_clients s))"
  unfolding update_client_def by (simp add: tlookup_tupdate)

lemma fk_ok_update [simp]: "fk_ok d (update_client c q now s) \<longleftrightarrow> fk_ok d s"
  by (simp add: fk_ok_iff lookup_update_client)

lemma last_seq_of_update:
  "fk_ok c s \<Longrightarrow> last_seq_of (update_client c q now s) = (last_seq_of s)(c := q)"
  by (rule ext)
     (auto simp: last_seq_of_def lookup_update_client fk_ok_iff dest: tlookup_SomeD split: option.splits)

lemma inv_below_update: "inv_below b s \<Longrightarrow> inv_below b (update_client c q now s)"
  by (auto simp: inv_below_def, simp add: update_client_def keyed_tupdate)

subsection \<open>The history\<close>

lemma trim_events_simps [simp]:
  "db_clients (trim_events c n s) = db_clients s" "db_claims (trim_events c n s) = db_claims s"
  "db_snapshots (trim_events c n s) = db_snapshots s"
  "db_enforcement (trim_events c n s) = db_enforcement s"
  by (simp_all add: trim_events_def Let_def)

lemma trim_snapshots_simps [simp]:
  "db_clients (trim_snapshots c n s) = db_clients s" "db_claims (trim_snapshots c n s) = db_claims s"
  "db_events (trim_snapshots c n s) = db_events s"
  "db_enforcement (trim_snapshots c n s) = db_enforcement s"
  by (simp_all add: trim_snapshots_def Let_def)

lemma trim_events_tdelete: "\<exists>p. db_events (trim_events c n s) = tdelete p (db_events s)"
  by (auto simp: trim_events_def Let_def)

lemma trim_snapshots_tdelete: "\<exists>p. db_snapshots (trim_snapshots c n s) = tdelete p (db_snapshots s)"
  by (auto simp: trim_snapshots_def Let_def)

text \<open>Deleting history rows keeps the invariant, whichever rows go.\<close>

lemma inv_below_shrink:
  assumes "inv_below b s" "db_clients t = db_clients s" "db_claims t = db_claims s"
    "db_events t = tdelete p (db_events s)" "db_snapshots t = tdelete q (db_snapshots s)"
  shows "inv_below b t"
  using assms fk_ok_cong [OF assms(2)] by (auto simp: inv_below_def keyed_tdelete)

lemma tdelete_False: "tdelete (\<lambda>_. False) t = t"
  by (simp add: tdelete_def)

lemma inv_below_trim:
  assumes "inv_below b s"
  shows "inv_below b (trim_events c n s)" "inv_below b (trim_snapshots c n s)"
proof -
  obtain p where "db_events (trim_events c n s) = tdelete p (db_events s)"
    using trim_events_tdelete by blast
  then show "inv_below b (trim_events c n s)"
    by (intro inv_below_shrink [OF assms, where q = "\<lambda>_. False"]) (simp_all add: tdelete_False)
next
  obtain p where "db_snapshots (trim_snapshots c n s) = tdelete p (db_snapshots s)"
    using trim_snapshots_tdelete by blast
  then show "inv_below b (trim_snapshots c n s)"
    by (intro inv_below_shrink [OF assms, where p = "\<lambda>_. False"]) (simp_all add: tdelete_False)
qed

subsection \<open>One event\<close>

definition event_claim_key :: "pystr \<Rightarrow> event \<Rightarrow> pystr \<times> pystr \<times> pystr" where
  "event_claim_key c e = (c, ev_jail e, ev_ban_id e)"

definition change_claims :: "pystr \<Rightarrow> time \<Rightarrow> event \<Rightarrow> claim_row list \<Rightarrow> claim_row list" where
  "change_claims c now e t =
     (if ev_op e = ''ban'' then tupsert claim_pk (claim_row_of_event c now e) t
      else tdelete (\<lambda>r. claim_pk r = event_claim_key c e) t)"

lemma claim_pk_simps [simp]:
  "claim_pk (claim_row_of_event c now e) = event_claim_key c e"
  "cr_client (claim_row_of_event c now e) = c" "cr_ip (claim_row_of_event c now e) = ev_ip e"
  by (simp_all add: claim_pk_def claim_row_of_event_def event_claim_key_def)

lemma event_keys_simps [simp]:
  "event_pk (event_row_of c now d e) = (c, ev_event_id e)"
  "event_uk (event_row_of c now d e) = (c, ev_seq e)"
  "er_client (event_row_of c now d e) = c" "er_seq (event_row_of c now d e) = ev_seq e"
  "er_payload_hash (event_row_of c now d e) = d"
  by (simp_all add: event_pk_def event_uk_def event_row_of_def)

lemma delete_by_ip:
  assumes "keyed claim_pk t" "map_option cr_ip (tlookup claim_pk (c, j, b) t) \<in> {None, Some ip}"
  shows "tdelete (\<lambda>r. cr_client r = c \<and> cr_jail r = j \<and> cr_ban_id r = b \<and> cr_ip r = ip) t =
    tdelete (\<lambda>r. claim_pk r = (c, j, b)) t"
  unfolding tdelete_def
proof (rule filter_cong [OF refl])
  fix r assume "r \<in> set t"
  with assms show "(\<not> (cr_client r = c \<and> cr_jail r = j \<and> cr_ban_id r = b \<and> cr_ip r = ip)) =
      (claim_pk r \<noteq> (c, j, b))"
    using tlookup_Some [OF assms(1), of "(c, j, b)" r] by (auto simp: claim_pk_def)
qed

lemma apply_claim_change_eq:
  assumes "inv_below b s" "fk_ok c s"
  shows "rspec (apply_claim_change c now e s)
    (\<lambda>t. t = s\<lparr>db_claims := change_claims c now e (db_claims s)\<rparr> \<and>
         select_claim_ip c (ev_jail e) (ev_ban_id e) s \<in> {None, Some (ev_ip e)}) is_conflict"
  using assms delete_by_ip [of "db_claims s" c "ev_jail e" "ev_ban_id e" "ev_ip e"]
  by (auto simp: rspec_def apply_claim_change_def Let_def upsert_claim_def delete_claim_def
        change_claims_def event_claim_key_def inv_below_def select_claim_ip_def)

lemma bind_int_seq: "0 < i \<Longrightarrow> i \<le> 2 ^ 63 - 1 \<Longrightarrow> bind_int i = Inr i"
  by (simp add: bind_int_def)

lemma insert_event_eq:
  assumes "inv_below b s" "b c < ev_seq e" "event_ok e" "select_event c (ev_event_id e) s = None"
  shows "insert_event (event_row_of c now d e) s =
    Inr (s\<lparr>db_events := db_events s @ [event_row_of c now d e]\<rparr>)"
proof -
  have "(c, ev_event_id e) \<notin> event_pk ` set (db_events s)"
    using assms(4) by (simp add: select_event_def tlookup_None)
  moreover have "(c, ev_seq e) \<notin> event_uk ` set (db_events s)"
    using assms(1,2) by (fastforce simp: inv_below_def event_uk_def)
  moreover have "bind_int (ev_seq e) = Inr (ev_seq e)"
    using assms(3) by (simp add: event_ok_def bind_int_seq)
  ultimately show ?thesis by (simp add: insert_event_def tinsert_def list_ex_key)
qed

lemma change_claims_inv:
  assumes "keyed claim_pk t"
  shows "keyed claim_pk (change_claims c now e t)"
    and "r \<in> set (change_claims c now e t) \<Longrightarrow>
      r \<in> set t \<or> (ev_op e = ''ban'' \<and> r = claim_row_of_event c now e)"
  using assms set_tupsert [of claim_pk "claim_row_of_event c now e" t]
  by (auto simp: change_claims_def keyed_tupsert keyed_tdelete split: if_splits)

lemma inv_below_event:
  assumes "inv_below b s" "fk_ok c s" "b c < ev_seq e" "event_ok e"
    "select_event c (ev_event_id e) s = None"
  shows "inv_below (b(c := ev_seq e))
    (s\<lparr>db_claims := change_claims c now e (db_claims s),
       db_events := db_events s @ [event_row_of c now d e]\<rparr>)"
proof -
  have k: "(c, ev_event_id e) \<notin> event_pk ` set (db_events s)"
      "(c, ev_seq e) \<notin> event_uk ` set (db_events s)"
    using assms(1,3,5)
    by (auto simp: select_event_def tlookup_None inv_below_def event_uk_def)
  have ip: "claimable_ip (ev_ip e)" using assms(4) by (simp add: event_ok_def)
  have fk: "fk_ok d (s\<lparr>db_claims := t, db_events := u\<rparr>) = fk_ok d s" for d t u
    by (simp add: fk_ok_def)
  note ch = change_claims_inv [where t = "db_claims s" and c = c and now = now and e = e]
  show ?thesis
    using assms(1-3) k ip ch
    by (fastforce simp: inv_below_def fk intro: order_trans [OF _ less_imp_le])
qed

subsection \<open>The event loop\<close>

definition event_rows :: "pystr \<Rightarrow> time \<Rightarrow> event list \<Rightarrow> pystr list \<Rightarrow> event_row list" where
  "event_rows c now es ds = map (\<lambda>p. event_row_of c now (snd p) (fst p)) (zip es ds)"

definition loop_result :: "pystr \<Rightarrow> time \<Rightarrow> event list \<Rightarrow> pystr list \<Rightarrow> db \<Rightarrow> db" where
  "loop_result c now es ds s = s\<lparr>db_claims := fold (change_claims c now) es (db_claims s),
     db_events := db_events s @ event_rows c now es ds\<rparr>"

lemma select_event_append:
  "select_event c i (s\<lparr>db_claims := t, db_events := db_events s @ [event_row_of c now d e]\<rparr>) = None \<longleftrightarrow>
   select_event c i s = None \<and> i \<noteq> ev_event_id e"
  by (auto simp: select_event_def tlookup_append split: option.splits)

lemma apply_event_spec:
  assumes "inv_below b s" "fk_ok c s" "b c < ev_seq e" "event_ok e"
    "select_event c (ev_event_id e) s = None"
  shows "rspec (apply_event c now (e, d) s) (\<lambda>t. t = loop_result c now [e] [d] s) is_conflict"
proof -
  let ?s1 = "s\<lparr>db_claims := change_claims c now e (db_claims s)\<rparr>"
  have "inv_below b ?s1"
    using assms(1,2,4) fk_ok_cong [of ?s1 s]
      change_claims_inv [where t = "db_claims s" and c = c and now = now and e = e]
    by (fastforce simp: inv_below_def event_ok_def)
  moreover have "select_event c (ev_event_id e) ?s1 = None" using assms(5) by (simp add: select_event_def)
  ultimately have "insert_event (event_row_of c now d e) ?s1 = Inr (loop_result c now [e] [d] s)"
    using insert_event_eq [of b ?s1 c e now d] assms(3,4) by (simp add: loop_result_def event_rows_def)
  then show ?thesis
    unfolding apply_event_def fst_conv snd_conv
    by (intro rspec_bind [OF apply_claim_change_eq [OF assms(1,2)]]) (auto simp: rspec_def)
qed

lemma event_loop_spec:
  assumes "inv_below b s" "fk_ok c s" "list_all event_ok es" "sorted_wrt (<) (map ev_seq es)"
    "\<forall>e \<in> set es. b c < ev_seq e" "distinct (map ev_event_id es)"
    "\<forall>e \<in> set es. select_event c (ev_event_id e) s = None" "length ds = length es"
    "\<And>d. b d \<le> b' d" "\<forall>e \<in> set es. ev_seq e \<le> b' c"
  shows "rspec (rfold (apply_event c now) (zip es ds) s)
    (\<lambda>t. t = loop_result c now es ds s \<and> inv_below b' t) is_conflict"
  using assms
proof (induction es arbitrary: b s ds)
  case Nil
  then show ?case by (auto simp: rspec_def loop_result_def event_rows_def intro: inv_below_mono)
next
  case (Cons e es)
  obtain d ds' where ds: "ds = d # ds'" "length ds' = length es"
    using Cons.prems(8) by (cases ds) auto
  let ?s1 = "loop_result c now [e] [d] s"
  have s1: "?s1 = s\<lparr>db_claims := change_claims c now e (db_claims s),
      db_events := db_events s @ [event_row_of c now d e]\<rparr>"
    by (simp add: loop_result_def event_rows_def)
  have e: "b c < ev_seq e" "event_ok e" "select_event c (ev_event_id e) s = None"
    using Cons.prems by simp_all
  have inv: "inv_below (b(c := ev_seq e)) ?s1"
    unfolding s1 by (rule inv_below_event) (use Cons.prems e in auto)
  have comp: "loop_result c now es ds' ?s1 = loop_result c now (e # es) ds s"
    by (simp add: loop_result_def event_rows_def ds(1))
  have "rspec (rfold (apply_event c now) (zip es ds') ?s1)
      (\<lambda>t. t = loop_result c now es ds' ?s1 \<and> inv_below b' t) is_conflict"
  proof (rule Cons.IH [OF inv])
    show "fk_ok c ?s1" using Cons.prems(2) by (simp add: s1 fk_ok_def)
    show "\<forall>f \<in> set es. select_event c (ev_event_id f) ?s1 = None"
      unfolding s1 select_event_append using Cons.prems(6,7) by (auto simp: image_iff)
  qed (use Cons.prems ds in auto)
  then have tail: "rspec (rfold (apply_event c now) (zip es ds') ?s1)
      (\<lambda>t. t = loop_result c now (e # es) ds s \<and> inv_below b' t) is_conflict"
    by (simp only: comp)
  have "rspec (rbind (apply_event c now (e, d) s) (rfold (apply_event c now) (zip es ds')))
      (\<lambda>t. t = loop_result c now (e # es) ds s \<and> inv_below b' t) is_conflict"
    by (rule rspec_bind [OF apply_event_spec [OF Cons.prems(1,2) e]]) (simp add: tail)
  then show ?case by (simp add: ds(1))
qed

subsection \<open>apply_events as a whole\<close>

definition event_hashes :: "(pystr \<Rightarrow> pystr) \<Rightarrow> event list \<Rightarrow> pystr list" where
  "event_hashes sha es = map (\<lambda>e. payload_hash sha (event_wire e)) es"

text \<open>The state that a committed batch leaves behind.\<close>

definition committed_events ::
  "(pystr \<Rightarrow> pystr) \<Rightarrow> pystr \<Rightarrow> event list \<Rightarrow> time \<Rightarrow> db \<Rightarrow> db" where
  "committed_events sha c es now s =
     trim_events c max_history_events
       (update_client c (ev_seq (last es)) now
         (loop_result c now es (event_hashes sha es) (touch_client c now s)))"

definition events_outcome ::
  "(pystr \<Rightarrow> pystr) \<Rightarrow> pystr \<Rightarrow> event list \<Rightarrow> nat \<Rightarrow> time \<Rightarrow> db \<Rightarrow> db \<times> apply_result \<Rightarrow> bool" where
  "events_outcome sha c es cap now s out \<longleftrightarrow>
     (\<forall>e \<in> set es. \<not> reused_event e (payload_hash sha (event_wire e)) (select_event c (ev_event_id e) s)) \<and>
     (if ev_seq (hd es) \<le> last_seq_of s c
      then ev_seq (last es) \<le> last_seq_of s c \<and> fst out = touch_client c now s \<and>
        (let dup = list_all (\<lambda>e. select_event c (ev_event_id e) s \<noteq> None) es in
         snd out = \<lparr>ar_accepted = True, ar_duplicate = dup, ar_stale = (\<not> dup),
                    ar_last_seq = last_seq_of s c\<rparr>)
      else (\<forall>e \<in> set es. select_event c (ev_event_id e) s = None) \<and>
        fst out = committed_events sha c es now s \<and>
        count_client_claims c (fst out) \<le> cap \<and>
        snd out = \<lparr>ar_accepted = True, ar_duplicate = False, ar_stale = False,
                   ar_last_seq = ev_seq (last es)\<rparr>)"

lemma select_event_touch [simp]: "select_event c i (touch_client d now s) = select_event c i s"
  by (simp add: select_event_def)

lemma batch_seqs:
  assumes "batch_ok es" "e \<in> set es"
  shows "ev_seq (hd es) \<le> ev_seq e" "ev_seq e \<le> ev_seq (last es)" "0 < ev_seq e"
proof -
  have ne: "es \<noteq> []" and so: "sorted_wrt (<) (map ev_seq es)" and ok: "event_ok e"
    using assms by (auto simp: batch_ok_def list_all_iff)
  from assms(2) have m: "ev_seq e \<in> set (map ev_seq es)" by simp
  show "ev_seq (hd es) \<le> ev_seq e" using sorted_wrt_less_hd [OF so m] ne by (simp add: hd_map)
  show "ev_seq e \<le> ev_seq (last es)" using sorted_wrt_less_last [OF so m] ne by (simp add: last_map)
  show "0 < ev_seq e" using ok by (simp add: event_ok_def)
qed

lemma committed_events_ok:
  assumes inv: "inv_below ((last_seq_of s)(c := ev_seq (last es)))
      (loop_result c now es ds (touch_client c now s))"
    and pos: "0 < ev_seq (last es)" and nonneg: "\<forall>d. 0 \<le> last_seq_of s d"
    and total: "count_claims (loop_result c now es ds (touch_client c now s)) \<le> max_total_claims"
  shows "db_ok (trim_events c n (update_client c (ev_seq (last es)) now
    (loop_result c now es ds (touch_client c now s))))"
proof -
  let ?l = "loop_result c now es ds (touch_client c now s)"
  let ?u = "update_client c (ev_seq (last es)) now ?l"
  have cl: "db_clients ?l = db_clients (touch_client c now s)" by (simp add: loop_result_def)
  have "fk_ok c ?l" by (simp add: fk_ok_cong [OF cl] fk_ok_touch)
  then have ls: "last_seq_of ?u = (last_seq_of s)(c := ev_seq (last es))"
    by (simp add: last_seq_of_update last_seq_of_cong [OF cl])
  have "last_seq_of (trim_events c n ?u) = last_seq_of ?u" by (rule last_seq_of_cong) simp
  with ls inv pos nonneg total show ?thesis
    by (auto simp: db_ok_def inv_below_trim inv_below_update count_claims_def)
qed

lemma apply_events_body_spec:
  assumes ok: "db_ok s" and batch: "batch_ok es"
  shows "rspec (apply_events_body sha c es cap now s)
    (\<lambda>out. db_ok (fst out) \<and> events_outcome sha c es cap now s out) store_exn"
proof -
  let ?s1 = "touch_client c now s" and ?L = "last_seq_of s c"
  let ?ds = "event_hashes sha es"
  have fk: "fk_ok c ?s1" by (simp add: fk_ok_touch)
  then have sel: "select_last_seq c ?s1 = Inr ?L" by (simp add: select_last_seq_fk)
  have ne: "es \<noteq> []" using batch by (simp add: batch_ok_def)
  have fresh: "rspec (rfold (apply_event c now) (zip es ?ds) ?s1)
      (\<lambda>t. t = loop_result c now es ?ds ?s1 \<and> inv_below ((last_seq_of s)(c := ev_seq (last es))) t)
      is_conflict"
    if "?L < ev_seq (hd es)" "\<forall>e \<in> set es. select_event c (ev_event_id e) s = None"
  proof (rule event_loop_spec)
    show "inv_below (last_seq_of s) ?s1" using ok by (simp add: db_ok_def inv_below_touch)
    show "\<forall>e \<in> set es. ?L < ev_seq e" using that(1) batch_seqs(1) [OF batch] by force
    show "last_seq_of s d \<le> ((last_seq_of s)(c := ev_seq (last es))) d" for d
      using that(1) batch_seqs(1) [OF batch, of "last es"] ne by auto
  qed (use batch fk that(2) batch_seqs(2) [OF batch] in \<open>auto simp: batch_ok_def event_hashes_def\<close>)
  have commit: "rspec (rbind (rfold (apply_event c now) (zip es ?ds) ?s1) (\<lambda>s2.
        if cap < count_client_claims c s2 then Inl (StoreLimit m1)
        else if max_total_claims < count_claims s2 then Inl (StoreLimit m2)
        else Inr (trim_events c max_history_events (update_client c (ev_seq (last es)) now s2),
          \<lparr>ar_accepted = True, ar_duplicate = False, ar_stale = False, ar_last_seq = ev_seq (last es)\<rparr>)))
      (\<lambda>out. db_ok (fst out) \<and> events_outcome sha c es cap now s out) store_exn"
    if new: "?L < ev_seq (hd es)" "\<forall>e \<in> set es. select_event c (ev_event_id e) s = None"
      "\<forall>e \<in> set es. \<not> reused_event e (payload_hash sha (event_wire e)) (select_event c (ev_event_id e) s)"
    for m1 m2
  proof (rule rspec_bind [OF rspec_mono [OF fresh [OF new(1,2)]]])
    fix t assume t: "t = loop_result c now es ?ds ?s1 \<and> inv_below ((last_seq_of s)(c := ev_seq (last es))) t"
    have "0 < ev_seq (last es)" using batch_seqs(3) [OF batch] ne by simp
    with t ok new committed_events_ok [of s c es now ?ds max_history_events]
    show "rspec (if cap < count_client_claims c t then Inl (StoreLimit m1)
        else if max_total_claims < count_claims t then Inl (StoreLimit m2)
        else Inr (trim_events c max_history_events (update_client c (ev_seq (last es)) now t),
          \<lparr>ar_accepted = True, ar_duplicate = False, ar_stale = False, ar_last_seq = ev_seq (last es)\<rparr>))
      (\<lambda>out. db_ok (fst out) \<and> events_outcome sha c es cap now s out) store_exn"
      by (auto simp: rspec_def db_ok_def events_outcome_def committed_events_def count_client_claims_def)
  qed (auto intro: is_conflict_store_exn)
  have dup: "list_all (\<lambda>p. p \<noteq> None) (map (\<lambda>e. select_event c (ev_event_id e) s) es) =
      list_all (\<lambda>e. select_event c (ev_event_id e) s \<noteq> None) es"
    by (simp add: list.pred_map o_def)
  have any: "list_ex (\<lambda>p. p \<noteq> None) (map (\<lambda>e. select_event c (ev_event_id e) s) es) \<longleftrightarrow>
      \<not> (\<forall>e \<in> set es. select_event c (ev_event_id e) s = None)"
    by (auto simp: list_ex_iff)
  have reused: "list_ex (\<lambda>(e, digest, prior). reused_event e digest prior)
        (zip fs (zip (event_hashes sha fs) (map (\<lambda>e. select_event c (ev_event_id e) s) fs))) \<longleftrightarrow>
      \<not> (\<forall>e \<in> set fs. \<not> reused_event e (payload_hash sha (event_wire e)) (select_event c (ev_event_id e) s))" for fs
    by (induction fs) (auto simp: event_hashes_def)
  have hs: "map (\<lambda>e. payload_hash sha (event_wire e)) es = ?ds" by (simp add: event_hashes_def)
  show ?thesis
    unfolding apply_events_body_def Let_def sel rbind_simps select_event_touch hs reused dup any
  proof (intro rspec_ifI)
    assume "\<not> ev_seq (hd es) \<le> last_seq_of s c"
      and "\<not> \<not> (\<forall>e \<in> set es. \<not> reused_event e (payload_hash sha (event_wire e)) (select_event c (ev_event_id e) s))"
      and "\<not> \<not> (\<forall>e \<in> set es. select_event c (ev_event_id e) s = None)"
    then show "rspec (rbind (rfold (apply_event c now) (zip es ?ds) ?s1) (\<lambda>s2.
        if cap < count_client_claims c s2 then Inl (StoreLimit ''claims_per_client limit exceeded'')
        else if max_total_claims < count_claims s2 then Inl (StoreLimit ''global claim limit exceeded'')
        else Inr (trim_events c max_history_events (update_client c (ev_seq (last es)) now s2),
          \<lparr>ar_accepted = True, ar_duplicate = False, ar_stale = False, ar_last_seq = ev_seq (last es)\<rparr>)))
      (\<lambda>out. db_ok (fst out) \<and> events_outcome sha c es cap now s out) store_exn"
      by (intro commit) (simp_all only: not_not not_le)
  qed (use db_ok_touch [OF ok] in \<open>auto simp: events_outcome_def Let_def intro!: rspec_InlI rspec_InrI\<close>)
qed

subsection \<open>apply_snapshot as a whole\<close>

definition snapshot_claims :: "pystr \<Rightarrow> time \<Rightarrow> claim list \<Rightarrow> claim_row list \<Rightarrow> claim_row list" where
  "snapshot_claims c now cls t = tdelete (\<lambda>r. cr_client r = c) t @ map (claim_row_of c now) cls"

definition snapshot_row_of :: "pystr \<Rightarrow> time \<Rightarrow> pystr \<Rightarrow> int \<Rightarrow> pystr \<Rightarrow> snapshot_row" where
  "snapshot_row_of c now sid seq digest =
     \<lparr>sr_client = c, sr_snapshot_id = sid, sr_seq = seq, sr_payload_hash = digest, sr_received_at = now\<rparr>"

lemma claim_row_of_simps [simp]:
  "claim_pk (claim_row_of c now cl) = (c, claim_key cl)" "cr_client (claim_row_of c now cl) = c"
  "cr_ip (claim_row_of c now cl) = cl_ip cl"
  by (simp_all add: claim_pk_def claim_row_of_def claim_key_def)

lemma snapshot_row_simps [simp]:
  "snapshot_pk (snapshot_row_of c now sid seq d) = (c, sid)"
  "snapshot_uk (snapshot_row_of c now sid seq d) = (c, seq)"
  "sr_client (snapshot_row_of c now sid seq d) = c" "sr_seq (snapshot_row_of c now sid seq d) = seq"
  by (simp_all add: snapshot_pk_def snapshot_uk_def snapshot_row_of_def)

lemma claim_insert_loop:
  assumes "fk_ok c s" "distinct (map claim_key cls)"
    "\<forall>cl \<in> set cls. (c, claim_key cl) \<notin> claim_pk ` set (db_claims s)"
  shows "rfold (\<lambda>cl. insert_claim (claim_row_of c now cl)) cls s =
    Inr (s\<lparr>db_claims := db_claims s @ map (claim_row_of c now) cls\<rparr>)"
  using assms
proof (induction cls arbitrary: s)
  case (Cons cl cls)
  let ?s1 = "s\<lparr>db_claims := db_claims s @ [claim_row_of c now cl]\<rparr>"
  have "insert_claim (claim_row_of c now cl) s = Inr ?s1"
    using Cons.prems by (simp add: insert_claim_def tinsert_def list_ex_key)
  moreover have "rfold (\<lambda>cl. insert_claim (claim_row_of c now cl)) cls ?s1 =
      Inr (?s1\<lparr>db_claims := db_claims ?s1 @ map (claim_row_of c now) cls\<rparr>)"
    by (rule Cons.IH) (use Cons.prems in \<open>auto simp: fk_ok_def image_iff\<close>)
  ultimately show ?case by simp
qed simp

definition committed_snapshot ::
  "(pystr \<Rightarrow> pystr) \<Rightarrow> pystr \<Rightarrow> pystr \<Rightarrow> int \<Rightarrow> claim list \<Rightarrow> time \<Rightarrow> db \<Rightarrow> db" where
  "committed_snapshot sha c sid seq cls now s =
     trim_snapshots c max_history_snapshots (update_client c seq now
       ((touch_client c now s)\<lparr>db_claims := snapshot_claims c now cls (db_claims s),
          db_snapshots := db_snapshots s @
            [snapshot_row_of c now sid seq (payload_hash sha (snapshot_payload sid seq cls))]\<rparr>))"

definition snapshot_outcome ::
  "(pystr \<Rightarrow> pystr) \<Rightarrow> pystr \<Rightarrow> pystr \<Rightarrow> int \<Rightarrow> claim list \<Rightarrow> time \<Rightarrow> db \<Rightarrow> db \<times> apply_result \<Rightarrow> bool" where
  "snapshot_outcome sha c sid seq cls now s out \<longleftrightarrow>
     (if seq \<le> last_seq_of s c
      then fst out = touch_client c now s \<and>
        snd out = \<lparr>ar_accepted = True, ar_duplicate = (select_snapshot c sid s \<noteq> None),
          ar_stale = (select_snapshot c sid s = None), ar_last_seq = last_seq_of s c\<rparr>
      else fst out = committed_snapshot sha c sid seq cls now s \<and>
        (\<forall>cl \<in> set cls. select_claim_ip c (cl_jail cl) (cl_ban_id cl) s \<in> {None, Some (cl_ip cl)}) \<and>
        snd out = \<lparr>ar_accepted = True, ar_duplicate = False, ar_stale = False, ar_last_seq = seq\<rparr>)"

lemma select_snapshot_touch [simp]: "select_snapshot c i (touch_client d now s) = select_snapshot c i s"
  by (simp add: select_snapshot_def)

lemma existing_ip_eq:
  assumes "keyed claim_pk (db_claims s)"
  shows "existing_ip c s (j, b) = select_claim_ip c j b s"
proof -
  let ?f = "\<lambda>r. ((cr_jail r, cr_ban_id r), cr_ip r)" and ?mine = "filter (\<lambda>r. cr_client r = c) (db_claims s)"
  have inj: "distinct (map fst (map ?f ?mine))"
    using assms by (induction "db_claims s" arbitrary: s) (auto simp: keyed_def claim_pk_def distinct_map inj_on_def)
  have "existing_ip c s (j, b) = map_of (map ?f ?mine) (j, b)"
    unfolding existing_ip_def
    by (rule fun_cong [OF map_of_inject_set [THEN iffD2]]) (use inj in \<open>auto simp: rev_map [symmetric]\<close>)
  moreover have "map_of (map ?f (filter (\<lambda>r. cr_client r = c) t)) (j, b) =
      map_option cr_ip (tlookup claim_pk (c, j, b) t)" for t
    by (induction t) (auto simp: claim_pk_def)
  ultimately show ?thesis by (simp add: select_claim_ip_def)
qed

lemma rebinds_iff:
  "keyed claim_pk (db_claims s) \<Longrightarrow>
   rebinds c s cl \<longleftrightarrow> select_claim_ip c (cl_jail cl) (cl_ban_id cl) s \<notin> {None, Some (cl_ip cl)}"
  by (auto simp: rebinds_def claim_key_def existing_ip_eq split: option.splits)

lemma snapshot_claims_inv:
  assumes "keyed claim_pk t" "distinct (map claim_key cls)"
  shows "keyed claim_pk (snapshot_claims c now cls t)"
proof -
  have "keyed claim_pk (map (claim_row_of c now) cls)"
    using assms(2) by (simp add: keyed_def distinct_map inj_on_def)
  moreover have "claim_pk ` set (tdelete (\<lambda>r. cr_client r = c) t) \<inter>
      claim_pk ` set (map (claim_row_of c now) cls) = {}"
    by (auto simp: claim_pk_def claim_row_of_def)
  ultimately show ?thesis
    using keyed_tdelete [OF assms(1)]
    unfolding snapshot_claims_def keyed_def map_append distinct_append set_map by blast
qed

lemma insert_snapshot_eq:
  assumes "keyed snapshot_pk (db_snapshots s)" "\<forall>r \<in> set (db_snapshots s). sr_seq r \<le> b (sr_client r)"
    "b c < seq" "0 < seq" "seq \<le> 2 ^ 63 - 1" "select_snapshot c sid s = None"
  shows "insert_snapshot (snapshot_row_of c now sid seq d) s =
    Inr (s\<lparr>db_snapshots := db_snapshots s @ [snapshot_row_of c now sid seq d]\<rparr>)"
proof -
  have "(c, sid) \<notin> snapshot_pk ` set (db_snapshots s)"
    using assms(6) by (simp add: select_snapshot_def tlookup_None)
  moreover have "(c, seq) \<notin> snapshot_uk ` set (db_snapshots s)"
    using assms(2,3) by (fastforce simp: snapshot_uk_def)
  moreover have "bind_int seq = Inr seq" using assms(4,5) by (simp add: bind_int_seq)
  ultimately show ?thesis by (simp add: insert_snapshot_def tinsert_def list_ex_key)
qed

lemma committed_snapshot_ok:
  assumes ok: "db_ok s" and cls: "claims_ok cls" and new: "last_seq_of s c < seq"
    and none: "select_snapshot c sid s = None"
    and total: "length (snapshot_claims c now cls (db_claims s)) \<le> max_total_claims"
  shows "db_ok (committed_snapshot sha c sid seq cls now s)"
proof -
  let ?row = "snapshot_row_of c now sid seq (payload_hash sha (snapshot_payload sid seq cls))"
  let ?t = "(touch_client c now s)\<lparr>db_claims := snapshot_claims c now cls (db_claims s),
      db_snapshots := db_snapshots s @ [?row]\<rparr>"
  let ?b = "(last_seq_of s)(c := seq)"
  have inv: "inv_below (last_seq_of s) s" and nonneg: "\<forall>d. 0 \<le> last_seq_of s d"
    using ok by (simp_all add: db_ok_def)
  have cl: "db_clients ?t = db_clients (touch_client c now s)" by simp
  have fk: "fk_ok d ?t \<longleftrightarrow> d = c \<or> fk_ok d s" for d
    by (simp add: fk_ok_cong [OF cl] fk_ok_touch)
  have ls: "last_seq_of (update_client c seq now ?t) = ?b"
    by (simp add: last_seq_of_update fk last_seq_of_cong [OF cl])
  have snap: "(c, sid) \<notin> snapshot_pk ` set (db_snapshots s)" "(c, seq) \<notin> snapshot_uk ` set (db_snapshots s)"
    using none inv new
    by (auto simp: select_snapshot_def tlookup_None inv_below_def snapshot_uk_def)
  have rows: "fk_ok (cr_client r) ?t \<and> claimable_ip (cr_ip r)"
    if "r \<in> set (snapshot_claims c now cls (db_claims s))" for r
    using that inv cls unfolding fk
    by (auto simp: snapshot_claims_def inv_below_def claims_ok_def list_all_iff claim_ok_def)
  have "keyed claim_pk (snapshot_claims c now cls (db_claims s))"
    by (rule snapshot_claims_inv) (use inv cls in \<open>auto simp: inv_below_def claims_ok_def\<close>)
  moreover have "keyed cs_client (db_clients ?t)"
    using inv by (simp add: inv_below_def touch_client_def keyed_tinsert_ignore)
  ultimately have "inv_below ?b ?t"
    using inv snap rows new by (fastforce simp: inv_below_def intro: order_trans [OF _ less_imp_le])
  then have "inv_below ?b (trim_snapshots c n (update_client c seq now ?t))" for n
    by (intro inv_below_trim inv_below_update)
  moreover have "last_seq_of (committed_snapshot sha c sid seq cls now s) = ?b"
    unfolding committed_snapshot_def using ls
    by (subst last_seq_of_cong [of _ "update_client c seq now ?t"]) simp_all
  ultimately show ?thesis
    using nonneg total new
    by (auto simp: db_ok_def committed_snapshot_def intro: order_trans less_imp_le)
qed

lemma apply_snapshot_body_spec:
  assumes ok: "db_ok s" and cls: "claims_ok cls" and seq: "0 < seq" "seq \<le> 2 ^ 63 - 1"
  shows "rspec (apply_snapshot_body sha c sid seq cls now s)
    (\<lambda>out. db_ok (fst out) \<and> snapshot_outcome sha c sid seq cls now s out) store_exn"
proof -
  let ?s1 = "touch_client c now s" and ?L = "last_seq_of s c"
  let ?d = "payload_hash sha (snapshot_payload sid seq cls)"
  have inv: "inv_below (last_seq_of s) s" using ok by (simp add: db_ok_def)
  have fk: "fk_ok c ?s1" by (simp add: fk_ok_touch)
  then have sel: "select_last_seq c ?s1 = Inr ?L" by (simp add: select_last_seq_fk)
  let ?s2 = "?s1\<lparr>db_claims := snapshot_claims c now cls (db_claims s)\<rparr>"
  have loop: "rfold (\<lambda>cl. insert_claim (claim_row_of c now cl)) cls (delete_client_claims c ?s1) = Inr ?s2"
    using claim_insert_loop [of c "delete_client_claims c ?s1" cls now] fk cls
    by (auto simp: delete_client_claims_def snapshot_claims_def fk_ok_def claims_ok_def claim_pk_def)
  have none: "select_snapshot c sid s = None"
    if "\<not> (case select_snapshot c sid s of None \<Rightarrow> False | Some (q, h) \<Rightarrow> q \<noteq> seq \<or> h \<noteq> ?d)" "?L < seq"
    using that inv
    by (fastforce simp: select_snapshot_def inv_below_def snapshot_pk_def split: option.splits dest: tlookup_SomeD)
  have ins: "insert_snapshot (snapshot_row_of c now sid seq ?d) ?s2 =
      Inr (?s2\<lparr>db_snapshots := db_snapshots s @ [snapshot_row_of c now sid seq ?d]\<rparr>)"
    if "select_snapshot c sid s = None" "?L < seq"
    using insert_snapshot_eq [of ?s2 "last_seq_of s" c seq sid now ?d] inv that seq
    by (simp add: inv_below_def select_snapshot_def)
  have noreb: "select_claim_ip c (cl_jail cl) (cl_ban_id cl) s \<in> {None, Some (cl_ip cl)}"
    if "\<not> list_ex (rebinds c ?s1) cls" "cl \<in> set cls" for cl
    using that rebinds_iff [of ?s1 c cl] inv
    by (auto simp: list_ex_iff inv_below_def select_claim_ip_def)
  have row: "\<lparr>sr_client = c, sr_snapshot_id = sid, sr_seq = seq, sr_payload_hash = ?d, sr_received_at = now\<rparr> =
      snapshot_row_of c now sid seq ?d"
    by (simp add: snapshot_row_of_def)
  have comm: "trim_snapshots c max_history_snapshots (update_client c seq now
      (?s2\<lparr>db_snapshots := db_snapshots s @ [snapshot_row_of c now sid seq ?d]\<rparr>)) =
      committed_snapshot sha c sid seq cls now s"
    by (simp add: committed_snapshot_def)
  show ?thesis
    unfolding apply_snapshot_body_def Let_def sel rbind_simps select_snapshot_touch loop row
  proof (intro rspec_ifI)
    assume a: "\<not> (case select_snapshot c sid s of None \<Rightarrow> False | Some (q, h) \<Rightarrow> q \<noteq> seq \<or> h \<noteq> ?d)"
      "\<not> seq \<le> ?L" "\<not> list_ex (rebinds c ?s1) cls" "\<not> max_total_claims < count_claims ?s2"
    then have n: "select_snapshot c sid s = None" "?L < seq" using none by auto
    have "length (snapshot_claims c now cls (db_claims s)) \<le> max_total_claims"
      using a(4) by (simp add: count_claims_def)
    with committed_snapshot_ok [OF ok cls n(2) n(1)]
    have "db_ok (committed_snapshot sha c sid seq cls now s)" by blast
    with a noreb show "rspec (rbind (insert_snapshot (snapshot_row_of c now sid seq ?d) ?s2) (\<lambda>s3.
        Inr (trim_snapshots c max_history_snapshots (update_client c seq now s3),
          \<lparr>ar_accepted = True, ar_duplicate = False, ar_stale = False, ar_last_seq = seq\<rparr>)))
      (\<lambda>out. db_ok (fst out) \<and> snapshot_outcome sha c sid seq cls now s out) store_exn"
      unfolding ins [OF n] rbind_simps comm
      by (intro rspec_InrI) (simp add: snapshot_outcome_def)
  qed (use db_ok_touch [OF ok] in \<open>auto simp: snapshot_outcome_def intro!: rspec_InlI rspec_InrI\<close>)
qed

subsection \<open>Reachable databases\<close>

text \<open>
  One call on the store by the server: a write with validated arguments, a record of the enforcer,
  or the pruning of the history. The arguments that a caller chooses are free.
\<close>

inductive store_step :: "(pystr \<Rightarrow> pystr) \<Rightarrow> db \<Rightarrow> db \<Rightarrow> bool" for sha where
  step_events: "batch_ok es \<Longrightarrow> apply_events sha c es cap now s = (t, res) \<Longrightarrow> store_step sha s t"
| step_snapshot: "claims_ok cls \<Longrightarrow> 0 < seq \<Longrightarrow> seq \<le> 2 ^ 63 - 1 \<Longrightarrow>
    apply_snapshot sha c sid seq cls cap now s = (t, out) \<Longrightarrow> store_step sha s t"
| step_attempt: "store_step sha s (record_enforcement_attempt d now s)"
| step_success: "record_enforcement_success d a n4 n6 now s = Inr t \<Longrightarrow> store_step sha s t"
| step_failure: "store_step sha s (record_enforcement_failure d m now s)"
| step_prune: "prune_history days now s = (t, n) \<Longrightarrow> store_step sha s t"

inductive_cases store_stepE: "store_step sha s t"

inductive store_reachable :: "(pystr \<Rightarrow> pystr) \<Rightarrow> db \<Rightarrow> bool" for sha where
  reach_init: "store_reachable sha empty_db"
| reach_step: "store_reachable sha s \<Longrightarrow> store_step sha s t \<Longrightarrow> store_reachable sha t"

lemma empty_db_ok: "db_ok empty_db"
  by (simp add: db_ok_def inv_below_def empty_db_def last_seq_of_def)

lemma db_ok_enforcement: "db_ok (s\<lparr>db_enforcement := x\<rparr>) \<longleftrightarrow> db_ok s"
  by (simp add: db_ok_def inv_below_def last_seq_of_def fk_ok_def)

lemma db_ok_record:
  "db_ok s \<Longrightarrow> db_ok (record_enforcement_attempt d now s)"
  "record_enforcement_success d a n4 n6 now s = Inr t \<Longrightarrow> db_ok s \<Longrightarrow> db_ok t"
  "db_ok s \<Longrightarrow> db_ok (record_enforcement_failure d m now s)"
  by (auto simp: record_enforcement_attempt_def record_enforcement_success_def
      record_enforcement_failure_def db_ok_enforcement result_simps)

lemma db_ok_prune:
  assumes "db_ok s" "prune_history days now s = (t, n)"
  shows "db_ok t"
proof -
  have t: "db_clients t = db_clients s" "db_claims t = db_claims s"
    using assms(2) by (auto simp: prune_history_def Let_def)
  have "inv_below (last_seq_of s) t"
    by (rule inv_below_shrink [OF _ t])
       (use assms in \<open>auto simp: prune_history_def Let_def db_ok_def\<close>)
  then show ?thesis using assms(1) t last_seq_of_cong [OF t(1)] by (simp add: db_ok_def)
qed

lemma apply_events_batch:
  "batch_ok es \<Longrightarrow> apply_events sha c es cap now s = transaction (apply_events_body sha c es cap now) s"
  by (simp add: apply_events_def batch_ok_def strictly_increasing_sorted)

lemma apply_events_Inr:
  assumes "db_ok s" "batch_ok es" "apply_events sha c es cap now s = (t, Inr r)"
  shows "db_ok t" "events_outcome sha c es cap now s (t, r)"
  using assms(3) rspecD(1) [OF apply_events_body_spec [OF assms(1,2), of sha c cap now], of "(t, r)"]
  by (simp_all add: apply_events_batch [OF assms(2)] transaction_Inr)

lemma apply_events_Inl:
  assumes "db_ok s" "batch_ok es" "apply_events sha c es cap now s = (t, Inl e)"
  shows "t = s" "store_exn e"
  using assms(3) rspecD(2) [OF apply_events_body_spec [OF assms(1,2), of sha c cap now], of e]
  by (auto simp: apply_events_batch [OF assms(2)] dest: transaction_Inl)

lemma apply_snapshot_Inr:
  assumes "db_ok s" "claims_ok cls" "0 < seq" "seq \<le> 2 ^ 63 - 1"
    "apply_snapshot sha c sid seq cls cap now s = (t, Inr r)"
  shows "db_ok t" "snapshot_outcome sha c sid seq cls now s (t, r)" "length cls \<le> cap"
  using assms(5) rspecD(1) [OF apply_snapshot_body_spec [OF assms(1-4), of sha c sid now], of "(t, r)"]
  by (simp_all add: apply_snapshot_def transaction_Inr split: if_splits)

lemma apply_snapshot_Inl:
  assumes "db_ok s" "claims_ok cls" "0 < seq" "seq \<le> 2 ^ 63 - 1"
    "apply_snapshot sha c sid seq cls cap now s = (t, Inl e)"
  shows "t = s" "store_exn e"
  using assms(5) rspecD(2) [OF apply_snapshot_body_spec [OF assms(1-4), of sha c sid now], of e]
  by (auto simp: apply_snapshot_def dest: transaction_Inl split: if_splits)

lemma store_step_ok: "store_step sha s t \<Longrightarrow> db_ok s \<Longrightarrow> db_ok t"
proof (induction rule: store_step.induct)
  case (step_events es c cap now s t res)
  then show ?case
    by (cases res) (use apply_events_Inr(1) apply_events_Inl(1) in blast)+
next
  case (step_snapshot cls seq c sid cap now s t out)
  then show ?case
    by (cases out) (use apply_snapshot_Inr(1) apply_snapshot_Inl(1) in blast)+
qed (auto intro: db_ok_record db_ok_prune)

lemma store_reachable_ok: "store_reachable sha s \<Longrightarrow> db_ok s"
  by (induction rule: store_reachable.induct) (auto intro: empty_db_ok store_step_ok)

end
