(* ===== verification/StoreContract.thy ===== *)
theory StoreContract
  imports StoreInvariant
begin

text \<open>
  What the store promises to the server: an abstract view of each client (its last sequence
  number and its claims as a partial map), the refinement of this view by the write methods, and
  the set that the enforcer reads. The properties of the store stand at the end.
\<close>

type_synonym claim_value = "pystr \<times> bool \<times> time option"
type_synonym claim_map = "pystr \<times> pystr \<Rightarrow> claim_value option"

definition row_value :: "claim_row \<Rightarrow> claim_value" where
  "row_value r = (cr_ip r, cr_permanent r, cr_expires_at r)"

definition claims_of :: "db \<Rightarrow> pystr \<Rightarrow> claim_map" where
  "claims_of s c = (\<lambda>k. map_option row_value (tlookup claim_pk (c, k) (db_claims s)))"

text \<open>The meaning of an event and of a snapshot on the map.\<close>

definition event_key :: "event \<Rightarrow> pystr \<times> pystr" where
  "event_key e = (ev_jail e, ev_ban_id e)"

definition event_value :: "event \<Rightarrow> claim_value" where
  "event_value e = (ev_ip e, ev_permanent e = Some True, ev_expires_at e)"

definition spec_event :: "event \<Rightarrow> claim_map \<Rightarrow> claim_map" where
  "spec_event e m = (if ev_op e = ''ban'' then m(event_key e \<mapsto> event_value e) else m(event_key e := None))"

definition claim_value_of :: "claim \<Rightarrow> claim_value" where
  "claim_value_of cl = (cl_ip cl, cl_permanent cl, cl_expires_at cl)"

definition spec_snapshot :: "claim list \<Rightarrow> claim_map" where
  "spec_snapshot cls = map_of (map (\<lambda>cl. (claim_key cl, claim_value_of cl)) cls)"

subsection \<open>The claims table refines the map\<close>

definition event_op :: "pystr \<Rightarrow> time \<Rightarrow> event \<Rightarrow> (pystr \<times> pystr \<times> pystr, claim_row) table_op" where
  "event_op c now e =
     (if ev_op e = ''ban'' then Put (claim_row_of_event c now e) else Drop (event_claim_key c e))"

lemma change_claims_run: "change_claims c now = (\<lambda>e. row_table.run claim_pk (event_op c now e))"
  by (intro ext) (simp add: change_claims_def event_op_def)

lemma fold_change_lookup:
  assumes "keyed claim_pk t"
  shows "(\<lambda>k. tlookup claim_pk k (fold (change_claims c now) es t)) =
    fold (row_table.spec claim_pk) (map (event_op c now) es) (\<lambda>k. tlookup claim_pk k t)"
proof -
  have "fold (change_claims c now) es t = fold (row_table.run claim_pk) (map (event_op c now) es) t"
    by (simp add: fold_map change_claims_run o_def)
  with row_table.fold_refines [OF assms] show ?thesis by simp
qed

lemma event_op_spec:
  "(\<lambda>k. map_option row_value (row_table.spec claim_pk (event_op c now e) m (c, k))) =
     spec_event e (\<lambda>k. map_option row_value (m (c, k)))"
  "d \<noteq> c \<Longrightarrow> row_table.spec claim_pk (event_op c now e) m (d, k) = m (d, k)"
  by (auto simp: event_op_def spec_event_def event_claim_key_def event_key_def event_value_def
        row_value_def claim_row_of_event_def claim_pk_def fun_eq_iff)

lemma fold_event_op:
  "(\<lambda>k. map_option row_value (fold (row_table.spec claim_pk) (map (event_op c now) es) m (c, k))) =
     fold spec_event es (\<lambda>k. map_option row_value (m (c, k)))"
  "d \<noteq> c \<Longrightarrow> fold (row_table.spec claim_pk) (map (event_op c now) es) m (d, k) = m (d, k)"
  by (induction es arbitrary: m) (simp_all add: event_op_spec)

lemma claims_of_cong: "db_claims s = db_claims t \<Longrightarrow> claims_of s = claims_of t"
  by (simp add: claims_of_def fun_eq_iff)

lemma claims_of_touch [simp]: "claims_of (touch_client c now s) = claims_of s"
  by (rule claims_of_cong) simp

lemma claims_of_fold:
  assumes "keyed claim_pk (db_claims s)"
    and cl: "db_claims t = fold (change_claims c now) es (db_claims s)"
  shows "claims_of t d = (if d = c then fold spec_event es (claims_of s c) else claims_of s d)"
proof -
  note look = fun_cong [OF fold_change_lookup [OF assms(1), of c now es]]
  show ?thesis
  proof (cases "d = c")
    case True
    then show ?thesis
      using fold_event_op(1) [of c now es "\<lambda>k. tlookup claim_pk k (db_claims s)"]
      unfolding claims_of_def cl look by simp
  next
    case False
    then show ?thesis
      unfolding claims_of_def cl look by (simp add: fold_event_op(2))
  qed
qed

lemma claims_of_committed:
  "keyed claim_pk (db_claims s) \<Longrightarrow> claims_of (committed_events sha c es now s) d =
    (if d = c then fold spec_event es (claims_of s c) else claims_of s d)"
  by (rule claims_of_fold) (simp_all add: committed_events_def loop_result_def)

lemma last_seq_committed:
  "last_seq_of (committed_events sha c es now s) = (last_seq_of s)(c := ev_seq (last es))"
proof -
  let ?l = "loop_result c now es (event_hashes sha es) (touch_client c now s)"
  have cl: "db_clients ?l = db_clients (touch_client c now s)" by (simp add: loop_result_def)
  have "fk_ok c ?l" by (simp add: fk_ok_cong [OF cl] fk_ok_touch)
  then have "last_seq_of (update_client c (ev_seq (last es)) now ?l) =
      (last_seq_of s)(c := ev_seq (last es))"
    by (simp add: last_seq_of_update last_seq_of_cong [OF cl])
  then show ?thesis
    unfolding committed_events_def by (subst last_seq_of_cong) simp_all
qed

lemma last_seq_snapshot:
  "last_seq_of (committed_snapshot sha c sid seq cls now s) = (last_seq_of s)(c := seq)"
proof -
  let ?t = "(touch_client c now s)\<lparr>db_claims := snapshot_claims c now cls (db_claims s), db_snapshots :=
      db_snapshots s @ [snapshot_row_of c now sid seq (payload_hash sha (snapshot_payload sid seq cls))]\<rparr>"
  have cl: "db_clients ?t = db_clients (touch_client c now s)" by simp
  have "fk_ok c ?t" by (simp add: fk_ok_cong [OF cl] fk_ok_touch)
  then have "last_seq_of (update_client c seq now ?t) = (last_seq_of s)(c := seq)"
    by (simp add: last_seq_of_update last_seq_of_cong [OF cl])
  then show ?thesis
    unfolding committed_snapshot_def by (subst last_seq_of_cong) simp_all
qed

lemma tlookup_snapshot_claims:
  assumes "keyed claim_pk t"
  shows "map_option row_value (tlookup claim_pk (d, k) (snapshot_claims c now cls t)) =
    (if d = c then spec_snapshot cls k else map_option row_value (tlookup claim_pk (d, k) t))"
proof -
  have old: "tlookup claim_pk (d, k) (tdelete (\<lambda>r. cr_client r = c) t) =
      (if d = c then None else tlookup claim_pk (d, k) t)"
    using assms
    by (auto simp: tlookup_tdelete claim_pk_def split: option.splits dest: tlookup_SomeD)
  have new: "map_option row_value (tlookup claim_pk (d, k) (map (claim_row_of c now) cls)) =
      (if d = c then spec_snapshot cls k else None)"
    by (induction cls)
       (auto simp: spec_snapshot_def row_value_def claim_value_of_def claim_row_of_def claim_pk_def claim_key_def)
  show ?thesis
    unfolding snapshot_claims_def tlookup_append old using new by (auto split: option.splits)
qed

lemma claims_of_snapshot:
  assumes "keyed claim_pk (db_claims s)"
  shows "claims_of (committed_snapshot sha c sid seq cls now s) d =
    (if d = c then spec_snapshot cls else claims_of s d)"
  using tlookup_snapshot_claims [OF assms]
  by (auto simp: claims_of_def committed_snapshot_def fun_eq_iff)

lemma db_ok_keyed: "db_ok s \<Longrightarrow> keyed claim_pk (db_claims s)"
  by (simp add: db_ok_def inv_below_def)

subsection \<open>The effective addresses\<close>

lemma addr_key_inj:
  assumes "claimable_ip s" "claimable_ip t" "addr_version s = addr_version t" "addr_key s = addr_key t"
  shows "s = t"
proof -
  have st: "ip_address s = Inr (addr_of s)" "compressed (addr_of s) = s"
    "ip_address t = Inr (addr_of t)" "compressed (addr_of t) = t"
    using claimable_addr assms(1,2) by blast+
  obtain n m where "addr_of s = IPv4Address n \<or> addr_of s = IPv6Address n None"
      "addr_of t = IPv4Address m \<or> addr_of t = IPv6Address m None"
    using ip_address_no_scope [OF st(1)] ip_address_no_scope [OF st(3)] assms(1,2)
    by (auto simp: claimable_ip_def)
  with assms(3,4) st have "addr_of s = addr_of t"
    by (auto simp: addr_version_def addr_key_def)
  then show ?thesis using st by metis
qed

definition strictly_by_address :: "pystr list \<Rightarrow> bool" where
  "strictly_by_address ss = sorted_wrt (\<lambda>s t. addr_key s < addr_key t) ss"

lemma sort_family:
  assumes "\<forall>s \<in> set ss. claimable_ip s \<and> addr_version s = v" "distinct ss"
  shows "strictly_by_address (sort_key addr_key ss)"
proof -
  have "inj_on addr_key (set ss)"
    using addr_key_inj assms(1) by (metis inj_onI)
  then have "distinct (map addr_key (sort_key addr_key ss))"
    using assms(2) by (simp add: distinct_map)
  then have "sorted_wrt (<) (map addr_key (sort_key addr_key ss))"
    by (simp add: strict_sorted_iff)
  then show ?thesis by (simp add: strictly_by_address_def sorted_wrt_map)
qed

lemma split_families_spec:
  assumes "\<forall>s \<in> set ss. claimable_ip s"
  obtains v4 v6 where "split_families ss = Inr (v4, v6)"
    "set v4 = {s \<in> set ss. addr_version s = 4}" "set v6 = {s \<in> set ss. addr_version s = 6}"
    "strictly_by_address v4" "strictly_by_address v6"
proof -
  have "rmap ip_address ss = Inr (map addr_of ss)"
    by (rule rmap_map_Inr) (use assms claimable_addr in blast)
  moreover have "map compressed (filter (\<lambda>a. ip_version a = 4) (map addr_of ss)) =
      filter (\<lambda>s. addr_version s = 4) ss"
    using assms by (induction ss) (auto simp: claimable_addr addr_version_of)
  moreover have "map compressed (filter (\<lambda>a. ip_version a \<noteq> 4) (map addr_of ss)) =
      filter (\<lambda>s. addr_version s \<noteq> 4) ss"
    using assms by (induction ss) (auto simp: claimable_addr addr_version_of)
  ultimately have eq: "split_families ss =
      Inr (sort_key addr_key (remdups (filter (\<lambda>s. addr_version s = 4) ss)),
           sort_key addr_key (remdups (filter (\<lambda>s. addr_version s \<noteq> 4) ss)))"
    by (simp add: split_families_def Let_def)
  have v6: "s \<in> set ss \<Longrightarrow> addr_version s \<noteq> 4 \<longleftrightarrow> addr_version s = 6" for s
    using assms addr_version_46 by fastforce
  show ?thesis
  proof (rule that [OF eq])
    show "strictly_by_address (sort_key addr_key (remdups (filter (\<lambda>s. addr_version s = 4) ss)))"
      by (rule sort_family [of _ 4]) (use assms in auto)
    show "strictly_by_address (sort_key addr_key (remdups (filter (\<lambda>s. addr_version s \<noteq> 4) ss)))"
      by (rule sort_family [of _ 6]) (use assms v6 in auto)
  qed (use v6 in auto)
qed

lemma db_ok_ips: "db_ok s \<Longrightarrow> r \<in> set (db_claims s) \<Longrightarrow> claimable_ip (cr_ip r)"
  by (simp add: db_ok_def inv_below_def)

definition value_in_force :: "time \<Rightarrow> claim_value \<Rightarrow> bool" where
  "value_in_force now v = (fst (snd v) \<and> (case snd (snd v) of None \<Rightarrow> True | Some x \<Rightarrow> now < x))"

text \<open>The addresses that some client's permanent, unexpired claim names, by the abstract view.\<close>

definition blocked :: "time \<Rightarrow> db \<Rightarrow> pystr set" where
  "blocked now s = {ip. \<exists>c k v. claims_of s c k = Some v \<and> value_in_force now v \<and> fst v = ip}"

lemma blocked_rows:
  assumes "keyed claim_pk (db_claims s)"
  shows "blocked now s = cr_ip ` {r \<in> set (db_claims s). in_force now r}"
proof (rule set_eqI, rule iffI)
  fix ip assume "ip \<in> blocked now s"
  then obtain c k r where "tlookup claim_pk (c, k) (db_claims s) = Some r"
      "value_in_force now (row_value r)" "cr_ip r = ip"
    by (auto simp: blocked_def claims_of_def row_value_def)
  then show "ip \<in> cr_ip ` {r \<in> set (db_claims s). in_force now r}"
    by (auto simp: in_force_def value_in_force_def row_value_def dest!: tlookup_SomeD)
next
  fix ip assume "ip \<in> cr_ip ` {r \<in> set (db_claims s). in_force now r}"
  then obtain r where r: "r \<in> set (db_claims s)" "in_force now r" "cr_ip r = ip" by blast
  have "tlookup claim_pk (cr_client r, cr_jail r, cr_ban_id r) (db_claims s) = Some r"
    using tlookup_Some [OF assms, of _ r] r(1) by (simp add: claim_pk_def)
  then have "claims_of s (cr_client r) (cr_jail r, cr_ban_id r) = Some (row_value r)"
    by (simp add: claims_of_def)
  moreover have "value_in_force now (row_value r)" "fst (row_value r) = ip"
    using r(2,3) by (simp_all add: value_in_force_def in_force_def row_value_def)
  ultimately show "ip \<in> blocked now s" unfolding blocked_def by blast
qed

lemma effective_ips_spec:
  assumes "db_ok s"
  obtains v4 v6 where "effective_ips now s = Inr (v4, v6)"
    "set v4 = {ip \<in> blocked now s. addr_version ip = 4}"
    "set v6 = {ip \<in> blocked now s. addr_version ip = 6}"
    "strictly_by_address v4" "strictly_by_address v6"
proof -
  let ?ips = "remdups (map cr_ip (filter (in_force now) (db_claims s)))"
  have "\<forall>ip \<in> set ?ips. claimable_ip ip" using db_ok_ips [OF assms] by auto
  moreover have "set ?ips = blocked now s"
    by (auto simp: blocked_rows [OF db_ok_keyed [OF assms]])
  moreover obtain v4 v6 where "split_families ?ips = Inr (v4, v6)"
      "set v4 = {s \<in> set ?ips. addr_version s = 4}" "set v6 = {s \<in> set ?ips. addr_version s = 6}"
      "strictly_by_address v4" "strictly_by_address v6"
    by (rule split_families_spec [OF calculation(1)])
  ultimately show ?thesis using that [of v4 v6] by (simp add: effective_ips_def)
qed

subsection \<open>Acceptance\<close>

text \<open>When the abstract map admits a batch: no ban or unban names a different address than the claim.\<close>

fun spec_accepts :: "event list \<Rightarrow> claim_map \<Rightarrow> bool" where
  "spec_accepts [] m = True"
| "spec_accepts (e # es) m =
     ((case m (event_key e) of None \<Rightarrow> True | Some v \<Rightarrow> fst v = ev_ip e) \<and> spec_accepts es (spec_event e m))"

lemma select_claim_ip_claims_of:
  "select_claim_ip c j b s = map_option fst (claims_of s c (j, b))"
  by (simp add: select_claim_ip_def claims_of_def option.map_comp o_def row_value_def)

lemma apply_claim_change_accepts:
  assumes "inv_below b s" "fk_ok c s"
    "case claims_of s c (event_key e) of None \<Rightarrow> True | Some v \<Rightarrow> fst v = ev_ip e"
  shows "apply_claim_change c now e s = Inr (s\<lparr>db_claims := change_claims c now e (db_claims s)\<rparr>)"
proof -
  have "select_claim_ip c (ev_jail e) (ev_ban_id e) s \<in> {None, Some (ev_ip e)}"
    using assms(3) by (auto simp: select_claim_ip_claims_of event_key_def split: option.splits)
  then have "\<exists>t. apply_claim_change c now e s = Inr t"
    using assms(2) by (cases "ev_op e = ''ban''") (auto simp: apply_claim_change_def Let_def upsert_claim_def)
  then obtain t where "apply_claim_change c now e s = Inr t" ..
  with rspecD(1) [OF apply_claim_change_eq [OF assms(1,2)] this] show ?thesis by simp
qed

lemma event_loop_accepts:
  assumes "inv_below b s" "fk_ok c s" "list_all event_ok es" "sorted_wrt (<) (map ev_seq es)"
    "\<forall>e \<in> set es. b c < ev_seq e" "distinct (map ev_event_id es)"
    "\<forall>e \<in> set es. select_event c (ev_event_id e) s = None" "length ds = length es"
    "spec_accepts es (claims_of s c)"
  shows "rfold (apply_event c now) (zip es ds) s = Inr (loop_result c now es ds s)"
  using assms
proof (induction es arbitrary: b s ds)
  case Nil
  then show ?case by (simp add: loop_result_def event_rows_def)
next
  case (Cons e es)
  obtain d ds' where ds: "ds = d # ds'" "length ds' = length es"
    using Cons.prems(8) by (cases ds) auto
  let ?s1 = "loop_result c now [e] [d] s"
  have s1: "?s1 = s\<lparr>db_claims := change_claims c now e (db_claims s),
      db_events := db_events s @ [event_row_of c now d e]\<rparr>"
    by (simp add: loop_result_def event_rows_def)
  have e: "b c < ev_seq e" "event_ok e" "select_event c (ev_event_id e) s = None"
    using Cons.prems by simp_all
  have inv: "inv_below (b(c := ev_seq e)) ?s1"
    unfolding s1 by (rule inv_below_event) (use Cons.prems e in auto)
  have "apply_claim_change c now e s = Inr (s\<lparr>db_claims := change_claims c now e (db_claims s)\<rparr>)"
    by (rule apply_claim_change_accepts [OF Cons.prems(1,2)]) (use Cons.prems(9) in simp)
  moreover have "rspec (apply_event c now (e, d) s) (\<lambda>t. t = ?s1) is_conflict"
    by (rule apply_event_spec [OF Cons.prems(1,2) e])
  moreover have "insert_event (event_row_of c now d e)
      (s\<lparr>db_claims := change_claims c now e (db_claims s)\<rparr>) \<noteq> Inl x" if "is_conflict x" for x
    using that by (auto simp: insert_event_def bind_int_def tinsert_def is_conflict_def)
  ultimately have step: "apply_event c now (e, d) s = Inr ?s1"
    by (auto simp: rspec_def apply_event_def split: sum.splits)
  have "claims_of ?s1 c = spec_event e (claims_of s c)"
    using claims_of_fold [of s ?s1 c now "[e]" c] Cons.prems(1)
    by (simp add: inv_below_def loop_result_def)
  then have "rfold (apply_event c now) (zip es ds') ?s1 = Inr (loop_result c now es ds' ?s1)"
  proof (intro Cons.IH [OF inv])
    show "fk_ok c ?s1" using Cons.prems(2) by (simp add: s1 fk_ok_def)
    show "\<forall>f \<in> set es. select_event c (ev_event_id f) ?s1 = None"
      unfolding s1 select_event_append using Cons.prems(6,7) by (auto simp: image_iff)
  qed (use Cons.prems ds in auto)
  with step show ?case by (simp add: ds(1) loop_result_def event_rows_def)
qed

text \<open>Counting rows is counting keys of the map.\<close>

lemma count_client_claims_card:
  assumes "keyed claim_pk (db_claims s)"
  shows "count_client_claims c s = card (dom (claims_of s c))"
proof -
  let ?mine = "filter (\<lambda>r. cr_client r = c) (db_claims s)" and ?f = "\<lambda>r. (cr_jail r, cr_ban_id r)"
  have "dom (claims_of s c) = ?f ` set ?mine"
  proof (rule set_eqI)
    fix k :: "pystr \<times> pystr"
    have "k \<in> dom (claims_of s c) \<longleftrightarrow> (c, k) \<in> claim_pk ` set (db_claims s)"
      using tlookup_None [of claim_pk "(c, k)" "db_claims s"]
      by (cases "tlookup claim_pk (c, k) (db_claims s)") (auto simp: claims_of_def dom_def)
    then show "k \<in> dom (claims_of s c) \<longleftrightarrow> k \<in> ?f ` set ?mine"
      by (cases k) (force simp: claim_pk_def image_iff)
  qed
  moreover have "inj_on ?f (set ?mine)"
    using assms by (auto simp: keyed_def distinct_map claim_pk_def inj_on_def)
  moreover have "distinct ?mine" using keyed_distinct [OF assms] by simp
  ultimately show ?thesis
    using distinct_card [of ?mine] by (simp add: count_client_claims_def card_image del: set_filter)
qed

lemma fold_change_keyed: "keyed claim_pk t \<Longrightarrow> keyed claim_pk (fold (change_claims c now) es t)"
  by (induction es arbitrary: t) (simp_all add: change_claims_inv)

text \<open>The rows of the other clients stay, so that the table's length follows from the client's map.\<close>

lemma filter_tupsert_other: "\<not> P r \<Longrightarrow> (\<And>x. key x = key r \<Longrightarrow> \<not> P x) \<Longrightarrow> filter P (tupsert key r t) = filter P t"
proof -
  assume "\<not> P r" "\<And>x. key x = key r \<Longrightarrow> \<not> P x"
  then have "filter P (map (\<lambda>x. if key x = key r then r else x) t) = filter P t" by (induction t) auto
  with \<open>\<not> P r\<close> show "filter P (tupsert key r t) = filter P t" by (simp add: tupsert_def)
qed

lemma change_claims_others:
  "filter (\<lambda>r. cr_client r \<noteq> c) (change_claims c now e t) = filter (\<lambda>r. cr_client r \<noteq> c) t"
proof (cases "ev_op e = ''ban''")
  case True
  then show ?thesis
    by (simp add: change_claims_def) (rule filter_tupsert_other, auto simp: claim_pk_def event_claim_key_def)
next
  case False
  then show ?thesis
    by (simp add: change_claims_def tdelete_def) (rule filter_cong, auto simp: claim_pk_def event_claim_key_def)
qed

lemma fold_change_others:
  "filter (\<lambda>r. cr_client r \<noteq> c) (fold (change_claims c now) es t) = filter (\<lambda>r. cr_client r \<noteq> c) t"
  by (induction es arbitrary: t) (simp_all add: change_claims_others)

lemma count_claims_split:
  "count_claims s = length (filter (\<lambda>r. cr_client r \<noteq> c) (db_claims s)) + count_client_claims c s"
  using sum_length_filter_compl [of "\<lambda>r. cr_client r = c" "db_claims s"] by (simp add: count_claims_def count_client_claims_def)

lemma apply_events_accepts:
  assumes ok: "db_ok s" and batch: "batch_ok es" and new: "last_seq_of s c < ev_seq (hd es)"
    and fresh: "\<forall>e \<in> set es. select_event c (ev_event_id e) s = None"
    and accepts: "spec_accepts es (claims_of s c)"
    and cap: "card (dom (fold spec_event es (claims_of s c))) \<le> cap"
    and total: "length (filter (\<lambda>r. cr_client r \<noteq> c) (db_claims s)) + card (dom (fold spec_event es (claims_of s c))) \<le> max_total_claims"
  shows "apply_events sha c es cap now s =
    (committed_events sha c es now s,
     Inr \<lparr>ar_accepted = True, ar_duplicate = False, ar_stale = False, ar_last_seq = ev_seq (last es)\<rparr>)"
proof -
  let ?s1 = "touch_client c now s" and ?ds = "event_hashes sha es"
  let ?l = "loop_result c now es ?ds ?s1"
  have fk: "fk_ok c ?s1" by (simp add: fk_ok_touch)
  have loop: "rfold (apply_event c now) (zip es ?ds) ?s1 = Inr ?l"
  proof (rule event_loop_accepts)
    show "inv_below (last_seq_of s) ?s1" using ok by (simp add: db_ok_def inv_below_touch)
    show "\<forall>e \<in> set es. last_seq_of s c < ev_seq e" using new batch_seqs(1) [OF batch] by force
  qed (use batch fk fresh accepts in \<open>auto simp: batch_ok_def event_hashes_def\<close>)
  have kl: "keyed claim_pk (db_claims s)" using ok by (rule db_ok_keyed)
  have view: "claims_of ?l c = fold spec_event es (claims_of s c)"
    using claims_of_fold [OF kl, of ?l c now es c] by (simp add: loop_result_def)
  have keyed: "keyed claim_pk (db_claims ?l)"
    using fold_change_keyed [OF kl] by (simp add: loop_result_def)
  from view keyed have c1: "count_client_claims c ?l \<le> cap"
    using cap by (simp add: count_client_claims_card)
  have "count_client_claims c ?l = card (dom (fold spec_event es (claims_of s c)))"
    using view keyed by (simp add: count_client_claims_card)
  then have c2: "count_claims ?l \<le> max_total_claims"
    using total fold_change_others [of c now es "db_claims s"] by (simp add: count_claims_split [of _ c] loop_result_def)
  have none: "map (\<lambda>e. select_event c (ev_event_id e) s) es = map (\<lambda>e. None) es" using fresh by simp
  have reused: "\<not> list_ex (\<lambda>(e, digest, prior). reused_event e digest prior) (zip es (zip ?ds (map (\<lambda>e. None) es)))"
    unfolding event_hashes_def by (induction es) (auto simp: reused_event_def)
  have sel: "select_last_seq c ?s1 = Inr (last_seq_of s c)" using fk by (simp add: select_last_seq_fk)
  have "apply_events_body sha c es cap now s = Inr (committed_events sha c es now s,
      \<lparr>ar_accepted = True, ar_duplicate = False, ar_stale = False, ar_last_seq = ev_seq (last es)\<rparr>)"
    unfolding apply_events_body_def Let_def sel rbind_simps select_event_touch none event_hashes_def [symmetric] loop
    using new c1 c2 reused by (simp add: committed_events_def list_ex_iff)
  then show ?thesis by (simp add: apply_events_batch [OF batch] transaction_def)
qed

subsection \<open>Replays\<close>

text \<open>A batch that matches the history and does not pass the sequence number changes nothing.\<close>

lemma touch_client_known: "fk_ok c s \<Longrightarrow> touch_client c now s = s"
  by (simp add: fk_ok_def touch_client_def tinsert_ignore_def)

lemma apply_events_replay:
  assumes batch: "batch_ok es" and fk: "fk_ok c s" and old: "ev_seq (last es) \<le> last_seq_of s c"
    and same: "\<forall>e \<in> set es. \<not> reused_event e (payload_hash sha (event_wire e)) (select_event c (ev_event_id e) s)"
  shows "\<exists>dup. apply_events sha c es cap now s =
    (s, Inr \<lparr>ar_accepted = True, ar_duplicate = dup, ar_stale = (\<not> dup), ar_last_seq = last_seq_of s c\<rparr>)"
proof -
  have sel: "select_last_seq c s = Inr (last_seq_of s c)" using fk by (simp add: select_last_seq_fk)
  have "list_all (\<lambda>e. \<not> reused_event e (payload_hash sha (event_wire e)) (select_event c (ev_event_id e) s)) es"
    using same by (simp add: list_all_iff)
  then have reused: "\<not> list_ex (\<lambda>(e, digest, prior). reused_event e digest prior)
      (zip es (zip (map (\<lambda>e. payload_hash sha (event_wire e)) es) (map (\<lambda>e. select_event c (ev_event_id e) s) es)))"
    by (induction es) auto
  have "last es \<in> set es" using batch by (simp add: batch_ok_def)
  then have "ev_seq (hd es) \<le> last_seq_of s c" using batch_seqs(1) [OF batch] old by force
  then show ?thesis
    unfolding apply_events_batch [OF batch] transaction_def apply_events_body_def Let_def
      touch_client_known [OF fk] sel rbind_simps
    using reused old by auto
qed

lemma fk_ok_committed: "fk_ok c (committed_events sha c es now s)"
proof -
  have "fk_ok c (committed_events sha c es now s) = fk_ok c (update_client c (ev_seq (last es)) now
      (loop_result c now es (event_hashes sha es) (touch_client c now s)))"
    unfolding committed_events_def by (rule fk_ok_cong) simp
  also have "\<dots> = fk_ok c (touch_client c now s)"
    by (simp only: fk_ok_update, rule fk_ok_cong) (simp add: loop_result_def)
  finally show ?thesis by (simp add: fk_ok_touch)
qed

lemma committed_history:
  assumes fresh: "\<forall>e \<in> set es. select_event c (ev_event_id e) s = None"
    and "distinct (map ev_event_id es)" "e \<in> set es"
  shows "select_event c (ev_event_id e) (committed_events sha c es now s) \<in>
    {None, Some (ev_seq e, payload_hash sha (event_wire e))}"
proof -
  let ?t = "committed_events sha c es now s"
  obtain p where "db_events ?t = tdelete p (db_events (update_client c (ev_seq (last es)) now
      (loop_result c now es (event_hashes sha es) (touch_client c now s))))"
    using trim_events_tdelete unfolding committed_events_def by blast
  then have "db_events ?t = tdelete p (db_events s @ event_rows c now es (event_hashes sha es))"
    by (simp add: loop_result_def)
  then have rows: "set (db_events ?t) \<subseteq> set (db_events s) \<union> set (event_rows c now es (event_hashes sha es))"
    by auto
  have zip: "zip es (event_hashes sha es) = map (\<lambda>e. (e, payload_hash sha (event_wire e))) es"
    by (simp add: event_hashes_def zip_map2 zip_same_conv_map)
  show ?thesis
  proof (cases "tlookup event_pk (c, ev_event_id e) (db_events ?t)")
    case None
    then show ?thesis by (simp add: select_event_def)
  next
    case (Some r)
    then have r: "r \<in> set (db_events ?t)" "event_pk r = (c, ev_event_id e)" by (auto dest: tlookup_SomeD)
    have "r \<notin> set (db_events s)"
      using fresh assms(3) r(2) by (force simp: select_event_def tlookup_None)
    with rows r(1) obtain f where f: "f \<in> set es" "r = event_row_of c now (payload_hash sha (event_wire f)) f"
      by (auto simp: event_rows_def zip)
    with r(2) have "ev_event_id f = ev_event_id e" by simp
    then have "f = e" using assms(2,3) f(1) by (auto simp: distinct_map dest: inj_onD)
    with f(2) show ?thesis by (simp add: select_event_def Some)
  qed
qed

subsection \<open>Properties\<close>

text \<open>
  C8. Whatever sequence of validated writes, enforcement records and prunings a server issues on a
  fresh database, no two claims share client, jail and ban id, every claimed address is the
  canonical text of an unprotected address and belongs to a registered client, no history row is
  ahead of its client's sequence number, and there are at most 100000 claims.
\<close>

theorem reachable_invariant:
  assumes "store_reachable sha s"
  shows "distinct (map claim_pk (db_claims s)) \<and> length (db_claims s) \<le> 100000 \<and>
    (\<forall>r \<in> set (db_claims s). fk_ok (cr_client r) s \<and>
       (\<exists>a. ip_address (cr_ip r) = Inr a \<and> compressed a = cr_ip r \<and> \<not> is_protected a)) \<and>
    (\<forall>r \<in> set (db_events s). er_seq r \<le> last_seq_of s (er_client r)) \<and>
    (\<forall>r \<in> set (db_snapshots s). sr_seq r \<le> last_seq_of s (sr_client r))"
proof -
  have "db_ok s" using assms by (rule store_reachable_ok)
  then show ?thesis
    by (simp add: db_ok_def inv_below_def keyed_def max_total_claims_def claimable_ip_iff)
qed

definition sample_db :: db where
  "sample_db = fst (apply_events (\<lambda>_. ''d'') ''web'' [sample_event] 10 100 empty_db)"

lemma sample_accepted:
  "apply_events (\<lambda>_. ''d'') ''web'' [sample_event] 10 now empty_db =
    (committed_events (\<lambda>_. ''d'') ''web'' [sample_event] now empty_db,
     Inr \<lparr>ar_accepted = True, ar_duplicate = False, ar_stale = False, ar_last_seq = 7\<rparr>)"
proof -
  have "fold spec_event [sample_event] (claims_of empty_db c) = Map.empty(event_key sample_event \<mapsto> event_value sample_event)" for c
    by (simp add: spec_event_def claims_of_def empty_db_def sample_event_def)
  then show ?thesis
    using apply_events_accepts [OF empty_db_ok sample_event_ok, of "''web''" 10 "\<lambda>_. ''d''" now]
    by (simp add: empty_db_def last_seq_of_def sample_event_def select_event_def claims_of_def
          max_total_claims_def)
qed

lemma sample_reachable: "store_reachable (\<lambda>_. ''d'') sample_db"
  using reach_step [OF reach_init step_events [OF sample_event_ok sample_accepted]]
  by (simp add: sample_db_def sample_accepted)

lemma reachable_invariant_witness: "distinct (map claim_pk (db_claims sample_db))"
  using reachable_invariant [OF sample_reachable] by blast

text \<open>
  C9. Writes are atomic and fail only for their own reasons: on every reachable database a
  validated batch or snapshot that raises leaves the database as it was, and what it raises is a
  \<open>StoreConflict\<close> or a \<open>StoreLimit\<close>; no constraint of the schema is ever violated.
\<close>

theorem writes_are_atomic:
  assumes "store_reachable sha s"
    and "(batch_ok es \<and> apply_events sha c es cap now s = (t, Inl e)) \<or>
      (claims_ok cls \<and> 0 < seq \<and> seq \<le> 2 ^ 63 - 1 \<and>
       apply_snapshot sha c sid seq cls cap now s = (t, Inl e))"
  shows "t = s \<and> (\<exists>m. e = StoreConflict m \<or> e = StoreLimit m)"
  using apply_events_Inl [OF store_reachable_ok [OF assms(1)]] assms(2)
    apply_snapshot_Inl [OF store_reachable_ok [OF assms(1)]]
  by (auto simp: store_exn_def)

lemma writes_are_atomic_witness:
  "apply_events (\<lambda>_. ''d'') ''web'' [sample_event] 0 100 empty_db =
     (empty_db, Inl (StoreLimit ''claims_per_client limit exceeded'')) \<and> empty_db = empty_db"
proof -
  have "apply_events (\<lambda>_. ''d'') ''web'' [sample_event] 0 100 empty_db =
      (empty_db, Inl (StoreLimit ''claims_per_client limit exceeded''))"
    by code_simp
  with writes_are_atomic [OF reach_init disjI1 [OF conjI [OF sample_event_ok this]]]
  show ?thesis by blast
qed

lemma apply_events_view:
  assumes "db_ok s" "batch_ok es" "apply_events sha c es cap now s = (t, Inr r)"
  shows "ar_accepted r \<and> ar_last_seq r = last_seq_of t c \<and>
    (\<forall>d. d \<noteq> c \<longrightarrow> claims_of t d = claims_of s d \<and> last_seq_of t d = last_seq_of s d) \<and>
    (if ar_duplicate r \<or> ar_stale r
     then ev_seq (last es) \<le> last_seq_of s c \<and> claims_of t c = claims_of s c \<and>
       last_seq_of t c = last_seq_of s c
     else last_seq_of s c < ev_seq (hd es) \<and> last_seq_of t c = ev_seq (last es) \<and>
       claims_of t c = fold spec_event es (claims_of s c) \<and> card (dom (claims_of t c)) \<le> cap)"
proof -
  note o = apply_events_Inr(2) [OF assms, unfolded events_outcome_def]
  have t: "keyed claim_pk (db_claims t)" using apply_events_Inr(1) [OF assms] by (rule db_ok_keyed)
  show ?thesis
  proof (cases "ev_seq (hd es) \<le> last_seq_of s c")
    case True
    with o show ?thesis by (auto simp: Let_def)
  next
    case False
    with o have tt: "t = committed_events sha c es now s" and cnt: "count_client_claims c t \<le> cap"
        and r: "r = \<lparr>ar_accepted = True, ar_duplicate = False, ar_stale = False,
          ar_last_seq = ev_seq (last es)\<rparr>"
      by auto
    have "claims_of t d = (if d = c then fold spec_event es (claims_of s c) else claims_of s d)" for d
      unfolding tt by (rule claims_of_committed [OF db_ok_keyed [OF assms(1)]])
    moreover have "last_seq_of t = (last_seq_of s)(c := ev_seq (last es))"
      unfolding tt by (rule last_seq_committed)
    ultimately show ?thesis using cnt False by (simp add: r count_client_claims_card [OF t])
  qed
qed

text \<open>
  C6. \<open>apply_events\<close> refines the abstract claim map. A batch that starts after the client's last
  sequence number is applied event by event (a ban sets the claim, an unban removes it), advances
  the sequence number to the last event's, and respects the limit on claims; a batch that lies at or
  below it is acknowledged as duplicate or stale and changes nothing. No other outcome is accepted,
  and no other client's claims or sequence number ever move.
\<close>

theorem apply_events_refines:
  assumes "db_ok s" "batch_ok es" "apply_events sha c es cap now s = (t, Inr r)"
  shows "ar_accepted r \<and> ar_last_seq r = last_seq_of t c \<and>
    (\<forall>d. d \<noteq> c \<longrightarrow> claims_of t d = claims_of s d \<and> last_seq_of t d = last_seq_of s d) \<and>
    (if ar_duplicate r \<or> ar_stale r
     then ev_seq (last es) \<le> last_seq_of s c \<and> claims_of t c = claims_of s c \<and>
       last_seq_of t c = last_seq_of s c
     else last_seq_of s c < ev_seq (hd es) \<and> last_seq_of t c = ev_seq (last es) \<and>
       claims_of t c = fold spec_event es (claims_of s c) \<and> card (dom (claims_of t c)) \<le> cap)"
  by (rule apply_events_view [OF assms])

lemma apply_events_refines_witness:
  "claims_of sample_db ''web'' (event_key sample_event) = Some (''203.0.113.7'', True, Some 12345)"
proof -
  have "claims_of sample_db ''web'' = fold spec_event [sample_event] (claims_of empty_db ''web'')"
    using apply_events_refines [OF empty_db_ok sample_event_ok sample_accepted [of 100]]
    by (simp add: sample_db_def sample_accepted)
  moreover have "event_value sample_event = (''203.0.113.7'', True, Some 12345)" "ev_op sample_event = ''ban''"
    by (simp_all add: sample_event_def event_value_def)
  ultimately show ?thesis by (simp add: spec_event_def)
qed

lemma apply_snapshot_view:
  assumes "db_ok s" "claims_ok cls" "0 < seq" "seq \<le> 2 ^ 63 - 1"
    "apply_snapshot sha c sid seq cls cap now s = (t, Inr r)"
  shows "ar_accepted r \<and> ar_last_seq r = last_seq_of t c \<and>
    (\<forall>d. d \<noteq> c \<longrightarrow> claims_of t d = claims_of s d \<and> last_seq_of t d = last_seq_of s d) \<and>
    (if ar_duplicate r \<or> ar_stale r
     then seq \<le> last_seq_of s c \<and> claims_of t c = claims_of s c \<and> last_seq_of t c = last_seq_of s c
     else last_seq_of s c < seq \<and> last_seq_of t c = seq \<and> claims_of t c = spec_snapshot cls \<and>
       length cls \<le> cap \<and>
       (\<forall>cl \<in> set cls. \<forall>v. claims_of s c (claim_key cl) = Some v \<longrightarrow> fst v = cl_ip cl))"
proof -
  note o = apply_snapshot_Inr(2) [OF assms, unfolded snapshot_outcome_def]
  show ?thesis
  proof (cases "seq \<le> last_seq_of s c")
    case True
    with o show ?thesis by auto
  next
    case False
    with o apply_snapshot_Inr(3) [OF assms] claims_of_snapshot [OF db_ok_keyed [OF assms(1)]]
    show ?thesis
      by (auto simp: last_seq_snapshot select_claim_ip_claims_of claim_key_def)
  qed
qed

definition sample_claim :: claim where
  "sample_claim = \<lparr>cl_jail = ''sshd'', cl_ban_id = ''00000000-0000-0000-0000-0000000000b1'',
     cl_ip = ''203.0.113.7'', cl_permanent = False, cl_expires_at = None\<rparr>"

text \<open>
  C7. \<open>apply_snapshot\<close> refines replacement of the map: a snapshot newer than the client's sequence
  number makes the client's claims exactly those of the snapshot and sets the sequence number; one
  that is not newer changes nothing. An accepted snapshot never rebinds a ban id to another address.
\<close>

theorem apply_snapshot_refines:
  assumes "db_ok s" "claims_ok cls" "0 < seq" "seq \<le> 2 ^ 63 - 1"
    "apply_snapshot sha c sid seq cls cap now s = (t, Inr r)"
  shows "ar_accepted r \<and> ar_last_seq r = last_seq_of t c \<and>
    (\<forall>d. d \<noteq> c \<longrightarrow> claims_of t d = claims_of s d \<and> last_seq_of t d = last_seq_of s d) \<and>
    (if ar_duplicate r \<or> ar_stale r
     then seq \<le> last_seq_of s c \<and> claims_of t c = claims_of s c \<and> last_seq_of t c = last_seq_of s c
     else last_seq_of s c < seq \<and> last_seq_of t c = seq \<and> claims_of t c = spec_snapshot cls \<and>
       length cls \<le> cap \<and>
       (\<forall>cl \<in> set cls. \<forall>v. claims_of s c (claim_key cl) = Some v \<longrightarrow> fst v = cl_ip cl))"
  by (rule apply_snapshot_view [OF assms])

lemma apply_snapshot_refines_witness:
  "claims_of (fst (apply_snapshot (\<lambda>_. ''d'') ''web'' ''s1'' 9 [sample_claim] 5 200 sample_db)) ''web'' =
     spec_snapshot [sample_claim]"
proof -
  let ?run = "apply_snapshot (\<lambda>_. ''d'') ''web'' ''s1'' 9 [sample_claim] 5 200 sample_db"
  have ok: "db_ok sample_db" by (rule store_reachable_ok [OF sample_reachable])
  have cls: "claims_ok [sample_claim]" by code_simp
  have "snd ?run = Inr \<lparr>ar_accepted = True, ar_duplicate = False, ar_stale = False, ar_last_seq = 9\<rparr>"
    by code_simp
  then have "?run = (fst ?run, Inr \<lparr>ar_accepted = True, ar_duplicate = False, ar_stale = False, ar_last_seq = 9\<rparr>)"
    by (simp add: prod_eq_iff)
  from apply_snapshot_refines [OF ok cls _ _ this] show ?thesis by simp
qed

lemma store_step_view:
  assumes "store_step sha s t" "db_ok s"
  shows "last_seq_of s c < last_seq_of t c \<or>
    (last_seq_of t c = last_seq_of s c \<and> claims_of t c = claims_of s c)"
  using assms(1)
proof (cases rule: store_step.cases)
  case (step_events es d cap now res)
  show ?thesis
  proof (cases res)
    case (Inl e)
    then show ?thesis using apply_events_Inl(1) [OF assms(2)] step_events by blast
  next
    case (Inr r)
    note o = apply_events_Inr(2) [OF assms(2) step_events(1) step_events(2) [unfolded Inr],
        unfolded events_outcome_def]
    have "last es \<in> set es" using step_events(1) by (simp add: batch_ok_def)
    then have hl: "ev_seq (hd es) \<le> ev_seq (last es)" using batch_seqs(1) [OF step_events(1)] by simp
    show ?thesis
      using o claims_of_committed [OF db_ok_keyed [OF assms(2)], of sha d es now c] hl
      by (cases "c = d") (auto simp: last_seq_committed split: if_splits)
  qed
next
  case (step_snapshot cls seq d sid cap now res)
  show ?thesis
  proof (cases res)
    case (Inl e)
    then show ?thesis using apply_snapshot_Inl(1) [OF assms(2)] step_snapshot by blast
  next
    case (Inr r)
    note o = apply_snapshot_Inr(2) [OF assms(2) step_snapshot(1-3) step_snapshot(4) [unfolded Inr],
        unfolded snapshot_outcome_def]
    show ?thesis
      using o claims_of_snapshot [OF db_ok_keyed [OF assms(2)], of sha d sid seq cls now c]
      by (cases "c = d") (auto simp: last_seq_snapshot split: if_splits)
  qed
next
  case (step_prune days now n)
  then have "db_clients t = db_clients s" "db_claims t = db_claims s"
    by (auto simp: prune_history_def Let_def)
  then show ?thesis using claims_of_cong last_seq_of_cong by metis
qed (auto simp: record_enforcement_attempt_def record_enforcement_success_def
      record_enforcement_failure_def last_seq_of_def claims_of_def result_simps)

text \<open>
  Claims change only together with a strictly larger sequence number. Across any call on a
  reachable database the sequence number of a client never decreases, and where it stays the same
  so do the client's claims: a replayed, late or duplicate message can never resurrect or remove a
  ban, and neither can pruning the history or recording an enforcement.
\<close>

theorem claims_change_only_forward:
  assumes "store_reachable sha s" "store_step sha s t"
  shows "last_seq_of s c \<le> last_seq_of t c \<and>
    (claims_of t c \<noteq> claims_of s c \<longrightarrow> last_seq_of s c < last_seq_of t c)"
  using store_step_view [OF assms(2) store_reachable_ok [OF assms(1)], of c] by auto

lemma claims_change_only_forward_witness:
  "last_seq_of empty_db ''web'' \<le> last_seq_of sample_db ''web''"
proof -
  have "store_step (\<lambda>_. ''d'') empty_db sample_db"
    using step_events [OF sample_event_ok sample_accepted [of 100]]
    by (simp add: sample_db_def sample_accepted)
  from claims_change_only_forward [OF reach_init this] show ?thesis by blast
qed

text \<open>
  C10. Retrying is safe. After a batch was accepted, sending it again, at any later time and under
  any limit, is accepted too, reports the same sequence number as a duplicate or stale batch, and
  leaves the database exactly as it was.
\<close>

theorem retry_is_idempotent:
  assumes "store_reachable sha s" "batch_ok es" "apply_events sha c es cap now s = (t, Inr r)"
  shows "\<exists>r'. apply_events sha c es cap' now' t = (t, Inr r') \<and> ar_accepted r' \<and>
    ar_last_seq r' = ar_last_seq r \<and> (ar_duplicate r' \<or> ar_stale r')"
proof -
  note ok = store_reachable_ok [OF assms(1)]
  note o = apply_events_Inr(2) [OF ok assms(2,3), unfolded events_outcome_def]
  have "fk_ok c t \<and> ev_seq (last es) \<le> last_seq_of t c \<and> ar_last_seq r = last_seq_of t c \<and>
    (\<forall>e \<in> set es. \<not> reused_event e (payload_hash sha (event_wire e)) (select_event c (ev_event_id e) t))"
  proof (cases "ev_seq (hd es) \<le> last_seq_of s c")
    case True
    with o show ?thesis by (auto simp: Let_def fk_ok_touch)
  next
    case False
    have ids: "distinct (map ev_event_id es)" using assms(2) by (simp add: batch_ok_def)
    from False o have t: "t = committed_events sha c es now s" and r: "ar_last_seq r = ev_seq (last es)"
      and fresh: "\<forall>e \<in> set es. select_event c (ev_event_id e) s = None" by auto
    have "\<not> reused_event e (payload_hash sha (event_wire e)) (select_event c (ev_event_id e) t)"
      if "e \<in> set es" for e
      using committed_history [OF fresh ids that, of sha now] by (auto simp: t reused_event_def)
    then show ?thesis by (simp add: t r fk_ok_committed last_seq_committed)
  qed
  then obtain dup where "apply_events sha c es cap' now' t = (t, Inr \<lparr>ar_accepted = True,
      ar_duplicate = dup, ar_stale = (\<not> dup), ar_last_seq = ar_last_seq r\<rparr>)"
    using apply_events_replay [OF assms(2), of c t sha cap' now'] by auto
  then show ?thesis by auto
qed

lemma retry_is_idempotent_witness:
  "\<exists>r'. apply_events (\<lambda>_. ''d'') ''web'' [sample_event] 0 50 sample_db = (sample_db, Inr r') \<and>
     ar_last_seq r' = 7"
  using retry_is_idempotent [OF reach_init sample_event_ok sample_accepted [of 100], of 0 50]
  by (auto simp: sample_db_def sample_accepted)

text \<open>
  C11. A batch is accepted when it should be: if it starts after the stored sequence number, uses no
  event id of the history, names for every known ban id the address the claim has, and leaves the
  client with no more claims than its limit and all clients together with no more than the global one
  (counted after the whole batch, so that an unban is accepted by a full store), then \<open>apply_events\<close>
  commits it.
\<close>

theorem admissible_batch_is_committed:
  assumes "db_ok s" "batch_ok es" "last_seq_of s c < ev_seq (hd es)"
    "\<forall>e \<in> set es. select_event c (ev_event_id e) s = None" "spec_accepts es (claims_of s c)"
    "card (dom (fold spec_event es (claims_of s c))) \<le> cap"
    "length (filter (\<lambda>r. cr_client r \<noteq> c) (db_claims s)) + card (dom (fold spec_event es (claims_of s c))) \<le> max_total_claims"
  shows "\<exists>t. apply_events sha c es cap now s = (t, Inr \<lparr>ar_accepted = True, ar_duplicate = False,
    ar_stale = False, ar_last_seq = ev_seq (last es)\<rparr>) \<and> claims_of t c = fold spec_event es (claims_of s c)"
  using apply_events_accepts [OF assms] claims_of_committed [OF db_ok_keyed [OF assms(1)]] by simp

lemma admissible_batch_is_committed_witness:
  "\<exists>t. apply_events (\<lambda>_. ''d'') ''web'' [sample_event] 1 5 empty_db = (t, Inr \<lparr>ar_accepted = True,
     ar_duplicate = False, ar_stale = False, ar_last_seq = 7\<rparr>)"
proof -
  have e: "claims_of empty_db c = Map.empty" "last_seq_of empty_db c = 0" "select_event c i empty_db = None"
    "db_claims empty_db = []" for c i
    by (simp_all add: claims_of_def last_seq_of_def select_event_def empty_db_def fun_eq_iff)
  have v: "ev_seq sample_event = 7" "ev_op sample_event = ''ban''" by (simp_all add: sample_event_def)
  have "\<exists>t. apply_events (\<lambda>_. ''d'') ''web'' [sample_event] 1 5 empty_db = (t, Inr \<lparr>ar_accepted = True,
      ar_duplicate = False, ar_stale = False, ar_last_seq = ev_seq (last [sample_event])\<rparr>) \<and>
      claims_of t ''web'' = fold spec_event [sample_event] (claims_of empty_db ''web'')"
    by (rule admissible_batch_is_committed [OF empty_db_ok sample_event_ok])
       (simp_all add: e v spec_event_def max_total_claims_def)
  then show ?thesis by (auto simp: v)
qed

text \<open>
  C12. \<open>effective_ips\<close> returns exactly the addresses of permanent, unexpired claims of any client,
  split by family, each list in strictly increasing address order and therefore without duplicates.
\<close>

theorem effective_ips_exact:
  assumes "store_reachable sha s"
  shows "\<exists>v4 v6. effective_ips now s = Inr (v4, v6) \<and>
    set v4 = {ip. addr_version ip = 4 \<and> (\<exists>c k p x. claims_of s c k = Some (ip, p, x) \<and> p \<and>
                   (case x of None \<Rightarrow> True | Some u \<Rightarrow> now < u))} \<and>
    set v6 = {ip. addr_version ip = 6 \<and> (\<exists>c k p x. claims_of s c k = Some (ip, p, x) \<and> p \<and>
                   (case x of None \<Rightarrow> True | Some u \<Rightarrow> now < u))} \<and>
    sorted_wrt (\<lambda>a b. addr_key a < addr_key b) v4 \<and> sorted_wrt (\<lambda>a b. addr_key a < addr_key b) v6"
proof -
  obtain v4 v6 where v: "effective_ips now s = Inr (v4, v6)"
    "set v4 = {ip \<in> blocked now s. addr_version ip = 4}"
    "set v6 = {ip \<in> blocked now s. addr_version ip = 6}"
    "strictly_by_address v4" "strictly_by_address v6"
    by (rule effective_ips_spec [OF store_reachable_ok [OF assms]])
  have b: "ip \<in> blocked now s \<longleftrightarrow> (\<exists>c k p x. claims_of s c k = Some (ip, p, x) \<and> p \<and>
      (case x of None \<Rightarrow> True | Some u \<Rightarrow> now < u))" for ip
    unfolding blocked_def value_in_force_def mem_Collect_eq by (metis fst_conv prod.collapse snd_conv)
  have e: "{ip \<in> blocked now s. addr_version ip = n} = {ip. addr_version ip = n \<and>
      (\<exists>c k p x. claims_of s c k = Some (ip, p, x) \<and> p \<and> (case x of None \<Rightarrow> True | Some u \<Rightarrow> now < u))}" for n
    unfolding b [symmetric] by blast
  show ?thesis using v unfolding e strictly_by_address_def by blast
qed

lemma effective_ips_exact_witness:
  "\<exists>v4 v6. effective_ips 200 sample_db = Inr (v4, v6) \<and> strictly_by_address v4"
  using effective_ips_exact [OF sample_reachable, of 200] by (auto simp: strictly_by_address_def)

text \<open>
  Pruning the history never changes what is enforced: claims, sequence numbers and effective
  addresses stay the same, only rows older than the retention are removed, and the method returns
  their number.
\<close>

theorem prune_history_harmless:
  "case prune_history days now s of (t, n) \<Rightarrow>
     claims_of t = claims_of s \<and> last_seq_of t = last_seq_of s \<and> effective_ips u t = effective_ips u s \<and>
     (\<forall>r \<in> set (db_events s). now - of_nat days * 86400 \<le> er_received_at r \<longleftrightarrow> r \<in> set (db_events t)) \<and>
     n + length (db_events t) + length (db_snapshots t) = length (db_events s) + length (db_snapshots s)"
proof -
  obtain t n where p: "prune_history days now s = (t, n)" by fastforce
  then have t: "db_clients t = db_clients s" "db_claims t = db_claims s"
      "db_events t = tdelete (\<lambda>r. er_received_at r < now - of_nat days * 86400) (db_events s)"
      "db_snapshots t = tdelete (\<lambda>r. sr_received_at r < now - of_nat days * 86400) (db_snapshots s)"
      "n = (length (db_events s) - length (db_events t)) + (length (db_snapshots s) - length (db_snapshots t))"
    by (auto simp: prune_history_def Let_def)
  have "length (db_events t) \<le> length (db_events s)" "length (db_snapshots t) \<le> length (db_snapshots s)"
    by (simp_all add: t tdelete_def)
  with t show ?thesis
    unfolding p prod.case using claims_of_cong [OF t(2)] last_seq_of_cong [OF t(1)]
    by (auto simp: effective_ips_def not_less)
qed

lemma prune_history_harmless_witness:
  "snd (prune_history 1 (100 + 2 * 86400) sample_db) = 1 \<and>
   claims_of (fst (prune_history 1 (100 + 2 * 86400) sample_db)) = claims_of sample_db"
proof
  show "snd (prune_history 1 (100 + 2 * 86400) sample_db) = 1" by code_simp
  show "claims_of (fst (prune_history 1 (100 + 2 * 86400) sample_db)) = claims_of sample_db"
    using prune_history_harmless [where days = 1 and now = "100 + 2 * 86400" and s = sample_db and u = 0]
    by (auto split: prod.splits)
qed

end
