(* ===== verification/EnforcerContract.thy ===== *)
theory EnforcerContract
  imports Enforcer StoreContract RateLimiter
begin

text \<open>
  What one enforcement guarantees: the helper is asked for exactly the claimed addresses that the
  whitelist of this very run does not cover; a failure is recorded and raised and leaves the index
  of the last success in place; nothing but the enforcement record of the database changes. All of
  it holds whatever the other threads commit in between.
\<close>

subsection \<open>Calls on the store\<close>

lemma store_call_Inr:
  "store_call env call s = (t, Inr x) \<longleftrightarrow>
     \<not> env_fault env (gd_tick s) \<and>
     (\<exists>d. call (env_clock env (gd_tick s)) (env_others env (gd_tick s) (gd_db s)) = (d, Inr x) \<and>
        t = s\<lparr>gd_db := d, gd_tick := Suc (gd_tick s)\<rparr>)"
  by (auto simp: store_call_def Let_def split: prod.splits)

lemma store_call_Inl:
  "store_call env call s = (t, Inl e) \<longleftrightarrow>
     (env_fault env (gd_tick s) \<and> e = SqliteError \<and>
        t = s\<lparr>gd_db := env_others env (gd_tick s) (gd_db s), gd_tick := Suc (gd_tick s)\<rparr>) \<or>
     (\<not> env_fault env (gd_tick s) \<and>
      (\<exists>d. call (env_clock env (gd_tick s)) (env_others env (gd_tick s) (gd_db s)) = (d, Inl e) \<and>
        t = s\<lparr>gd_db := d, gd_tick := Suc (gd_tick s)\<rparr>))"
  by (auto simp: store_call_def Let_def split: prod.splits)

lemma on_simps [simp]:
  "on_result f d = (d', r) \<longleftrightarrow> d' = d \<and> r = f d"
  "on_update f d = (d', Inr u) \<longleftrightarrow> f d = Inr d'"
  "on_update f d = (d', Inl e) \<longleftrightarrow> f d = Inl e \<and> d' = d"
  by (auto simp: on_result_def on_update_def split: sum.splits)

lemma on_result_Inr: "on_result f d = (d', Inr x) \<longleftrightarrow> d' = d \<and> f d = Inr x"
  by (auto simp: on_result_def)

lemmas step_simps = sbind_Inr sbind_Inl store_call_Inr store_call_Inl

lemma db_ok_success_record:
  "record_enforcement_success d a n4 n6 now s = Inr t \<Longrightarrow> db_ok s \<Longrightarrow> db_ok t"
  by (rule db_ok_record(2))

subsection \<open>The invariant under every call\<close>

definition guard_ok :: "'w guard \<Rightarrow> bool" where
  "guard_ok s \<longleftrightarrow> db_ok (gd_db s) \<and>
     (\<forall>index. gd_last_index s = Some index \<longrightarrow> (\<exists>ns. list_all network_ok ns \<and> index = network_index_init ns))"

text \<open>The other threads keep the invariant.\<close>

definition others_ok :: "'w environment \<Rightarrow> bool" where
  "others_ok env \<longleftrightarrow> (\<forall>n d. db_ok d \<longrightarrow> db_ok (env_others env n d)) \<and>
     (\<forall>n g. guard_ok g \<longrightarrow> guard_ok (env_threads env n g))"

lemma others_okD: "others_ok env \<Longrightarrow> db_ok d \<Longrightarrow> db_ok (env_others env n d)"
  by (simp add: others_ok_def)

lemma locked_keeps: "others_ok env \<Longrightarrow> keeps guard_ok m \<Longrightarrow> keeps guard_ok (locked env m)"
  by (simp add: keeps_def locked_def others_ok_def)

lemma store_call_triple:
  assumes "others_ok env" "\<And>now d d' r. db_ok d \<Longrightarrow> call now d = (d', r) \<Longrightarrow> db_ok d'"
  shows "striple guard_ok (store_call env call) (\<lambda>_. guard_ok) (\<lambda>_. guard_ok)"
  using assms(2) others_okD [OF assms(1)]
  by (fastforce simp: striple_def store_call_def Let_def guard_ok_def split: prod.splits sum.splits)

lemma load_whitelist_ok: "load_whitelist fs path = Inr ns \<Longrightarrow> list_all network_ok ns"
  unfolding load_whitelist_def server_parse_whitelist_def rbind_eq_Inr
  by (elim exE conjE) (auto split: sum.splits intro: whitelist_loop_ok(1))

lemma read_triple:
  "others_ok env \<Longrightarrow> striple guard_ok (store_call env (\<lambda>now. on_result (f now))) (\<lambda>_. guard_ok) (\<lambda>_. guard_ok)"
  by (rule store_call_triple) (simp_all add: on_result_def)

lemma record_triple:
  assumes "others_ok env" "\<And>now d d'. db_ok d \<Longrightarrow> f now d = Inr d' \<Longrightarrow> db_ok d'"
  shows "striple guard_ok (store_call env (\<lambda>now. on_update (f now))) (\<lambda>_. guard_ok) (\<lambda>_. guard_ok)"
  by (rule store_call_triple [OF assms(1)]) (use assms(2) in \<open>auto simp: on_update_def split: sum.splits\<close>)

lemma record_failure_triple:
  "others_ok env \<Longrightarrow> striple guard_ok (record_failure env digest e) Q (\<lambda>_. guard_ok)"
  unfolding record_failure_def Let_def
  by (intro striple_bind [OF record_triple] striple_lift) (auto intro: db_ok_record)

lemma ask_helper_triple:
  "striple (\<lambda>s. guard_ok s \<and> B) (ask_helper env v4 v6) (\<lambda>_ s. guard_ok s \<and> B) (\<lambda>_. guard_ok)"
  by (auto simp: striple_def ask_helper_def guard_ok_def split: prod.splits sum.splits)

lemma reload_triple:
  "striple guard_ok (reload env) (\<lambda>ns s. guard_ok s \<and> list_all network_ok ns) (\<lambda>_. guard_ok)"
  by (auto simp: striple_def reload_def guard_ok_def load_whitelist_ok split: sum.splits)

lemma apply_desired_triple:
  "striple guard_ok (apply_desired env v4 v6)
     (\<lambda>(index, r) s. guard_ok s \<and> (\<exists>ns. list_all network_ok ns \<and> index = network_index_init ns))
     (\<lambda>_. guard_ok)"
  unfolding apply_desired_def Let_def
proof (rule striple_bind [OF reload_triple])
  fix ns
  let ?R = "\<lambda>s :: 'a guard. guard_ok s \<and> list_all network_ok ns"
  have lift: "striple ?R (slift r) (\<lambda>_. ?R) (\<lambda>_. guard_ok)" for r :: "pystr list result"
    by (rule striple_lift) auto
  show "striple ?R
     (sbind (slift (index_exclude (network_index_init ns) v4)) (\<lambda>x4.
      sbind (slift (index_exclude (network_index_init ns) v6)) (\<lambda>x6.
      sbind (ask_helper env x4 x6) (\<lambda>response. sret (network_index_init ns, response)))))
     (\<lambda>(index, r) s. guard_ok s \<and> (\<exists>ns. list_all network_ok ns \<and> index = network_index_init ns)) (\<lambda>_. guard_ok)"
    by (rule striple_bind [OF lift] striple_bind [OF ask_helper_triple])+ (rule striple_ret, auto)
qed

lemma set_last_index_triple:
  "striple (\<lambda>s. guard_ok s \<and> (\<exists>ns. list_all network_ok ns \<and> index = network_index_init ns))
     (set_last_index index) (\<lambda>_. guard_ok) (\<lambda>_. guard_ok)"
  by (auto simp: striple_def set_last_index_def guard_ok_def)

lemma striple_keep:
  assumes "striple P m (\<lambda>_. P) (\<lambda>_. P)"
  shows "striple (\<lambda>s. P s \<and> B) m (\<lambda>_ s. P s \<and> B) (\<lambda>_. P)"
  using assms unfolding striple_def by (fastforce split: prod.splits sum.splits)

lemma enforce_triple:
  assumes "others_ok env"
  shows "striple guard_ok (enforce env) (\<lambda>_. guard_ok) (\<lambda>_. guard_ok)"
proof -
  have ok: "striple guard_ok (store_call env (\<lambda>now. on_update (\<lambda>d. Inr (record_enforcement_attempt g now d))))
      (\<lambda>_. guard_ok) (\<lambda>_. guard_ok)" for g
    by (rule record_triple [OF assms]) (auto intro: db_ok_record)
  have success: "striple guard_ok (store_call env (\<lambda>now. on_update (record_enforcement_success g a n4 n6 now)))
      (\<lambda>_. guard_ok) (\<lambda>_. guard_ok)" for g a n4 n6
    by (rule record_triple [OF assms]) (rule db_ok_record(2))
  have finish: "striple (\<lambda>s. guard_ok s \<and> (\<exists>ns. list_all network_ok ns \<and> index = network_index_init ns))
      (confirm env g index r) (\<lambda>_. guard_ok) (\<lambda>_. guard_ok)" for index g r
    unfolding confirm_def
    by (rule striple_bind [OF striple_keep [OF success]], rule striple_bind [OF set_last_index_triple],
        rule striple_ret)
  have body: "striple guard_ok (enforce_desired env v4 v6) (\<lambda>_. guard_ok) (\<lambda>_. guard_ok)" for v4 v6
    unfolding enforce_desired_def Let_def
    by (rule striple_bind [OF ok],
        rule striple_bind [OF striple_catch [OF apply_desired_triple record_failure_triple [OF assms]]])
       (use finish in \<open>auto split: prod.splits\<close>)
  show ?thesis
    unfolding enforce_def
    by (rule striple_bind [OF read_triple [OF assms]]) (auto split: prod.splits intro: body)
qed

subsection \<open>A successful run\<close>

text \<open>The database as the first call of a run sees it, and the addresses it must block.\<close>

definition seen_db :: "'w environment \<Rightarrow> 'w guard \<Rightarrow> db" where
  "seen_db env s = env_others env (gd_tick s) (gd_db s)"

definition seen_time :: "'w environment \<Rightarrow> 'w guard \<Rightarrow> time" where
  "seen_time env s = env_clock env (gd_tick s)"

definition uncovered :: "ip_network list \<Rightarrow> pystr set \<Rightarrow> nat \<Rightarrow> pystr set" where
  "uncovered ns ips v = {ip \<in> ips. addr_version ip = v \<and> (\<forall>k \<in> set ns. \<not> net_covers k (addr_of ip))}"

lemma exclude_uncovered:
  assumes "list_all network_ok ns" "set vs = {ip \<in> ips. addr_version ip = v}" "\<forall>ip \<in> ips. claimable_ip ip"
    "strictly_by_address vs" "index_exclude (network_index_init ns) vs = Inr xs"
  shows "set xs = uncovered ns ips v" "strictly_by_address xs"
proof -
  have xs: "xs = filter (\<lambda>s. \<forall>a n. ip_address s = Inr a \<longrightarrow> n \<in> set ns \<longrightarrow> \<not> net_covers n a) vs"
    using assms(5) index_exclude_iff [OF assms(1)] by blast
  have "ip_address ip = Inr (addr_of ip)" if "ip \<in> ips" for ip using assms(3) that claimable_addr by blast
  then show "set xs = uncovered ns ips v"
    unfolding xs uncovered_def using assms(2) by auto
  show "strictly_by_address xs"
    using assms(4) by (simp add: xs strictly_by_address_def sorted_wrt_filter)
qed

lemma reload_Inr:
  "reload env s = (t, Inr ns) \<longleftrightarrow>
     load_whitelist (env_fs env (gd_tick s)) (env_whitelist env) = Inr ns \<and> t = s\<lparr>gd_last_valid := Some ns\<rparr>"
  by (auto simp: reload_def split: sum.splits)

lemma ask_helper_Inr:
  "ask_helper env v4 v6 s = (t, Inr r) \<longleftrightarrow>
     (\<exists>w. helper_replace (env_peer env) helper_retries v4 v6 (gd_world s) = (w, Inr r) \<and> t = s\<lparr>gd_world := w\<rparr>)"
  by (auto simp: ask_helper_def split: prod.splits)

lemma slift_Inr: "slift r s = (t, Inr x) \<longleftrightarrow> t = s \<and> r = Inr x"
  by (auto simp: slift_def)

lemma sret_Inr: "sret y s = (t, Inr x) \<longleftrightarrow> t = s \<and> y = x"
  by (auto simp: sret_def)

lemma apply_desired_Inr:
  "apply_desired env v4 v6 s = (t, Inr (index, r)) \<longleftrightarrow>
     (\<exists>ns x4 x6 w. load_whitelist (env_fs env (gd_tick s)) (env_whitelist env) = Inr ns \<and>
        index = network_index_init ns \<and> index_exclude index v4 = Inr x4 \<and> index_exclude index v6 = Inr x6 \<and>
        helper_replace (env_peer env) helper_retries x4 x6 (gd_world s) = (w, Inr r) \<and>
        t = s\<lparr>gd_last_valid := Some ns, gd_world := w\<rparr>)"
  unfolding apply_desired_def Let_def sbind_Inr slift_Inr sret_Inr reload_Inr ask_helper_Inr by auto

lemma record_failure_never_returns: "record_failure env g e s \<noteq> (t, Inr x)"
  by (auto simp: record_failure_def Let_def sbind_Inr slift_Inr)

lemma scatch_record_Inr:
  "scatch m (record_failure env g) s = (t, Inr x) \<longleftrightarrow> m s = (t, Inr x)"
  by (auto simp: scatch_def record_failure_never_returns split: prod.splits sum.splits)

lemma set_last_index_Inr: "set_last_index index s = (t, Inr u) \<longleftrightarrow> t = s\<lparr>gd_last_index := Some index\<rparr>"
  by (auto simp: set_last_index_def)

lemma confirm_Inr:
  "confirm env g index r s = (t, Inr n) \<longleftrightarrow>
     \<not> env_fault env (gd_tick s) \<and>
     (\<exists>d. record_enforcement_success g (ap_digest r) (ap_ipv4 r) (ap_ipv6 r) (env_clock env (gd_tick s))
            (env_others env (gd_tick s) (gd_db s)) = Inr d \<and>
        t = s\<lparr>gd_db := d, gd_last_index := Some index, gd_tick := Suc (gd_tick s)\<rparr>) \<and>
     n = ap_ipv4 r + ap_ipv6 r"
  unfolding confirm_def sbind_Inr store_call_Inr set_last_index_Inr sret_Inr by auto

lemma enforce_desired_Inr:
  "enforce_desired env v4 v6 s = (t, Inr n) \<longleftrightarrow>
     \<not> env_fault env (gd_tick s) \<and>
     (\<exists>u index r. apply_desired env v4 v6
        (s\<lparr>gd_db := record_enforcement_attempt (desired_digest_of (env_sha env) v4 v6) (env_clock env (gd_tick s))
              (env_others env (gd_tick s) (gd_db s)), gd_tick := Suc (gd_tick s)\<rparr>) = (u, Inr (index, r)) \<and>
        confirm env (desired_digest_of (env_sha env) v4 v6) index r u = (t, Inr n))"
  unfolding enforce_desired_def Let_def sbind_Inr store_call_Inr scatch_record_Inr by auto

lemma enforce_Inr:
  "enforce env s = (t, Inr n) \<longleftrightarrow>
     \<not> env_fault env (gd_tick s) \<and>
     (\<exists>v4 v6. effective_ips (seen_time env s) (seen_db env s) = Inr (v4, v6) \<and>
        enforce_desired env v4 v6 (s\<lparr>gd_db := seen_db env s, gd_tick := Suc (gd_tick s)\<rparr>) = (t, Inr n))"
  unfolding enforce_def sbind_Inr store_call_Inr seen_db_def seen_time_def on_result_Inr by auto

lemma blocked_claimable: "db_ok d \<Longrightarrow> ip \<in> blocked now d \<Longrightarrow> claimable_ip ip"
  by (auto simp: blocked_rows [OF db_ok_keyed] db_ok_ips)

lemma enforce_success_cases:
  assumes "enforce env s = (t, Inr n)"
  obtains v4 v6 ns x4 x6 r w d1 d2 where
    "effective_ips (seen_time env s) (seen_db env s) = Inr (v4, v6)"
    "load_whitelist (env_fs env (gd_tick s + 2)) (env_whitelist env) = Inr ns"
    "index_exclude (network_index_init ns) v4 = Inr x4" "index_exclude (network_index_init ns) v6 = Inr x6"
    "helper_replace (env_peer env) helper_retries x4 x6 (gd_world s) = (w, Inr r)"
    "record_enforcement_success (desired_digest_of (env_sha env) v4 v6) (ap_digest r) (ap_ipv4 r) (ap_ipv6 r)
       (env_clock env (gd_tick s + 2)) d1 = Inr d2"
    "t = s\<lparr>gd_db := d2, gd_last_valid := Some ns, gd_last_index := Some (network_index_init ns),
           gd_world := w, gd_tick := gd_tick s + 3\<rparr>"
    "n = ap_ipv4 r + ap_ipv6 r"
  using assms unfolding enforce_Inr enforce_desired_Inr apply_desired_Inr confirm_Inr
  by (elim exE conjE) (auto simp: numeral_2_eq_2 numeral_3_eq_3 intro: that)

lemma enforce_run:
  assumes "guard_ok s" "others_ok env" "enforce env s = (t, Inr n)"
  shows "\<exists>ns v4 v6 r. load_whitelist (env_fs env (gd_tick s + 2)) (env_whitelist env) = Inr ns \<and>
    set v4 = uncovered ns (blocked (seen_time env s) (seen_db env s)) 4 \<and> strictly_by_address v4 \<and>
    set v6 = uncovered ns (blocked (seen_time env s) (seen_db env s)) 6 \<and> strictly_by_address v6 \<and>
    helper_replace (env_peer env) 3 v4 v6 (gd_world s) = (gd_world t, Inr r) \<and> n = ap_ipv4 r + ap_ipv6 r \<and>
    gd_last_index t = Some (network_index_init ns) \<and>
    en_applied_ipv4 (db_enforcement (gd_db t)) = ap_ipv4 r \<and>
    en_applied_ipv6 (db_enforcement (gd_db t)) = ap_ipv6 r \<and>
    en_applied_digest (db_enforcement (gd_db t)) = ap_digest r \<and>
    en_last_error (db_enforcement (gd_db t)) = None"
proof -
  have ok: "db_ok (seen_db env s)" using assms(1,2) by (simp add: guard_ok_def others_okD seen_db_def)
  obtain v4 v6 ns x4 x6 r w d1 d2 where run:
    "effective_ips (seen_time env s) (seen_db env s) = Inr (v4, v6)"
    "load_whitelist (env_fs env (gd_tick s + 2)) (env_whitelist env) = Inr ns"
    "index_exclude (network_index_init ns) v4 = Inr x4" "index_exclude (network_index_init ns) v6 = Inr x6"
    "helper_replace (env_peer env) helper_retries x4 x6 (gd_world s) = (w, Inr r)"
    "record_enforcement_success (desired_digest_of (env_sha env) v4 v6) (ap_digest r) (ap_ipv4 r) (ap_ipv6 r)
       (env_clock env (gd_tick s + 2)) d1 = Inr d2"
    "t = s\<lparr>gd_db := d2, gd_last_valid := Some ns, gd_last_index := Some (network_index_init ns),
           gd_world := w, gd_tick := gd_tick s + 3\<rparr>"
    "n = ap_ipv4 r + ap_ipv6 r"
    using assms(3) by (rule enforce_success_cases)
  from run(1) effective_ips_spec [OF ok, of "seen_time env s"] have v:
    "set v4 = {ip \<in> blocked (seen_time env s) (seen_db env s). addr_version ip = 4}"
    "set v6 = {ip \<in> blocked (seen_time env s) (seen_db env s). addr_version ip = 6}"
    "strictly_by_address v4" "strictly_by_address v6" by (metis Inr_inject prod.inject)+
  have cl: "\<forall>ip \<in> blocked (seen_time env s) (seen_db env s). claimable_ip ip"
    using blocked_claimable [OF ok] by blast
  note x4 = exclude_uncovered [OF load_whitelist_ok [OF run(2)] v(1) cl v(3) run(3)]
  note x6 = exclude_uncovered [OF load_whitelist_ok [OF run(2)] v(2) cl v(4) run(4)]
  have rec: "en_applied_ipv4 (db_enforcement d2) = ap_ipv4 r" "en_applied_ipv6 (db_enforcement d2) = ap_ipv6 r"
      "en_applied_digest (db_enforcement d2) = ap_digest r" "en_last_error (db_enforcement d2) = None"
    using run(6) by (auto simp: record_enforcement_success_def bind_int_def result_simps split: if_splits)
  show ?thesis
    using run(2,5,7,8) x4 x6 rec by (auto simp: helper_retries_def)
qed

text \<open>
  C18. A run that succeeds made the helper hold exactly what the policy asks: the whitelist was read
  and parsed in this very run, the two lists handed to the helper are the addresses of all clients'
  claims in force at the start of the run that no network of that whitelist covers, in increasing
  order, the helper acknowledged them, the reported numbers were stored, and the index for later
  queries is that whitelist's. This holds whatever other threads commit meanwhile.
\<close>

theorem enforce_applies_policy:
  assumes "guard_ok s" "others_ok env" "enforce env s = (t, Inr n)"
  shows "\<exists>ns v4 v6 r. load_whitelist (env_fs env (gd_tick s + 2)) (env_whitelist env) = Inr ns \<and>
    set v4 = uncovered ns (blocked (seen_time env s) (seen_db env s)) 4 \<and> strictly_by_address v4 \<and>
    set v6 = uncovered ns (blocked (seen_time env s) (seen_db env s)) 6 \<and> strictly_by_address v6 \<and>
    helper_replace (env_peer env) 3 v4 v6 (gd_world s) = (gd_world t, Inr r) \<and> n = ap_ipv4 r + ap_ipv6 r \<and>
    gd_last_index t = Some (network_index_init ns) \<and>
    en_applied_ipv4 (db_enforcement (gd_db t)) = ap_ipv4 r \<and>
    en_applied_ipv6 (db_enforcement (gd_db t)) = ap_ipv6 r \<and>
    en_applied_digest (db_enforcement (gd_db t)) = ap_digest r \<and>
    en_last_error (db_enforcement (gd_db t)) = None"
  by (rule enforce_run [OF assms])


definition sample_whitelist_fs :: fs where
  "sample_whitelist_fs = \<lparr>fs_lstat = (\<lambda>_. Inr \<lparr>fi_kind = Directory, fi_uid = 0, fi_mode = 16877, fi_size = 0\<rparr>),
     fs_open = (\<lambda>_. Inr (\<lparr>fi_kind = Regular, fi_uid = 0, fi_mode = 33188, fi_size = 15\<rparr>, ''198.51.100.0/24''))\<rparr>"

text \<open>A quiet environment, whose helper fails as often as the world says and then accepts.\<close>

definition sample_env :: "nat environment" where
  "sample_env = \<lparr>env_clock = (\<lambda>_. 200), env_fault = (\<lambda>_. False), env_others = (\<lambda>_ d. d), env_threads = (\<lambda>_ g. g), env_sha = (\<lambda>_. ''d''),
     env_fs = (\<lambda>_. sample_whitelist_fs), env_whitelist = ''/etc/w'', env_peer = sample_peer\<rparr>"

definition sample_guard :: "nat \<Rightarrow> nat guard" where
  "sample_guard failures = \<lparr>gd_db = sample_db, gd_last_valid = None, gd_last_index = None,
     gd_world = failures, gd_tick = 0\<rparr>"

lemma sample_others_ok: "others_ok sample_env"
  by (simp add: others_ok_def sample_env_def)

lemma sample_guard_ok: "guard_ok (sample_guard k)"
  using store_reachable_ok [OF sample_reachable] by (simp add: guard_ok_def sample_guard_def)

lemma sample_enforce_result: "snd (enforce sample_env (sample_guard 0)) = Inr 1"
  by code_simp

lemma enforce_applies_policy_witness:
  "gd_last_index (fst (enforce sample_env (sample_guard 0))) \<noteq> None"
proof -
  obtain t where t: "enforce sample_env (sample_guard 0) = (t, Inr 1)"
    using sample_enforce_result by (metis surjective_pairing)
  from enforce_applies_policy [OF sample_guard_ok sample_others_ok t] t show ?thesis by auto
qed


subsection \<open>A failed run\<close>

lemma reload_Inl: "reload env s = (t, Inl e) \<longleftrightarrow>
    load_whitelist (env_fs env (gd_tick s)) (env_whitelist env) = Inl e \<and> t = s"
  by (auto simp: reload_def split: sum.splits)

lemma apply_desired_frame:
  assumes "apply_desired env v4 v6 s = (t, r)"
  shows "gd_db t = gd_db s" "gd_tick t = gd_tick s" "gd_last_index t = gd_last_index s"
    "gd_world t \<noteq> gd_world s \<Longrightarrow> \<exists>ns. load_whitelist (env_fs env (gd_tick s)) (env_whitelist env) = Inr ns"
proof -
  have frame: "gd_db t = gd_db s \<and> gd_tick t = gd_tick s \<and> gd_last_index t = gd_last_index s \<and>
      (gd_world t \<noteq> gd_world s \<longrightarrow> (\<exists>ns. load_whitelist (env_fs env (gd_tick s)) (env_whitelist env) = Inr ns))"
  proof (cases "load_whitelist (env_fs env (gd_tick s)) (env_whitelist env)")
    case (Inl e)
    then show ?thesis using assms by (auto simp: apply_desired_def Let_def sbind_def reload_def)
  next
    case (Inr ns)
    then show ?thesis
      using assms
      by (auto simp: apply_desired_def Let_def sbind_def reload_def ask_helper_def slift_def
          split: prod.splits sum.splits)
  qed
  then show "gd_db t = gd_db s" "gd_tick t = gd_tick s" "gd_last_index t = gd_last_index s"
    "gd_world t \<noteq> gd_world s \<Longrightarrow> \<exists>ns. load_whitelist (env_fs env (gd_tick s)) (env_whitelist env) = Inr ns"
    by simp_all
qed

text \<open>How a run may end in an exception; \<open>big\<close> tells whether an overflow has a cause.\<close>

definition failure_ok :: "'w environment \<Rightarrow> bool \<Rightarrow> 'w guard \<Rightarrow> exn \<Rightarrow> 'w guard \<Rightarrow> bool" where
  "failure_ok env big s e t \<longleftrightarrow> gd_last_index t = gd_last_index s \<and> gd_tick s \<le> gd_tick t \<and>
     ((e = SqliteError \<and> (\<exists>n. gd_tick s \<le> n \<and> n < gd_tick t \<and> env_fault env n)) \<or> (e = OverflowError \<and> big) \<or>
      (\<exists>m. e = EnforcementError m \<and> en_last_error (db_enforcement (gd_db t)) = Some (take 1024 m)))"

definition beyond_64_bits :: "applied_state \<Rightarrow> bool" where
  "beyond_64_bits r \<longleftrightarrow> \<not> (ap_ipv4 r \<in> {- (2 ^ 63) ..< 2 ^ 63} \<and> ap_ipv6 r \<in> {- (2 ^ 63) ..< 2 ^ 63})"

text \<open>The helper's reply of this run carries a number that SQLite cannot hold.\<close>

definition overflowing_reply :: "'w environment \<Rightarrow> 'w guard \<Rightarrow> 'w guard \<Rightarrow> bool" where
  "overflowing_reply env s t \<longleftrightarrow>
     (\<exists>v4 v6 r. helper_replace (env_peer env) 3 v4 v6 (gd_world s) = (gd_world t, Inr r) \<and> beyond_64_bits r)"

lemma record_failure_Inl:
  assumes "record_failure env g e' s = (t, Inl e)"
  shows "failure_ok env False s e t" "gd_world t = gd_world s"
  using assms
  by (auto simp: record_failure_def Let_def sbind_Inl store_call_Inr store_call_Inl slift_def failure_ok_def
      record_enforcement_failure_def)

lemma confirm_Inl:
  assumes "confirm env g index r s = (t, Inl e)"
  shows "failure_ok env (beyond_64_bits r) s e t" "gd_world t = gd_world s"
  using assms
  by (auto simp: confirm_def sbind_Inl sbind_Inr store_call_Inr store_call_Inl set_last_index_def sret_def
      failure_ok_def beyond_64_bits_def record_enforcement_success_def bind_int_def result_simps split: if_splits)

lemma scatch_record_Inl:
  fixes m :: "('w guard, 'a) action"
  shows "scatch m (record_failure env g) s = (t, Inl e) \<longleftrightarrow>
     (\<exists>u e'. m s = (u, Inl e') \<and> (record_failure env g e' :: ('w guard, 'a) action) u = (t, Inl e))"
  by (auto simp: scatch_def split: prod.splits sum.splits)

lemma enforce_desired_Inl:
  fixes s :: "'w guard"
  assumes "enforce_desired env v4 v6 s = (t, Inl e)"
  shows "failure_ok env (overflowing_reply env s t) s e t \<and> (gd_world t \<noteq> gd_world s \<longrightarrow>
    (\<exists>ns. load_whitelist (env_fs env (Suc (gd_tick s))) (env_whitelist env) = Inr ns))"
proof -
  let ?g = "desired_digest_of (env_sha env) v4 v6"
  let ?s = "s\<lparr>gd_db := record_enforcement_attempt ?g (env_clock env (gd_tick s)) (env_others env (gd_tick s) (gd_db s)),
      gd_tick := Suc (gd_tick s)\<rparr>"
  from assms consider
      "e = SqliteError" "env_fault env (gd_tick s)" "gd_last_index t = gd_last_index s" "gd_world t = gd_world s"
        "gd_tick t = Suc (gd_tick s)"
    | u e' where "apply_desired env v4 v6 ?s = (u, Inl e')"
        "(record_failure env ?g e' :: ('w guard, network_index \<times> applied_state) action) u = (t, Inl e)"
    | u index r where "apply_desired env v4 v6 ?s = (u, Inr (index, r))" "confirm env ?g index r u = (t, Inl e)"
    unfolding enforce_desired_def Let_def sbind_Inl store_call_Inr store_call_Inl scatch_record_Inr scatch_record_Inl
    by (auto simp: prod.split_sel_asm)
  then show ?thesis
  proof cases
    case 1
    then show ?thesis by (auto simp: failure_ok_def)
  next
    case 2
    with apply_desired_frame [OF 2(1)] record_failure_Inl [OF 2(2)] show ?thesis
      by (auto simp: failure_ok_def dest: Suc_leD)
  next
    case 3
    from 3(1) obtain x4 x6 where "helper_replace (env_peer env) 3 x4 x6 (gd_world s) = (gd_world u, Inr r)"
      unfolding apply_desired_Inr helper_retries_def by auto
    then have "beyond_64_bits r \<Longrightarrow> overflowing_reply env s t"
      unfolding overflowing_reply_def confirm_Inl(2) [OF 3(2)] by blast
    with apply_desired_frame [OF 3(1)] confirm_Inl [OF 3(2)] show ?thesis
      by (auto simp: failure_ok_def dest: Suc_leD)
  qed
qed

lemma enforce_fail:
  assumes "guard_ok s" "others_ok env" "enforce env s = (t, Inl e)"
  shows "gd_last_index t = gd_last_index s \<and>
    ((e = SqliteError \<and> (\<exists>n. gd_tick s \<le> n \<and> n < gd_tick t \<and> env_fault env n)) \<or>
     (e = OverflowError \<and> overflowing_reply env s t) \<or>
     (\<exists>m. e = EnforcementError m \<and> en_last_error (db_enforcement (gd_db t)) = Some (take 1024 m))) \<and>
    (gd_world t \<noteq> gd_world s \<longrightarrow>
       (\<exists>ns. load_whitelist (env_fs env (gd_tick s + 2)) (env_whitelist env) = Inr ns))"
proof -
  have ok: "db_ok (seen_db env s)" using assms(1,2) by (simp add: guard_ok_def others_okD seen_db_def)
  obtain v4 v6 where v: "effective_ips (seen_time env s) (seen_db env s) = Inr (v4, v6)"
    by (rule effective_ips_spec [OF ok])
  show ?thesis
  proof (cases "env_fault env (gd_tick s)")
    case True
    then show ?thesis
      using assms(3) by (auto simp: enforce_def sbind_Inl store_call_Inr store_call_Inl)
  next
    case False
    then have "enforce_desired env v4 v6 (s\<lparr>gd_db := seen_db env s, gd_tick := Suc (gd_tick s)\<rparr>) = (t, Inl e)"
      using assms(3) v
      by (auto simp: enforce_def sbind_def store_call_def on_result_def seen_db_def seen_time_def Let_def)
    from enforce_desired_Inl [OF this] show ?thesis
      by (auto simp: failure_ok_def overflowing_reply_def numeral_2_eq_2 dest: Suc_leD)
  qed
qed

text \<open>
  C19. A run that fails is reported and changes no policy: it raises \<open>sqlite3.Error\<close> only when the
  database failed during the run, \<open>OverflowError\<close> only when the helper answered this run's replacement
  with a number that does not fit into 64 bits, and otherwise an
  \<open>EnforcementError\<close> whose text (up to 1024 characters) is stored for the status; the index of the last
  success stays, and the helper was not contacted at all unless the whitelist could be read and parsed
  in this run: a stale whitelist is never used for a replacement.
\<close>

theorem enforce_failure_is_reported:
  assumes "guard_ok s" "others_ok env" "enforce env s = (t, Inl e)"
  shows "gd_last_index t = gd_last_index s \<and>
    ((e = SqliteError \<and> (\<exists>n. gd_tick s \<le> n \<and> n < gd_tick t \<and> env_fault env n)) \<or>
     (e = OverflowError \<and> (\<exists>v4 v6 r. helper_replace (env_peer env) 3 v4 v6 (gd_world s) = (gd_world t, Inr r) \<and>
        \<not> (ap_ipv4 r \<in> {- (2 ^ 63) ..< 2 ^ 63} \<and> ap_ipv6 r \<in> {- (2 ^ 63) ..< 2 ^ 63}))) \<or>
     (\<exists>m. e = EnforcementError m \<and> en_last_error (db_enforcement (gd_db t)) = Some (take 1024 m))) \<and>
    (gd_world t \<noteq> gd_world s \<longrightarrow>
       (\<exists>ns. load_whitelist (env_fs env (gd_tick s + 2)) (env_whitelist env) = Inr ns))"
  using enforce_fail [OF assms] unfolding overflowing_reply_def beyond_64_bits_def .

text \<open>An environment whose whitelist file is writable by others.\<close>

definition unsafe_env :: "nat environment" where
  "unsafe_env = sample_env\<lparr>env_fs := (\<lambda>_. sample_whitelist_fs\<lparr>fs_open := (\<lambda>_. Inr
     (\<lparr>fi_kind = Regular, fi_uid = 0, fi_mode = 33206, fi_size = 0\<rparr>, ''''))\<rparr>)\<rparr>"

lemma unsafe_enforce: "snd (enforce unsafe_env (sample_guard 0)) = Inl (EnforcementError ''unsafe whitelist file'')"
  by code_simp

lemma enforce_failure_is_reported_witness:
  "en_last_error (db_enforcement (gd_db (fst (enforce unsafe_env (sample_guard 0))))) = Some ''unsafe whitelist file''"
proof -
  have others: "others_ok unsafe_env" by (simp add: others_ok_def unsafe_env_def sample_env_def)
  have quiet: "\<not> env_fault unsafe_env n" for n by (simp add: unsafe_env_def sample_env_def)
  obtain t where t: "enforce unsafe_env (sample_guard 0) = (t, Inl (EnforcementError ''unsafe whitelist file''))"
    using unsafe_enforce by (metis surjective_pairing)
  from enforce_failure_is_reported [OF sample_guard_ok others t] t show ?thesis by auto
qed


subsection \<open>What a run may change\<close>

text \<open>A property of the database that the enforcement record does not matter to and the others keep.\<close>

definition unrelated :: "'w environment \<Rightarrow> (db \<Rightarrow> bool) \<Rightarrow> bool" where
  "unrelated env P \<longleftrightarrow> (\<forall>d x. P d \<longrightarrow> P (d\<lparr>db_enforcement := x\<rparr>)) \<and> (\<forall>n d. P d \<longrightarrow> P (env_others env n d))"

lemma store_call_keeps:
  assumes "unrelated env P" "\<And>now d d' r. P d \<Longrightarrow> call now d = (d', r) \<Longrightarrow> P d'"
  shows "keeps (\<lambda>s. P (gd_db s)) (store_call env call)"
proof -
  have "P (env_others env n d)" if "P d" for n d using assms(1) that by (simp add: unrelated_def)
  then show ?thesis
    using assms(2) by (fastforce simp: keeps_def store_call_def Let_def split: prod.splits)
qed

lemma record_keeps [keeps_rules]:
  assumes "unrelated env P"
  shows "keeps (\<lambda>s. P (gd_db s)) (store_call env (\<lambda>now. on_update (\<lambda>d. Inr (record_enforcement_attempt g now d))))"
    "keeps (\<lambda>s. P (gd_db s)) (store_call env (\<lambda>now. on_update (\<lambda>d. Inr (record_enforcement_failure g m now d))))"
    "keeps (\<lambda>s. P (gd_db s)) (store_call env (\<lambda>now. on_update (record_enforcement_success g a n4 n6 now)))"
    "keeps (\<lambda>s. P (gd_db s)) (store_call env (\<lambda>now. on_result (f now)))"
  by (rule store_call_keeps [OF assms];
      use assms in \<open>auto simp: unrelated_def on_update_def on_result_def record_enforcement_attempt_def
        record_enforcement_failure_def record_enforcement_success_def result_simps split: sum.splits\<close>)+

lemma parts_keep [keeps_rules]:
  "keeps (\<lambda>s. P (gd_db s)) (reload env)" "keeps (\<lambda>s. P (gd_db s)) (ask_helper env v4 v6)"
  "keeps (\<lambda>s. P (gd_db s)) (set_last_index index)"
  by (auto simp: keeps_def reload_def ask_helper_def set_last_index_def split: sum.splits prod.splits)

lemma enforce_keeps:
  assumes "unrelated env P"
  shows "keeps (\<lambda>s. P (gd_db s)) (enforce env)"
  unfolding enforce_def enforce_desired_def confirm_def record_failure_def apply_desired_def Let_def
  by (intro keeps_rules assms)

lemma claims_of_enforcement: "claims_of (d\<lparr>db_enforcement := x\<rparr>) = claims_of d"
  by (simp add: claims_of_def fun_eq_iff)

text \<open>
  Enforcing changes nothing that matters to clients: whatever the outcome of a run, every
  property of claims, sequence numbers and history that held before, and that the other threads keep,
  holds afterwards; only the enforcement record is written.
\<close>

theorem enforce_writes_only_its_record:
  assumes "\<And>d x. P d \<Longrightarrow> P (d\<lparr>db_enforcement := x\<rparr>)" "\<And>n d. P d \<Longrightarrow> P (env_others env n d)"
    and "P (gd_db s)" "enforce env s = (t, r)"
  shows "P (gd_db t)"
proof -
  have "unrelated env P" using assms(1,2) by (simp add: unrelated_def)
  from keepsD [OF enforce_keeps [OF this], of s t r] assms(3,4) show ?thesis by simp
qed

lemma enforce_writes_only_its_record_witness:
  "claims_of (gd_db (fst (enforce sample_env (sample_guard 0)))) = claims_of sample_db"
proof -
  obtain t r where t: "enforce sample_env (sample_guard 0) = (t, r)" by fastforce
  have "claims_of (gd_db t) = claims_of sample_db"
    by (rule enforce_writes_only_its_record [of "\<lambda>d. claims_of d = claims_of sample_db", OF _ _ _ t])
       (simp_all add: claims_of_enforcement sample_env_def sample_guard_def)
  with t show ?thesis by simp
qed

subsection \<open>The number reported to a client\<close>

definition client_blocked :: "pystr \<Rightarrow> time \<Rightarrow> db \<Rightarrow> pystr set" where
  "client_blocked c now s = {ip. \<exists>k v. claims_of s c k = Some v \<and> value_in_force now v \<and> fst v = ip}"

lemma client_blocked_rows:
  assumes "keyed claim_pk (db_claims s)"
  shows "client_blocked c now s = cr_ip ` {r \<in> set (db_claims s). cr_client r = c \<and> in_force now r}"
proof (rule set_eqI, rule iffI)
  fix ip assume "ip \<in> client_blocked c now s"
  then obtain k r where "tlookup claim_pk (c, k) (db_claims s) = Some r"
      "value_in_force now (row_value r)" "cr_ip r = ip"
    by (auto simp: client_blocked_def claims_of_def row_value_def)
  then show "ip \<in> cr_ip ` {r \<in> set (db_claims s). cr_client r = c \<and> in_force now r}"
    by (cases k) (auto simp: in_force_def value_in_force_def row_value_def claim_pk_def dest!: tlookup_SomeD)
next
  fix ip assume "ip \<in> cr_ip ` {r \<in> set (db_claims s). cr_client r = c \<and> in_force now r}"
  then obtain r where r: "r \<in> set (db_claims s)" "in_force now r" "cr_ip r = ip" "cr_client r = c" by blast
  have "tlookup claim_pk (c, cr_jail r, cr_ban_id r) (db_claims s) = Some r"
    using tlookup_Some [OF assms, of _ r] r(1,4) by (simp add: claim_pk_def)
  then have "claims_of s c (cr_jail r, cr_ban_id r) = Some (row_value r)" by (simp add: claims_of_def)
  moreover have "value_in_force now (row_value r)" "fst (row_value r) = ip"
    using r by (auto simp: in_force_def value_in_force_def row_value_def)
  ultimately show "ip \<in> client_blocked c now s" unfolding client_blocked_def by blast
qed

lemma client_effective_ips_spec:
  assumes "db_ok s"
  obtains v4 v6 where "client_effective_ips c now s = Inr (v4, v6)"
    "set v4 = {ip \<in> client_blocked c now s. addr_version ip = 4}"
    "set v6 = {ip \<in> client_blocked c now s. addr_version ip = 6}"
    "strictly_by_address v4" "strictly_by_address v6"
proof -
  let ?ips = "remdups (map cr_ip (filter (\<lambda>r. cr_client r = c \<and> in_force now r) (db_claims s)))"
  have "\<forall>s \<in> set ?ips. claimable_ip s" using db_ok_ips [OF assms] by auto
  then obtain v4 v6 where "split_families ?ips = Inr (v4, v6)"
      "set v4 = {s \<in> set ?ips. addr_version s = 4}" "set v6 = {s \<in> set ?ips. addr_version s = 6}"
      "strictly_by_address v4" "strictly_by_address v6"
    by (rule split_families_spec)
  moreover have "set ?ips = client_blocked c now s"
    by (auto simp: client_blocked_rows [OF db_ok_keyed [OF assms]])
  ultimately show ?thesis using that by (simp add: client_effective_ips_def)
qed

lemma strictly_by_address_card: "strictly_by_address xs \<Longrightarrow> length xs = card (set xs)"
proof -
  assume "strictly_by_address xs"
  then have "sorted_wrt (<) (map addr_key xs)" by (simp add: strictly_by_address_def sorted_wrt_map)
  then have "distinct xs" by (metis distinct_map strict_sorted_iff)
  then show ?thesis by (simp add: distinct_card)
qed

lemma client_blocked_claimable: "db_ok d \<Longrightarrow> ip \<in> client_blocked c now d \<Longrightarrow> claimable_ip ip"
  by (auto simp: client_blocked_rows [OF db_ok_keyed] db_ok_ips)


lemma exclude_total:
  assumes "list_all network_ok ns" "\<forall>ip \<in> ips. claimable_ip ip" "set vs = {ip \<in> ips. addr_version ip = v}"
    "strictly_by_address vs"
  obtains xs where "index_exclude (network_index_init ns) vs = Inr xs" "length xs = card (uncovered ns ips v)"
proof -
  have "\<forall>s \<in> set vs. \<exists>a. ip_address s = Inr a" using assms(2,3) by (auto simp: claimable_ip_iff)
  then obtain xs where xs: "index_exclude (network_index_init ns) vs = Inr xs"
    using index_exclude_iff [OF assms(1)] by blast
  from exclude_uncovered [OF assms(1,3,2,4) xs] strictly_by_address_card [of xs] xs show ?thesis
    by (intro that) simp_all
qed

lemma uncovered_card:
  assumes "\<forall>ip \<in> ips. claimable_ip ip" "finite ips"
  shows "card (uncovered ns ips 4) + card (uncovered ns ips 6) =
    card {ip \<in> ips. \<forall>k \<in> set ns. \<not> net_covers k (addr_of ip)}"
proof -
  have "{ip \<in> ips. \<forall>k \<in> set ns. \<not> net_covers k (addr_of ip)} = uncovered ns ips 4 \<union> uncovered ns ips 6"
    using assms(1) addr_version_46 by (auto simp: uncovered_def)
  moreover have "uncovered ns ips 4 \<inter> uncovered ns ips 6 = {}" by (auto simp: uncovered_def)
  moreover have "finite (uncovered ns ips v)" for v using assms(2) by (simp add: uncovered_def)
  ultimately show ?thesis by (simp add: card_Un_disjoint)
qed

lemma client_count:
  assumes "guard_ok s" "others_ok env" "\<not> env_fault env (gd_tick s)" "list_all network_ok ns"
    "gd_last_index s = None \<or> gd_last_index s = Some (network_index_init ns)"
  shows "client_effective_count env c s = (s\<lparr>gd_db := seen_db env s, gd_tick := Suc (gd_tick s)\<rparr>,
    (let mine = client_blocked c (seen_time env s) (seen_db env s) in
     if mine = {} then Inr 0
     else if gd_last_index s = None then Inl (EnforcementError ''no valid whitelist has been loaded'')
     else Inr (card {ip \<in> mine. \<forall>k \<in> set ns. \<not> net_covers k (addr_of ip)})))"
proof -
  let ?mine = "client_blocked c (seen_time env s) (seen_db env s)"
  let ?s = "s\<lparr>gd_db := seen_db env s, gd_tick := Suc (gd_tick s)\<rparr>"
  have ok: "db_ok (seen_db env s)" using assms(1,2) by (simp add: guard_ok_def others_okD seen_db_def)
  have cl: "\<forall>ip \<in> ?mine. claimable_ip ip" using client_blocked_claimable [OF ok] by blast
  have fin: "finite ?mine" by (simp add: client_blocked_rows [OF db_ok_keyed [OF ok]])
  obtain v4 v6 where v: "client_effective_ips c (seen_time env s) (seen_db env s) = Inr (v4, v6)"
    "set v4 = {ip \<in> ?mine. addr_version ip = 4}" "set v6 = {ip \<in> ?mine. addr_version ip = 6}"
    "strictly_by_address v4" "strictly_by_address v6"
    by (rule client_effective_ips_spec [OF ok])
  have call: "store_call env (\<lambda>now. on_result (client_effective_ips c now)) s = (?s, Inr (v4, v6))"
    using assms(3) v(1) by (simp add: store_call_Inr on_result_Inr seen_db_def seen_time_def)
  have empty: "v4 = [] \<and> v6 = [] \<longleftrightarrow> ?mine = {}"
  proof -
    have "?mine = set v4 \<union> set v6" using v(2,3) cl addr_version_46 by blast
    then show ?thesis by simp
  qed
  obtain x4 where x4: "index_exclude (network_index_init ns) v4 = Inr x4" "length x4 = card (uncovered ns ?mine 4)"
    by (rule exclude_total [OF assms(4) cl v(2,4)])
  obtain x6 where x6: "index_exclude (network_index_init ns) v6 = Inr x6" "length x6 = card (uncovered ns ?mine 6)"
    by (rule exclude_total [OF assms(4) cl v(3,5)])
  have count: "length x4 + length x6 = card {ip \<in> ?mine. \<forall>k \<in> set ns. \<not> net_covers k (addr_of ip)}"
    using uncovered_card [OF cl fin] x4(2) x6(2) by simp
  show ?thesis
    using assms(5) empty call x4(1) x6(1) count
    by (auto simp: client_effective_count_def sbind_def Let_def)
qed

text \<open>
  The number that a client is told is exact: of the addresses of this client's claims in force,
  those that no network of the last successfully enforced whitelist covers. Without claims it is 0
  even before the first enforcement; with claims and no enforced whitelist the query is refused
  instead of guessing. The query writes nothing.
\<close>

theorem client_count_exact:
  assumes "guard_ok s" "others_ok env" "\<not> env_fault env (gd_tick s)" "list_all network_ok ns"
    "gd_last_index s = None \<or> gd_last_index s = Some (network_index_init ns)"
  shows "client_effective_count env c s = (s\<lparr>gd_db := seen_db env s, gd_tick := Suc (gd_tick s)\<rparr>,
    (let mine = client_blocked c (seen_time env s) (seen_db env s) in
     if mine = {} then Inr 0
     else if gd_last_index s = None then Inl (EnforcementError ''no valid whitelist has been loaded'')
     else Inr (card {ip \<in> mine. \<forall>k \<in> set ns. \<not> net_covers k (addr_of ip)})))"
  by (rule client_count [OF assms])

lemma client_count_exact_witness:
  "gd_db (fst (client_effective_count sample_env ''web'' (sample_guard 0))) = sample_db"
proof -
  have "\<not> env_fault sample_env (gd_tick (sample_guard 0))" "gd_last_index (sample_guard 0) = None"
      "seen_db sample_env (sample_guard 0) = sample_db"
    by (simp_all add: sample_env_def sample_guard_def seen_db_def)
  then show ?thesis
    using client_count_exact [OF sample_guard_ok sample_others_ok, of 0 "[]" "''web''"] by simp
qed

end
