(* ===== verification/ServerContract.thy ===== *)
theory ServerContract
  imports Server EnforcerContract
begin

text \<open>
  What the HTTP handlers guarantee: only an authorised client within its rate reaches the store,
  a refused request changes nothing, a write touches only the client's own claims and only its
  allowed jails, an acknowledgement reports what the database holds, and the invariant of the
  database survives every request and every periodic pass.
\<close>

subsection \<open>Lifting to the server's state\<close>

lemma on_guard_Inr: "on_guard m s = (t, Inr x) \<longleftrightarrow> (\<exists>g. m (sv_guard s) = (g, Inr x) \<and> t = s\<lparr>sv_guard := g\<rparr>)"
  by (auto simp: on_guard_def split: prod.splits)

lemma on_guard_Inl: "on_guard m s = (t, Inl e) \<longleftrightarrow> (\<exists>g. m (sv_guard s) = (g, Inl e) \<and> t = s\<lparr>sv_guard := g\<rparr>)"
  by (auto simp: on_guard_def split: prod.splits)

lemma keeps_on_guard: "keeps P m \<Longrightarrow> keeps (\<lambda>s. P (sv_guard s)) (on_guard m)"
  by (auto simp: keeps_def on_guard_def split: prod.splits)

lemma keeps_lift_bind: "(\<And>x. r = Inr x \<Longrightarrow> keeps P (f x)) \<Longrightarrow> keeps P (sbind (slift r) f)"
  by (cases r) (auto simp: keeps_def)

lemma keeps_rate: "keeps (\<lambda>s. P (sv_guard s)) (rate_allow senv c now)"
  by (auto simp: keeps_def rate_allow_def split: prod.splits)

lemma keeps_authorize: "keeps (\<lambda>s. P (sv_guard s)) (authorize senv req)"
  unfolding authorize_def
  by (intro keeps_lift_bind) (auto split: option.splits intro!: keeps_rules keeps_rate)

subsection \<open>The invariant\<close>

definition server_ok :: "'w server \<Rightarrow> bool" where
  "server_ok s \<longleftrightarrow> guard_ok (sv_guard s)"

abbreviation keeps_ok :: "('w server, 'a) action \<Rightarrow> bool" where
  "keeps_ok m \<equiv> keeps (\<lambda>s. guard_ok (sv_guard s)) m"

lemma enforce_keeps_ok: "others_ok env \<Longrightarrow> keeps guard_ok (enforce env)"
  using enforce_triple by (simp add: keeps_striple)

lemma store_call_keeps_ok:
  "others_ok env \<Longrightarrow> (\<And>now d d' r. db_ok d \<Longrightarrow> call now d = (d', r) \<Longrightarrow> db_ok d') \<Longrightarrow>
   keeps guard_ok (store_call env call)"
  using store_call_triple [of env call] by (simp only: keeps_striple)

lemma count_keeps_ok:
  assumes "others_ok env"
  shows "keeps guard_ok (client_effective_count env c)"
proof -
  have "keeps guard_ok (store_call env (\<lambda>now. on_result (client_effective_ips c now)))"
    by (rule store_call_keeps_ok [OF assms]) (simp add: on_result_def)
  then show ?thesis
    by (auto simp: keeps_def client_effective_count_def sbind_def split: prod.splits sum.splits option.splits if_splits)
qed

lemma apply_events_ok:
  assumes "db_ok d" "batch_ok es" "apply_events sha c es cap now d = (d', r)"
  shows "db_ok d'"
  using assms apply_events_Inr(1) apply_events_Inl(1) by (cases r) fastforce+

lemma apply_snapshot_ok:
  assumes "db_ok d" "claims_ok cls" "0 < seq" "seq \<le> 2 ^ 63 - 1" "apply_snapshot sha c sid seq cls cap now d = (d', r)"
  shows "db_ok d'"
  using assms apply_snapshot_Inr(1) apply_snapshot_Inl(1) by (cases r) fastforce+

lemma post_events_keeps_ok:
  assumes "others_ok (se_env senv)"
  shows "keeps_ok (post_events senv cl raw)"
  unfolding post_events_def Let_def
proof (intro keeps_lift_bind)
  fix body events u
  assume "validate_events (se_iso senv) (field_of body ''events'') (nat (lm_events_per_request (cf_limits (se_config senv)))) = Inr events"
  then have "batch_ok events" by (auto simp: validate_events_iff)
  then show "keeps_ok (on_guard (store_call (se_env senv) (\<lambda>now. apply_events (env_sha (se_env senv)) (cc_id cl) events
      (nat (lm_claims_per_client (cf_limits (se_config senv)))) now)))"
    by (intro keeps_on_guard store_call_keeps_ok [OF assms]) (rule apply_events_ok)
qed

lemma post_snapshot_keeps_ok:
  assumes "others_ok (se_env senv)"
  shows "keeps_ok (post_snapshot senv cl raw)"
  unfolding post_snapshot_def Let_def
proof (intro keeps_lift_bind)
  fix body v
  let ?cap = "nat (lm_claims_per_client (cf_limits (se_config senv)))"
  assume v: "validate_snapshot (se_iso senv) (field_of body ''snapshot_id'') (field_of body ''seq'')
      (field_of body ''claims'') ?cap = Inr v"
  obtain sid seq cls where p: "v = (sid, seq, cls)" by (cases v)
  have ok: "claims_ok cls" "0 < seq" "seq \<le> 2 ^ 63 - 1"
    using v by (auto simp: p validate_snapshot_iff seq_field_iff)
  have "keeps_ok (sbind (slift (jails_allowed cl (map cl_jail cls))) (\<lambda>_.
      on_guard (store_call (se_env senv) (\<lambda>now. apply_snapshot (env_sha (se_env senv)) (cc_id cl) sid seq cls ?cap now))))"
    by (intro keeps_rules keeps_on_guard store_call_keeps_ok [OF assms]) (rule apply_snapshot_ok [OF _ ok])
  then show "keeps_ok (case v of (sid, seq, cls) \<Rightarrow> sbind (slift (jails_allowed cl (map cl_jail cls))) (\<lambda>_.
      on_guard (store_call (se_env senv) (\<lambda>now. apply_snapshot (env_sha (se_env senv)) (cc_id cl) sid seq cls ?cap now))))"
    by (simp add: p)
qed

lemma perform_write_keeps_ok:
  "others_ok (se_env senv) \<Longrightarrow> keeps_ok (perform_write senv cl path raw)"
  unfolding perform_write_def
  by (intro keeps_scatch keeps_if keeps_sbind post_events_keeps_ok post_snapshot_keeps_ok keeps_sret)
     (auto split: option.splits intro: keeps_rules)

lemma finish_write_keeps_ok:
  assumes "others_ok (se_env senv)"
  shows "keeps_ok (finish_write senv cl r)"
  unfolding finish_write_def
  by (intro keeps_scatch keeps_sbind keeps_on_guard locked_keeps [OF assms] enforce_keeps_ok [OF assms]
        count_keeps_ok [OF assms] keeps_sret)
     (auto split: option.splits intro: keeps_rules)

lemma do_POST_keeps_ok:
  assumes "others_ok (se_env senv)"
  shows "keeps_ok (do_POST senv req)"
  unfolding do_POST_def
  by (intro keeps_sbind keeps_authorize)
     (auto split: sum.splits intro!: keeps_sbind keeps_sret keeps_slift perform_write_keeps_ok [OF assms]
        finish_write_keeps_ok [OF assms])

lemma do_GET_keeps_ok:
  assumes "others_ok (se_env senv)"
  shows "keeps_ok (do_GET senv req)"
proof -
  have "keeps guard_ok (store_call (se_env senv) (\<lambda>now. on_result (\<lambda>d. Inr (client_status c now d))))" for c
    by (intro store_call_keeps_ok [OF assms]) (simp add: on_result_def)
  then show ?thesis
    unfolding do_GET_def
    by (intro keeps_sbind keeps_authorize)
       (auto split: sum.splits option.splits intro!: keeps_rules keeps_on_guard locked_keeps [OF assms] count_keeps_ok [OF assms])
qed

lemma periodic_once_keeps_ok:
  assumes "others_ok (se_env senv)"
  shows "keeps_ok (periodic_once senv)"
proof -
  have "keeps guard_ok (store_call (se_env senv) (\<lambda>now d.
      case prune_history days now d of (d', n) \<Rightarrow> (d', Inr n)))" for days
    by (rule store_call_keeps_ok [OF assms]) (auto split: prod.splits intro: db_ok_prune)
  then show ?thesis
    unfolding periodic_once_def
    by (intro keeps_scatch keeps_sbind keeps_on_guard locked_keeps [OF assms] enforce_keeps_ok [OF assms])
       (auto intro: keeps_rules)
qed


text \<open>The steps of a running server: requests and periodic passes in any order.\<close>

inductive server_step :: "'w server_env \<Rightarrow> 'w server \<Rightarrow> 'w server \<Rightarrow> bool" for senv where
  step_post: "do_POST senv req s = (t, r) \<Longrightarrow> server_step senv s t"
| step_get: "do_GET senv req s = (t, r) \<Longrightarrow> server_step senv s t"
| step_pass: "periodic_once senv s = (t, u) \<Longrightarrow> server_step senv s t"

definition server_init :: "'w \<Rightarrow> 'w server" where
  "server_init w = \<lparr>sv_guard = \<lparr>gd_db = empty_db, gd_last_valid = None, gd_last_index = None, gd_world = w, gd_tick = 0\<rparr>,
     sv_rate = (\<lambda>_. [])\<rparr>"

inductive server_reachable :: "'w server_env \<Rightarrow> 'w server \<Rightarrow> bool" for senv where
  start: "server_reachable senv (server_init w)"
| continue: "server_reachable senv s \<Longrightarrow> server_step senv s t \<Longrightarrow> server_reachable senv t"

lemma server_step_ok:
  assumes "server_step senv s t" "others_ok (se_env senv)" "guard_ok (sv_guard s)"
  shows "guard_ok (sv_guard t)"
  using assms
  by cases (use keepsD [OF do_POST_keeps_ok] keepsD [OF do_GET_keeps_ok] keepsD [OF periodic_once_keeps_ok] in fast)+

lemma server_reachable_ok:
  "server_reachable senv s \<Longrightarrow> others_ok (se_env senv) \<Longrightarrow> guard_ok (sv_guard s)"
proof (induction rule: server_reachable.induct)
  case (start w)
  then show ?case by (simp add: server_init_def guard_ok_def empty_db_ok)
qed (auto intro: server_step_ok)

text \<open>
  C20. The invariant of a running server: after any sequence of requests, valid or hostile, and
  periodic passes, with any failures of SQLite, of the whitelist file and of the helper in between, no
  two claims share client, jail and ban id, there are at most 100000 claims, each of a registered
  client and for a canonical unprotected address, no row of the event history or of the snapshot history
  is ahead of its client's sequence number, and the index used for queries is that of a whitelist that
  parsed. The other threads may commit between any two calls, provided that they keep the invariant too.
\<close>

theorem server_invariant:
  assumes "server_reachable senv s" "others_ok (se_env senv)"
  shows "(let d = gd_db (sv_guard s) in distinct (map claim_pk (db_claims d)) \<and> length (db_claims d) \<le> 100000 \<and>
      (\<forall>r \<in> set (db_claims d). fk_ok (cr_client r) d \<and>
         (\<exists>a. ip_address (cr_ip r) = Inr a \<and> compressed a = cr_ip r \<and> \<not> is_protected a)) \<and>
      (\<forall>r \<in> set (db_events d). er_seq r \<le> last_seq_of d (er_client r)) \<and>
      (\<forall>r \<in> set (db_snapshots d). sr_seq r \<le> last_seq_of d (sr_client r))) \<and>
    (\<forall>index. gd_last_index (sv_guard s) = Some index \<longrightarrow>
       (\<exists>ns. list_all network_ok ns \<and> index = network_index_init ns))"
  using server_reachable_ok [OF assms]
  by (auto simp: Let_def guard_ok_def db_ok_def inv_below_def keyed_def max_total_claims_def claimable_ip_iff)

definition sample_server_env :: "nat server_env" where
  "sample_server_env = \<lparr>se_env = sample_env, se_config = sample_config, se_iso = (\<lambda>_. IsoInvalid),
     se_scan = (\<lambda>_. Inr (RObj []))\<rparr>"

lemma server_invariant_witness:
  "\<exists>t u. periodic_once sample_server_env (server_init 0) = (t, u) \<and> length (db_claims (gd_db (sv_guard t))) \<le> 100000"
proof -
  obtain t u where t: "periodic_once sample_server_env (server_init 0) = (t, u)" by fastforce
  have "server_reachable sample_server_env t"
    by (rule continue [OF start step_pass [OF t]])
  from server_invariant [OF this] t show ?thesis
    by (auto simp: sample_server_env_def sample_others_ok Let_def)
qed


subsection \<open>Who gets through\<close>

lemma authorize_cases:
  "authorize senv req s =
     (case client_of senv req of
        Inl e \<Rightarrow> (s, Inl e)
      | Inr None \<Rightarrow> (s, Inr (Inl (error_reply 403 ''unknown client certificate'')))
      | Inr (Some cl) \<Rightarrow>
          (case allow (nat (lm_requests_per_minute (cf_limits (se_config senv)))) (cc_id cl) (rq_monotonic req) (sv_rate s) of
             (rate, ok) \<Rightarrow> (s\<lparr>sv_rate := rate\<rparr>,
                Inr (if ok then Inr cl else Inl (error_reply 429 ''rate limit exceeded'')))))"
  by (auto simp: authorize_def sbind_def slift_def sret_def rate_allow_def split: sum.splits option.splits prod.splits)

definition passes :: "'w server_env \<Rightarrow> http_request \<Rightarrow> 'w server \<Rightarrow> client_config \<Rightarrow> bool" where
  "passes senv req s cl \<longleftrightarrow> client_of senv req = Inr (Some cl) \<and>
     snd (allow (nat (lm_requests_per_minute (cf_limits (se_config senv)))) (cc_id cl) (rq_monotonic req) (sv_rate s))"

lemma authorize_guard: "authorize senv req s = (t, r) \<Longrightarrow> sv_guard t = sv_guard s"
  by (auto simp: authorize_cases split: sum.splits option.splits prod.splits)

lemma authorize_Inr: "authorize senv req s = (t, Inr (Inr cl)) \<Longrightarrow> passes senv req s cl"
  by (auto simp: authorize_cases passes_def split: sum.splits option.splits prod.splits if_splits)

lemma client_of_Some:
  "client_of senv req = Inr (Some cl) \<Longrightarrow>
   \<exists>der. rq_cert req = Inr (Some der) \<and> der \<noteq> '''' \<and>
     clients_by_fingerprint (se_config senv) (env_sha (se_env senv) der) = Some cl"
  by (auto simp: client_of_def certificate_fingerprint_def result_simps rbind_def
      split: sum.splits if_splits option.splits)

lemma refused_unchanged:
  assumes "do_POST senv req s = (t, r) \<or> do_GET senv req s = (t, r)" "\<And>cl. \<not> passes senv req s cl"
  shows "sv_guard t = sv_guard s"
proof -
  obtain u a where a: "authorize senv req s = (u, a)" by fastforce
  have "a \<noteq> Inr (Inr cl)" for cl using authorize_Inr a assms(2) by blast
  then have "t = u"
    using assms(1) a
    by (cases a) (auto simp: do_POST_def do_GET_def sbind_def sret_def split: sum.splits prod.splits)
  then show ?thesis using authorize_guard [OF a] by simp
qed

text \<open>
  C21. Only a known client within its rate acts: if a request changes anything but the rate limiter
  (the database, the enforcer, the firewall tables), then the peer presented a certificate whose
  SHA-256 fingerprint the configuration assigns to a client, and the rate limiter admitted that client.
\<close>

theorem only_authorised_requests_act:
  assumes "do_POST senv req s = (t, r) \<or> do_GET senv req s = (t, r)" "sv_guard t \<noteq> sv_guard s"
  shows "\<exists>der cl. rq_cert req = Inr (Some der) \<and> der \<noteq> '''' \<and>
    clients_by_fingerprint (se_config senv) (env_sha (se_env senv) der) = Some cl \<and>
    snd (allow (nat (lm_requests_per_minute (cf_limits (se_config senv)))) (cc_id cl) (rq_monotonic req) (sv_rate s))"
  using refused_unchanged [OF assms(1)] assms(2) client_of_Some by (fastforce simp: passes_def)

subsection \<open>What a POST does\<close>

text \<open>No other thread is at work.\<close>

definition idle :: "'w environment \<Rightarrow> bool" where
  "idle env \<longleftrightarrow> (\<forall>n d. env_others env n d = d) \<and> (\<forall>n g. env_threads env n g = g)"

lemma idle_locked: "idle env \<Longrightarrow> locked env m = m"
  by (simp add: idle_def locked_def fun_eq_iff)

lemma idle_simp: "idle env \<Longrightarrow> env_others env n d = d"
  by (simp add: idle_def)

lemma idle_others_ok: "idle env \<Longrightarrow> others_ok env"
  by (simp add: idle_def others_ok_def)

definition sample_sha :: "pystr \<Rightarrow> pystr" where
  "sample_sha = (\<lambda>_. replicate 64 (CHR ''a''))"

definition sample_events_raw :: jraw where
  "sample_events_raw = RObj [(''events'', RArr [RObj [
     (''event_id'', RStr ''00000000-0000-0000-0000-0000000000e8''), (''seq'', RInt 8), (''op'', RStr ''ban''),
     (''jail'', RStr ''sshd''), (''ban_id'', RStr ''00000000-0000-0000-0000-0000000000b8''),
     (''ip'', RStr ''203.0.113.9''), (''permanent'', RBool True), (''expires_at'', RNull)]])]"

definition posting_env :: "nat server_env" where
  "posting_env = \<lparr>se_env = sample_env\<lparr>env_sha := sample_sha\<rparr>, se_config = sample_config,
     se_iso = (\<lambda>_. IsoInvalid), se_scan = (\<lambda>_. Inr sample_events_raw)\<rparr>"

definition sample_server :: "nat server" where
  "sample_server = \<lparr>sv_guard = sample_guard 0, sv_rate = (\<lambda>_. [])\<rparr>"

definition sample_post :: "pystr \<Rightarrow> http_request" where
  "sample_post path = \<lparr>rq_path = path, rq_headers = [(''content-length'', ''2''),
     (''Content-Type'', ''application/json; charset=utf-8'')], rq_cert = Inr (Some ''der''), rq_bytes = ''{}'',
     rq_end = None, rq_monotonic = 5\<rparr>"

lemma posting_idle: "idle (se_env posting_env)"
  by (simp add: idle_def posting_env_def sample_env_def)

lemma sample_server_ok: "guard_ok (sv_guard sample_server)"
  using sample_guard_ok by (simp add: sample_server_def)

lemma sample_client: "client_of posting_env (sample_post p) = Inr (Some (hd (cf_clients sample_config)))"
proof -
  have "clients_by_fingerprint sample_config (replicate 64 (CHR ''a'')) = Some (hd (cf_clients sample_config))"
    by code_simp
  then show ?thesis
    by (simp add: client_of_def certificate_fingerprint_def sample_post_def posting_env_def sample_sha_def)
qed

lemma sample_post_status: "map_sum id rp_status (snd (do_POST posting_env (sample_post ''/v1/events'') sample_server)) = Inr 200"
  by code_simp

lemma sample_post_runs:
  obtains t rep where "do_POST posting_env (sample_post ''/v1/events'') sample_server = (t, Inr rep)" "rp_status rep = 200"
proof -
  obtain t r where run: "do_POST posting_env (sample_post ''/v1/events'') sample_server = (t, r)" by fastforce
  with sample_post_status show ?thesis using that by (cases r) auto
qed

lemma only_authorised_requests_act_witness:
  "sv_guard (fst (do_POST posting_env (sample_post ''/v1/events'') sample_server)) \<noteq> sv_guard sample_server \<and>
   (\<exists>cl. clients_by_fingerprint sample_config (replicate 64 (CHR ''a'')) = Some cl)"
proof -
  obtain t r where run: "do_POST posting_env (sample_post ''/v1/events'') sample_server = (t, r)" by fastforce
  have "gd_tick (sv_guard (fst (do_POST posting_env (sample_post ''/v1/events'') sample_server))) = 5"
    by code_simp
  then have change: "sv_guard t \<noteq> sv_guard sample_server"
    using run by (auto simp: sample_server_def sample_guard_def)
  from only_authorised_requests_act [of posting_env _ sample_server, OF disjI1 [OF run] change] run change
  show ?thesis by (auto simp: posting_env_def sample_sha_def)
qed

text \<open>The write that a body asks for.\<close>

datatype store_write = EventWrite "event list" | SnapshotWrite pystr int "claim list"

fun write_jails :: "store_write \<Rightarrow> pystr list" where
  "write_jails (EventWrite es) = map ev_jail es"
| "write_jails (SnapshotWrite sid seq cls) = map cl_jail cls"

fun write_valid :: "store_write \<Rightarrow> bool" where
  "write_valid (EventWrite es) = batch_ok es"
| "write_valid (SnapshotWrite sid seq cls) = (claims_ok cls \<and> 0 < seq \<and> seq \<le> 2 ^ 63 - 1)"

fun run_write :: "(pystr \<Rightarrow> pystr) \<Rightarrow> pystr \<Rightarrow> nat \<Rightarrow> time \<Rightarrow> store_write \<Rightarrow> db \<Rightarrow> db \<times> apply_result result" where
  "run_write sha c cap now (EventWrite es) d = apply_events sha c es cap now d"
| "run_write sha c cap now (SnapshotWrite sid seq cls) d = apply_snapshot sha c sid seq cls cap now d"

lemma run_write_eta:
  "(\<lambda>now. run_write sha c cap now (EventWrite es)) = (\<lambda>now. apply_events sha c es cap now)"
  "(\<lambda>now. run_write sha c cap now (SnapshotWrite sid seq cls)) = (\<lambda>now. apply_snapshot sha c sid seq cls cap now)"
  by (simp_all add: fun_eq_iff)

definition claims_cap :: "'w server_env \<Rightarrow> nat" where
  "claims_cap senv = nat (lm_claims_per_client (cf_limits (se_config senv)))"

lemma jails_allowed_iff:
  "jails_allowed cl js = Inr u \<longleftrightarrow> set js \<subseteq> set (cc_allowed_jails cl)"
  by (auto simp: jails_allowed_def list_ex_iff)

text \<open>The write that a decoded body asks for at a path.\<close>

definition asked_write :: "'w server_env \<Rightarrow> pystr \<Rightarrow> json \<Rightarrow> store_write \<Rightarrow> bool" where
  "asked_write senv path raw w \<longleftrightarrow> (\<exists>d. raw = JObj d \<and>
     (case w of
        EventWrite es \<Rightarrow> path = ''/v1/events'' \<and> set (jkeys d) = {''events''} \<and>
          validate_events (se_iso senv) (the (map_of d ''events''))
            (nat (lm_events_per_request (cf_limits (se_config senv)))) = Inr es
      | SnapshotWrite sid seq cls \<Rightarrow> path = ''/v1/snapshot'' \<and> set (jkeys d) = {''snapshot_id'', ''seq'', ''claims''} \<and>
          validate_snapshot (se_iso senv) (the (map_of d ''snapshot_id'')) (the (map_of d ''seq''))
            (the (map_of d ''claims'')) (claims_cap senv) = Inr (sid, seq, cls)))"

lemma outer_object_Inr: "outer_object raw ks = Inr d \<Longrightarrow> raw = JObj d \<and> set (jkeys d) = set ks"
  by (auto simp: outer_object_def Let_def split: json.splits if_splits)

text \<open>What one write does to the database, whatever becomes of it.\<close>

definition write_outcome ::
  "'w server_env \<Rightarrow> client_config \<Rightarrow> pystr \<Rightarrow> json \<Rightarrow> 'w server \<Rightarrow> 'w server \<Rightarrow> apply_result result \<Rightarrow> bool" where
  "write_outcome senv cl path raw s u r \<longleftrightarrow>
     gd_world (sv_guard u) = gd_world (sv_guard s) \<and> gd_last_index (sv_guard u) = gd_last_index (sv_guard s) \<and>
     (case r of
        Inl e \<Rightarrow> gd_db (sv_guard u) = gd_db (sv_guard s)
      | Inr x \<Rightarrow> gd_tick (sv_guard u) = Suc (gd_tick (sv_guard s)) \<and>
          (\<exists>w. asked_write senv path raw w \<and> write_valid w \<and> set (write_jails w) \<subseteq> set (cc_allowed_jails cl) \<and>
             run_write (env_sha (se_env senv)) (cc_id cl) (claims_cap senv) (env_clock (se_env senv) (gd_tick (sv_guard s)))
               w (gd_db (sv_guard s)) = (gd_db (sv_guard u), Inr x)))"

lemma write_outcome_same: "write_outcome senv cl path raw s s (Inl e)"
  by (simp add: write_outcome_def)

lemma write_outcome_call:
  assumes "idle (se_env senv)" "asked_write senv path raw w" "write_valid w" "set (write_jails w) \<subseteq> set (cc_allowed_jails cl)"
    "on_guard (store_call (se_env senv) (\<lambda>now. run_write (env_sha (se_env senv)) (cc_id cl) (claims_cap senv) now w)) s = (u, r)"
    "\<And>now d d' e. d = gd_db (sv_guard s) \<Longrightarrow>
       run_write (env_sha (se_env senv)) (cc_id cl) (claims_cap senv) now w d = (d', Inl e) \<Longrightarrow> d' = d"
  shows "write_outcome senv cl path raw s u r"
proof (cases r)
  case (Inl e)
  then show ?thesis
    using assms(5,6) by (auto simp: write_outcome_def on_guard_Inl store_call_Inl idle_simp [OF assms(1)])
next
  case (Inr x)
  then show ?thesis
    using assms(2-5)
    by (fastforce simp: write_outcome_def on_guard_Inr store_call_Inr idle_simp [OF assms(1)])
qed

lemma run_write_Inl:
  assumes "db_ok d" "write_valid w" "run_write sha c cap now w d = (d', Inl e)"
  shows "d' = d"
  using assms apply_events_Inl(1) apply_snapshot_Inl(1) by (cases w) fastforce+

lemma post_events_outcome:
  assumes "idle (se_env senv)" "db_ok (gd_db (sv_guard s))" "post_events senv cl raw s = (u, r)"
  shows "write_outcome senv cl ''/v1/events'' raw s u r"
proof -
  consider e where "u = s" "r = Inl e"
    | body es where "outer_object raw [''events''] = Inr body" "validate_events (se_iso senv) (field_of body ''events'')
          (nat (lm_events_per_request (cf_limits (se_config senv)))) = Inr es"
        "jails_allowed cl (map ev_jail es) = Inr ()" "on_guard (store_call (se_env senv) (\<lambda>now. apply_events (env_sha (se_env senv)) (cc_id cl) es (claims_cap senv) now)) s = (u, r)"
    using assms(3)
    by (auto simp: post_events_def Let_def sbind_def slift_def claims_cap_def split: sum.splits prod.splits)
  then show ?thesis
  proof cases
    case 2
    then have "write_valid (EventWrite es)" "set (write_jails (EventWrite es)) \<subseteq> set (cc_allowed_jails cl)"
      by (auto simp: validate_events_iff jails_allowed_iff)
    moreover have "asked_write senv ''/v1/events'' raw (EventWrite es)"
      using outer_object_Inr [OF 2(1)] 2(2) by (simp add: asked_write_def field_of_def)
    moreover have "on_guard (store_call (se_env senv) (\<lambda>now. run_write (env_sha (se_env senv)) (cc_id cl)
        (claims_cap senv) now (EventWrite es))) s = (u, r)"
      using 2(4) by (simp only: run_write_eta)
    ultimately show ?thesis
      using write_outcome_call [OF assms(1)] run_write_Inl [OF assms(2)] by blast
  qed (simp add: write_outcome_same)
qed

lemma post_snapshot_outcome:
  assumes "idle (se_env senv)" "db_ok (gd_db (sv_guard s))" "post_snapshot senv cl raw s = (u, r)"
  shows "write_outcome senv cl ''/v1/snapshot'' raw s u r"
proof -
  consider e where "u = s" "r = Inl e"
    | body sid seq cls where "outer_object raw [''snapshot_id'', ''seq'', ''claims''] = Inr body" "validate_snapshot (se_iso senv) (field_of body ''snapshot_id'') (field_of body ''seq'')
          (field_of body ''claims'') (claims_cap senv) = Inr (sid, seq, cls)"
        "jails_allowed cl (map cl_jail cls) = Inr ()" "on_guard (store_call (se_env senv) (\<lambda>now. apply_snapshot (env_sha (se_env senv)) (cc_id cl) sid seq cls (claims_cap senv) now)) s = (u, r)"
    using assms(3)
    by (auto simp: post_snapshot_def Let_def sbind_def slift_def claims_cap_def split: sum.splits prod.splits)
  then show ?thesis
  proof cases
    case 2
    then have "write_valid (SnapshotWrite sid seq cls)" "set (write_jails (SnapshotWrite sid seq cls)) \<subseteq> set (cc_allowed_jails cl)"
      by (auto simp: validate_snapshot_iff seq_field_iff jails_allowed_iff)
    moreover have "asked_write senv ''/v1/snapshot'' raw (SnapshotWrite sid seq cls)"
      using outer_object_Inr [OF 2(1)] 2(2) by (simp add: asked_write_def field_of_def insert_commute)
    moreover have "on_guard (store_call (se_env senv) (\<lambda>now. run_write (env_sha (se_env senv)) (cc_id cl)
        (claims_cap senv) now (SnapshotWrite sid seq cls))) s = (u, r)"
      using 2(4) by (simp only: run_write_eta)
    ultimately show ?thesis
      using write_outcome_call [OF assms(1)] run_write_Inl [OF assms(2)] by blast
  qed (simp add: write_outcome_same)
qed


lemma post_error_status: "post_error e = Some rep \<Longrightarrow> rp_status rep \<in> {400, 403, 409, 503}"
  by (auto simp: post_error_def error_reply_def split: exn.splits)

lemma perform_write_outcome:
  assumes "idle (se_env senv)" "db_ok (gd_db (sv_guard s))" "perform_write senv cl path raw s = (u, res)"
  shows "case res of
      Inr (Inr x) \<Rightarrow> write_outcome senv cl path raw s u (Inr x)
    | Inr (Inl rep) \<Rightarrow> write_outcome senv cl path raw s u (Inl ValueError) \<and> rp_status rep \<noteq> 200
    | Inl e \<Rightarrow> write_outcome senv cl path raw s u (Inl e)"
proof -
  note events = post_events_outcome [OF assms(1,2), of cl raw]
  note snap = post_snapshot_outcome [OF assms(1,2), of cl raw]
  have same: "write_outcome senv cl p raw s v (Inl e) \<longleftrightarrow> write_outcome senv cl path raw s v (Inl e')" for p v e e'
    by (simp add: write_outcome_def)
  obtain v r where m: "(if path = ''/v1/events'' then sbind (post_events senv cl raw) (\<lambda>r. sret (Inr r))
        else if path = ''/v1/snapshot'' then sbind (post_snapshot senv cl raw) (\<lambda>r. sret (Inr r))
        else sret (Inl (error_reply 404 ''not found''))) s = (v, r)" by fastforce
  have r: "case r of Inr (Inr x) \<Rightarrow> write_outcome senv cl path raw s v (Inr x)
      | Inr (Inl rep) \<Rightarrow> write_outcome senv cl path raw s v (Inl ValueError) \<and> rp_status rep \<noteq> 200
      | Inl e \<Rightarrow> write_outcome senv cl path raw s v (Inl e)"
    using m events snap same
    by (auto simp: sbind_def sret_def write_outcome_same error_reply_def split: if_splits sum.splits prod.splits)
  show ?thesis
  proof (cases r)
    case (Inl e)
    then have "write_outcome senv cl path raw s v (Inl e)" using r by simp
    then show ?thesis
      using assms(3) m Inl same [of path v e ValueError] post_error_status [of e]
      by (cases "post_error e") (auto simp: perform_write_def scatch_def sret_def slift_def)
  next
    case (Inr x)
    then show ?thesis using assms(3) m r by (auto simp: perform_write_def scatch_def split: sum.splits)
  qed
qed

lemma do_POST_Inr:
  assumes "do_POST senv req s = (t, Inr rep)"
  obtains (refused) "sv_guard t = sv_guard s" "rp_status rep \<notin> {200, 503}"
    | (rejected) cl raw u where "passes senv req s cl" "sv_guard u = sv_guard s"
        "perform_write senv cl (rq_path req) raw u = (t, Inr (Inl rep))"
    | (written) cl raw u v x where "passes senv req s cl" "sv_guard u = sv_guard s" "request_body senv req = Inr (Inr raw)"
        "perform_write senv cl (rq_path req) raw u = (v, Inr (Inr x))" "finish_write senv cl x v = (t, Inr rep)"
proof -
  obtain u a where a: "authorize senv req s = (u, a)" by fastforce
  note g = authorize_guard [OF a]
  have st: "rp_status rp \<notin> {200, 503}" if "authorize senv req s = (u, Inr (Inl rp))" for rp
    using that by (auto simp: authorize_cases error_reply_def split: sum.splits option.splits prod.splits if_splits)
  have body: "rp_status rp \<notin> {200, 503}" if "request_body senv req = Inr (Inl rp)" for rp
    using that by (auto simp: request_body_def content_length_def Let_def error_reply_def rbind_eq_Inr
        split: if_splits sum.splits option.splits)
  show ?thesis
  proof (cases "\<exists>cl. a = Inr (Inr cl)")
    case False
    then show ?thesis
      using assms a g st by (intro refused) (auto simp: do_POST_def sbind_def sret_def split: sum.splits)
  next
    case True
    then obtain cl where cl: "a = Inr (Inr cl)" by blast
    note pass = authorize_Inr [OF a [unfolded cl]]
    show ?thesis
    proof (cases "request_body senv req")
      case (Inr b)
      show ?thesis
      proof (cases b)
        case (Inl rp)
        then show ?thesis
          using assms a cl Inr g body by (intro refused) (auto simp: do_POST_def sbind_def sret_def slift_def)
      next
        case (Inr raw)
        obtain v o' where o': "perform_write senv cl (rq_path req) raw u = (v, o')" by fastforce
        then show ?thesis
          using assms a cl \<open>request_body senv req = Inr b\<close> Inr g rejected [OF pass, of u raw] written [OF pass, of u raw v]
          by (auto simp: do_POST_def sbind_def sret_def slift_def split: sum.splits)
      qed
    qed (use assms a cl in \<open>auto simp: do_POST_def sbind_def slift_def\<close>)
  qed
qed

lemma finish_write_Inr:
  assumes "finish_write senv cl x s = (t, Inr rep)"
  obtains (enforced) u m n where "locked (se_env senv) (enforce (se_env senv)) (sv_guard s) = (u, Inr m)"
      "locked (se_env senv) (client_effective_count (se_env senv) (cc_id cl)) u = (sv_guard t, Inr n)"
      "rep = write_reply x n"
    | (failed) msg where "rep = unenforced_reply x msg"
proof -
  obtain u r where e: "locked (se_env senv) (enforce (se_env senv)) (sv_guard s) = (u, r)" by fastforce
  show ?thesis
  proof (cases r)
    case (Inl e')
    then show ?thesis
      using assms e failed by (auto simp: finish_write_def scatch_def sbind_def on_guard_def sret_def slift_def split: option.splits)
  next
    case (Inr m)
    obtain v k where c: "locked (se_env senv) (client_effective_count (se_env senv) (cc_id cl)) u = (v, k)" by fastforce
    then show ?thesis
      using assms e Inr enforced [of u m] failed
      by (cases k) (auto simp: finish_write_def scatch_def sbind_def on_guard_def sret_def slift_def split: option.splits)
  qed
qed

text \<open>
  C22. A refused request changes nothing: when a POST is answered with a status other than 200 and 503
  (no certificate, rate, body, validation, jail, limit, conflict, unknown path), the database, the
  enforcer's whitelist index and the firewall are as before, when no other thread is at work.
\<close>

theorem refused_post_changes_nothing:
  assumes "idle (se_env senv)" "guard_ok (sv_guard s)" "do_POST senv req s = (t, Inr rep)"
    "rp_status rep \<noteq> 200" "rp_status rep \<noteq> 503"
  shows "gd_db (sv_guard t) = gd_db (sv_guard s) \<and> gd_world (sv_guard t) = gd_world (sv_guard s) \<and>
    gd_last_index (sv_guard t) = gd_last_index (sv_guard s)"
  using assms(3)
proof (cases rule: do_POST_Inr)
  case (rejected cl raw u)
  have "db_ok (gd_db (sv_guard u))" using assms(2) rejected(2) by (simp add: guard_ok_def)
  from perform_write_outcome [OF assms(1) this rejected(3)] rejected(2) show ?thesis
    by (simp add: write_outcome_def)
next
  case (written cl raw u v x)
  from written(5) show ?thesis
    by (cases rule: finish_write_Inr) (use assms(4,5) in \<open>auto simp: write_reply_def unenforced_reply_def\<close>)
qed simp


lemma sample_refused: "map_sum id rp_status (snd (do_POST posting_env (sample_post ''/v2'') sample_server)) = Inr 404"
  by code_simp

lemma refused_post_changes_nothing_witness:
  "gd_db (sv_guard (fst (do_POST posting_env (sample_post ''/v2'') sample_server))) = sample_db"
proof -
  obtain t r where run: "do_POST posting_env (sample_post ''/v2'') sample_server = (t, r)" by fastforce
  with sample_refused obtain rep where rep: "r = Inr rep" "rp_status rep = 404" by (cases r) auto
  from refused_post_changes_nothing [where senv = posting_env, OF posting_idle sample_server_ok run [unfolded rep(1)]] rep(2) run
  show ?thesis by (simp add: sample_server_def sample_guard_def)
qed

subsection \<open>What an accepted write leaves\<close>

lemma fold_spec_event_old:
  "fold spec_event es m k = Some v \<Longrightarrow> m k = Some v \<or> k \<in> event_key ` set es"
proof (induction es arbitrary: m)
  case (Cons e es)
  from Cons.IH [of "spec_event e m"] Cons.prems show ?case
    by (auto simp: spec_event_def split: if_splits)
qed simp

lemma spec_snapshot_key: "spec_snapshot cls k = Some v \<Longrightarrow> k \<in> claim_key ` set cls"
  by (force simp: spec_snapshot_def dest: map_of_SomeD)

text \<open>The view of a write: the other clients' state stays, the own claims come from allowed jails.\<close>

lemma run_write_view:
  assumes "db_ok d" "write_valid w" "run_write sha c cap now w d = (d', Inr x)"
  shows "\<forall>b. b \<noteq> c \<longrightarrow> claims_of d' b = claims_of d b \<and> last_seq_of d' b = last_seq_of d b"
    and "claims_of d' c k = Some v \<Longrightarrow> fst k \<in> set (write_jails w) \<or> claims_of d c k = Some v"
    and "ar_accepted x \<and> ar_last_seq x = last_seq_of d' c"
    and "db_ok d'"
proof -
  have "(\<forall>b. b \<noteq> c \<longrightarrow> claims_of d' b = claims_of d b \<and> last_seq_of d' b = last_seq_of d b) \<and>
     (claims_of d' c k = Some v \<longrightarrow> fst k \<in> set (write_jails w) \<or> claims_of d c k = Some v) \<and>
     (ar_accepted x \<and> ar_last_seq x = last_seq_of d' c) \<and> db_ok d'"
  proof (cases w)
    case (EventWrite es)
    with assms have r: "batch_ok es" "apply_events sha c es cap now d = (d', Inr x)" by simp_all
    note view = apply_events_view [OF assms(1) r]
    have "claims_of d' c \<in> {claims_of d c, fold spec_event es (claims_of d c)}"
      using view by (simp split: if_splits)
    moreover have "fst k \<in> set (write_jails w)" if "k \<in> event_key ` set es"
      using that EventWrite by (auto simp: event_key_def)
    ultimately have "claims_of d' c k = Some v \<longrightarrow> fst k \<in> set (write_jails w) \<or> claims_of d c k = Some v"
      using fold_spec_event_old [of es "claims_of d c" k v] by auto
    then show ?thesis using view apply_events_Inr(1) [OF assms(1) r] by simp
  next
    case (SnapshotWrite sid seq cls)
    with assms have r: "claims_ok cls" "0 < seq" "seq \<le> 2 ^ 63 - 1"
        "apply_snapshot sha c sid seq cls cap now d = (d', Inr x)" by simp_all
    note view = apply_snapshot_view [OF assms(1) r]
    have "claims_of d' c \<in> {claims_of d c, spec_snapshot cls}"
      using view by (simp split: if_splits)
    moreover have "fst k \<in> set (write_jails w)" if "k \<in> claim_key ` set cls"
      using that SnapshotWrite by (auto simp: claim_key_def)
    ultimately have "claims_of d' c k = Some v \<longrightarrow> fst k \<in> set (write_jails w) \<or> claims_of d c k = Some v"
      using spec_snapshot_key [of cls k v] by auto
    then show ?thesis using view apply_snapshot_Inr(1) [OF assms(1) r] by simp
  qed
  then show "\<forall>b. b \<noteq> c \<longrightarrow> claims_of d' b = claims_of d b \<and> last_seq_of d' b = last_seq_of d b"
    "claims_of d' c k = Some v \<Longrightarrow> fst k \<in> set (write_jails w) \<or> claims_of d c k = Some v"
    "ar_accepted x \<and> ar_last_seq x = last_seq_of d' c" "db_ok d'"
    by blast+
qed

text \<open>The tables that the enforcement record does not belong to.\<close>

definition same_claims :: "db \<Rightarrow> db \<Rightarrow> bool" where
  "same_claims d d' \<longleftrightarrow> db_claims d' = db_claims d \<and> db_clients d' = db_clients d"

lemma same_claims_view:
  "same_claims d d' \<Longrightarrow> claims_of d' = claims_of d \<and> last_seq_of d' = last_seq_of d \<and>
     blocked now d' = blocked now d \<and> client_blocked c now d' = client_blocked c now d"
  using claims_of_cong [of d' d] last_seq_of_cong [of d' d]
  by (auto simp: same_claims_def blocked_def client_blocked_def)

lemma same_claims_refl [simp]: "same_claims d d"
  by (simp add: same_claims_def)

lemma unrelated_same: "idle env \<Longrightarrow> unrelated env (same_claims d)"
  by (simp add: unrelated_def same_claims_def idle_def)

lemma count_keeps:
  assumes "unrelated env P"
  shows "keeps (\<lambda>s. P (gd_db s)) (client_effective_count env c)"
proof -
  have "keeps (\<lambda>s. P (gd_db s)) (store_call env (\<lambda>now. on_result (client_effective_ips c now)))"
    by (rule record_keeps(4) [OF assms])
  then show ?thesis
    by (auto simp: keeps_def client_effective_count_def sbind_def split: prod.splits sum.splits option.splits if_splits)
qed

lemma finish_write_keeps:
  assumes "idle (se_env senv)"
  shows "keeps (\<lambda>s. same_claims d (gd_db (sv_guard s))) (finish_write senv cl x)"
  unfolding finish_write_def idle_locked [OF assms]
  by (intro keeps_scatch keeps_sbind keeps_on_guard keeps_sret
        enforce_keeps [OF unrelated_same [OF assms]] count_keeps [OF unrelated_same [OF assms]])
     (auto split: option.splits intro: keeps_rules)

text \<open>Every end of a POST, by what its write did.\<close>

lemma do_POST_effect:
  assumes "idle (se_env senv)" "guard_ok (sv_guard s)" "do_POST senv req s = (t, r)"
    "\<not> same_claims (gd_db (sv_guard s)) (gd_db (sv_guard t))"
  shows "\<exists>cl w now d x. passes senv req s cl \<and> write_valid w \<and> set (write_jails w) \<subseteq> set (cc_allowed_jails cl) \<and>
    run_write (env_sha (se_env senv)) (cc_id cl) (claims_cap senv) now w (gd_db (sv_guard s)) = (d, Inr x) \<and>
    same_claims d (gd_db (sv_guard t))"
proof -
  obtain u a where a: "authorize senv req s = (u, a)" by fastforce
  have g: "sv_guard u = sv_guard s" by (rule authorize_guard [OF a])
  then have ok: "db_ok (gd_db (sv_guard u))" using assms(2) by (simp add: guard_ok_def)
  obtain cl where cl: "a = Inr (Inr cl)"
    using assms(3,4) a g by (cases a) (auto simp: do_POST_def sbind_def sret_def split: sum.splits)
  obtain raw where raw: "request_body senv req = Inr (Inr raw)"
    using assms(3,4) a cl g
    by (cases "request_body senv req") (auto simp: do_POST_def sbind_def sret_def slift_def split: sum.splits)
  obtain v res where w: "perform_write senv cl (rq_path req) raw u = (v, res)" by fastforce
  note o = perform_write_outcome [OF assms(1) ok w]
  obtain x where x: "res = Inr (Inr x)"
    using o assms(3,4) a cl raw w g
    by (cases res) (auto simp: do_POST_def sbind_def sret_def slift_def write_outcome_def split: sum.splits)
  have fin: "finish_write senv cl x v = (t, r)"
    using assms(3) a cl raw w x by (simp add: do_POST_def sbind_def sret_def slift_def split: prod.splits sum.splits)
  have "same_claims (gd_db (sv_guard v)) (gd_db (sv_guard t))"
    using keepsD [OF finish_write_keeps [OF assms(1)] _ fin] by simp
  moreover have "passes senv req s cl" using authorize_Inr a cl by blast
  moreover obtain w where "write_valid w" "set (write_jails w) \<subseteq> set (cc_allowed_jails cl)"
      "run_write (env_sha (se_env senv)) (cc_id cl) (claims_cap senv) (env_clock (se_env senv) (gd_tick (sv_guard s)))
        w (gd_db (sv_guard s)) = (gd_db (sv_guard v), Inr x)"
    using o [unfolded x] g by (auto simp: write_outcome_def)
  ultimately show ?thesis by blast
qed

text \<open>
  C23. A client can only manage its own claims in its own jails: whatever a POST contains and however
  it ends, it affects only the client that the certificate identifies; when no other thread is at work,
  all others keep their claims and sequence numbers, and every claim that the client has afterwards lies
  in a jail that the configuration allows it, unless the client had this very claim before.
\<close>

theorem post_touches_only_own_claims:
  assumes "idle (se_env senv)" "guard_ok (sv_guard s)" "do_POST senv req s = (t, r)"
    "client_of senv req = Inr (Some cl)"
  shows "(\<forall>b. b \<noteq> cc_id cl \<longrightarrow> claims_of (gd_db (sv_guard t)) b = claims_of (gd_db (sv_guard s)) b \<and>
       last_seq_of (gd_db (sv_guard t)) b = last_seq_of (gd_db (sv_guard s)) b) \<and>
    (\<forall>k v. claims_of (gd_db (sv_guard t)) (cc_id cl) k = Some v \<longrightarrow>
       fst k \<in> set (cc_allowed_jails cl) \<or> claims_of (gd_db (sv_guard s)) (cc_id cl) k = Some v)"
proof (cases "same_claims (gd_db (sv_guard s)) (gd_db (sv_guard t))")
  case True
  from same_claims_view [OF this] show ?thesis by simp
next
  case False
  from do_POST_effect [OF assms(1-3) this] assms(4) obtain w now d x where w:
      "write_valid w" "set (write_jails w) \<subseteq> set (cc_allowed_jails cl)"
      "run_write (env_sha (se_env senv)) (cc_id cl) (claims_cap senv) now w (gd_db (sv_guard s)) = (d, Inr x)"
      "same_claims d (gd_db (sv_guard t))"
    by (auto simp: passes_def)
  have "db_ok (gd_db (sv_guard s))" using assms(2) by (simp add: guard_ok_def)
  note view = run_write_view [OF this w(1,3)]
  have eq: "claims_of (gd_db (sv_guard t)) = claims_of d" "last_seq_of (gd_db (sv_guard t)) = last_seq_of d"
    using same_claims_view [OF w(4)] by simp_all
  show ?thesis unfolding eq using view(1) view(2) w(2) by blast
qed


lemma post_touches_only_own_claims_witness:
  "claims_of (gd_db (sv_guard (fst (do_POST posting_env (sample_post ''/v1/events'') sample_server)))) ''other'' =
   claims_of sample_db ''other''"
proof -
  obtain t r where run: "do_POST posting_env (sample_post ''/v1/events'') sample_server = (t, r)" by fastforce
  have "cc_id (hd (cf_clients sample_config)) = ''web''" by (simp add: sample_config_def)
  with post_touches_only_own_claims [where senv = posting_env, OF posting_idle sample_server_ok run sample_client] run
  show ?thesis by (simp add: sample_server_def sample_guard_def)
qed

lemma helper_success_run:
  assumes "guard_ok s" "others_ok env" "enforce env s = (t, Inr n)"
  shows "\<exists>ns v4 v6 r. load_whitelist (env_fs env (gd_tick s + 2)) (env_whitelist env) = Inr ns \<and> list_all network_ok ns \<and>
    set v4 = uncovered ns (blocked (seen_time env s) (seen_db env s)) 4 \<and>
    set v6 = uncovered ns (blocked (seen_time env s) (seen_db env s)) 6 \<and>
    helper_replace (env_peer env) 3 v4 v6 (gd_world s) = (gd_world t, Inr r) \<and>
    gd_last_index t = Some (network_index_init ns)"
  using enforce_run [OF assms]
proof (elim exE conjE, goal_cases)
  case (1 ns v4 v6 r)
  show ?case
    by (rule exI [of _ ns], rule exI [of _ v4], rule exI [of _ v6], rule exI [of _ r])
       (simp only: 1 load_whitelist_ok [OF 1(1)] simp_thms)
qed

lemma count_Inr:
  assumes "client_effective_count env c s = (t, Inr n)"
  shows "\<not> env_fault env (gd_tick s)" "gd_world t = gd_world s" "gd_last_index t = gd_last_index s"
proof -
  obtain u v4 v6 where call: "store_call env (\<lambda>now. on_result (client_effective_ips c now)) s = (u, Inr (v4, v6))"
    using assms unfolding client_effective_count_def sbind_Inr by fast
  then have u: "\<not> env_fault env (gd_tick s)" "gd_world u = gd_world s" "gd_last_index u = gd_last_index s"
    by (auto simp: store_call_Inr)
  have "t = u"
    using assms call by (auto simp: client_effective_count_def sbind_def split: if_splits option.splits)
  with u show "\<not> env_fault env (gd_tick s)" "gd_world t = gd_world s" "gd_last_index t = gd_last_index s"
    by simp_all
qed

text \<open>
  C24. A 200 means accepted, durable and enforced. When a POST is answered with 200 and no other thread
  was at work, the client passed authorisation, its decoded body asked for a valid write within its
  allowed jails that the store accepted at the time of its call, the sequence number in the answer is the
  stored one, the whitelist was read and parsed after the write had been committed, the helper then
  acknowledged exactly the addresses claimed at the start of the enforcement that this whitelist does not
  cover, and the count in the answer is the number of this client's addresses that are claimed at the end
  and not covered by this whitelist. The calls on the store are counted from the request's first one.
\<close>

theorem post_ok_means_enforced:
  assumes "idle (se_env senv)" "guard_ok (sv_guard s)" "do_POST senv req s = (t, Inr rep)" "rp_status rep = 200"
  shows "\<exists>cl raw w d x ns v4 v6 r n.
    passes senv req s cl \<and> request_body senv req = Inr (Inr raw) \<and> asked_write senv (rq_path req) raw w \<and>
    write_valid w \<and> set (write_jails w) \<subseteq> set (cc_allowed_jails cl) \<and>
    run_write (env_sha (se_env senv)) (cc_id cl) (claims_cap senv) (env_clock (se_env senv) (gd_tick (sv_guard s))) w
      (gd_db (sv_guard s)) = (d, Inr x) \<and>
    rep = write_reply x n \<and> ar_accepted x \<and> ar_last_seq x = last_seq_of (gd_db (sv_guard t)) (cc_id cl) \<and>
    claims_of (gd_db (sv_guard t)) = claims_of d \<and>
    load_whitelist (env_fs (se_env senv) (gd_tick (sv_guard s) + 3)) (env_whitelist (se_env senv)) = Inr ns \<and>
    set v4 = uncovered ns (blocked (env_clock (se_env senv) (gd_tick (sv_guard s) + 1)) d) 4 \<and>
    set v6 = uncovered ns (blocked (env_clock (se_env senv) (gd_tick (sv_guard s) + 1)) d) 6 \<and>
    helper_replace (env_peer (se_env senv)) 3 v4 v6 (gd_world (sv_guard s)) = (gd_world (sv_guard t), Inr r) \<and>
    n = card {ip \<in> client_blocked (cc_id cl) (env_clock (se_env senv) (gd_tick (sv_guard s) + 4)) d.
      \<forall>k \<in> set ns. \<not> net_covers k (addr_of ip)}"
  using assms(3)
proof (cases rule: do_POST_Inr)
  case (rejected cl raw u)
  have "db_ok (gd_db (sv_guard u))" using assms(2) rejected(2) by (simp add: guard_ok_def)
  from perform_write_outcome [OF assms(1) this rejected(3)] assms(4) show ?thesis by simp
next
  case (written cl raw u v x)
  let ?env = "se_env senv"
  have ok: "db_ok (gd_db (sv_guard u))" using assms(2) written(2) by (simp add: guard_ok_def)
  let ?k = "gd_tick (sv_guard s)"
  have "write_outcome senv cl (rq_path req) raw u v (Inr x)" using perform_write_outcome [OF assms(1) ok written(4)] by simp
  then obtain w where w: "write_valid w" "set (write_jails w) \<subseteq> set (cc_allowed_jails cl)"
      "run_write (env_sha ?env) (cc_id cl) (claims_cap senv) (env_clock ?env ?k) w (gd_db (sv_guard s)) = (gd_db (sv_guard v), Inr x)"
      "gd_world (sv_guard v) = gd_world (sv_guard s)" "gd_last_index (sv_guard v) = gd_last_index (sv_guard s)"
      "gd_tick (sv_guard v) = Suc ?k" "asked_write senv (rq_path req) raw w"
    using written(2) by (auto simp: write_outcome_def)
  have oks: "db_ok (gd_db (sv_guard s))" using assms(2) by (simp add: guard_ok_def)
  note view = run_write_view [OF oks w(1,3)]
  have gv: "guard_ok (sv_guard v)" using assms(2) view(4) w(5) by (simp add: guard_ok_def)
  note others = idle_others_ok [OF assms(1)]
  from written(5) show ?thesis
  proof (cases rule: finish_write_Inr)
    case (enforced g m n)
    note enforced = enforced [unfolded idle_locked [OF assms(1)]]
    have tick: "gd_tick g = ?k + 4" using enforced(1) w(6) by (auto elim!: enforce_success_cases)
    obtain ns v4 v6 r where run: "load_whitelist (env_fs ?env (gd_tick (sv_guard v) + 2)) (env_whitelist ?env) = Inr ns"
        "list_all network_ok ns"
        "set v4 = uncovered ns (blocked (seen_time ?env (sv_guard v)) (seen_db ?env (sv_guard v))) 4"
        "set v6 = uncovered ns (blocked (seen_time ?env (sv_guard v)) (seen_db ?env (sv_guard v))) 6"
        "helper_replace (env_peer ?env) 3 v4 v6 (gd_world (sv_guard v)) = (gd_world g, Inr r)"
        "gd_last_index g = Some (network_index_init ns)"
      using helper_success_run [OF gv others enforced(1)] by blast
    have gg: "guard_ok g" by (rule keepsD [OF enforce_keeps_ok [OF others] gv enforced(1)])
    have c1: "same_claims (gd_db (sv_guard v)) (gd_db g)"
      by (rule keepsD [OF enforce_keeps [OF unrelated_same [OF assms(1)]] _ enforced(1)]) simp
    have c2: "same_claims (gd_db (sv_guard v)) (gd_db (sv_guard t))"
      by (rule keepsD [OF count_keeps [OF unrelated_same [OF assms(1)]] c1 enforced(2)])
    note cnt = count_Inr [OF enforced(2)]
    have seen: "seen_db ?env g = gd_db g" "seen_db ?env (sv_guard v) = gd_db (sv_guard v)"
      by (simp_all add: seen_db_def idle_simp [OF assms(1)])
    have "snd (client_effective_count ?env (cc_id cl) g) = Inr n" using enforced(2) by simp
    then have n: "n = card {ip \<in> client_blocked (cc_id cl) (seen_time ?env g) (gd_db (sv_guard v)).
        \<forall>k \<in> set ns. \<not> net_covers k (addr_of ip)}"
      using client_count [OF gg others cnt(1) run(2), of "cc_id cl"] run(6) seen(1) same_claims_view [OF c1]
      by (simp add: Let_def split: if_splits)
    have at: "seen_time ?env g = env_clock ?env (?k + 4)" "seen_time ?env (sv_guard v) = env_clock ?env (?k + 1)"
      "gd_tick (sv_guard v) + 2 = ?k + 3"
      using tick w(6) by (simp_all add: seen_time_def)
    show ?thesis
      using run(1,3,4,5) n unfolding at seen
      using written(1,3) w(1-3,7) enforced(3) view(3) same_claims_view [OF c2] cnt(2) w(4)
      by (intro exI conjI) auto
  qed (use assms(4) in \<open>simp add: unenforced_reply_def\<close>)
qed (use assms(4) in simp)


lemma post_ok_means_enforced_witness:
  "\<exists>t x n. do_POST posting_env (sample_post ''/v1/events'') sample_server = (t, Inr (write_reply x n)) \<and>
     ar_accepted x"
proof -
  obtain t rep where run: "do_POST posting_env (sample_post ''/v1/events'') sample_server = (t, Inr rep)" "rp_status rep = 200"
    by (rule sample_post_runs)
  from post_ok_means_enforced [where senv = posting_env, OF posting_idle sample_server_ok run] obtain x n where
      "rep = write_reply x n" "ar_accepted x" by (elim exE conjE) (rule that)
  with run(1) show ?thesis by blast
qed

subsection \<open>Exceptions that escape\<close>

lemma enforce_raises:
  assumes "guard_ok s" "others_ok env" "enforce env s = (t, Inl e)"
  shows "e = SqliteError \<or> e = OverflowError \<or> (\<exists>m. e = EnforcementError m)"
  using enforce_fail [OF assms] by blast

lemma count_raises:
  assumes "guard_ok s" "others_ok env" "client_effective_count env c s = (t, Inl e)"
  shows "e = SqliteError \<or> (\<exists>m. e = EnforcementError m)"
proof (cases "env_fault env (gd_tick s)")
  case True
  then show ?thesis using assms(3) by (auto simp: client_effective_count_def sbind_def store_call_def Let_def)
next
  case False
  obtain ns where ns: "list_all network_ok ns" "gd_last_index s = None \<or> gd_last_index s = Some (network_index_init ns)"
    using assms(1) by (cases "gd_last_index s") (auto simp: guard_ok_def intro: that [of "[]"])
  have "snd (client_effective_count env c s) = Inl e" using assms(3) by simp
  then show ?thesis
    using client_count [OF assms(1,2) False ns, of c] by (auto simp: Let_def split: if_splits)
qed

lemma store_call_raises:
  assumes "others_ok env" "guard_ok s" "store_call env call s = (t, Inl e)"
    "\<And>now d d' e. db_ok d \<Longrightarrow> call now d = (d', Inl e) \<Longrightarrow> E e"
  shows "e = SqliteError \<or> E e"
proof -
  have "db_ok (env_others env (gd_tick s) (gd_db s))" using assms(1,2) by (simp add: others_ok_def guard_ok_def)
  with assms(3,4) show ?thesis by (auto simp: store_call_Inl)
qed

definition post_exn :: "exn \<Rightarrow> bool" where
  "post_exn e \<longleftrightarrow> e = OverflowError \<or> post_error e \<noteq> None"

lemma post_exn_intros [simp]:
  "post_exn OverflowError" "post_exn SqliteError" "post_exn (ValidationError m)" "post_exn (PermissionError m)"
  "store_exn e \<Longrightarrow> post_exn e" "validation_exn e \<Longrightarrow> post_exn e"
  by (cases e; auto simp: post_exn_def post_error_def store_exn_def validation_exn_def)+

lemma store_write_raises:
  assumes "others_ok (se_env senv)" "guard_ok (sv_guard s)" "write_valid w"
    "on_guard (store_call (se_env senv) (\<lambda>now. run_write sha c cap now w)) s = (u, Inl e)"
  shows "post_exn e"
proof -
  have E: "\<And>now d d' e'. db_ok d \<Longrightarrow> run_write sha c cap now w d = (d', Inl e') \<Longrightarrow> store_exn e'"
    using assms(3) apply_events_Inl(2) apply_snapshot_Inl(2) by (cases w) auto
  obtain g where "store_call (se_env senv) (\<lambda>now. run_write sha c cap now w) (sv_guard s) = (g, Inl e)"
    using assms(4) by (auto simp: on_guard_Inl)
  from store_call_raises [where E = store_exn, OF assms(1,2) this] E have "e = SqliteError \<or> store_exn e" by blast
  then show ?thesis by auto
qed

lemma checks_raise:
  "outer_object raw ks = Inl e \<Longrightarrow> post_exn e"
  "jails_allowed cl js = Inl e \<Longrightarrow> post_exn e"
  "validate_events fi v m = Inl e \<Longrightarrow> post_exn e"
  "validate_snapshot fi i q v m = Inl e \<Longrightarrow> post_exn e"
  by (auto simp: outer_object_def Let_def jails_allowed_def split: json.splits if_splits
      dest!: validate_events_raises validate_snapshot_raises)

lemma post_write_raises:
  assumes "others_ok (se_env senv)" "guard_ok (sv_guard s)"
    "post_events senv cl raw s = (u, Inl e) \<or> post_snapshot senv cl raw s = (u, Inl e)"
  shows "post_exn e"
  using assms(3)
proof
  assume "post_events senv cl raw s = (u, Inl e)"
  then consider b where "outer_object raw b = Inl e" | v m where "validate_events (se_iso senv) v m = Inl e"
    | js where "jails_allowed cl js = Inl e"
    | es v m where "validate_events (se_iso senv) v m = Inr es"
        "on_guard (store_call (se_env senv) (\<lambda>now. apply_events (env_sha (se_env senv)) (cc_id cl) es (claims_cap senv) now)) s = (u, Inl e)"
    by (auto simp: post_events_def Let_def sbind_def slift_def claims_cap_def split: sum.splits)
  then show ?thesis
  proof cases
    case 4
    then have "write_valid (EventWrite es)" by (auto simp: validate_events_iff)
    from store_write_raises [OF assms(1,2) this, unfolded run_write_eta] 4(2) show ?thesis by blast
  qed (auto intro: checks_raise)
next
  assume "post_snapshot senv cl raw s = (u, Inl e)"
  then consider b where "outer_object raw b = Inl e" | i q v m where "validate_snapshot (se_iso senv) i q v m = Inl e"
    | js where "jails_allowed cl js = Inl e"
    | sid seq cls i q v m where "validate_snapshot (se_iso senv) i q v m = Inr (sid, seq, cls)"
        "on_guard (store_call (se_env senv) (\<lambda>now. apply_snapshot (env_sha (se_env senv)) (cc_id cl) sid seq cls (claims_cap senv) now)) s = (u, Inl e)"
    by (auto simp: post_snapshot_def Let_def sbind_def slift_def claims_cap_def split: sum.splits prod.splits)
  then show ?thesis
  proof cases
    case 4
    then have "write_valid (SnapshotWrite sid seq cls)" by (auto simp: validate_snapshot_iff seq_field_iff)
    from store_write_raises [OF assms(1,2) this, unfolded run_write_eta] 4(2) show ?thesis by blast
  qed (auto intro: checks_raise)
qed

lemma perform_write_raises:
  assumes "others_ok (se_env senv)" "guard_ok (sv_guard s)" "perform_write senv cl path raw s = (u, Inl e)"
  shows "e = OverflowError"
proof -
  have "post_error e = None \<and> (post_events senv cl raw s = (u, Inl e) \<or> post_snapshot senv cl raw s = (u, Inl e))"
    using assms(3)
    by (auto simp: perform_write_def scatch_def sbind_def sret_def slift_def split: if_splits sum.splits prod.splits option.splits)
  moreover from this have "post_exn e" using post_write_raises [OF assms(1,2)] by blast
  ultimately show ?thesis by (simp add: post_exn_def)
qed

lemma finish_write_raises:
  assumes "others_ok (se_env senv)" "guard_ok (sv_guard s)" "finish_write senv cl x s = (t, Inl e)"
  shows "e = OverflowError"
proof -
  let ?g = "env_threads (se_env senv) (gd_tick (sv_guard s)) (sv_guard s)"
  have gs: "guard_ok ?g" using assms(1,2) by (simp add: others_ok_def)
  obtain u r where run: "enforce (se_env senv) ?g = (u, r)" by fastforce
  have gu: "guard_ok u" by (rule keepsD [OF enforce_keeps_ok [OF assms(1)] gs run])
  show ?thesis
  proof (cases r)
    case (Inl e')
    with enforce_raises [OF gs assms(1) run [unfolded Inl]] assms(3) run show ?thesis
      by (auto simp: finish_write_def scatch_def sbind_def on_guard_def locked_def sret_def slift_def)
  next
    case (Inr m)
    let ?u = "env_threads (se_env senv) (gd_tick u) u"
    have gu': "guard_ok ?u" using assms(1) gu by (simp add: others_ok_def)
    obtain v k where c: "client_effective_count (se_env senv) (cc_id cl) ?u = (v, k)" by fastforce
    with Inr run assms(3) count_raises [OF gu' assms(1), of "cc_id cl" v] show ?thesis
      by (cases k) (auto simp: finish_write_def scatch_def sbind_def on_guard_def locked_def sret_def slift_def)
  qed
qed

lemma strict_loads_raises:
  assumes "strict_json_loads scan data = Inl e" "config_error e = None"
  shows "rbind (scan data) (decode_raw duplicate_key reject_constant) = Inl e"
proof (cases "rbind (scan data) (decode_raw duplicate_key reject_constant)")
  case (Inl x)
  with assms show ?thesis by (cases x) (auto simp: strict_json_loads_def)
qed (use assms in \<open>simp add: strict_json_loads_def\<close>)

lemma request_body_raises:
  assumes "request_body senv req = Inl e"
  shows "rq_end req = Some e \<or> (\<exists>data. rbind (se_scan senv data) (decode_raw duplicate_key reject_constant) = Inl e)"
proof -
  have "(\<exists>n. read_exactly req n = Inl e) \<or> (\<exists>data. strict_json_loads (se_scan senv) data = Inl e \<and> config_error e = None)"
    using assms by (auto simp: request_body_def rbind_eq_Inl split: if_splits sum.splits option.splits)
  with strict_loads_raises show ?thesis by (auto simp: read_exactly_def split: if_splits option.splits)
qed

text \<open>
  Apart from a failing connection and text that the JSON scanner itself rejects with something
  other than a decode error, the only exception that escapes a POST handler, leaving the client without
  an answer, is \<open>OverflowError\<close>: every validation error, conflict, limit, database and enforcement
  failure is answered.
\<close>

theorem post_escapes:
  assumes "others_ok (se_env senv)" "guard_ok (sv_guard s)" "do_POST senv req s = (t, Inl e)"
  shows "e = OverflowError \<or> rq_cert req = Inl e \<or> rq_end req = Some e \<or>
    (\<exists>data. rbind (se_scan senv data) (decode_raw duplicate_key reject_constant) = Inl e)"
proof -
  obtain u a where a: "authorize senv req s = (u, a)" by fastforce
  have gu: "guard_ok (sv_guard u)" using authorize_guard [OF a] assms(2) by simp
  show ?thesis
  proof (cases a)
    case (Inl e')
    then have "client_of senv req = Inl e" "e' = e"
      using assms(3) a
      by (auto simp: do_POST_def sbind_def authorize_cases split: sum.splits option.splits prod.splits)
    then have "rq_cert req = Inl e"
      by (auto simp: client_of_def certificate_fingerprint_def rbind_def split: sum.splits if_splits option.splits)
    then show ?thesis by simp
  next
    case (Inr b)
    then obtain cl where cl: "a = Inr (Inr cl)"
      using assms(3) a by (cases b) (auto simp: do_POST_def sbind_def sret_def)
    show ?thesis
    proof (cases "request_body senv req")
      case (Inl e')
      with assms(3) a cl have "request_body senv req = Inl e" by (auto simp: do_POST_def sbind_def slift_def)
      from request_body_raises [OF this] show ?thesis by blast
    next
      case (Inr b)
      then obtain raw where raw: "request_body senv req = Inr (Inr raw)"
        using assms(3) a cl by (cases b) (auto simp: do_POST_def sbind_def sret_def slift_def)
      obtain v res where w: "perform_write senv cl (rq_path req) raw u = (v, res)" by fastforce
      have gv: "guard_ok (sv_guard v)" by (rule keepsD [OF perform_write_keeps_ok [OF assms(1)] gu w])
      show ?thesis
      proof (cases res)
        case (Inl e')
        with assms(3) a cl raw w have "e' = e" by (auto simp: do_POST_def sbind_def slift_def)
        with perform_write_raises [OF assms(1) gu w [unfolded Inl]] show ?thesis by simp
      next
        case (Inr out)
        with assms(3) a cl raw w obtain x where "finish_write senv cl x v = (t, Inl e)"
          by (cases out) (auto simp: do_POST_def sbind_def sret_def slift_def)
        from finish_write_raises [OF assms(1) gv this] show ?thesis by simp
      qed
    qed
  qed
qed

lemma post_escapes_witness:
  "snd (do_POST (posting_env\<lparr>se_scan := (\<lambda>_. Inl ValueError)\<rparr>) (sample_post ''/v1/events'') sample_server) = Inl ValueError \<and>
   rq_cert (sample_post ''/v1/events'') \<noteq> Inl ValueError"
proof -
  let ?senv = "posting_env\<lparr>se_scan := (\<lambda>_. Inl ValueError)\<rparr>"
  have v: "snd (do_POST ?senv (sample_post ''/v1/events'') sample_server) = Inl ValueError" by code_simp
  obtain t r where run: "do_POST ?senv (sample_post ''/v1/events'') sample_server = (t, r)" by fastforce
  have "others_ok (se_env ?senv)" using idle_others_ok [OF posting_idle] by simp
  from post_escapes [OF this sample_server_ok, of "sample_post ''/v1/events''" t ValueError] run v
  show ?thesis by (simp add: sample_post_def)
qed

subsection \<open>The periodic thread\<close>

text \<open>
  A pass that ends with or without a caught exception: a whole run of the enforcer, and after a run that
  returned the removal of the history that has expired, unless the database fails.
\<close>

definition pass_done :: "'w server_env \<Rightarrow> 'w server \<Rightarrow> 'w server \<Rightarrow> bool" where
  "pass_done senv s t \<longleftrightarrow> (\<exists>g r. locked (se_env senv) (enforce (se_env senv)) (sv_guard s) = (g, r) \<and> sv_rate t = sv_rate s \<and>
     (case r of
        Inl e \<Rightarrow> sv_guard t = g \<and> (e = SqliteError \<or> (\<exists>m. e = EnforcementError m))
      | Inr n \<Rightarrow> sv_guard t = g\<lparr>gd_tick := Suc (gd_tick g), gd_db :=
          (let d = env_others (se_env senv) (gd_tick g) (gd_db g) in
           if env_fault (se_env senv) (gd_tick g) then d
           else fst (prune_history (nat (cf_history_days (se_config senv))) (env_clock (se_env senv) (gd_tick g)) d))\<rparr>))"

lemma periodic_once_cases:
  assumes "others_ok (se_env senv)" "guard_ok (sv_guard s)" "periodic_once senv s = (t, r)"
  obtains "r = Inr ()" "pass_done senv s t"
    | "r = Inl OverflowError" "overflowing_reply (se_env senv) (env_threads (se_env senv) (gd_tick (sv_guard s)) (sv_guard s)) (sv_guard t)"
proof -
  let ?env = "se_env senv"
  let ?g = "env_threads ?env (gd_tick (sv_guard s)) (sv_guard s)"
  have gs: "guard_ok ?g" using assms(1,2) by (simp add: others_ok_def)
  obtain u q where run: "locked ?env (enforce ?env) (sv_guard s) = (u, q)" by fastforce
  then have enf: "enforce ?env ?g = (u, q)" by (simp add: locked_def)
  show thesis
  proof (cases q)
    case (Inl e)
    with run assms(3) have t: "t = s\<lparr>sv_guard := u\<rparr>" "r = (if periodic_exn e then Inr () else Inl e)"
      by (simp_all add: periodic_once_def scatch_def sbind_def on_guard_def sret_def slift_def split: if_splits)
    from enforce_fail [OF gs assms(1) enf [unfolded Inl]] consider "e = OverflowError" "overflowing_reply ?env ?g u"
      | "e = SqliteError \<or> (\<exists>m. e = EnforcementError m)" by blast
    then show thesis
    proof cases
      case 1
      with t show thesis by (intro that(2)) simp_all
    next
      case 2
      then have "periodic_exn e" by auto
      moreover have "pass_done senv s t" unfolding pass_done_def using run Inl t(1) 2 by (intro exI [of _ u] exI [of _ q]) simp
      ultimately show thesis using t(2) by (intro that(1)) simp_all
    qed
  next
    case (Inr m)
    with run assms(3) have "r = Inr ()" "sv_rate t = sv_rate s" "sv_guard t = u\<lparr>gd_tick := Suc (gd_tick u), gd_db :=
          (let d = env_others ?env (gd_tick u) (gd_db u) in
           if env_fault ?env (gd_tick u) then d
           else fst (prune_history (nat (cf_history_days (se_config senv))) (env_clock ?env (gd_tick u)) d))\<rparr>"
      by (auto simp: periodic_once_def scatch_def sbind_def on_guard_def sret_def slift_def store_call_def Let_def
          split: if_splits prod.splits sum.splits)
    moreover from this(2,3) have "pass_done senv s t"
      unfolding pass_done_def using run Inr by (intro exI [of _ u] exI [of _ q]) simp
    ultimately show thesis by (intro that(1)) simp_all
  qed
qed

text \<open>The flags in the order in which the loop reads them.\<close>

definition read_flags :: "(bool \<times> bool) list \<Rightarrow> bool list" where
  "read_flags flags = concat (map (\<lambda>(is_set, waited). [is_set, waited]) flags)"

text \<open>
  C25. The periodic enforcement keeps running: the loop makes pass after pass, reads the stop event before
  and after each one, and ends exactly when it reads it as set; no failure of the
  database, the whitelist, or the helper ends it. Every pass runs the enforcer and then prunes the
  history, unless the enforcement failed. The one exception is \<open>OverflowError\<close>, which ends the loop when
  the helper answers a pass with a number beyond 64 bits.
\<close>

theorem periodic_survives:
  assumes "others_ok (se_env senv)" "guard_ok (sv_guard s)" "periodic senv flags s = (t, r)"
  shows "(r = Inr (True \<in> set (read_flags flags)) \<and>
      (pass_done senv ^^ ((length (takeWhile Not (read_flags flags)) + 1) div 2)) s t) \<or>
    (r = Inl OverflowError \<and> (\<exists>k u. k < (length (takeWhile Not (read_flags flags)) + 1) div 2 \<and> (pass_done senv ^^ k) s u \<and>
       overflowing_reply (se_env senv) (env_threads (se_env senv) (gd_tick (sv_guard u)) (sv_guard u)) (sv_guard t)))"
  using assms(2,3)
proof (induction flags arbitrary: s)
  case (Cons f flags)
  obtain is_set waited where f: "f = (is_set, waited)" by fastforce
  show ?case
  proof (cases is_set)
    case True
    with f Cons.prems(2) show ?thesis by (simp add: read_flags_def)
  next
    case False
    obtain u q where q: "periodic_once senv s = (u, q)" by fastforce
    from assms(1) Cons.prems(1) q show ?thesis
    proof (cases rule: periodic_once_cases)
      case 2
      with q f False Cons.prems(2) have "r = Inl OverflowError" "t = u" by simp_all
      with 2(2) f False show ?thesis
        by (intro disjI2 conjI exI [of _ "0 :: nat"] exI [of _ s]) (auto simp: read_flags_def)
    next
      case 1
      have gu: "guard_ok (sv_guard u)" by (rule keepsD [OF periodic_once_keeps_ok [OF assms(1)] Cons.prems(1) q])
      show ?thesis
      proof (cases waited)
        case True
        with q 1 f False Cons.prems(2) show ?thesis by (auto simp: read_flags_def relcompp_apply)
      next
        case w: False
        with q 1(1) f False Cons.prems(2) have rest: "periodic senv flags u = (t, r)" by simp
        have flags: "read_flags (f # flags) = False # False # read_flags flags" using f w False by (simp add: read_flags_def)
        let ?k = "(length (takeWhile Not (read_flags flags)) + 1) div 2"
        have k: "(length (takeWhile Not (read_flags (f # flags))) + 1) div 2 = Suc ?k" by (simp add: flags)
        note step = relpowp_Suc_I2 [of "pass_done senv" s u, OF 1(2)]
        from Cons.IH [OF gu rest] show ?thesis
        proof (elim disjE conjE exE)
          assume "r = Inr (True \<in> set (read_flags flags))" "(pass_done senv ^^ ?k) u t"
          then show ?thesis unfolding k using step by (auto simp: flags)
        next
          fix i v
          assume "r = Inl OverflowError" "i < ?k" "(pass_done senv ^^ i) u v"
            "overflowing_reply (se_env senv) (env_threads (se_env senv) (gd_tick (sv_guard v)) (sv_guard v)) (sv_guard t)"
          then show ?thesis unfolding k using step by (intro disjI2 conjI exI [of _ "Suc i"] exI [of _ v]) auto
        qed
      qed
    qed
  qed
qed (simp add: read_flags_def)

lemma periodic_survives_witness:
  "\<exists>t. periodic posting_env [(False, False), (False, True)] sample_server = (t, Inr True) \<and>
     (pass_done posting_env ^^ 2) sample_server t"
proof -
  obtain t r where run: "periodic posting_env [(False, False), (False, True)] sample_server = (t, r)" by fastforce
  have "snd (periodic posting_env [(False, False), (False, True)] sample_server) = Inr True" by code_simp
  with run have r: "r = Inr True" by simp
  with periodic_survives [OF idle_others_ok [OF posting_idle] sample_server_ok run]
  have "(pass_done posting_env ^^ ((length (takeWhile Not (read_flags [(False, False), (False, True)])) + 1) div 2)) sample_server t"
    by (elim disjE conjE) simp_all
  moreover have "(length (takeWhile Not (read_flags [(False, False), (False, True)])) + 1) div 2 = 2"
    by (simp add: read_flags_def)
  ultimately have "(pass_done posting_env ^^ 2) sample_server t" by (simp only:)
  with run r show ?thesis by blast
qed

end
