(* ===== verification/Helper.thy ===== *)
theory Helper
  imports TrustedFile Json
begin

text \<open>
  \<^verbatim>\<open>src/f2bguard/pf_helper.py\<close>: the privileged updater of the two PF tables. It parses one
  request, reads the trusted whitelist, shows both tables, replaces both, and rolls back when a
  replacement fails; \<open>handle\<close> wraps this for one connection.

  The world of type \<open>'w\<close> is whatever \<open>subprocess.run\<close> acts on; the runner takes the argument
  vector and the standard input and returns the exit code and the standard output, or raises. The
  bytes of a request reach the model as the result of the JSON scanner (\<open>scan\<close>).
\<close>

definition max_message :: nat where "max_message = 4 * 1024 * 1024"
definition max_addresses :: nat where "max_addresses = 100000"

text \<open>\<open>TABLES\<close>, in insertion order.\<close>

definition pf_tables :: "(nat \<times> pystr) list" where
  "pf_tables = [(4, ''f2bguard_v4''), (6, ''f2bguard_v6'')]"

definition table_name :: "nat \<Rightarrow> pystr" where
  "table_name version = the (map_of pf_tables version)"

definition secure_read :: "fs \<Rightarrow> pystr \<Rightarrow> nat \<Rightarrow> pystr result" where
  "secure_read fs path owner =
     (if \<not> is_absolute path then Inl (HelperError ''whitelist path must be absolute'')
      else rbind (check_parents fs owner (HelperError ''unsafe whitelist parent directory'') (parents_from_root path)) (\<lambda>_.
        rbind (fs_open fs (path_str path)) (\<lambda>(info, content).
          if \<not> trusted_regular owner info then Inl (HelperError ''unsafe whitelist file'')
          else if max_message < fi_size info then Inl (HelperError ''whitelist exceeds size limit'')
          else rbind (decode_ascii content) (\<lambda>text. Inr (take (max_message + 1) (universal_newlines text))))))"

definition helper_parse_whitelist :: "pystr \<Rightarrow> ip_network list result" where
  "helper_parse_whitelist text =
     whitelist_loop (HelperError ''scoped addresses not allowed'') (HelperError ''invalid whitelist entry'')
       (HelperError ''too many whitelist entries'') max_addresses (py_splitlines text) []"

subsection \<open>Requests\<close>

text \<open>The loop body over the values of one family, with the set of addresses so far.\<close>

definition request_address :: "nat \<Rightarrow> json \<Rightarrow> ip_addr result" where
  "request_address version v =
     (case v of
        JStr s \<Rightarrow>
          if CHR ''%'' \<in> set s then Inl (HelperError ''invalid IP literal'')
          else (case ip_address s of
             Inl _ \<Rightarrow> Inl (HelperError ''invalid IP literal'')
           | Inr a \<Rightarrow>
               if ip_version a \<noteq> version \<or> compressed a \<noteq> s
               then Inl (HelperError ''noncanonical or wrong-family IP'')
               else if is_protected a then Inl (HelperError ''protected special-purpose IP'')
               else Inr a)
      | _ \<Rightarrow> Inl (HelperError ''invalid IP literal''))"

definition family_values :: "(pystr \<times> json) list \<Rightarrow> pystr \<Rightarrow> json list result" where
  "family_values req field =
     (case map_of req field of
        None \<Rightarrow> Inl KeyError
      | Some (JArr vs) \<Rightarrow> Inr vs
      | Some _ \<Rightarrow> Inl (HelperError ''addresses must be arrays''))"

text \<open>\<open>sorted(addresses)\<close> of the set of the family's addresses.\<close>

definition sorted_addresses :: "ip_addr list \<Rightarrow> ip_addr list" where
  "sorted_addresses as = sort_key ip_int (remdups as)"

definition parse_request :: "json \<Rightarrow> (ip_addr list \<times> ip_addr list) result" where
  "parse_request request =
     (let unsupported = HelperError ''only fixed-table replacement is supported'' in
      case request of
        JObj req \<Rightarrow>
          if set (jkeys req) \<noteq> {''op'', ''ipv4'', ''ipv6''} \<or> map_of req ''op'' \<noteq> Some (JStr ''replace'')
          then Inl unsupported
          else
            rbind (family_values req ''ipv4'') (\<lambda>values4.
            if max_addresses < length values4 then Inl (HelperError ''too many addresses'')
            else rbind (rmap (request_address 4) values4) (\<lambda>as4.
            rbind (family_values req ''ipv6'') (\<lambda>values6.
            if max_addresses < length values4 + length values6 then Inl (HelperError ''too many addresses'')
            else rbind (rmap (request_address 6) values6) (\<lambda>as6.
              Inr (sorted_addresses as4, sorted_addresses as6)))))
      | _ \<Rightarrow> Inl unsupported)"

subsection \<open>PF commands\<close>

type_synonym 'w runner = "pystr list \<Rightarrow> pystr option \<Rightarrow> ('w, nat \<times> pystr) action"

definition pf_argv :: "nat \<Rightarrow> pystr \<Rightarrow> bool \<Rightarrow> pystr list" where
  "pf_argv version verb with_stdin =
     [''/sbin/pfctl'', ''-t'', table_name version, ''-T'', verb] @ (if with_stdin then [''-f'', ''-''] else [])"

definition command :: "'w runner \<Rightarrow> nat \<Rightarrow> pystr \<Rightarrow> pystr list option \<Rightarrow> ('w, pystr) action" where
  "command run version verb vals =
     (let argv = pf_argv version verb (vals \<noteq> None);
          stdin = map_option (\<lambda>vs. concat (map (\<lambda>v. v @ [CHR 0x0A]) vs)) vals in
      sbind (run argv stdin) (\<lambda>(returncode, stdout).
        if returncode \<noteq> 0 then slift (Inl (HelperError ''PF table operation failed'')) else sret stdout))"

text \<open>One family's current entries, as networks of full prefix length.\<close>

fun parse_table :: "nat \<Rightarrow> pystr list \<Rightarrow> ip_network list result" where
  "parse_table version [] = Inr []"
| "parse_table version (line # lines) =
     (let v = py_strip line in
      if v = '''' then parse_table version lines
      else rbind (ip_network_of_text True v) (\<lambda>n.
        if net_version n \<noteq> version \<or> prefixlen n \<noteq> max_prefixlen (network_address n)
        then Inl (HelperError ''existing table contains a non-host entry'')
        else rbind (parse_table version lines) (\<lambda>ns. Inr (n # ns))))"

definition show_table :: "'w runner \<Rightarrow> nat \<Rightarrow> ('w, ip_network list) action" where
  "show_table run version =
     sbind (command run version ''show'' None) (\<lambda>out. slift (parse_table version (py_splitlines out)))"

record helper_response =
  hr_applied_ipv4 :: nat
  hr_applied_ipv6 :: nat
  hr_digest :: pystr

definition outside :: "network_index \<Rightarrow> ip_addr list \<Rightarrow> ip_addr list" where
  "outside whitelist as = filter (\<lambda>a. \<not> index_contains whitelist a) as"

definition safe_entries :: "network_index \<Rightarrow> ip_network list \<Rightarrow> ip_network list" where
  "safe_entries whitelist ns = filter (\<lambda>n. \<not> index_contains whitelist (network_address n)) ns"

text \<open>The rollback of one family: any exception only sets the flag.\<close>

definition restore_table :: "'w runner \<Rightarrow> network_index \<Rightarrow> nat \<Rightarrow> ip_network list \<Rightarrow> ('w, bool) action" where
  "restore_table run whitelist version previous =
     scatch (sbind (command run version ''replace'' (Some (map network_str (safe_entries whitelist previous))))
              (\<lambda>_. sret False))
       (\<lambda>_. sret True)"

definition rollback ::
  "'w runner \<Rightarrow> network_index \<Rightarrow> ip_network list \<Rightarrow> ip_network list \<Rightarrow> ('w, helper_response) action" where
  "rollback run whitelist previous4 previous6 =
     sbind (restore_table run whitelist 4 previous4) (\<lambda>failed4.
     sbind (restore_table run whitelist 6 previous6) (\<lambda>failed6.
       slift (Inl (HelperError (''PF replacement failed; rollback '' @
         (if failed4 \<or> failed6 then ''failed'' else ''completed''))))))"

definition rendered :: "ip_addr list \<Rightarrow> ip_addr list \<Rightarrow> pystr" where
  "rendered as4 as6 = py_join [CHR 0x0A] (map compressed (as4 @ as6))"

definition replace_tables ::
  "'w runner \<Rightarrow> (pystr \<Rightarrow> pystr) \<Rightarrow> pystr result \<Rightarrow> json \<Rightarrow> ('w, helper_response) action" where
  "replace_tables run sha whitelist_text request =
     sbind (slift (parse_request request)) (\<lambda>(requested4, requested6).
     sbind (slift (rbind whitelist_text helper_parse_whitelist)) (\<lambda>networks.
     let whitelist = network_index_init networks;
         effective4 = outside whitelist requested4; effective6 = outside whitelist requested6 in
     sbind (show_table run 4) (\<lambda>previous4.
     sbind (show_table run 6) (\<lambda>previous6.
     scatch
       (sbind (command run 4 ''replace'' (Some (map compressed effective4))) (\<lambda>_.
        sbind (command run 6 ''replace'' (Some (map compressed effective6))) (\<lambda>_.
          sret \<lparr>hr_applied_ipv4 = length effective4, hr_applied_ipv6 = length effective6,
                hr_digest = sha (rendered effective4 effective6)\<rparr>)))
       (\<lambda>_. rollback run whitelist previous4 previous6)))))"

subsection \<open>One connection\<close>

text \<open>\<open>json.loads(data, object_pairs_hook=no_duplicate_keys)\<close>; the constants are accepted here.\<close>

definition no_duplicate_keys :: "(pystr \<times> json) list \<Rightarrow> (pystr \<times> json) list result" where
  "no_duplicate_keys = unique_object (\<lambda>_. HelperError ''duplicate JSON key'') []"

definition json_constant :: "pystr \<Rightarrow> json result" where
  "json_constant c =
     Inr (JFloat (if c = ''Infinity'' then PosInf else if c = ''-Infinity'' then NegInf else NaN))"

definition helper_loads :: "(pystr \<Rightarrow> jraw result) \<Rightarrow> pystr \<Rightarrow> json result" where
  "helper_loads scan data =
     rbind (scan data) (decode_raw (\<lambda>_. HelperError ''duplicate JSON key'') json_constant)"

text \<open>\<open>stream.readline(limit)\<close> on the bytes the peer sent before it closed or a newline came.\<close>

fun readline :: "nat \<Rightarrow> pystr \<Rightarrow> pystr" where
  "readline n [] = []"
| "readline n (c # s) =
     (if n = 0 then [] else if c = CHR 0x0A then [c] else c # readline (n - 1) s)"

definition ok_response :: "helper_response \<Rightarrow> json" where
  "ok_response r = JObj [(''ok'', JBool True), (''applied_ipv4'', JInt (int (hr_applied_ipv4 r))),
     (''applied_ipv6'', JInt (int (hr_applied_ipv6 r))), (''digest'', JStr (hr_digest r))]"

definition error_response :: "exn \<Rightarrow> json" where
  "error_response e = JObj [(''ok'', JBool False),
     (''error'', JStr (case e of HelperError m \<Rightarrow> m | _ \<Rightarrow> ''invalid request or enforcement failure''))]"

text \<open>
  \<open>handle\<close>: \<open>peer\<close> is what \<open>peer_uid\<close> returns, \<open>sent\<close> what the peer sent before it stopped, or the
  exception of the read. The result is the line that \<open>sendall\<close> puts on the socket.
\<close>

definition handle_request ::
  "'w runner \<Rightarrow> (pystr \<Rightarrow> pystr) \<Rightarrow> (pystr \<Rightarrow> jraw result) \<Rightarrow> pystr result \<Rightarrow> nat result \<Rightarrow> nat \<Rightarrow>
   pystr result \<Rightarrow> ('w, json) action" where
  "handle_request run sha scan whitelist_text peer allowed_uid sent =
     sbind (slift peer) (\<lambda>uid.
     if uid \<noteq> allowed_uid then slift (Inl (HelperError ''unauthorized peer''))
     else sbind (slift sent) (\<lambda>stream.
       let data = readline (max_message + 1) stream in
       if max_message < length data \<or> \<not> ends_with [CHR 0x0A] data
       then slift (Inl (HelperError ''invalid message length''))
       else sbind (slift (helper_loads scan data)) (\<lambda>request.
         sbind (replace_tables run sha whitelist_text request) (\<lambda>r. sret (ok_response r)))))"

definition handle ::
  "'w runner \<Rightarrow> (pystr \<Rightarrow> pystr) \<Rightarrow> (pystr \<Rightarrow> jraw result) \<Rightarrow> pystr result \<Rightarrow> nat result \<Rightarrow> nat \<Rightarrow>
   pystr result \<Rightarrow> 'w \<Rightarrow> 'w \<times> pystr" where
  "handle run sha scan whitelist_text peer allowed_uid sent w =
     (case handle_request run sha scan whitelist_text peer allowed_uid sent w of
        (u, Inl e) \<Rightarrow> (u, json_dumps False (error_response e) @ [CHR 0x0A])
      | (u, Inr response) \<Rightarrow> (u, json_dumps False response @ [CHR 0x0A]))"

end
