(* ===== verification/HelperContract.thy ===== *)
theory HelperContract
  imports Helper
begin

text \<open>
  What the PF helper promises: which requests it accepts, what the two tables hold after each
  outcome, and which commands it ever runs. \<open>pfctl_ok\<close> states the documented behaviour of
  \<open>pfctl -T show\<close> and \<open>pfctl -T replace -f -\<close> on which the statements about the tables rest; a
  replacement that fails or times out may have taken effect or not.
\<close>

subsection \<open>Requests\<close>

lemma request_address_iff:
  "request_address version v = Inr a \<longleftrightarrow>
     (\<exists>s. v = JStr s \<and> claimable_ip s \<and> addr_of s = a \<and> ip_version a = version)"
  by (cases v) (auto simp: request_address_def claimable_ip_iff addr_of_def split: sum.splits)

definition plain :: "ip_addr \<Rightarrow> bool" where
  "plain a = (\<exists>n. a = IPv4Address n \<or> a = IPv6Address n None)"

definition address_ok :: "nat \<Rightarrow> ip_addr \<Rightarrow> bool" where
  "address_ok version a = (valid_addr a \<and> plain a \<and> ip_version a = version \<and> \<not> is_protected a)"

lemma claimable_address_ok: "claimable_ip s \<Longrightarrow> address_ok (addr_version s) (addr_of s)"
  using claimable_addr [of s] addr_version_of [of s] ip_address_valid [of s "addr_of s"]
    ip_address_no_scope [of s "addr_of s"]
  by (auto simp: address_ok_def plain_def claimable_ip_iff)

lemma address_ok_claimable: "address_ok version a \<Longrightarrow> claimable_ip (compressed a) \<and> addr_of (compressed a) = a"
  using compressed_no_percent [of a]
  by (auto simp: address_ok_def plain_def claimable_ip_iff ip_address_compressed addr_of_def)

lemma ip_int_inj: "plain a \<Longrightarrow> plain b \<Longrightarrow> ip_version a = ip_version b \<Longrightarrow> ip_int a = ip_int b \<Longrightarrow> a = b"
  by (auto simp: plain_def)

lemma sorted_addresses_spec:
  assumes "list_all (address_ok version) as"
  shows "set (sorted_addresses as) = set as" "sorted_wrt (<) (map ip_int (sorted_addresses as))"
    "list_all (address_ok version) (sorted_addresses as)" "distinct (sorted_addresses as)"
proof -
  have "inj_on ip_int (set as)"
    using assms by (auto simp: inj_on_def list_all_iff address_ok_def intro: ip_int_inj)
  then have "distinct (map ip_int (sorted_addresses as))"
    by (simp add: sorted_addresses_def distinct_map)
  then show "sorted_wrt (<) (map ip_int (sorted_addresses as))"
    by (simp add: strict_sorted_iff sorted_addresses_def)
qed (use assms in \<open>simp_all add: sorted_addresses_def list_all_iff\<close>)

lemma rmap_request_address:
  "rmap (request_address version) vs = Inr as \<longleftrightarrow>
     (\<exists>ss. vs = map JStr ss \<and> as = map addr_of ss \<and>
       (\<forall>s \<in> set ss. claimable_ip s \<and> addr_version s = version))"
proof (induction vs arbitrary: as)
  case (Cons v vs)
  have "rmap (request_address version) (v # vs) = Inr as \<longleftrightarrow>
      (\<exists>a bs. as = a # bs \<and> request_address version v = Inr a \<and> rmap (request_address version) vs = Inr bs)"
    by (auto simp: result_simps)
  also have "\<dots> \<longleftrightarrow> (\<exists>s ss. v # vs = map JStr (s # ss) \<and> as = map addr_of (s # ss) \<and>
      (\<forall>x \<in> set (s # ss). claimable_ip x \<and> addr_version x = version))"
    unfolding request_address_iff Cons using addr_version_of by fastforce
  also have "\<dots> \<longleftrightarrow> (\<exists>ss. v # vs = map JStr ss \<and> as = map addr_of ss \<and>
      (\<forall>x \<in> set ss. claimable_ip x \<and> addr_version x = version))"
    by (metis list.distinct(1) list.exhaust list.simps(8))
  finally show ?case .
qed auto

lemma rmap_address_ok:
  "rmap (request_address version) vs = Inr as \<Longrightarrow> list_all (address_ok version) as"
  unfolding rmap_request_address using claimable_address_ok by (force simp: list_all_iff)

text \<open>A request that is accepted names two arrays of claimable literals, one per family.\<close>

lemma parse_request_iff:
  "parse_request request = Inr (as4, as6) \<longleftrightarrow>
     (\<exists>req ss4 ss6. request = JObj req \<and> set (jkeys req) = {''op'', ''ipv4'', ''ipv6''} \<and>
        map_of req ''op'' = Some (JStr ''replace'') \<and>
        map_of req ''ipv4'' = Some (JArr (map JStr ss4)) \<and> map_of req ''ipv6'' = Some (JArr (map JStr ss6)) \<and>
        (\<forall>s \<in> set ss4. claimable_ip s \<and> addr_version s = 4) \<and>
        (\<forall>s \<in> set ss6. claimable_ip s \<and> addr_version s = 6) \<and>
        length ss4 + length ss6 \<le> max_addresses \<and>
        as4 = sorted_addresses (map addr_of ss4) \<and> as6 = sorted_addresses (map addr_of ss6))"
proof (cases request)
  case (JObj req)
  have fam: "family_values req f = Inr vs \<longleftrightarrow> map_of req f = Some (JArr vs)" for f vs
    by (auto simp: family_values_def split: option.splits json.splits)
  show ?thesis
    unfolding JObj parse_request_def Let_def json.case
    by (fastforce simp: result_simps fam rmap_request_address split: if_splits)
qed (simp_all add: parse_request_def)

lemma parse_request_ok:
  assumes "parse_request request = Inr (as4, as6)"
  shows "list_all (address_ok 4) as4" "list_all (address_ok 6) as6" "distinct as4" "distinct as6"
proof -
  obtain ss4 ss6 where ss: "\<forall>s \<in> set ss4. claimable_ip s \<and> addr_version s = 4"
      "\<forall>s \<in> set ss6. claimable_ip s \<and> addr_version s = 6"
      "as4 = sorted_addresses (map addr_of ss4)" "as6 = sorted_addresses (map addr_of ss6)"
    using assms unfolding parse_request_iff by blast
  have "list_all (address_ok 4) (map addr_of ss4)" "list_all (address_ok 6) (map addr_of ss6)"
    using ss(1,2) claimable_address_ok by (force simp: list_all_iff)+
  then show "list_all (address_ok 4) as4" "list_all (address_ok 6) as6" "distinct as4" "distinct as6"
    unfolding ss by (auto intro: sorted_addresses_spec)
qed

subsection \<open>The text of a table\<close>

text \<open>The networks that a text of one entry per line denotes.\<close>

definition entries :: "pystr \<Rightarrow> ip_network set" where
  "entries text = {n. \<exists>l \<in> set (py_splitlines text). ip_network_of_text True (py_strip l) = Inr n}"

definition lines_text :: "pystr list \<Rightarrow> pystr" where
  "lines_text vs = concat (map (\<lambda>v. v @ [CHR 0x0A]) vs)"

lemma hex_not_blank: "is_hex c \<Longrightarrow> \<not> is_space c \<and> \<not> is_linebreak c"
  by (auto simp: is_hex_def digit_val_def is_space_def is_linebreak_def is_dec_def Let_def split: if_splits)

lemma address_chars:
  assumes "plain a" "c \<in> set (compressed a)"
  shows "\<not> is_space c \<and> \<not> is_linebreak c"
proof -
  have "is_hex c \<or> c = CHR ''.'' \<or> c = CHR '':''"
    using compressed_chars [OF assms(2)] assms(1) by (auto simp: plain_def)
  moreover have "\<not> is_space (CHR ''.'') \<and> \<not> is_linebreak (CHR ''.'')"
      "\<not> is_space (CHR '':'') \<and> \<not> is_linebreak (CHR '':'')"
    by (simp_all add: is_space_def is_linebreak_def code_def)
  ultimately show ?thesis using hex_not_blank by blast
qed

lemma dec_is_hex: "is_dec c \<Longrightarrow> is_hex c"
  by (auto simp: is_dec_def is_hex_def digit_val_def Let_def)

lemma network_chars:
  assumes "plain (network_address n)" "c \<in> set (network_str n)"
  shows "\<not> is_space c \<and> \<not> is_linebreak c"
proof -
  consider "c \<in> set (compressed (network_address n))" | "c = CHR ''/''" | "c \<in> set (dec_str (prefixlen n))"
    using assms(2) by (auto simp: network_str_def)
  then show ?thesis
  proof cases
    case 1
    with address_chars [OF assms(1)] show ?thesis .
  next
    case 2
    then show ?thesis by (simp add: is_space_def is_linebreak_def code_def)
  next
    case 3
    then have "is_dec c" using dec_str_no_char by blast
    then show ?thesis using dec_is_hex hex_not_blank by blast
  qed
qed

lemma entries_lines:
  assumes "\<And>v c. v \<in> set vs \<Longrightarrow> c \<in> set v \<Longrightarrow> \<not> is_space c \<and> \<not> is_linebreak c"
  shows "entries (lines_text vs) = {n. \<exists>v \<in> set vs. ip_network_of_text True v = Inr n}"
proof -
  have "py_splitlines (lines_text vs) = vs"
    unfolding lines_text_def by (rule splitlines_concat) (use assms in blast)
  moreover have "py_strip v = v" if "v \<in> set vs" for v
    by (rule py_strip_absent) (use assms that in blast)
  ultimately show ?thesis by (simp add: entries_def cong: bex_cong)
qed

lemma entries_addresses:
  assumes "list_all (address_ok version) as"
  shows "entries (lines_text (map compressed as)) = host_net ` set as"
proof -
  have "entries (lines_text (map compressed as)) =
      {n. \<exists>v \<in> set (map compressed as). ip_network_of_text True v = Inr n}"
    by (rule entries_lines) (use assms address_chars in \<open>fastforce simp: list_all_iff address_ok_def\<close>)
  then show ?thesis
    using assms by (force simp: list_all_iff address_ok_def ip_network_of_address image_iff)
qed

lemma entries_networks:
  assumes "\<forall>n \<in> set ns. network_ok n \<and> plain (network_address n)"
  shows "entries (lines_text (map network_str ns)) = set ns"
proof -
  have "entries (lines_text (map network_str ns)) =
      {n. \<exists>v \<in> set (map network_str ns). ip_network_of_text True v = Inr n}"
    by (rule entries_lines) (use assms network_chars in fastforce)
  then show ?thesis using assms by (force simp: ip_network_of_network_str)
qed

lemma blank_no_network: "ip_network_of_text strict '''' = Inl ValueError"
  by (simp add: ip_network_of_text_def ipv4_network_def ipv6_network_def split_addr_prefix_def
      ipv4_address_def v4_int_from_string_def ipv6_address_def split_scope_id_def v6_int_from_string_def)

lemma parse_table_spec:
  assumes "parse_table version ls = Inr ns"
  shows "set ns = {n. \<exists>l \<in> set ls. ip_network_of_text True (py_strip l) = Inr n} \<and>
    (\<forall>n \<in> set ns. network_ok n \<and> net_version n = version \<and> prefixlen n = max_prefixlen (network_address n))"
  using assms
proof (induction ls arbitrary: ns)
  case (Cons l ls)
  show ?case
  proof (cases "py_strip l = ''''")
    case True
    with Cons show ?thesis by (simp add: blank_no_network)
  next
    case False
    with Cons.prems obtain n ms where "ip_network_of_text True (py_strip l) = Inr n"
        "net_version n = version" "prefixlen n = max_prefixlen (network_address n)"
        "parse_table version ls = Inr ms" "ns = n # ms"
      by (auto simp: Let_def result_simps split: if_splits)
    with Cons.IH [of ms] ip_network_of_text_ok show ?thesis by auto
  qed
qed simp

subsection \<open>The contract with pfctl\<close>

definition pfctl_ok :: "'w runner \<Rightarrow> ('w \<Rightarrow> nat \<Rightarrow> ip_network set) \<Rightarrow> bool" where
  "pfctl_ok run tbl \<longleftrightarrow>
     (\<forall>argv stdin w u e m. run argv stdin w = (u, Inl e) \<longrightarrow> e \<noteq> HelperError m) \<and>
     (\<forall>w version u r. version \<in> {4, 6} \<longrightarrow> run (pf_argv version ''show'' False) None w = (u, r) \<longrightarrow>
        tbl u = tbl w \<and> (\<forall>out. r = Inr (0, out) \<longrightarrow> entries out = tbl w version)) \<and>
     (\<forall>w version u r stdin. version \<in> {4, 6} \<longrightarrow>
        run (pf_argv version ''replace'' True) (Some stdin) w = (u, r) \<longrightarrow>
        tbl u = (tbl w)(version := entries stdin) \<or> ((\<nexists>out. r = Inr (0, out)) \<and> tbl u = tbl w))"

text \<open>A command is one call of the runner and the test of its exit code.\<close>

definition exit_code_ok :: "(nat \<times> pystr) result \<Rightarrow> pystr result" where
  "exit_code_ok r = rbind r (\<lambda>(returncode, stdout).
     if returncode \<noteq> 0 then Inl (HelperError ''PF table operation failed'') else Inr stdout)"

lemma command_show: "command run version ''show'' None w =
    (case run (pf_argv version ''show'' False) None w of (u, r) \<Rightarrow> (u, exit_code_ok r))"
  by (auto simp: command_def Let_def sbind_def exit_code_ok_def split: prod.splits sum.splits)

lemma command_replace: "command run version ''replace'' (Some vs) w =
    (case run (pf_argv version ''replace'' True) (Some (lines_text vs)) w of (u, r) \<Rightarrow> (u, exit_code_ok r))"
  by (auto simp: command_def Let_def sbind_def exit_code_ok_def lines_text_def split: prod.splits sum.splits)

lemma exit_code_ok_Inr: "exit_code_ok r = Inr out \<longleftrightarrow> r = Inr (0, out)"
  by (auto simp: exit_code_ok_def result_simps split: if_splits)

lemma exit_code_ok_zero [simp]: "exit_code_ok (Inr (0, out)) = Inr out"
  by (simp add: exit_code_ok_Inr)

text \<open>The errors that report a failed replacement, as opposed to a refused request.\<close>

definition rollback_error :: "pystr \<Rightarrow> exn" where
  "rollback_error s = HelperError (''PF replacement failed; rollback '' @ s)"

definition replacement_error :: "exn \<Rightarrow> bool" where
  "replacement_error e = (\<exists>s. e = rollback_error s)"

lemma starts_with_simps [simp]:
  "starts_with [] s" "\<not> starts_with (c # p) []" "starts_with (c # p) (d # s) \<longleftrightarrow> c = d \<and> starts_with p s"
  by (auto simp: starts_with_def)

lemma starts_with_append: "starts_with p s \<longleftrightarrow> (\<exists>t. s = p @ t)"
  unfolding starts_with_def by (metis append_eq_conv_conj append_take_drop_id)

lemma replacement_error_iff:
  "replacement_error e \<longleftrightarrow>
     (case e of HelperError m \<Rightarrow> starts_with ''PF replacement failed; rollback '' m | _ \<Rightarrow> False)"
  unfolding starts_with_append by (cases e) (auto simp: replacement_error_def rollback_error_def)

lemma pfctl_raises:
  assumes "pfctl_ok run tbl" "run argv stdin w = (u, r)" "exit_code_ok r = Inl e"
  shows "\<not> replacement_error e"
proof (cases r)
  case (Inl x)
  with assms have "e = x" "\<forall>m. x \<noteq> HelperError m"
    by (auto simp: exit_code_ok_def pfctl_ok_def)
  then show ?thesis by (auto simp: replacement_error_def rollback_error_def)
next
  case (Inr x)
  with assms(3) have "e = HelperError ''PF table operation failed''"
    by (cases x) (simp add: exit_code_ok_def split: if_splits)
  then show ?thesis by (simp add: replacement_error_iff)
qed

lemma parse_table_raises: "parse_table version ls = Inl e \<Longrightarrow> \<not> replacement_error e"
proof (induction ls)
  case (Cons l ls)
  have "ip_network_of_text True (py_strip l) = Inl x \<Longrightarrow> x = ValueError" for x
    by (auto simp: ip_network_of_text_def split: sum.splits)
  with Cons show ?case
    by (auto simp: Let_def result_simps replacement_error_iff split: if_splits)
qed simp

lemma show_table_triple:
  assumes "pfctl_ok run tbl" "version \<in> {4, 6}"
  shows "striple (\<lambda>w. tbl w = T) (show_table run version)
    (\<lambda>ns w. tbl w = T \<and> set ns = T version \<and>
       (\<forall>n \<in> set ns. network_ok n \<and> net_version n = version \<and> prefixlen n = max_prefixlen (network_address n)))
    (\<lambda>e w. tbl w = T \<and> \<not> replacement_error e)"
proof -
  have "striple (\<lambda>w. tbl w = T) (command run version ''show'' None)
      (\<lambda>out w. tbl w = T \<and> entries out = T version) (\<lambda>e w. tbl w = T \<and> \<not> replacement_error e)"
  proof (unfold striple_def, intro allI impI)
    fix w assume w: "tbl w = T"
    obtain u r where r: "run (pf_argv version ''show'' False) None w = (u, r)" by fastforce
    have "tbl u = tbl w \<and> (\<forall>out. r = Inr (0, out) \<longrightarrow> entries out = tbl w version)"
      by (rule assms(1) [unfolded pfctl_ok_def, THEN conjunct2, THEN conjunct1, rule_format, OF assms(2) r])
    then show "case command run version ''show'' None w of
        (t, Inl e) \<Rightarrow> tbl t = T \<and> \<not> replacement_error e
      | (t, Inr out) \<Rightarrow> tbl t = T \<and> entries out = T version"
      using pfctl_raises [OF assms(1) r]
      by (cases "exit_code_ok r") (auto simp: command_show r w exit_code_ok_Inr)
  qed
  then show ?thesis
    unfolding show_table_def
  proof (rule striple_bind)
    fix out
    show "striple (\<lambda>w. tbl w = T \<and> entries out = T version) (slift (parse_table version (py_splitlines out)))
        (\<lambda>ns w. tbl w = T \<and> set ns = T version \<and>
          (\<forall>n \<in> set ns. network_ok n \<and> net_version n = version \<and> prefixlen n = max_prefixlen (network_address n)))
        (\<lambda>e w. tbl w = T \<and> \<not> replacement_error e)"
      using parse_table_spec [of version "py_splitlines out"] parse_table_raises
      by (intro striple_lift) (auto simp: entries_def)
  qed
qed

lemma replace_command_triple:
  assumes "pfctl_ok run tbl" "version \<in> {4, 6}"
  shows "striple (\<lambda>w. tbl w = T) (command run version ''replace'' (Some vs))
    (\<lambda>_ w. tbl w = T(version := entries (lines_text vs)))
    (\<lambda>e w. tbl w = T \<or> tbl w = T(version := entries (lines_text vs)))"
proof (unfold striple_def, intro allI impI)
  fix w assume w: "tbl w = T"
  obtain u r where r: "run (pf_argv version ''replace'' True) (Some (lines_text vs)) w = (u, r)" by fastforce
  have "tbl u = (tbl w)(version := entries (lines_text vs)) \<or> ((\<nexists>out. r = Inr (0, out)) \<and> tbl u = tbl w)"
    by (rule assms(1) [unfolded pfctl_ok_def, THEN conjunct2, THEN conjunct2, rule_format, OF assms(2) r])
  then show "case command run version ''replace'' (Some vs) w of
      (t, Inl e) \<Rightarrow> tbl t = T \<or> tbl t = T(version := entries (lines_text vs))
    | (t, Inr x) \<Rightarrow> tbl t = T(version := entries (lines_text vs))"
    by (cases "exit_code_ok r") (auto simp: command_replace r w exit_code_ok_Inr)
qed

subsection \<open>Replacement and rollback\<close>

lemma restore_table_triple:
  assumes "pfctl_ok run tbl" "version \<in> {4, 6}"
    "\<forall>n \<in> set ns. network_ok n \<and> plain (network_address n)"
  shows "striple (\<lambda>w. tbl w = T) (restore_table run idx version ns)
    (\<lambda>failed w. tbl w = T(version := set (safe_entries idx ns)) \<or> (failed \<and> tbl w = T)) (\<lambda>e w. False)"
proof -
  have e: "entries (lines_text (map network_str (safe_entries idx ns))) = set (safe_entries idx ns)"
    by (rule entries_networks) (use assms(3) in \<open>simp add: safe_entries_def\<close>)
  show ?thesis
    unfolding restore_table_def
  proof (rule striple_catch)
    show "striple (\<lambda>w. tbl w = T)
        (sbind (command run version ''replace'' (Some (map network_str (safe_entries idx ns)))) (\<lambda>_. sret False))
        (\<lambda>failed w. tbl w = T(version := set (safe_entries idx ns)) \<or> (failed \<and> tbl w = T))
        (\<lambda>_ w. tbl w = T \<or> tbl w = T(version := set (safe_entries idx ns)))"
      by (rule striple_bind [OF replace_command_triple
            [OF assms(1,2), where vs = "map network_str (safe_entries idx ns)", unfolded e]])
         (rule striple_ret, simp)
  next
    show "striple (\<lambda>w. tbl w = T \<or> tbl w = T(version := set (safe_entries idx ns))) (sret True)
        (\<lambda>failed w. tbl w = T(version := set (safe_entries idx ns)) \<or> (failed \<and> tbl w = T)) (\<lambda>e w. False)" for e
      by (rule striple_ret) auto
  qed
qed

definition tables_within :: "(nat \<Rightarrow> ip_network set) \<Rightarrow> (nat \<Rightarrow> ip_network set) \<Rightarrow> bool" where
  "tables_within T U = (\<forall>version. version \<notin> {4, 6} \<longrightarrow> U version = T version)"

definition safe_set :: "network_index \<Rightarrow> ip_network set \<Rightarrow> ip_network set" where
  "safe_set idx N = {n \<in> N. \<not> index_contains idx (network_address n)}"

lemma set_safe_entries: "set (safe_entries idx ns) = safe_set idx (set ns)"
  by (simp add: safe_entries_def safe_set_def)

lemma restore_table_within:
  assumes "pfctl_ok run tbl" "version \<in> {4, 6}"
    "\<forall>n \<in> set ns. network_ok n \<and> plain (network_address n)"
    and "\<And>w u. P w \<Longrightarrow> tbl u = (tbl w)(version := safe_set idx (set ns)) \<Longrightarrow> Q False u \<and> Q True u"
    and "\<And>w u. P w \<Longrightarrow> tbl u = tbl w \<Longrightarrow> Q True u"
  shows "striple P (restore_table run idx version ns) Q (\<lambda>e w. False)"
proof (unfold striple_def, intro allI impI)
  fix w assume w: "P w"
  obtain u r where r: "restore_table run idx version ns w = (u, r)" by fastforce
  note t = restore_table_triple [OF assms(1-3), of "tbl w" idx]
  show "case restore_table run idx version ns w of (t, Inl e) \<Rightarrow> False | (t, Inr x) \<Rightarrow> Q x t"
  proof (cases r)
    case (Inl e)
    with stripleD(2) [OF t refl] r show ?thesis by blast
  next
    case (Inr failed)
    with stripleD(1) [OF t refl] r
    have "tbl u = (tbl w)(version := safe_set idx (set ns)) \<or> (failed \<and> tbl u = tbl w)"
      by (simp add: set_safe_entries)
    with assms(4,5) [OF w, of u] show ?thesis by (cases failed) (auto simp: r Inr)
  qed
qed

lemma rollback_triple:
  assumes pf: "pfctl_ok run tbl"
    and ok: "\<forall>n \<in> set ns4 \<union> set ns6. network_ok n \<and> plain (network_address n)"
  shows "striple (\<lambda>w. tables_within T (tbl w)) (rollback run idx ns4 ns6) (\<lambda>r w. False)
    (\<lambda>e w. tables_within T (tbl w) \<and> (e = rollback_error ''failed'' \<or> (e = rollback_error ''completed'' \<and>
       tbl w = T(4 := safe_set idx (set ns4), 6 := safe_set idx (set ns6)))))"
proof -
  have r4: "striple (\<lambda>w. tables_within T (tbl w)) (restore_table run idx 4 ns4)
      (\<lambda>failed w. tables_within T (tbl w) \<and> (failed \<or> tbl w 4 = safe_set idx (set ns4))) (\<lambda>e w. False)"
    by (rule restore_table_within [OF pf]) (use ok in \<open>auto simp: tables_within_def\<close>)
  have r6: "striple (\<lambda>w. tables_within T (tbl w) \<and> (failed4 \<or> tbl w 4 = safe_set idx (set ns4))) (restore_table run idx 6 ns6)
      (\<lambda>failed w. tables_within T (tbl w) \<and> (failed4 \<or> tbl w 4 = safe_set idx (set ns4)) \<and>
         (failed \<or> tbl w 6 = safe_set idx (set ns6))) (\<lambda>e w. False)" for failed4
    by (rule restore_table_within [OF pf]) (use ok in \<open>auto simp: tables_within_def\<close>)
  have eq: "tables_within T U \<Longrightarrow> U 4 = A \<Longrightarrow> U 6 = B \<Longrightarrow> U = T(4 := A, 6 := B)" for U A B
    by (auto simp: tables_within_def fun_eq_iff)
  show ?thesis
    unfolding rollback_def
    apply (rule striple_bind, rule striple_mono [OF r4], assumption, assumption, simp)
    apply (rule striple_bind, rule striple_mono [OF r6], assumption, assumption, simp)
    by (rule striple_lift) (auto simp: rollback_error_def intro: eq)
qed

lemma family_values_raises: "family_values req f = Inl e \<Longrightarrow> \<not> replacement_error e"
  by (auto simp: family_values_def replacement_error_iff split: option.splits json.splits)

lemma request_address_raises: "request_address version v = Inl e \<Longrightarrow> \<not> replacement_error e"
  by (auto simp: request_address_def replacement_error_iff split: json.splits sum.splits if_splits)

lemma parse_request_raises:
  assumes "parse_request request = Inl e"
  shows "\<not> replacement_error e"
proof (cases request)
  case (JObj req)
  have "rmap (request_address v) vs = Inl x \<Longrightarrow> \<not> replacement_error x" for v vs x
    using rmap_eq_Inl request_address_raises by blast
  then show ?thesis
    using assms family_values_raises
    unfolding JObj parse_request_def Let_def json.case
    by (auto simp: result_simps replacement_error_iff split: if_splits)
qed (use assms in \<open>auto simp: parse_request_def Let_def replacement_error_iff\<close>)

lemma helper_parse_whitelist_raises: "helper_parse_whitelist text = Inl e \<Longrightarrow> \<not> replacement_error e"
  unfolding helper_parse_whitelist_def
  by (drule whitelist_raises) (auto simp: replacement_error_iff)

text \<open>What the tables hold after each outcome, as one triple over the state before.\<close>

definition replaced_outcome ::
  "(pystr \<Rightarrow> pystr) \<Rightarrow> pystr result \<Rightarrow> json \<Rightarrow> (nat \<Rightarrow> ip_network set) \<Rightarrow> helper_response \<Rightarrow> (nat \<Rightarrow> ip_network set) \<Rightarrow> bool" where
  "replaced_outcome sha wl request T r U \<longleftrightarrow>
     (\<exists>as4 as6 ns. parse_request request = Inr (as4, as6) \<and> rbind wl helper_parse_whitelist = Inr ns \<and>
        (let eff4 = outside (network_index_init ns) as4; eff6 = outside (network_index_init ns) as6 in
         U = T(4 := host_net ` set eff4, 6 := host_net ` set eff6) \<and>
         r = \<lparr>hr_applied_ipv4 = length eff4, hr_applied_ipv6 = length eff6, hr_digest = sha (rendered eff4 eff6)\<rparr>))"

definition refused_outcome :: "pystr result \<Rightarrow> (nat \<Rightarrow> ip_network set) \<Rightarrow> exn \<Rightarrow> (nat \<Rightarrow> ip_network set) \<Rightarrow> bool" where
  "refused_outcome wl T e U \<longleftrightarrow>
     (\<not> replacement_error e \<and> U = T) \<or>
     (tables_within T U \<and> e = rollback_error ''failed'') \<or>
     (e = rollback_error ''completed'' \<and> (\<exists>ns. rbind wl helper_parse_whitelist = Inr ns \<and>
        U = T(4 := safe_set (network_index_init ns) (T 4), 6 := safe_set (network_index_init ns) (T 6))))"

lemma replace_tables_triple:
  assumes pf: "pfctl_ok run tbl"
    and T: "\<forall>n \<in> T 4 \<union> T 6. plain (network_address n)"
    and wl: "\<And>e. wl = Inl e \<Longrightarrow> \<not> replacement_error e"
  shows "striple (\<lambda>w. tbl w = T) (replace_tables run sha wl request)
    (\<lambda>r w. replaced_outcome sha wl request T r (tbl w)) (\<lambda>e w. refused_outcome wl T e (tbl w))"
proof (cases "parse_request request")
  case (Inl e)
  then show ?thesis
    using parse_request_raises [OF Inl]
    by (simp add: replace_tables_def striple_def refused_outcome_def)
next
  case (Inr p)
  obtain as4 as6 where req: "parse_request request = Inr (as4, as6)" using Inr by (cases p) simp
  note ok = parse_request_ok [OF req]
  show ?thesis
  proof (cases "rbind wl helper_parse_whitelist")
    case (Inl e)
    then have "\<not> replacement_error e"
      using wl helper_parse_whitelist_raises by (auto simp: result_simps)
    then show ?thesis by (simp add: replace_tables_def req Inl striple_def refused_outcome_def)
  next
    case (Inr ns)
    let ?idx = "network_index_init ns"
    let ?e4 = "outside ?idx as4" and ?e6 = "outside ?idx as6"
    have "list_all (address_ok 4) ?e4" "list_all (address_ok 6) ?e6"
      using ok by (auto simp: outside_def list_all_iff)
    note ent = this [THEN entries_addresses]
    let ?body = "scatch
       (sbind (command run 4 ''replace'' (Some (map compressed ?e4))) (\<lambda>_.
        sbind (command run 6 ''replace'' (Some (map compressed ?e6))) (\<lambda>_.
          sret \<lparr>hr_applied_ipv4 = length ?e4, hr_applied_ipv6 = length ?e6, hr_digest = sha (rendered ?e4 ?e6)\<rparr>)))"
    have c6: "striple (\<lambda>w. tbl w = T(4 := host_net ` set ?e4)) (command run 6 ''replace'' (Some (map compressed ?e6)))
        (\<lambda>_ w. tbl w = T(4 := host_net ` set ?e4, 6 := host_net ` set ?e6)) (\<lambda>_ w. tables_within T (tbl w))"
      by (rule striple_mono [OF replace_command_triple [OF pf, where vs = "map compressed ?e6", unfolded ent]])
         (auto simp: tables_within_def)
    have c4: "striple (\<lambda>w. tbl w = T) (command run 4 ''replace'' (Some (map compressed ?e4)))
        (\<lambda>_ w. tbl w = T(4 := host_net ` set ?e4)) (\<lambda>_ w. tables_within T (tbl w))"
      by (rule striple_mono [OF replace_command_triple [OF pf, where vs = "map compressed ?e4", unfolded ent]])
         (auto simp: tables_within_def)
    have attempt: "striple (\<lambda>w. tbl w = T) (?body h)
        (\<lambda>r w. replaced_outcome sha wl request T r (tbl w)) (\<lambda>e w. refused_outcome wl T e (tbl w))"
      if h: "\<And>e. striple (\<lambda>w. tables_within T (tbl w)) (h e)
        (\<lambda>r w. replaced_outcome sha wl request T r (tbl w)) (\<lambda>e w. refused_outcome wl T e (tbl w))" for h
    proof (rule striple_catch [OF _ h])
      show "striple (\<lambda>w. tbl w = T) (sbind (command run 4 ''replace'' (Some (map compressed ?e4))) (\<lambda>_.
          sbind (command run 6 ''replace'' (Some (map compressed ?e6))) (\<lambda>_.
            sret \<lparr>hr_applied_ipv4 = length ?e4, hr_applied_ipv6 = length ?e6, hr_digest = sha (rendered ?e4 ?e6)\<rparr>)))
          (\<lambda>r w. replaced_outcome sha wl request T r (tbl w)) (\<lambda>_ w. tables_within T (tbl w))"
        by (rule striple_bind [OF c4], rule striple_bind [OF c6], rule striple_ret)
           (simp add: replaced_outcome_def req Inr)
    qed
    have undo: "striple (\<lambda>w. tables_within T (tbl w)) (rollback run ?idx ns4 ns6)
        (\<lambda>r w. replaced_outcome sha wl request T r (tbl w)) (\<lambda>e w. refused_outcome wl T e (tbl w))"
      if "set ns4 = T 4" "set ns6 = T 6" "\<forall>n \<in> set ns4 \<union> set ns6. network_ok n" for ns4 ns6
      by (rule striple_mono [OF rollback_triple [OF pf]])
         (use that T in \<open>auto simp: refused_outcome_def Inr\<close>)
    have shown: "striple (\<lambda>w. tbl w = T) (show_table run version)
        (\<lambda>ns w. tbl w = T \<and> (set ns = T version \<and> (\<forall>n \<in> set ns. network_ok n)))
        (\<lambda>e w. refused_outcome wl T e (tbl w))" if "version \<in> {4, 6}" for version
      by (rule striple_mono [OF show_table_triple [OF pf that]]) (auto simp: refused_outcome_def)
    have run: "replace_tables run sha wl request = sbind (show_table run 4) (\<lambda>previous4.
        sbind (show_table run 6) (\<lambda>previous6. ?body (\<lambda>_. rollback run ?idx previous4 previous6)))"
      by (rule ext) (simp add: replace_tables_def req Inr Let_def)
    show ?thesis
      unfolding run
    proof (rule striple_bind [OF shown], simp, rule striple_pure)
      fix ns4 assume ns4: "set ns4 = T 4 \<and> (\<forall>n \<in> set ns4. network_ok n)"
      show "striple (\<lambda>w. tbl w = T) (sbind (show_table run 6) (\<lambda>previous6. ?body (\<lambda>_. rollback run ?idx ns4 previous6)))
          (\<lambda>r w. replaced_outcome sha wl request T r (tbl w)) (\<lambda>e w. refused_outcome wl T e (tbl w))"
      proof (rule striple_bind [OF shown], simp, rule striple_pure, rule attempt, rule undo)
      qed (use ns4 in auto)
    qed
  qed
qed

subsection \<open>The commands of a run\<close>

text \<open>A runner that also records the argument vectors it was given.\<close>

definition traced :: "'w runner \<Rightarrow> ('w \<times> pystr list list) runner" where
  "traced run argv stdin s = (case run argv stdin (fst s) of (u, r) \<Rightarrow> ((u, snd s @ [argv]), r))"

definition show_cmd :: "nat \<Rightarrow> pystr list" where
  "show_cmd version = [''/sbin/pfctl'', ''-t'', table_name version, ''-T'', ''show'']"

definition replace_cmd :: "nat \<Rightarrow> pystr list" where
  "replace_cmd version = [''/sbin/pfctl'', ''-t'', table_name version, ''-T'', ''replace'', ''-f'', ''-'']"

lemma traced_show:
  "striple (\<lambda>s. snd s = L) (show_table (traced run) version)
    (\<lambda>_ s. snd s = L @ [show_cmd version]) (\<lambda>_ s. snd s = L @ [show_cmd version])"
proof -
  have "striple (\<lambda>s. snd s = L) (command (traced run) version ''show'' None)
      (\<lambda>_ s. snd s = L @ [show_cmd version]) (\<lambda>_ s. snd s = L @ [show_cmd version])"
    by (auto simp: striple_def command_show traced_def pf_argv_def show_cmd_def split: prod.splits sum.splits)
  then show ?thesis
    unfolding show_table_def by (rule striple_bind) (rule striple_lift, simp_all)
qed

lemma traced_replace:
  "striple (\<lambda>s. snd s = L) (command (traced run) version ''replace'' (Some vs))
    (\<lambda>_ s. snd s = L @ [replace_cmd version]) (\<lambda>_ s. snd s = L @ [replace_cmd version])"
  by (auto simp: striple_def command_replace traced_def pf_argv_def replace_cmd_def split: prod.splits sum.splits)

lemma traced_restore:
  "striple (\<lambda>s. snd s = L) (restore_table (traced run) idx version ns)
    (\<lambda>_ s. snd s = L @ [replace_cmd version]) (\<lambda>_ s. False)"
  unfolding restore_table_def
  by (rule striple_catch, rule striple_bind [OF traced_replace]) (rule striple_ret, simp)+

lemma traced_rollback:
  "striple (\<lambda>s. snd s = L) (rollback (traced run) idx ns4 ns6) (\<lambda>_ s. False)
    (\<lambda>_ s. snd s = L @ [replace_cmd 4, replace_cmd 6])"
  unfolding rollback_def
  apply (rule striple_bind, rule striple_mono [OF traced_restore], assumption, assumption, simp)
  apply (rule striple_bind, rule striple_mono [OF traced_restore], assumption, assumption, simp)
  by (rule striple_lift) simp_all

text \<open>The command sequences of a run that succeeds and of one that fails.\<close>

definition full_run :: "pystr list list" where
  "full_run = [show_cmd 4, show_cmd 6, replace_cmd 4, replace_cmd 6]"

definition failed_runs :: "pystr list list set" where
  "failed_runs = {[], [show_cmd 4], [show_cmd 4, show_cmd 6],
     [show_cmd 4, show_cmd 6, replace_cmd 4, replace_cmd 4, replace_cmd 6],
     [show_cmd 4, show_cmd 6, replace_cmd 4, replace_cmd 6, replace_cmd 4, replace_cmd 6]}"

lemma traced_replace_tables:
  "striple (\<lambda>s. snd s = L) (replace_tables (traced run) sha wl request)
    (\<lambda>_ s. snd s = L @ full_run) (\<lambda>_ s. \<exists>cs \<in> failed_runs. snd s = L @ cs)"
proof (cases "parse_request request")
  case (Inl e)
  then show ?thesis by (simp add: replace_tables_def striple_def failed_runs_def)
next
  case req: (Inr p)
  show ?thesis
  proof (cases "rbind wl helper_parse_whitelist")
    case (Inl e)
    with req show ?thesis by (cases p) (simp add: replace_tables_def striple_def failed_runs_def)
  next
    case (Inr ns)
    let ?f = "\<lambda>_ s. \<exists>cs \<in> failed_runs. snd s = L @ cs"
    let ?x = "show_cmd 4" and ?y = "show_cmd 6" and ?a = "replace_cmd 4" and ?b = "replace_cmd 6"
    have s4: "striple (\<lambda>s. snd s = L) (show_table (traced run) 4) (\<lambda>_ s. snd s = L @ [?x]) ?f"
      by (rule striple_mono [OF traced_show]) (auto simp: failed_runs_def)
    have s6: "striple (\<lambda>s. snd s = L @ [?x]) (show_table (traced run) 6) (\<lambda>_ s. snd s = L @ [?x, ?y]) ?f"
      by (rule striple_mono [OF traced_show]) (auto simp: failed_runs_def)
    let ?err = "\<lambda>_ s. snd s = L @ [?x, ?y, ?a] \<or> snd s = L @ [?x, ?y, ?a, ?b]"
    have r4: "striple (\<lambda>s. snd s = L @ [?x, ?y]) (command (traced run) 4 ''replace'' (Some vs))
        (\<lambda>_ s. snd s = L @ [?x, ?y, ?a]) ?err" for vs
      by (rule striple_mono [OF traced_replace]) auto
    have r6: "striple (\<lambda>s. snd s = L @ [?x, ?y, ?a]) (command (traced run) 6 ''replace'' (Some vs))
        (\<lambda>_ s. snd s = L @ full_run) ?err" for vs
      by (rule striple_mono [OF traced_replace]) (auto simp: full_run_def)
    have undo: "striple (\<lambda>s. ?err e s) (rollback (traced run) idx ns4 ns6) (\<lambda>_ s. snd s = L @ full_run) ?f"
      for idx ns4 ns6 and e :: exn
      using striple_mono [OF traced_rollback [of "L @ [?x, ?y, ?a]" run idx ns4 ns6], where E' = ?f]
        striple_mono [OF traced_rollback [of "L @ [?x, ?y, ?a, ?b]" run idx ns4 ns6], where E' = ?f]
      by (auto simp: striple_def failed_runs_def)
    obtain as4 as6 where p: "p = (as4, as6)" by fastforce
    have "replace_tables (traced run) sha wl request = (let idx = network_index_init ns;
        e4 = outside idx as4; e6 = outside idx as6 in
      sbind (show_table (traced run) 4) (\<lambda>ns4. sbind (show_table (traced run) 6) (\<lambda>ns6.
        scatch (sbind (command (traced run) 4 ''replace'' (Some (map compressed e4))) (\<lambda>_.
            sbind (command (traced run) 6 ''replace'' (Some (map compressed e6))) (\<lambda>_.
              sret \<lparr>hr_applied_ipv4 = length e4, hr_applied_ipv6 = length e6, hr_digest = sha (rendered e4 e6)\<rparr>)))
          (\<lambda>_. rollback (traced run) idx ns4 ns6))))"
      by (rule ext) (simp add: replace_tables_def req Inr p Let_def)
    then show ?thesis
      unfolding Let_def
      by (simp only:)
         (intro striple_bind [OF s4] striple_bind [OF s6] striple_catch [OF _ undo] striple_bind [OF r4]
            striple_bind [OF r6] striple_ret, assumption)
  qed
qed

subsection \<open>A concrete PF\<close>

text \<open>Two tables as the text of their entries; every command succeeds.\<close>

definition sample_pf :: "(pystr \<times> pystr) runner" where
  "sample_pf argv stdin w =
     (if argv = pf_argv 4 ''show'' False then (w, Inr (0, fst w))
      else if argv = pf_argv 6 ''show'' False then (w, Inr (0, snd w))
      else (case stdin of None \<Rightarrow> (w, Inl OSError)
            | Some text \<Rightarrow>
                if argv = pf_argv 4 ''replace'' True then ((text, snd w), Inr (0, ''''))
                else if argv = pf_argv 6 ''replace'' True then ((fst w, text), Inr (0, ''''))
                else (w, Inl OSError)))"

definition sample_tables :: "pystr \<times> pystr \<Rightarrow> nat \<Rightarrow> ip_network set" where
  "sample_tables w version =
     (if version = 4 then entries (fst w) else if version = 6 then entries (snd w) else {})"

lemma sample_pf_ok: "pfctl_ok sample_pf sample_tables"
proof -
  have n: "table_name 4 = ''f2bguard_v4''" "table_name 6 = ''f2bguard_v6''"
    by (simp_all add: table_name_def pf_tables_def)
  show ?thesis
    unfolding pfctl_ok_def
    by (auto simp: sample_pf_def sample_tables_def pf_argv_def n fun_eq_iff split: if_splits option.splits)
qed

definition sample_request :: json where
  "sample_request = JObj [(''op'', JStr ''replace''),
     (''ipv4'', JArr [JStr ''203.0.113.7'', JStr ''198.51.100.2'']), (''ipv6'', JArr [])]"

subsection \<open>Properties\<close>

text \<open>
  The helper accepts a replacement request exactly when every listed literal is the canonical
  text of an unprotected, unscoped address of the field's family and there are at most 100000 of
  them; otherwise it refuses the whole request.
\<close>

theorem request_acceptance:
  "(\<exists>as4 as6. parse_request (JObj [(''op'', JStr ''replace''), (''ipv4'', JArr (map JStr ss4)),
       (''ipv6'', JArr (map JStr ss6))]) = Inr (as4, as6)) \<longleftrightarrow>
   (\<forall>s \<in> set ss4. claimable_ip s \<and> addr_version s = 4) \<and>
   (\<forall>s \<in> set ss6. claimable_ip s \<and> addr_version s = 6) \<and> length ss4 + length ss6 \<le> 100000"
proof -
  have inj: "map JStr xs = map JStr ys \<longleftrightarrow> xs = ys" for xs ys :: "pystr list"
    by (rule inj_map_eq_map) (simp add: inj_def)
  show ?thesis
    unfolding parse_request_iff max_addresses_def by (auto simp: jkeys_def inj)
qed

lemma request_acceptance_witness:
  "\<exists>as4 as6. parse_request (JObj [(''op'', JStr ''replace''), (''ipv4'', JArr (map JStr [''198.51.100.2''])),
     (''ipv6'', JArr (map JStr []))]) = Inr (as4, as6)"
  by (rule request_acceptance [THEN iffD2]) code_simp

text \<open>
  C13. A replacement that succeeds leaves in each PF table exactly the host entries of the requested
  addresses that no whitelist entry covers, touches no other table, and reports their numbers.
\<close>

theorem helper_applies_request:
  assumes "pfctl_ok run tbl" "\<forall>n \<in> tbl w 4 \<union> tbl w 6. plain (network_address n)"
    and "replace_tables run sha (Inr text) request w = (u, Inr r)"
  shows "\<exists>as4 as6 ns. parse_request request = Inr (as4, as6) \<and> helper_parse_whitelist text = Inr ns \<and>
    tbl u 4 = host_net ` {a \<in> set as4. \<forall>n \<in> set ns. \<not> net_covers n a} \<and>
    tbl u 6 = host_net ` {a \<in> set as6. \<forall>n \<in> set ns. \<not> net_covers n a} \<and>
    (\<forall>v. v \<notin> {4, 6} \<longrightarrow> tbl u v = tbl w v) \<and>
    hr_applied_ipv4 r = card (tbl u 4) \<and> hr_applied_ipv6 r = card (tbl u 6)"
proof -
  have "replaced_outcome sha (Inr text) request (tbl w) r (tbl u)"
    using stripleD(1) [OF replace_tables_triple [OF assms(1,2), of "Inr text"] refl assms(3)] by simp
  then obtain as4 as6 ns where o: "parse_request request = Inr (as4, as6)" "helper_parse_whitelist text = Inr ns"
      "tbl u = (tbl w)(4 := host_net ` set (outside (network_index_init ns) as4),
        6 := host_net ` set (outside (network_index_init ns) as6))"
      "hr_applied_ipv4 r = length (outside (network_index_init ns) as4)"
      "hr_applied_ipv6 r = length (outside (network_index_init ns) as6)"
    by (auto simp: replaced_outcome_def Let_def)
  have "list_all network_ok ns"
    using o(2) whitelist_loop_ok(1) by (auto simp: helper_parse_whitelist_def)
  then have eff: "set (outside (network_index_init ns) as) = {a \<in> set as. \<forall>n \<in> set ns. \<not> net_covers n a}" for as
    unfolding outside_def by (rule whitelist_index.filter_not_contains)
  have "inj host_net" by (auto simp: inj_def host_net_def)
  then have card: "distinct as \<Longrightarrow> card (host_net ` set (outside (network_index_init ns) as)) =
      length (outside (network_index_init ns) as)" for as
    using distinct_card [of "outside (network_index_init ns) as"] inj_on_subset [of host_net UNIV]
    by (simp add: card_image outside_def distinct_filter del: set_filter)
  have t: "tbl u 4 = host_net ` set (outside (network_index_init ns) as4)"
      "tbl u 6 = host_net ` set (outside (network_index_init ns) as6)"
      "\<forall>v. v \<notin> {4, 6} \<longrightarrow> tbl u v = tbl w v"
    by (simp_all add: o(3))
  have "hr_applied_ipv4 r = card (tbl u 4)" "hr_applied_ipv6 r = card (tbl u 6)"
    using o(4,5) card parse_request_ok(3,4) [OF o(1)] by (simp_all add: t)
  with o(1,2) t(3) t(1,2) [unfolded eff] show ?thesis by blast
qed

lemma sample_replacement:
  "replace_tables sample_pf (\<lambda>_. ''d'') (Inr ''203.0.113.0/24'') sample_request ('''', '''') =
     ((''198.51.100.2'' @ [CHR 0x0A], ''''), Inr \<lparr>hr_applied_ipv4 = 1, hr_applied_ipv6 = 0, hr_digest = ''d''\<rparr>)"
  by code_simp

lemma entries_empty: "entries '''' = {}"
  by (simp add: entries_def py_splitlines_def)

lemma helper_applies_request_witness:
  "card (sample_tables (''198.51.100.2'' @ [CHR 0x0A], '''') 4) = 1"
  using helper_applies_request [OF sample_pf_ok _ sample_replacement]
  by (auto simp: sample_tables_def entries_empty)

text \<open>
  C14. A request that fails leaves the PF tables in one of three states. When the error does not
  report a failed replacement (the request or the whitelist was invalid, or a table could not be
  shown), no table changed. When it reports a completed rollback, both tables hold their previous
  entries less those that the whitelist now covers: a whitelisted address is never restored. When the
  rollback failed too, at least no other table was touched.
\<close>

theorem helper_failure_outcomes:
  assumes "pfctl_ok run tbl" "\<forall>n \<in> tbl w 4 \<union> tbl w 6. plain (network_address n)"
    and "replace_tables run sha (Inr text) request w = (u, Inl e)"
  shows "(tbl u = tbl w \<and> \<not> replacement_error e) \<or>
    (e = HelperError ''PF replacement failed; rollback completed'' \<and>
       (\<exists>ns. helper_parse_whitelist text = Inr ns \<and> (\<forall>v. tbl u v =
          (if v \<in> {4, 6} then {n \<in> tbl w v. \<forall>k \<in> set ns. \<not> net_covers k (network_address n)} else tbl w v)))) \<or>
    (e = HelperError ''PF replacement failed; rollback failed'' \<and> (\<forall>v. v \<notin> {4, 6} \<longrightarrow> tbl u v = tbl w v))"
proof -
  have "refused_outcome (Inr text) (tbl w) e (tbl u)"
    using stripleD(2) [OF replace_tables_triple [OF assms(1,2), of "Inr text"] refl assms(3)] by simp
  then consider "\<not> replacement_error e" "tbl u = tbl w"
    | "tables_within (tbl w) (tbl u)" "e = rollback_error ''failed''"
    | ns where "e = rollback_error ''completed''" "helper_parse_whitelist text = Inr ns"
      "tbl u = (tbl w)(4 := safe_set (network_index_init ns) (tbl w 4), 6 := safe_set (network_index_init ns) (tbl w 6))"
    by (auto simp: refused_outcome_def)
  then show ?thesis
  proof cases
    case 3
    have "list_all network_ok ns"
      using 3(2) whitelist_loop_ok(1) by (auto simp: helper_parse_whitelist_def)
    then have "safe_set (network_index_init ns) N = {n \<in> N. \<forall>k \<in> set ns. \<not> net_covers k (network_address n)}" for N
      by (simp add: safe_set_def whitelist_index.contains_build)
    with 3 show ?thesis by (auto simp: rollback_error_def)
  qed (auto simp: rollback_error_def tables_within_def)
qed

text \<open>A PF that refuses one particular new table.\<close>

definition flaky_pf :: "(pystr \<times> pystr) runner" where
  "flaky_pf argv stdin w =
     (if stdin = Some (''198.51.100.2'' @ [CHR 0x0A]) then (w, Inr (1, ''pfctl: failed''))
      else sample_pf argv stdin w)"

lemma flaky_pf_ok: "pfctl_ok flaky_pf sample_tables"
proof -
  note ok = sample_pf_ok [unfolded pfctl_ok_def]
  show ?thesis
    unfolding pfctl_ok_def
  proof (intro conjI allI impI)
    show "e \<noteq> HelperError m" if "flaky_pf argv stdin w = (u, Inl e)" for argv stdin w u e m
    proof (rule ok [THEN conjunct1, rule_format])
      show "sample_pf argv stdin w = (u, Inl e)"
        using that by (simp add: flaky_pf_def split: if_splits)
    qed
  next
    fix w version u r
    assume "version \<in> {4, 6}" "flaky_pf (pf_argv version ''show'' False) None w = (u, r)"
    then have "version \<in> {4, 6}" "sample_pf (pf_argv version ''show'' False) None w = (u, r)"
      by (simp_all add: flaky_pf_def)
    note show_ok = ok [THEN conjunct2, THEN conjunct1, rule_format, OF this]
    show "sample_tables u = sample_tables w" by (rule show_ok [THEN conjunct1])
    show "entries out = sample_tables w version" if "r = Inr (0, out)" for out
      using show_ok that by blast
  next
    fix w version u r stdin
    assume v: "version \<in> {4, 6}" "flaky_pf (pf_argv version ''replace'' True) (Some stdin) w = (u, r)"
    show "sample_tables u = (sample_tables w)(version := entries stdin) \<or>
        ((\<nexists>out. r = Inr (0, out)) \<and> sample_tables u = sample_tables w)"
    proof (cases "stdin = ''198.51.100.2'' @ [CHR 0x0A]")
      case True
      with v show ?thesis by (auto simp: flaky_pf_def)
    next
      case False
      with v have "sample_pf (pf_argv version ''replace'' True) (Some stdin) w = (u, r)"
        by (simp add: flaky_pf_def)
      show ?thesis
        by (rule ok [THEN conjunct2, THEN conjunct2, rule_format, OF v(1) \<open>sample_pf _ _ w = (u, r)\<close>])
    qed
  qed
qed

lemma sample_failure:
  "replace_tables flaky_pf (\<lambda>_. ''d'') (Inr ''203.0.113.0/24'') sample_request ('''', '''') =
     (('''', ''''), Inl (HelperError ''PF replacement failed; rollback completed''))"
  by code_simp

lemma helper_failure_outcomes_witness:
  "sample_tables ('''', '''') 4 = {} \<and> helper_parse_whitelist ''203.0.113.0/24'' \<noteq> Inl ValueError"
  using helper_failure_outcomes [OF flaky_pf_ok _ sample_failure]
  by (auto simp: sample_tables_def entries_empty replacement_error_iff)

text \<open>
  The helper runs only a fixed sequence of commands on its two tables, whatever the request,
  the whitelist and the results of the commands are: a successful run shows both tables and replaces
  both; a failed one stops before any replacement, or attempts it and then replaces both tables once
  more to roll back. No table is replaced before both have been read.
\<close>

theorem helper_command_sequences:
  "case replace_tables (traced run) sha wl request (w, []) of ((u, cs), r) \<Rightarrow>
     (case r of
        Inr _ \<Rightarrow> cs = [show_cmd 4, show_cmd 6, replace_cmd 4, replace_cmd 6]
      | Inl _ \<Rightarrow> cs \<in> {[], [show_cmd 4], [show_cmd 4, show_cmd 6],
          [show_cmd 4, show_cmd 6, replace_cmd 4, replace_cmd 4, replace_cmd 6],
          [show_cmd 4, show_cmd 6, replace_cmd 4, replace_cmd 6, replace_cmd 4, replace_cmd 6]})"
proof -
  obtain u cs r where run: "replace_tables (traced run) sha wl request (w, []) = ((u, cs), r)"
    by (metis prod.exhaust)
  note t = traced_replace_tables [of "[]" run sha wl request]
  show ?thesis
  proof (cases r)
    case (Inl e)
    with stripleD(2) [OF t _ run [unfolded Inl]] show ?thesis by (simp add: run failed_runs_def)
  next
    case (Inr x)
    with stripleD(1) [OF t _ run [unfolded Inr]] show ?thesis by (simp add: run full_run_def)
  qed
qed

lemma readline_prefix: "readline n s = take (length (readline n s)) s"
  by (induction n s rule: readline.induct) auto

lemma readline_line:
  assumes "length (readline n s) \<le> m" "ends_with [CHR 0x0A] (readline n s)"
  shows "CHR 0x0A \<in> set (take m s)"
proof -
  have "\<exists>t. readline n s = t @ [CHR 0x0A]"
    using assms(2) unfolding ends_with_def by (metis append_take_drop_id)
  then have "CHR 0x0A \<in> set (readline n s)" by auto
  then have "CHR 0x0A \<in> set (take (length (readline n s)) s)" using readline_prefix by metis
  then show ?thesis by (rule subsetD [OF set_take_subset_set_take [OF assms(1)]])
qed

text \<open>
  C15. A connection affects PF only through a complete, authorised and valid request: if handling it
  ran any command, then the peer was the service user, it sent a line within the size limit, the line
  decoded without duplicate keys to a request the helper accepts, and the whitelist was readable and
  valid.
\<close>

theorem handle_gatekeeping:
  assumes "handle (traced run) sha scan wl peer uid sent (w, []) = ((u, cs), out)" "cs \<noteq> []"
  shows "peer = Inr uid \<and> (\<exists>s v as text ns. sent = Inr s \<and> CHR 0x0A \<in> set (take max_message s) \<and>
    helper_loads scan (readline (max_message + 1) s) = Inr v \<and> parse_request v = Inr as \<and>
    wl = Inr text \<and> helper_parse_whitelist text = Inr ns)"
proof -
  let ?req = "handle_request (traced run) sha scan wl peer uid sent (w, [])"
  have "fst ?req = (u, cs)" using assms(1) by (auto simp: handle_def split: prod.splits sum.splits)
  then have ne: "snd (fst ?req) \<noteq> []" using assms(2) by simp
  obtain p where p: "peer = Inr p" using ne by (cases peer) (simp_all add: handle_request_def)
  then have uid: "p = uid" using ne by (cases "p = uid") (simp_all add: handle_request_def)
  obtain s where s: "sent = Inr s" using ne by (cases sent) (simp_all add: handle_request_def p uid)
  let ?d = "readline (max_message + 1) s"
  have line: "length ?d \<le> max_message" "ends_with [CHR 0x0A] ?d"
    using ne by (auto simp: handle_request_def p uid s Let_def split: if_splits)
  obtain v where v: "helper_loads scan ?d = Inr v"
    using ne line by (cases "helper_loads scan ?d") (auto simp: handle_request_def p uid s Let_def)
  have run: "snd (fst (replace_tables (traced run) sha wl v (w, []))) \<noteq> []"
    using ne line by (auto simp: handle_request_def p uid s v [simplified] Let_def sbind_def split: prod.splits sum.splits)
  obtain as where as: "parse_request v = Inr as"
    using run by (cases "parse_request v") (simp_all add: replace_tables_def)
  obtain ns where "rbind wl helper_parse_whitelist = Inr ns"
    using run as by (cases "rbind wl helper_parse_whitelist"; cases as) (simp_all add: replace_tables_def)
  then show ?thesis
    using p uid s v as readline_line [OF line] by (auto simp: rbind_eq_Inr)
qed

definition sample_raw :: jraw where
  "sample_raw = RObj [(''op'', RStr ''replace''), (''ipv4'', RArr [RStr ''198.51.100.2'']), (''ipv6'', RArr [])]"

lemma handle_gatekeeping_witness:
  "\<exists>out u cs. handle (traced sample_pf) (\<lambda>_. ''d'') (\<lambda>_. Inr sample_raw) (Inr '''') (Inr 65) 65 (Inr [CHR 0x0A])
     (('''', ''''), []) = ((u, cs), out) \<and> cs \<noteq> [] \<and> CHR 0x0A \<in> set (take max_message [CHR 0x0A])"
proof -
  let ?h = "handle (traced sample_pf) (\<lambda>_. ''d'') (\<lambda>_. Inr sample_raw) (Inr '''') (Inr 65) 65 (Inr [CHR 0x0A])
     (('''', ''''), [])"
  have ne: "snd (fst ?h) \<noteq> []" by code_simp
  obtain u cs out where h: "?h = ((u, cs), out)" by (metis prod.exhaust)
  then have "cs \<noteq> []" using ne by simp
  from handle_gatekeeping [OF h this] h this show ?thesis by auto
qed

end
