(* ===== verification/SenderInput.thy ===== *)
theory SenderInput
  imports Validation PyInt
begin

text \<open>
  The input checks of \<^verbatim>\<open>client/sender.py\<close>: UUIDs, addresses, jail names, paths, and the generation
  of UUIDs. The arguments are what the callers pass: decoded JSON or text. The 128 random bits
  behind \<open>uuid.uuid4()\<close> are an argument.
\<close>

definition max_jail :: nat where "max_jail = 128"

subsection \<open>UUIDs\<close>

text \<open>\<open>UUID_RE.fullmatch\<close>: five groups of hexadecimal digits, of version 1 to 5 and the RFC variant.\<close>

definition version_char :: "char \<Rightarrow> bool" where
  "version_char c = (49 \<le> code c \<and> code c \<le> 53)"

definition variant_char :: "char \<Rightarrow> bool" where
  "variant_char c = (c \<in> set ''89abAB'')"

definition uuid_re :: "pystr \<Rightarrow> bool" where
  "uuid_re s =
     (let gs = py_split (CHR ''-'') s in
      map length gs = [8, 4, 4, 4, 12] \<and> list_all (list_all is_hex) gs \<and>
      version_char (hd (gs ! 2)) \<and> variant_char (hd (gs ! 3)))"

definition sender_uuid :: "pystr \<Rightarrow> pystr result" where
  "sender_uuid s = (if uuid_re s then Inr (py_lower s) else Inl ValueError)"

text \<open>\<open>uuid.uuid4()\<close>: 128 random bits with the version nibble and the two variant bits overwritten.\<close>

definition uuid4 :: "nat \<Rightarrow> nat" where
  "uuid4 r =
     (r div 2 ^ 80 * 2 ^ 80 + 4 * 2 ^ 76 + r div 2 ^ 64 mod 2 ^ 12 * 2 ^ 64 + 2 * 2 ^ 62 + r mod 2 ^ 62) mod 2 ^ 128"

definition fresh_uuid :: "nat \<Rightarrow> pystr" where
  "fresh_uuid r = uuid_str (uuid4 r)"

subsection \<open>Addresses, jails, paths\<close>

text \<open>A value without \<open>strip\<close>, one with a percent sign and one that is no literal raise \<open>ValueError\<close>.\<close>

definition canonical_ip :: "json \<Rightarrow> pystr result" where
  "canonical_ip value =
     (case value of
        JStr v \<Rightarrow>
          let text = py_strip v in
          if CHR ''%'' \<in> set text then Inl ValueError
          else (case ip_address text of
              Inl _ \<Rightarrow> Inl ValueError
            | Inr parsed \<Rightarrow> if is_protected parsed then Inl ValueError else Inr (compressed parsed))
      | _ \<Rightarrow> Inl ValueError)"

definition jail_char :: "char \<Rightarrow> bool" where
  "jail_char c = (is_alnum c \<or> c = CHR ''_'' \<or> c = CHR ''.'' \<or> c = CHR ''-'')"

definition sender_jail :: "json \<Rightarrow> pystr result" where
  "sender_jail value =
     (case value of
        JStr s \<Rightarrow>
          if s = '''' \<or> max_jail < length s then Inl ValueError
          else if list_ex (\<lambda>c. \<not> jail_char c) s then Inl ValueError
          else Inr s
      | _ \<Rightarrow> Inl ValueError)"

definition sender_path :: "json option \<Rightarrow> pystr \<Rightarrow> pystr result" where
  "sender_path value name =
     (case value of
        Some (JStr s) \<Rightarrow>
          if s = '''' \<or> hd s \<noteq> CHR ''/'' then Inl (ConfigError (name @ '' must be an absolute path'')) else Inr s
      | _ \<Rightarrow> Inl (ConfigError (name @ '' must be an absolute path'')))"

text \<open>
  \<open>str(value)\<close> of a decoded value. The text of an array starts with a bracket and that of an
  object with a brace, which no caller accepts; these texts are not spelled out.
\<close>

definition json_str :: "json \<Rightarrow> pystr option" where
  "json_str v =
     (case v of
        JNull \<Rightarrow> Some ''None''
      | JBool b \<Rightarrow> Some (if b then ''True'' else ''False'')
      | JInt i \<Rightarrow> Some (int_str i)
      | JFloat (Fin x) \<Rightarrow> Some (float_repr x)
      | JFloat PosInf \<Rightarrow> Some ''inf''
      | JFloat NegInf \<Rightarrow> Some ''-inf''
      | JFloat NaN \<Rightarrow> Some ''nan''
      | JStr s \<Rightarrow> Some s
      | _ \<Rightarrow> None)"

text \<open>\<open>bool(value)\<close>.\<close>

definition truthy :: "json \<Rightarrow> bool" where
  "truthy v =
     (case v of
        JNull \<Rightarrow> False | JBool b \<Rightarrow> b | JInt i \<Rightarrow> i \<noteq> 0 | JFloat f \<Rightarrow> f \<noteq> Fin 0
      | JStr s \<Rightarrow> s \<noteq> '''' | JArr xs \<Rightarrow> xs \<noteq> [] | JObj ps \<Rightarrow> ps \<noteq> [])"

subsection \<open>What the checks return\<close>

lemma canonical_ip_claimable: "canonical_ip v = Inr ip \<Longrightarrow> claimable_ip ip"
  by (cases v) (auto simp: canonical_ip_def Let_def intro: claimable_ip_compressed split: if_splits sum.splits)

lemma canonical_ip_raises: "canonical_ip v = Inl e \<Longrightarrow> e = ValueError"
  by (cases v) (auto simp: canonical_ip_def Let_def split: if_splits sum.splits)

lemma claimable_chars:
  assumes "claimable_ip s" "c \<in> set s"
  shows "is_hex c \<or> c = CHR ''.'' \<or> c = CHR '':''"
proof (rule ccontr)
  assume no: "\<not> ?thesis"
  from assms(1) obtain a where a: "ip_address s = Inr a" "compressed a = s" "CHR ''%'' \<notin> set s"
    by (auto simp: claimable_ip_iff)
  with assms(2) no compressed_chars [of c a] ip_address_no_scope [OF a(1,3)] show False by auto
qed

lemma hex_not_space: "is_hex c \<Longrightarrow> \<not> is_space c"
  using hex_code [of c] by (auto simp: is_space_def Let_def)

lemma claimable_no_space: "claimable_ip s \<Longrightarrow> c \<in> set s \<Longrightarrow> \<not> is_space c"
  using claimable_chars [of s c] hex_not_space [of c] by (auto simp: is_space_def code_def)

lemma canonical_ip_claimed: "claimable_ip ip \<Longrightarrow> canonical_ip (JStr ip) = Inr ip"
  by (auto simp: canonical_ip_def Let_def claimable_ip_iff py_strip_absent claimable_no_space)

lemma canonical_ip_idem: "canonical_ip v = Inr ip \<Longrightarrow> canonical_ip (JStr ip) = Inr ip"
  by (rule canonical_ip_claimed) (rule canonical_ip_claimable)

lemma sender_jail_iff: "sender_jail v = Inr j \<longleftrightarrow> v = JStr j \<and> j \<noteq> '''' \<and> length j \<le> 128 \<and> list_all jail_char j"
  by (cases v) (auto simp: sender_jail_def max_jail_def list_ex_iff list_all_iff)

lemma sender_jail_raises: "sender_jail v = Inl e \<Longrightarrow> e = ValueError"
  by (cases v) (auto simp: sender_jail_def split: if_splits)

text \<open>The sender's names are the receiver's identifiers, but for the first character.\<close>

lemma jail_id_char: "jail_char c \<Longrightarrow> id_char c"
  by (auto simp: jail_char_def id_char_def)

lemma sender_jail_receiver:
  "sender_jail v = Inr j \<Longrightarrow> id_re j \<longleftrightarrow> is_alnum (hd j)"
  by (cases j) (auto simp: sender_jail_iff id_re_def list_all_iff jail_id_char)

subsection \<open>Generated UUIDs\<close>

lemma fixed_digits_nth: "i < k \<Longrightarrow> fixed_digits b k n ! i = n div b ^ (k - 1 - i) mod b"
proof (induction k arbitrary: n)
  case (Suc k)
  show ?case
  proof (cases "i < k")
    case True
    then have "k - i = Suc (k - 1 - i)" by simp
    with Suc.IH [OF True, of "n div b"] True show ?thesis
      by (simp add: nth_append div_mult2_eq)
  qed (use Suc.prems in \<open>simp add: nth_append not_less less_Suc_eq\<close>)
qed simp

lemma radix_val_digits: "(\<And>d. d \<in> set ds \<Longrightarrow> d < 16) \<Longrightarrow> radix_val 16 (map digit_char ds) = horner 16 0 ds"
proof (induction ds rule: rev_induct)
  case (snoc d ds)
  then have "radix_val 16 [digit_char d] = d" by (simp add: radix_val_def digit_val_digit_char)
  with snoc show ?case by (simp add: radix_val_append horner_append)
qed (simp add: radix_val_def)

lemma zfill_hex_digits:
  assumes "n < 16 ^ k" "0 < k"
  shows "zfill k (hex_str n) = map digit_char (fixed_digits 16 k n)"
proof -
  let ?h = "map digit_char (fixed_digits 16 k n)"
  have d: "d < 16" if "d \<in> set (fixed_digits 16 k n)" for d using fixed_digits_less [OF _ that] by simp
  have v: "radix_val 16 ?h = n" using d assms(1) by (simp add: radix_val_digits horner_fixed_digits)
  have "list_all is_lower_hex ?h" using d by (auto simp: list_all_iff is_lower_hex_digit_char)
  from zfill_hex_str_radix_val [OF _ assms(2) this] show ?thesis by (simp add: v)
qed

lemma py_split_uuid_format:
  assumes "CHR ''-'' \<notin> set h"
  shows "py_split (CHR ''-'') (uuid_format h) =
    [take 8 h, take 4 (drop 8 h), take 4 (drop 12 h), take 4 (drop 16 h), drop 20 h]"
proof -
  have part: "CHR ''-'' \<notin> set (take i (drop j h))" "CHR ''-'' \<notin> set (take i h)" "CHR ''-'' \<notin> set (drop j h)" for i j
    using assms by (auto dest: in_set_takeD in_set_dropD)
  show ?thesis
    by (simp add: uuid_format_def py_split_append part py_split_no_sep)
qed

lemma uuid4_bound: "uuid4 r < 2 ^ 128"
  by (simp add: uuid4_def)

lemma uuid4_nibbles:
  "uuid4 r div 16 ^ 19 mod 16 = 4" "8 \<le> uuid4 r div 16 ^ 15 mod 16" "uuid4 r div 16 ^ 15 mod 16 < 12"
proof -
  define a b c where "a = r div 2 ^ 80" and "b = r div 2 ^ 64 mod 2 ^ 12" and "c = r mod 2 ^ 62"
  have bound: "b < 2 ^ 12" "c < 2 ^ 62" by (simp_all add: b_def c_def)
  define m where "m = a * 2 ^ 80 + 4 * 2 ^ 76 + b * 2 ^ 64 + 2 * 2 ^ 62 + c"
  have u: "uuid4 r = m mod 2 ^ 128" by (simp add: uuid4_def m_def a_def b_def c_def)
  have red: "(m mod 2 ^ 128) div 2 ^ k mod 16 = m div 2 ^ k mod 16" if "k \<le> 124" for k
  proof -
    have e: "(128::nat) = k + (128 - k)" "(128::nat) - k = 4 + (124 - k)" using that by simp_all
    have "(m mod 2 ^ 128) div 2 ^ k = m div 2 ^ k mod 2 ^ (128 - k)"
      by (subst (1) e(1), simp only: power_add mod_mult2_eq) simp
    moreover have "(2::nat) ^ (128 - k) = 16 * 2 ^ (124 - k)" by (simp add: e(2) power_add)
    ultimately show ?thesis by (simp add: mod_mult2_eq)
  qed
  have "m div 2 ^ 76 = a * 16 + 4" using bound by (simp add: m_def)
  with red [of 76] show "uuid4 r div 16 ^ 19 mod 16 = 4" by (simp add: u)
  have "m div 2 ^ 60 = (a * 2 ^ 16 + 4 * 2 ^ 12 + b) * 16 + 8 + c div 2 ^ 60"
    by (simp add: m_def algebra_simps)
  moreover have "c div 2 ^ 60 < 4" using bound(2) by (simp add: div_less_iff_less_mult)
  moreover have "(x * 16 + 8 + y) mod 16 = 8 + y" if "y < 4" for x y :: nat
    using that mod_mult_self3 [of x 16 "8 + y"] by (simp add: add.assoc)
  ultimately have "m div 2 ^ 60 mod 16 = 8 + c div 2 ^ 60" by metis
  with red [of 60] \<open>c div 2 ^ 60 < 4\<close>
  show "8 \<le> uuid4 r div 16 ^ 15 mod 16" "uuid4 r div 16 ^ 15 mod 16 < 12" by (simp_all add: u)
qed

lemma variant_digit: "8 \<le> d \<Longrightarrow> d < 12 \<Longrightarrow> variant_char (digit_char d)"
proof -
  assume "8 \<le> d" "d < 12"
  then consider "d = 8" | "d = 9" | "d = 10" | "d = 11" by linarith
  moreover have "variant_char (digit_char 8)" "variant_char (digit_char 9)" "variant_char (digit_char 10)"
      "variant_char (digit_char 11)"
    by code_simp+
  ultimately show ?thesis by cases simp_all
qed

lemma fresh_uuid_canonical: "canonical_uuid (fresh_uuid r)"
  unfolding fresh_uuid_def by (rule canonical_uuid_str) (rule uuid4_bound)

lemma fresh_uuid_re: "uuid_re (fresh_uuid r)"
proof -
  let ?h = "zfill 32 (hex_str (uuid4 r))"
  have h: "?h = map digit_char (fixed_digits 16 32 (uuid4 r))"
    by (rule zfill_hex_digits) (use uuid4_bound [of r] in simp_all)
  then have len: "length ?h = 32" by simp
  have lower: "list_all is_lower_hex ?h" by (rule zfill_lower_hex)
  then have hex: "is_hex c" if "c \<in> set ?h" for c using that lower_hex_facts(1) by (auto simp: list_all_iff)
  have "?h ! 12 = digit_char 4" "variant_char (?h ! 16)"
    using uuid4_nibbles [of r] variant_digit by (simp_all add: h fixed_digits_nth)
  moreover have "version_char (digit_char 4)" by (simp add: version_char_def digit_char_def code_char_of)
  moreover have "hd (take 4 (drop 12 ?h)) = ?h ! 12" "hd (take 4 (drop 16 ?h)) = ?h ! 16"
    using len by (simp_all add: hd_drop_conv_nth)
  ultimately show ?thesis
    using len lower_hex_no_hyphen [OF lower] hex
    by (auto simp: uuid_re_def fresh_uuid_def uuid_str_def py_split_uuid_format list_all_iff
             dest: in_set_takeD in_set_dropD)
qed

end
