(* ===== verification/PyUrl.thy ===== *)
theory PyUrl
  imports Ipaddress
begin

text \<open>
  \<open>urllib.parse.urlsplit\<close> and the attributes of its result, as in CPython 3.11.4 and later:
  leading control characters and embedded tabs and line ends are dropped, a bracketed host must be
  an IPv6 literal, and the port is checked only when it is asked for. The NFKC check of the host
  concerns no character below 256.
\<close>

record split_url =
  su_scheme :: pystr
  su_netloc :: pystr
  su_path :: pystr
  su_query :: pystr
  su_fragment :: pystr

text \<open>\<open>s.partition(c)\<close> without the separator, and the two ends of \<open>s.rpartition(c)\<close>.\<close>

definition before_first :: "char \<Rightarrow> pystr \<Rightarrow> pystr" where
  "before_first c s = takeWhile (\<lambda>x. x \<noteq> c) s"

definition after_first :: "char \<Rightarrow> pystr \<Rightarrow> pystr" where
  "after_first c s = drop 1 (dropWhile (\<lambda>x. x \<noteq> c) s)"

definition after_last :: "char \<Rightarrow> pystr \<Rightarrow> pystr" where
  "after_last c s = rev (takeWhile (\<lambda>x. x \<noteq> c) (rev s))"

definition before_last :: "char \<Rightarrow> pystr \<Rightarrow> pystr" where
  "before_last c s = rev (drop 1 (dropWhile (\<lambda>x. x \<noteq> c) (rev s)))"

definition url_clean :: "pystr \<Rightarrow> pystr" where
  "url_clean s =
     filter (\<lambda>c. code c \<noteq> 9 \<and> code c \<noteq> 10 \<and> code c \<noteq> 13) (dropWhile (\<lambda>c. code c \<le> 32) s)"

definition scheme_char :: "char \<Rightarrow> bool" where
  "scheme_char c = (is_alnum c \<or> c \<in> set ''+-.'')"

definition split_scheme :: "pystr \<Rightarrow> pystr \<times> pystr" where
  "split_scheme url =
     (let p = before_first (CHR '':'') url in
      if CHR '':'' \<in> set url \<and> p \<noteq> '''' \<and> is_alnum (hd p) \<and> \<not> is_dec (hd p) \<and> list_all scheme_char p
      then (py_lower p, after_first (CHR '':'') url) else ('''', url))"

definition netloc_end :: "char \<Rightarrow> bool" where
  "netloc_end c = (c \<in> set ''/?#'')"

text \<open>\<open>_check_bracketed_host\<close>: an IPvFuture literal or an IPv6 address.\<close>

definition ip_future :: "pystr \<Rightarrow> bool" where
  "ip_future host =
     (let v = takeWhile is_hex (tl host); rest = dropWhile is_hex (tl host) in
      v \<noteq> '''' \<and> 2 \<le> length rest \<and> hd rest = CHR ''.'')"

definition bracketed_host_ok :: "pystr \<Rightarrow> bool" where
  "bracketed_host_ok host =
     (if starts_with ''v'' host then ip_future host
      else (case ip_address host of Inr a \<Rightarrow> ip_version a = 6 | Inl _ \<Rightarrow> False))"

definition netloc_ok :: "pystr \<Rightarrow> bool" where
  "netloc_ok netloc =
     (if CHR ''['' \<in> set netloc \<and> CHR '']'' \<in> set netloc
      then bracketed_host_ok (before_first (CHR '']'') (after_first (CHR ''['') netloc))
      else CHR ''['' \<notin> set netloc \<and> CHR '']'' \<notin> set netloc)"

definition urlsplit :: "pystr \<Rightarrow> split_url result" where
  "urlsplit url =
     (let (scheme, u) = split_scheme (url_clean url);
          has = starts_with ''//'' u;
          netloc = (if has then takeWhile (\<lambda>c. \<not> netloc_end c) (drop 2 u) else '''');
          r = (if has then dropWhile (\<lambda>c. \<not> netloc_end c) (drop 2 u) else u);
          q = before_first (CHR ''#'') r in
      if has \<and> \<not> netloc_ok netloc then Inl ValueError
      else Inr \<lparr>su_scheme = scheme, su_netloc = netloc, su_path = before_first (CHR ''?'') q,
                su_query = after_first (CHR ''?'') q, su_fragment = after_first (CHR ''#'') r\<rparr>)"

subsection \<open>Attributes\<close>

definition url_username :: "split_url \<Rightarrow> pystr option" where
  "url_username u =
     (if CHR ''@'' \<in> set (su_netloc u)
      then Some (before_first (CHR '':'') (before_last (CHR ''@'') (su_netloc u))) else None)"

definition url_password :: "split_url \<Rightarrow> pystr option" where
  "url_password u =
     (let info = before_last (CHR ''@'') (su_netloc u) in
      if CHR ''@'' \<in> set (su_netloc u) \<and> CHR '':'' \<in> set info then Some (after_first (CHR '':'') info) else None)"

definition url_hostinfo :: "split_url \<Rightarrow> pystr \<times> pystr" where
  "url_hostinfo u =
     (let info = after_last (CHR ''@'') (su_netloc u) in
      if CHR ''['' \<in> set info
      then let b = after_first (CHR ''['') info in
        (before_first (CHR '']'') b, after_first (CHR '':'') (after_first (CHR '']'') b))
      else (before_first (CHR '':'') info, after_first (CHR '':'') info))"

text \<open>The host is empty for \<open>None\<close>; the scope of an IPv6 address keeps its case.\<close>

definition url_hostname :: "split_url \<Rightarrow> pystr option" where
  "url_hostname u =
     (let h = fst (url_hostinfo u) in
      if h = '''' then None
      else Some (py_lower (before_first (CHR ''%'') h) @ dropWhile (\<lambda>c. c \<noteq> CHR ''%'') h))"

definition url_port :: "split_url \<Rightarrow> nat option result" where
  "url_port u =
     (let p = snd (url_hostinfo u) in
      if p = '''' then Inr None
      else if \<not> is_ascii_digits p then Inl ValueError
      else rbind (py_int_digits p) (\<lambda>n. if n \<le> 65535 then Inr (Some n) else Inl ValueError))"

end
