(* ===== verification/SenderConfig.thy ===== *)
theory SenderConfig
  imports SenderInput PyUrl
begin

text \<open>
  \<open>PermanentJail\<close> and \<open>SenderConfig\<close> of \<^verbatim>\<open>client/sender.py\<close>: the sender's configuration, built from
  decoded JSON and loaded from a file. What \<open>open\<close> and \<open>read\<close> deliver and the JSON scanner are
  arguments.
\<close>

record permanent_jail =
  pj_name :: pystr
  pj_bantime :: int

record sender_config =
  sf_database :: pystr
  sf_endpoint :: pystr
  sf_ca :: pystr
  sf_cert :: pystr
  sf_key :: pystr
  sf_permanent_jails :: "permanent_jail list"
  sf_fail2ban_client :: pystr
  sf_poll_seconds :: rat
  sf_request_timeout :: rat
  sf_initial_backoff :: rat
  sf_max_backoff :: rat

text \<open>\<open>PermanentJail(str(name), bantime)\<close>; the quoted name in the message holds only jail characters.\<close>

definition permanent_jail_init :: "json \<Rightarrow> json \<Rightarrow> permanent_jail result" where
  "permanent_jail_init name bantime =
     (case json_str name of
        None \<Rightarrow> Inl ValueError
      | Some text \<Rightarrow>
          rbind (sender_jail (JStr text)) (\<lambda>n.
            if bantime \<noteq> JInt (- 1)
            then Inl (ConfigError (''permanent jail '' @ [CHR 0x27] @ n @ [CHR 0x27] @ '' must have bantime -1''))
            else Inr \<lparr>pj_name = n, pj_bantime = - 1\<rparr>))"

definition sender_fields :: "pystr list" where
  "sender_fields = [''database'', ''endpoint'', ''tls'', ''permanent_jails'', ''fail2ban_client'',
     ''poll_seconds'', ''request_timeout'', ''initial_backoff'', ''max_backoff'']"

definition insecure_tls_names :: "pystr list" where
  "insecure_tls_names = [''verify'', ''verify_tls'', ''insecure'', ''disable_tls'', ''check_hostname'']"

definition insecure_names :: "pystr list" where
  "insecure_names = [''verify'', ''verify_tls'', ''insecure'', ''insecure_tls'', ''disable_tls'', ''tls_verify'']"

text \<open>The endpoint and its parsed form.\<close>

definition endpoint_field :: "(pystr \<times> json) list \<Rightarrow> (pystr \<times> split_url) result" where
  "endpoint_field raw =
     (case map_of raw ''endpoint'' of
        Some (JStr endpoint) \<Rightarrow>
          (case urlsplit endpoint of
             Inl _ \<Rightarrow> Inl (ConfigError ''endpoint is required'')
           | Inr parsed \<Rightarrow> Inr (endpoint, parsed))
      | _ \<Rightarrow> Inl (ConfigError ''endpoint is required''))"

definition present :: "pystr option \<Rightarrow> bool" where
  "present s = (s \<noteq> None \<and> s \<noteq> Some '''')"

definition check_endpoint :: "split_url \<Rightarrow> unit result" where
  "check_endpoint parsed =
     (if su_scheme parsed \<noteq> ''https'' \<or> \<not> present (url_hostname parsed) \<or> present (url_username parsed) \<or>
         present (url_password parsed)
      then Inl (ConfigError ''endpoint must be an https URL with a hostname'')
      else if su_fragment parsed \<noteq> '''' \<or> su_query parsed \<noteq> ''''
      then Inl (ConfigError ''endpoint must not contain a query or fragment'')
      else rbind (url_port parsed) (\<lambda>port.
        if (case port of None \<Rightarrow> True | Some n \<Rightarrow> 1 \<le> n \<and> n \<le> 65535) then Inr ()
        else Inl (ConfigError ''endpoint port is invalid'')))"

definition first_present :: "pystr list \<Rightarrow> (pystr \<times> json) list \<Rightarrow> pystr option" where
  "first_present names raw = find (\<lambda>n. n \<in> set (jkeys raw)) names"

definition refuse_names :: "pystr \<Rightarrow> pystr list \<Rightarrow> (pystr \<times> json) list \<Rightarrow> unit result" where
  "refuse_names prefix names raw =
     (case first_present names raw of
        None \<Rightarrow> Inr () | Some n \<Rightarrow> Inl (ConfigError (prefix @ n @ '' is not supported'')))"

definition sender_tls :: "(pystr \<times> json) list \<Rightarrow> (pystr \<times> pystr \<times> pystr) result" where
  "sender_tls raw =
     (case map_of raw ''tls'' of
        Some (JObj tls) \<Rightarrow>
          rbind (sender_path (map_of tls ''ca'') ''tls.ca'') (\<lambda>ca.
          rbind (sender_path (map_of tls ''cert'') ''tls.cert'') (\<lambda>cert.
          rbind (sender_path (map_of tls ''key'') ''tls.key'') (\<lambda>key.
          rbind (refuse_names ''tls.'' insecure_tls_names tls) (\<lambda>_.
          rbind (refuse_names '''' insecure_names raw) (\<lambda>_. Inr (ca, cert, key))))))
      | _ \<Rightarrow> Inl (ConfigError ''tls.ca, tls.cert and tls.key are required''))"

text \<open>One round of the loop over \<open>permanent_jails\<close>.\<close>

definition sender_jail_entry :: "json \<Rightarrow> permanent_jail list \<Rightarrow> permanent_jail list result" where
  "sender_jail_entry entry jails =
     (case entry of
        JObj d \<Rightarrow>
          if \<not> set (jkeys d) \<subseteq> {''name'', ''bantime''}
          then Inl (ConfigError ''permanent_jails entries must be {name, bantime}'')
          else rbind (permanent_jail_init (case map_of d ''name'' of None \<Rightarrow> JStr '''' | Some v \<Rightarrow> v)
                        (get_item d ''bantime'')) (\<lambda>jail.
            if pj_name jail \<in> pj_name ` set jails
            then Inl (ConfigError ''permanent_jails contains a duplicate'') else Inr (jails @ [jail]))
      | _ \<Rightarrow> Inl (ConfigError ''permanent_jails entries must be {name, bantime}''))"

definition sender_jails :: "(pystr \<times> json) list \<Rightarrow> permanent_jail list result" where
  "sender_jails raw =
     (case map_of raw ''permanent_jails'' of
        Some (JArr entries) \<Rightarrow>
          if entries = [] then Inl (ConfigError ''permanent_jails must contain configured bantime=-1 jails'')
          else rfold sender_jail_entry entries []
      | _ \<Rightarrow> Inl (ConfigError ''permanent_jails must contain configured bantime=-1 jails''))"

text \<open>\<open>positive\<close>: \<open>math.isfinite\<close> of an integer beyond the floats raises \<open>OverflowError\<close>.\<close>

definition positive :: "(pystr \<times> json) list \<Rightarrow> pystr \<Rightarrow> rat \<Rightarrow> rat result" where
  "positive raw name dflt =
     (let bad = ConfigError (name @ '' must be positive'') in
      case map_of raw name of
        None \<Rightarrow> Inr dflt
      | Some (JInt i) \<Rightarrow> rbind (float_of_int i) (\<lambda>x. if i \<le> 0 then Inl bad else Inr x)
      | Some (JFloat (Fin x)) \<Rightarrow> if x \<le> 0 then Inl bad else Inr x
      | Some _ \<Rightarrow> Inl bad)"

definition api_base :: "pystr \<Rightarrow> split_url \<Rightarrow> pystr result" where
  "api_base endpoint parsed =
     (let base = py_rstrip_char (CHR ''/'') endpoint in
      if su_path parsed = '''' \<or> su_path parsed = ''/'' then Inr (base @ ''/v1'')
      else if py_rstrip_char (CHR ''/'') (su_path parsed) \<noteq> ''/v1''
      then Inl (ConfigError ''endpoint path must be /v1 (or omitted)'')
      else Inr base)"

definition sender_from_dict :: "json \<Rightarrow> sender_config result" where
  "sender_from_dict v =
     (case v of
        JObj raw \<Rightarrow>
          if \<not> set (jkeys raw) \<subseteq> set sender_fields then Inl (ConfigError ''unknown configuration field'')
          else
            rbind (endpoint_field raw) (\<lambda>(endpoint, parsed).
            rbind (check_endpoint parsed) (\<lambda>_.
            rbind (sender_tls raw) (\<lambda>(ca, cert, key).
            rbind (sender_jails raw) (\<lambda>jails.
            rbind (sender_path (Some (case map_of raw ''fail2ban_client'' of
                       None \<Rightarrow> JStr ''/usr/bin/fail2ban-client'' | Some c \<Rightarrow> c)) ''fail2ban_client'') (\<lambda>command.
            rbind (positive raw ''initial_backoff'' 1) (\<lambda>initial.
            rbind (positive raw ''max_backoff'' 300) (\<lambda>maximum.
              if maximum < initial then Inl (ConfigError ''max_backoff must be at least initial_backoff'')
              else
                rbind (api_base endpoint parsed) (\<lambda>base.
                rbind (sender_path (map_of raw ''database'') ''database'') (\<lambda>database.
                rbind (positive raw ''poll_seconds'' 5) (\<lambda>poll.
                rbind (positive raw ''request_timeout'' 10) (\<lambda>timeout.
                  Inr \<lparr>sf_database = database, sf_endpoint = base, sf_ca = ca, sf_cert = cert, sf_key = key,
                       sf_permanent_jails = jails, sf_fail2ban_client = command, sf_poll_seconds = poll,
                       sf_request_timeout = timeout, sf_initial_backoff = initial,
                       sf_max_backoff = maximum\<rparr>)))))))))))
      | _ \<Rightarrow> Inl (ConfigError ''configuration must be an object''))"

text \<open>\<open>SenderConfig.load\<close>: \<open>reads\<close> opens and reads a file.\<close>

definition sender_duplicate :: "pystr \<Rightarrow> exn" where
  "sender_duplicate _ = ConfigError ''duplicate configuration field''"

definition sender_constant :: "pystr \<Rightarrow> json result" where
  "sender_constant _ = Inl (ConfigError ''non-finite JSON number'')"

definition sender_load :: "(pystr \<Rightarrow> pystr result) \<Rightarrow> (pystr \<Rightarrow> jraw result) \<Rightarrow> pystr \<Rightarrow> sender_config result" where
  "sender_load reads scan path =
     rbind (sender_path (Some (JStr path)) ''config'') (\<lambda>config_path.
       case rbind (reads config_path) (\<lambda>data. rbind (scan data) (decode_raw sender_duplicate sender_constant)) of
         Inl e \<Rightarrow> Inl (if is_OSError e \<or> is_ValueError e then ConfigError ''could not read sender configuration'' else e)
       | Inr raw \<Rightarrow> sender_from_dict raw)"


subsection \<open>What an accepted configuration guarantees\<close>

lemma sender_path_iff: "sender_path v name = Inr s \<longleftrightarrow> v = Some (JStr s) \<and> s \<noteq> '''' \<and> hd s = CHR ''/''"
  by (cases v; cases "the v") (auto simp: sender_path_def split: if_splits)

lemma permanent_jail_init_ok:
  "permanent_jail_init name bantime = Inr j \<Longrightarrow>
   bantime = JInt (- 1) \<and> pj_bantime j = - 1 \<and> sender_jail (JStr (pj_name j)) = Inr (pj_name j)"
  by (auto simp: permanent_jail_init_def result_simps sender_jail_iff split: option.splits if_splits)

definition jails_ok :: "permanent_jail list \<Rightarrow> bool" where
  "jails_ok js \<longleftrightarrow> distinct (map pj_name js) \<and>
     (\<forall>j \<in> set js. pj_bantime j = - 1 \<and> sender_jail (JStr (pj_name j)) = Inr (pj_name j))"

lemma sender_jail_entry_ok: "sender_jail_entry v js = Inr js' \<Longrightarrow> jails_ok js \<Longrightarrow> jails_ok js' \<and> js' \<noteq> []"
  by (auto simp: sender_jail_entry_def jails_ok_def result_simps split: json.splits if_splits
           dest!: permanent_jail_init_ok)

lemma sender_jails_ok:
  assumes "sender_jails raw = Inr js"
  shows "jails_ok js \<and> js \<noteq> []"
proof -
  from assms obtain vs where vs: "vs \<noteq> []" "rfold sender_jail_entry vs [] = Inr js"
    by (auto simp: sender_jails_def split: option.splits json.splits if_splits)
  then obtain v ws where run: "rfold sender_jail_entry (v # ws) [] = Inr js" by (cases vs) auto
  then obtain js1 where js1: "sender_jail_entry v [] = Inr js1" "rfold sender_jail_entry ws js1 = Inr js"
    by (auto simp: result_simps)
  have first: "jails_ok js1 \<and> js1 \<noteq> []" by (rule sender_jail_entry_ok [OF js1(1)]) (simp add: jails_ok_def)
  show ?thesis
    by (rule rfold_invariant [where P = "\<lambda>js. jails_ok js \<and> js \<noteq> []", OF js1(2) first])
       (use sender_jail_entry_ok in blast)
qed

lemma sender_tls_ok:
  assumes "sender_tls raw = Inr (ca, cert, key)"
  shows "hd ca = CHR ''/'' \<and> hd cert = CHR ''/'' \<and> hd key = CHR ''/''"
  using assms by (auto simp: sender_tls_def result_simps sender_path_iff split: option.splits json.splits)

text \<open>The steps of an accepting run.\<close>

lemma from_dict_run:
  assumes "sender_from_dict v = Inr cfg"
  obtains raw endpoint parsed where "v = JObj raw" "endpoint_field raw = Inr (endpoint, parsed)"
    "check_endpoint parsed = Inr ()" "api_base endpoint parsed = Inr (sf_endpoint cfg)"
    "sender_tls raw = Inr (sf_ca cfg, sf_cert cfg, sf_key cfg)" "sender_jails raw = Inr (sf_permanent_jails cfg)"
    "hd (sf_fail2ban_client cfg) = CHR ''/''" "hd (sf_database cfg) = CHR ''/''"
    "sf_initial_backoff cfg \<le> sf_max_backoff cfg"
proof -
  obtain raw where v: "v = JObj raw"
    using assms by (cases v) (simp_all add: sender_from_dict_def)
  with assms that show ?thesis
    by (auto simp: sender_from_dict_def result_simps sender_path_iff not_less split: if_splits)
qed

text \<open>
  An accepted configuration names absolute paths, at least one permanent jail, each once, with
  a valid name and \<open>bantime\<close> -1, and an initial backoff of at most the maximal one.
\<close>

theorem sender_config_guarantees:
  assumes "sender_from_dict v = Inr cfg"
  shows "(\<forall>p \<in> {sf_database cfg, sf_ca cfg, sf_cert cfg, sf_key cfg, sf_fail2ban_client cfg}. hd p = CHR ''/'') \<and>
    sf_permanent_jails cfg \<noteq> [] \<and> distinct (map pj_name (sf_permanent_jails cfg)) \<and>
    (\<forall>j \<in> set (sf_permanent_jails cfg). pj_bantime j = - 1 \<and> sender_jail (JStr (pj_name j)) = Inr (pj_name j)) \<and>
    sf_initial_backoff cfg \<le> sf_max_backoff cfg"
proof -
  obtain raw where "sender_tls raw = Inr (sf_ca cfg, sf_cert cfg, sf_key cfg)"
    "sender_jails raw = Inr (sf_permanent_jails cfg)"
    "hd (sf_fail2ban_client cfg) = CHR ''/''" "hd (sf_database cfg) = CHR ''/''"
    "sf_initial_backoff cfg \<le> sf_max_backoff cfg"
    using assms by (rule from_dict_run)
  with sender_tls_ok sender_jails_ok show ?thesis by (auto simp: jails_ok_def)
qed

definition sample_sender_json :: "pystr \<Rightarrow> json" where
  "sample_sender_json endpoint = JObj
     [(''database'', JStr ''/var/db/sender.sqlite''), (''endpoint'', JStr endpoint),
      (''tls'', JObj [(''ca'', JStr ''/etc/ca.pem''), (''cert'', JStr ''/etc/cert.pem''), (''key'', JStr ''/etc/key.pem'')]),
      (''permanent_jails'', JArr [JObj [(''name'', JStr ''sshd''), (''bantime'', JInt (- 1))]])]"

definition sample_sender_config :: "pystr \<Rightarrow> sender_config" where
  "sample_sender_config base =
     \<lparr>sf_database = ''/var/db/sender.sqlite'', sf_endpoint = base, sf_ca = ''/etc/ca.pem'',
      sf_cert = ''/etc/cert.pem'', sf_key = ''/etc/key.pem'',
      sf_permanent_jails = [\<lparr>pj_name = ''sshd'', pj_bantime = - 1\<rparr>],
      sf_fail2ban_client = ''/usr/bin/fail2ban-client'', sf_poll_seconds = 5, sf_request_timeout = 10,
      sf_initial_backoff = 1, sf_max_backoff = 300\<rparr>"

lemma sample_sender_accepted:
  "sender_from_dict (sample_sender_json ''https://h.example/'') = Inr (sample_sender_config ''https://h.example/v1'')"
  by code_simp

lemma sender_config_guarantees_witness:
  "sf_initial_backoff (sample_sender_config ''https://h.example/v1'') \<le> sf_max_backoff (sample_sender_config ''https://h.example/v1'') \<and>
   distinct (map pj_name (sf_permanent_jails (sample_sender_config ''https://h.example/v1'')))"
  using sender_config_guarantees [OF sample_sender_accepted] by blast


subsection \<open>Where requests go\<close>

lemma rstrip_append: "s \<noteq> [] \<Longrightarrow> last s \<noteq> c \<Longrightarrow> py_rstrip_char c s = s \<and> py_rstrip_char c (s @ [c]) = s"
  by (cases s rule: rev_cases) (simp_all add: py_rstrip_char_def)

lemma rstrip_prefix: "py_rstrip_char c s \<noteq> [] \<Longrightarrow> py_rstrip_char c (p @ s) = p @ py_rstrip_char c s"
  by (auto simp: py_rstrip_char_def dropWhile_append)

definition url_bad :: "char \<Rightarrow> bool" where
  "url_bad c = (code c = 9 \<or> code c = 10 \<or> code c = 13)"

lemma url_clean_id: "\<forall>c \<in> set s. \<not> url_bad c \<Longrightarrow> s = '''' \<or> 32 < code (hd s) \<Longrightarrow> url_clean s = s"
  by (cases s) (auto simp: url_clean_def url_bad_def)

lemma url_clean_good: "c \<in> set (url_clean s) \<Longrightarrow> \<not> url_bad c"
  by (auto simp: url_clean_def url_bad_def)

lemma before_first_append: "c \<notin> set p \<Longrightarrow> before_first c (p @ c # s) = p"
  unfolding before_first_def by (induction p) auto

lemma after_first_append: "c \<notin> set p \<Longrightarrow> after_first c (p @ c # s) = s"
  unfolding after_first_def by (induction p) auto

lemma before_first_absent: "c \<notin> set s \<Longrightarrow> before_first c s = s"
  unfolding before_first_def by (induction s) auto

lemma after_first_absent: "c \<notin> set s \<Longrightarrow> after_first c s = ''''"
  unfolding after_first_def by (induction s) auto

lemma split_first: "c \<in> set s \<Longrightarrow> s = before_first c s @ c # after_first c s"
  unfolding before_first_def after_first_def
  by (induction s) auto

lemma colon_not_scheme: "list_all scheme_char p \<Longrightarrow> CHR '':'' \<notin> set p"
proof -
  have "\<not> scheme_char (CHR '':'')" by code_simp
  then show "list_all scheme_char p \<Longrightarrow> ?thesis" by (auto simp: list_all_iff)
qed

text \<open>The shape of a URL that splits into a scheme, a host part and a path.\<close>

definition url_shape :: "pystr \<Rightarrow> pystr \<Rightarrow> pystr \<Rightarrow> bool" where
  "url_shape p n path \<longleftrightarrow> p \<noteq> '''' \<and> is_alnum (hd p) \<and> \<not> is_dec (hd p) \<and> list_all scheme_char p \<and>
     (\<forall>c \<in> set n. \<not> netloc_end c) \<and> netloc_ok n \<and> (path = '''' \<or> hd path = CHR ''/'') \<and>
     CHR ''?'' \<notin> set path \<and> CHR ''#'' \<notin> set path \<and> (\<forall>c \<in> set (p @ n @ path). \<not> url_bad c)"

lemma urlsplit_shape:
  assumes "url_shape p n path"
  shows "urlsplit (p @ ''://'' @ n @ path) =
    Inr \<lparr>su_scheme = py_lower p, su_netloc = n, su_path = path, su_query = '''', su_fragment = ''''\<rparr>"
proof -
  let ?s = "p @ CHR '':'' # ''//'' @ n @ path"
  have p: "p \<noteq> ''''" "is_alnum (hd p)" "\<not> is_dec (hd p)" "list_all scheme_char p" "CHR '':'' \<notin> set p"
    using assms colon_not_scheme by (auto simp: url_shape_def)
  have "32 < code (hd ?s)" using p(1,2) by (auto simp: is_alnum_def is_dec_def Let_def)
  moreover have "\<forall>c \<in> set ?s. \<not> url_bad c"
  proof -
    have "\<not> url_bad (CHR '':'')" "\<not> url_bad (CHR ''/'')" by code_simp+
    then show ?thesis using assms by (auto simp: url_shape_def)
  qed
  ultimately have clean: "url_clean ?s = ?s" by (intro url_clean_id) auto
  have scheme: "split_scheme ?s = (py_lower p, ''//'' @ n @ path)"
    using p by (simp add: split_scheme_def Let_def before_first_append after_first_append)
  have end_slash: "netloc_end (CHR ''/'')" by code_simp
  have n: "takeWhile (\<lambda>c. \<not> netloc_end c) (n @ path) = n" "dropWhile (\<lambda>c. \<not> netloc_end c) (n @ path) = path"
    using assms end_slash
    by (cases path; auto simp: url_shape_def takeWhile_append2 dropWhile_append2)+
  show ?thesis
    using assms clean scheme n
    by (simp add: urlsplit_def Let_def starts_with_def url_shape_def before_first_absent after_first_absent)
qed

lemma endpoint_shape:
  assumes "urlsplit e = Inr u" "check_endpoint u = Inr ()" "url_clean e = e" "CHR ''?'' \<notin> set e" "CHR ''#'' \<notin> set e"
  obtains p where "url_shape p (su_netloc u) (su_path u)" "e = p @ ''://'' @ su_netloc u @ su_path u"
    "py_lower p = ''https''" "su_netloc u \<noteq> ''''"
proof -
  obtain sch w where sch: "split_scheme e = (sch, w)" by fastforce
  have https: "su_scheme u = ''https''" and host: "url_hostname u \<noteq> None"
    using assms(2) by (auto simp: check_endpoint_def present_def split: if_splits)
  from assms(1,3) sch have su: "su_scheme u = sch"
    by (auto simp: urlsplit_def Let_def split: if_splits)
  let ?p = "before_first (CHR '':'') e"
  have p: "CHR '':'' \<in> set e" "?p \<noteq> ''''" "is_alnum (hd ?p)" "\<not> is_dec (hd ?p)" "list_all scheme_char ?p"
      "py_lower ?p = ''https''" "w = after_first (CHR '':'') e"
    using sch su https by (auto simp: split_scheme_def Let_def split: if_splits)
  have e1: "e = ?p @ CHR '':'' # w" using split_first [OF p(1)] p(7) by simp
  have has: "starts_with ''//'' w"
  proof (rule ccontr)
    assume "\<not> ?thesis"
    with assms(1,3) sch have "su_netloc u = ''''" by (auto simp: urlsplit_def Let_def)
    with host show False by (simp add: url_hostname_def url_hostinfo_def after_last_def before_first_def)
  qed
  then have w: "w = ''//'' @ drop 2 w" by (metis append_take_drop_id length_Cons list.size(3) numeral_2_eq_2 starts_with_def)
  let ?n = "takeWhile (\<lambda>c. \<not> netloc_end c) (drop 2 w)" and ?r = "dropWhile (\<lambda>c. \<not> netloc_end c) (drop 2 w)"
  have r: "CHR ''?'' \<notin> set ?r" "CHR ''#'' \<notin> set ?r"
    using assms(4,5) e1 w set_dropWhileD by (metis Un_iff set_append set_subset_Cons subsetD)+
  have u: "su_netloc u = ?n" "su_path u = ?r" "netloc_ok ?n"
    using assms(1,3) sch has r by (auto simp: urlsplit_def Let_def before_first_absent split: if_splits)
  have "?r = '''' \<or> hd ?r = CHR ''/''"
  proof (rule disjCI)
    assume ne: "hd ?r \<noteq> CHR ''/''"
    show "?r = ''''"
    proof (rule ccontr)
      assume "?r \<noteq> ''''"
      then have "netloc_end (hd ?r)" "hd ?r \<in> set ?r"
        using hd_dropWhile [of "\<lambda>c. \<not> netloc_end c" "drop 2 w"] hd_in_set by auto
      with ne r show False by (auto simp: netloc_end_def)
    qed
  qed
  moreover have e: "e = ?p @ ''://'' @ su_netloc u @ su_path u"
    using e1 w u by simp
  moreover have "\<forall>c \<in> set (?p @ su_netloc u @ su_path u). \<not> url_bad c"
  proof -
    have "set (?p @ su_netloc u @ su_path u) \<subseteq> set e"
      using arg_cong [OF e, of set] by auto
    then show ?thesis using url_clean_good [of _ e] assms(3) by auto
  qed
  moreover have "\<forall>c \<in> set (su_netloc u). \<not> netloc_end c" using u(1) by (auto dest: set_takeWhileD)
  ultimately have "url_shape ?p (su_netloc u) (su_path u)"
    unfolding url_shape_def using p(2-5) r u by simp
  moreover have "su_netloc u \<noteq> ''''"
    using host by (auto simp: url_hostname_def url_hostinfo_def after_last_def before_first_def)
  ultimately show ?thesis using e p(6) that by blast
qed


text \<open>
  Requests reach the configured host: if the endpoint of an accepted configuration contains
  no question mark, hash sign, tab or line end, then the URL that events are posted to has its
  scheme, its host part and the path \<open>/v1/events\<close>, without a query or a fragment.
\<close>

theorem sender_endpoint_target:
  assumes "sender_from_dict (JObj raw) = Inr cfg" "map_of raw ''endpoint'' = Some (JStr e)"
    and "CHR ''?'' \<notin> set e" "CHR ''#'' \<notin> set e" "url_clean e = e"
  shows "\<exists>u. urlsplit e = Inr u \<and> urlsplit (sf_endpoint cfg @ ''/events'') =
    Inr \<lparr>su_scheme = ''https'', su_netloc = su_netloc u, su_path = ''/v1/events'', su_query = '''', su_fragment = ''''\<rparr>"
proof -
  obtain u where u: "urlsplit e = Inr u" "check_endpoint u = Inr ()" "api_base e u = Inr (sf_endpoint cfg)"
  proof -
    obtain raw' e' u where "JObj raw = JObj raw'" "endpoint_field raw' = Inr (e', u)" "check_endpoint u = Inr ()"
        "api_base e' u = Inr (sf_endpoint cfg)"
      using assms(1) by (rule from_dict_run)
    with assms(2) that show ?thesis by (auto simp: endpoint_field_def split: sum.splits)
  qed
  obtain p where shape: "url_shape p (su_netloc u) (su_path u)" and e: "e = p @ ''://'' @ su_netloc u @ su_path u"
      and p: "py_lower p = ''https''" and n: "su_netloc u \<noteq> ''''"
    using endpoint_shape [OF u(1,2) assms(5,3,4)] by blast
  have last: "last (su_netloc u) \<noteq> CHR ''/''"
  proof -
    have "netloc_end (CHR ''/'')" by code_simp
    then show ?thesis using shape last_in_set [OF n] by (auto simp: url_shape_def)
  qed
  have base: "sf_endpoint cfg = p @ ''://'' @ su_netloc u @ ''/v1''"
  proof (cases "su_path u = '''' \<or> su_path u = ''/''")
    case True
    then have "py_rstrip_char (CHR ''/'') e = p @ ''://'' @ su_netloc u"
      using rstrip_append [of "p @ ''://'' @ su_netloc u" "CHR ''/''"] last n e by auto
    with True u(3) show ?thesis by (auto simp: api_base_def)
  next
    case False
    with u(3) have strip: "py_rstrip_char (CHR ''/'') (su_path u) = ''/v1''" "sf_endpoint cfg = py_rstrip_char (CHR ''/'') e"
      by (auto simp: api_base_def Let_def split: if_splits)
    then show ?thesis using rstrip_prefix [of "CHR ''/''" "su_path u" "p @ ''://'' @ su_netloc u"] e by simp
  qed
  have "\<not> url_bad (CHR ''/'') \<and> \<not> url_bad (CHR ''v'') \<and> \<not> url_bad (CHR ''1'') \<and> (\<forall>c \<in> set ''events''. \<not> url_bad c)"
    by code_simp
  then have "url_shape p (su_netloc u) ''/v1/events''" using shape by (auto simp: url_shape_def)
  from urlsplit_shape [OF this] p base u(1) show ?thesis by simp
qed

lemma sender_endpoint_target_witness:
  "\<exists>u. urlsplit ''https://h.example/'' = Inr u \<and> urlsplit ''https://h.example/v1/events'' =
    Inr \<lparr>su_scheme = ''https'', su_netloc = su_netloc u, su_path = ''/v1/events'', su_query = '''', su_fragment = ''''\<rparr>"
proof -
  have "url_clean ''https://h.example/'' = ''https://h.example/''" by code_simp
  with sender_endpoint_target [OF sample_sender_accepted [unfolded sample_sender_json_def], of "''https://h.example/''"]
  show ?thesis by (simp add: sample_sender_config_def)
qed

text \<open>The two excluded cases are accepted: an empty query is no query for \<open>urlsplit\<close>.\<close>

lemma empty_query_misdirects:
  "sender_from_dict (sample_sender_json ''https://h.example/?'') = Inr (sample_sender_config ''https://h.example/?/v1'')"
  "map_sum id su_path (urlsplit ''https://h.example/?/v1/events'') = Inr ''/''"
  by code_simp+

end
