(* ===== verification/SenderFail2ban.thy ===== *)
theory SenderFail2ban
  imports SenderConfig
begin

text \<open>
  The reading of Fail2Ban's state in \<^verbatim>\<open>client/sender.py\<close>: the two parsers of the output of
  \<open>fail2ban-client\<close> and the enumeration of the permanent jails. The command is a parameter that maps
  an argument vector and a world to the exit code and the standard output, or to an exception.
\<close>

subsection \<open>The untimed list\<close>

definition token_ip :: "pystr \<Rightarrow> pystr result" where
  "token_ip token =
     (case canonical_ip (JStr (py_rstrip_char (CHR '','') (py_strip token))) of
        Inl _ \<Rightarrow> Inl (EnumerationError ''fail2ban returned an unparseable ban list'')
      | Inr ip \<Rightarrow> Inr ip)"

definition no_duplicates :: "pystr list \<Rightarrow> pystr list result" where
  "no_duplicates ips =
     (if \<not> distinct ips then Inl (EnumerationError ''fail2ban returned duplicate IPs'') else Inr ips)"

definition extract_ips :: "pystr \<Rightarrow> pystr list result" where
  "extract_ips output =
     (if py_strip output = '''' then Inr []
      else rbind (rmap token_ip (concat (map py_words (py_splitlines output)))) no_duplicates)"

subsection \<open>The timed list\<close>

text \<open>
  \<open>_BAN_WITH_TIME.fullmatch(line)\<close>, giving the groups \<open>ip\<close> and \<open>duration\<close>. Every repetition of the
  expression is followed by a character that it cannot contain, but for the tab, which ends the
  maximal run of spaces before the start time; so the match needs no search.
\<close>

definition date_ok :: "pystr \<Rightarrow> bool" where
  "date_ok t =
     (length t = 19 \<and> list_all (\<lambda>i. is_dec (t ! i)) [0, 1, 2, 3, 5, 6, 8, 9, 11, 12, 14, 15, 17, 18] \<and>
      t ! 4 = CHR ''-'' \<and> t ! 7 = CHR ''-'' \<and> t ! 10 = CHR '' '' \<and> t ! 13 = CHR '':'' \<and> t ! 16 = CHR '':'')"

text \<open>A maximal run of characters, and the rest.\<close>

definition run_of :: "(char \<Rightarrow> bool) \<Rightarrow> pystr \<Rightarrow> pystr \<times> pystr" where
  "run_of p s = (takeWhile p s, dropWhile p s)"

definition spaced :: "char \<Rightarrow> pystr \<Rightarrow> pystr option" where
  "spaced c s =
     (let (w, r) = run_of is_space s in
      if w = '''' \<or> r = '''' \<or> hd r \<noteq> c then None
      else let (v, r') = run_of is_space (tl r) in if v = '''' then None else Some r')"

definition match_timed :: "pystr \<Rightarrow> (pystr \<times> pystr) option" where
  "match_timed line =
     (let (ip, r1) = run_of (\<lambda>c. \<not> is_space c) line;
          (w, r2) = run_of is_space r1 in
      if ip = '''' \<or> length w < 2 \<or> last w \<noteq> char_of (9::nat) \<or> \<not> date_ok (take 19 r2) then None
      else (case spaced (CHR ''+'') (drop 19 r2) of
          None \<Rightarrow> None
        | Some r3 \<Rightarrow>
            let sign = (if r3 \<noteq> '''' \<and> hd r3 = CHR ''-'' then ''-'' else '''');
                (digits, r4) = run_of is_dec (drop (length sign) r3) in
            if digits = '''' then None
            else (case spaced (CHR ''='') r4 of
                None \<Rightarrow> None
              | Some r5 \<Rightarrow> if date_ok r5 then Some (ip, sign @ digits) else None)))"

text \<open>One line: the address where the ban is permanent. \<open>int(duration)\<close> has the limit of 4300 digits.\<close>

definition timed_line :: "pystr \<Rightarrow> pystr option result" where
  "timed_line line =
     (case match_timed line of
        None \<Rightarrow> Inl (EnumerationError ''fail2ban returned an unparseable timed ban list'')
      | Some (ip, duration) \<Rightarrow>
          (case canonical_ip (JStr ip) of
             Inl _ \<Rightarrow> Inl (EnumerationError ''fail2ban returned an invalid ban IP'')
           | Inr addr \<Rightarrow> rbind (py_int10 duration) (\<lambda>d. Inr (if d = - 1 then Some addr else None))))"

definition extract_permanent_ips :: "pystr \<Rightarrow> pystr list result" where
  "extract_permanent_ips output =
     (if py_strip output = '''' then Inr []
      else rbind (rmap timed_line (py_splitlines output)) (\<lambda>found. no_duplicates (List.map_filter id found)))"

subsection \<open>Enumeration\<close>

type_synonym 'w runner = "pystr list \<Rightarrow> ('w, int \<times> pystr) action"

definition banip_argv :: "sender_config \<Rightarrow> pystr \<Rightarrow> pystr list" where
  "banip_argv cfg jail = [sf_fail2ban_client cfg, ''get'', jail, ''banip'', ''--with-time'']"

fun subprocess_failure :: "exn \<Rightarrow> bool" where
  "subprocess_failure SubprocessError = True"
| "subprocess_failure e = is_OSError e"

definition permanent_claim :: "pystr \<Rightarrow> pystr \<Rightarrow> (pystr \<times> json) list" where
  "permanent_claim jail ip =
     [(''jail'', JStr jail), (''ip'', JStr ip), (''permanent'', JBool True), (''expires_at'', JNull)]"

definition run_banip :: "'w runner \<Rightarrow> sender_config \<Rightarrow> pystr \<Rightarrow> ('w, int \<times> pystr) action" where
  "run_banip runner cfg jail =
     scatch (runner (banip_argv cfg jail))
       (\<lambda>e. slift (Inl (if subprocess_failure e then EnumerationError ''could not enumerate fail2ban bans'' else e)))"

definition enumerate_jail :: "'w runner \<Rightarrow> sender_config \<Rightarrow> permanent_jail \<Rightarrow> ('w, (pystr \<times> json) list list) action" where
  "enumerate_jail runner cfg jail =
     sbind (run_banip runner cfg (pj_name jail)) (\<lambda>(returncode, stdout).
       if returncode \<noteq> 0 then slift (Inl (EnumerationError ''fail2ban returned an enumeration error''))
       else slift (rbind (extract_permanent_ips stdout) (\<lambda>ips. Inr (map (permanent_claim (pj_name jail)) ips))))"

fun enumerate_jails :: "'w runner \<Rightarrow> sender_config \<Rightarrow> permanent_jail list \<Rightarrow> ('w, (pystr \<times> json) list list) action" where
  "enumerate_jails runner cfg [] = sret []"
| "enumerate_jails runner cfg (jail # jails) =
     sbind (enumerate_jail runner cfg jail) (\<lambda>first.
     sbind (enumerate_jails runner cfg jails) (\<lambda>rest. sret (first @ rest)))"

definition enumerate_permanent_jails :: "sender_config \<Rightarrow> 'w runner \<Rightarrow> ('w, (pystr \<times> json) list list) action" where
  "enumerate_permanent_jails cfg runner = enumerate_jails runner cfg (sf_permanent_jails cfg)"


subsection \<open>Reading back what Fail2Ban prints\<close>

type_synonym timed_ban = "pystr \<times> pystr \<times> int \<times> pystr"

fun timed_text :: "timed_ban \<Rightarrow> pystr" where
  "timed_text (ip, start, duration, finish) =
     ip @ CHR '' '' # char_of (9::nat) # start @ '' + '' @ int_str duration @ '' = '' @ finish"

fun timed_ok :: "timed_ban \<Rightarrow> bool" where
  "timed_ok (ip, start, duration, finish) =
     (claimable_ip ip \<and> date_ok start \<and> date_ok finish \<and> - 1 \<le> duration \<and> duration < 2 ^ 63)"

fun permanent_ip :: "timed_ban \<Rightarrow> pystr option" where
  "permanent_ip (ip, start, duration, finish) = (if duration = - 1 then Some ip else None)"

lemma space_chars: "is_space (CHR '' '')" "is_space (char_of (9::nat))" "\<not> is_space (CHR ''+'')" "\<not> is_space (CHR ''='')"
  "\<not> is_space (CHR ''-'')" "\<not> is_dec (CHR '' '')" "\<not> is_dec (CHR ''-'')"
  by code_simp+

lemma linebreak_space: "is_linebreak c \<Longrightarrow> is_space c"
  by (auto simp: is_linebreak_def is_space_def Let_def)

lemma run_of_append:
  "(\<And>c. c \<in> set a \<Longrightarrow> p c) \<Longrightarrow> b = [] \<or> \<not> p (hd b) \<Longrightarrow> run_of p (a @ b) = (a, b)"
  by (cases b) (auto simp: run_of_def takeWhile_append2 dropWhile_append2)

lemma date_ok_head: "date_ok t \<Longrightarrow> length t = 19 \<and> t \<noteq> [] \<and> is_dec (hd t)"
  by (cases t) (auto simp: date_ok_def)

lemma date_ok_chars:
  assumes "date_ok t" "c \<in> set t"
  shows "is_dec c \<or> c = CHR ''-'' \<or> c = CHR '':'' \<or> c = CHR '' ''"
proof -
  let ?digits = "[0, 1, 2, 3, 5, 6, 8, 9, 11, 12, 14, 15, 17, 18] :: nat list"
  obtain i where i: "i < 19" "c = t ! i" using assms by (auto simp: date_ok_def in_set_conv_nth)
  have "list_all (\<lambda>i. i \<in> set (?digits @ [4, 7, 10, 13, 16])) [0 ..< 19]" by code_simp
  then have "\<forall>i \<in> {0 ..< 19}. i \<in> set ?digits \<or> i \<in> {4, 7, 10, 13, 16}"
    unfolding list_all_iff set_upt set_append by auto
  then have "i \<in> set ?digits \<or> i \<in> {4, 7, 10, 13, 16}" using i(1) by simp
  then consider "i \<in> set ?digits" | "i \<in> {4, 7, 10, 13, 16}" by blast
  then show ?thesis
  proof cases
    case 1
    moreover have "list_all (\<lambda>i. is_dec (t ! i)) ?digits" using assms(1) by (simp add: date_ok_def)
    ultimately show ?thesis using i(2) by (metis list_all_iff)
  next
    case 2
    then show ?thesis using assms(1) i(2) by (auto simp: date_ok_def)
  qed
qed

lemma date_no_linebreak: "date_ok t \<Longrightarrow> c \<in> set t \<Longrightarrow> \<not> is_linebreak c"
proof -
  assume "date_ok t" "c \<in> set t"
  from date_ok_chars [OF this] have "is_dec c \<or> c = CHR ''-'' \<or> c = CHR '':'' \<or> c = CHR '' ''" .
  moreover have "\<not> is_linebreak (CHR ''-'')" "\<not> is_linebreak (CHR '':'')" "\<not> is_linebreak (CHR '' '')" by code_simp+
  ultimately show ?thesis using dec_not_space linebreak_space by blast
qed

lemma spaced_text: "r = [] \<or> \<not> is_space (hd r) \<Longrightarrow> \<not> is_space c \<Longrightarrow> spaced c ([CHR '' '', c, CHR '' ''] @ r) = Some r"
  by (cases r) (auto simp: spaced_def run_of_def space_chars)

lemma int_str_parts:
  assumes "- 1 \<le> d" "d < 2 ^ 63"
  obtains sign digits where "int_str d = sign @ digits" "digits \<noteq> []" "list_all is_dec digits" "sign = ''-'' \<or> sign = []"
    "py_int10 (int_str d) = Inr d"
proof (cases "d < 0")
  case True
  then have "d = - 1" using assms(1) by simp
  moreover have "int_str (- 1) = ''-'' @ ''1''" "list_all is_dec ''1''" "py_int10 (int_str (- 1)) = Inr (- 1)" by code_simp+
  ultimately show ?thesis using that [of "''-''" "''1''"] by simp
next
  case False
  then have "nat d < 10 ^ Suc 18" using assms(2) by simp
  then have "length (dec_str (nat d)) \<le> 4300" using radix_str_length [of 10 "nat d" 18] by simp
  with False that [of "[]" "dec_str (nat d)"] dec_str_digits [of "nat d"] show ?thesis
    by (simp add: int_str_def is_ascii_digits_def py_int10_dec_str)
qed

lemma match_timed_eq:
  assumes "run_of (\<lambda>c. \<not> is_space c) line = (ip, r1)" "run_of is_space r1 = (w, r2)" "ip \<noteq> []" "2 \<le> length w"
    "last w = char_of (9::nat)" "date_ok (take 19 r2)" "spaced (CHR ''+'') (drop 19 r2) = Some r3"
    "sign = (if r3 \<noteq> [] \<and> hd r3 = CHR ''-'' then ''-'' else [])"
    "run_of is_dec (drop (length sign) r3) = (digits, r4)" "digits \<noteq> []" "spaced (CHR ''='') r4 = Some r5" "date_ok r5"
  shows "match_timed line = Some (ip, sign @ digits)"
  using assms by (simp add: match_timed_def Let_def)

lemma match_timed_text:
  assumes "timed_ok (ip, start, d, finish)"
  shows "match_timed (timed_text (ip, start, d, finish)) = Some (ip, int_str d)"
proof -
  have ok: "claimable_ip ip" "date_ok start" "date_ok finish" "- 1 \<le> d" "d < 2 ^ 63" using assms by simp_all
  obtain sign digits where i: "int_str d = sign @ digits" "digits \<noteq> []" "list_all is_dec digits" "sign = ''-'' \<or> sign = []"
    using int_str_parts [OF ok(4,5)] by metis
  have ne: "ip \<noteq> []" using ok(1) by (auto simp: claimable_ip_def ip_address_def ipv4_address_def ipv6_address_def
      v4_int_from_string_def v6_int_from_string_def split_scope_id_def split: sum.splits)
  let ?tail = "'' + '' @ int_str d @ '' = '' @ finish"
  have r1: "run_of (\<lambda>c. \<not> is_space c) (timed_text (ip, start, d, finish)) = (ip, CHR '' '' # char_of (9::nat) # start @ ?tail)"
    using run_of_append [of ip "\<lambda>c. \<not> is_space c" "CHR '' '' # char_of (9::nat) # start @ ?tail"] claimable_no_space [OF ok(1)]
    by (simp add: space_chars)
  have s: "start \<noteq> []" "\<not> is_space (hd start)" using date_ok_head [OF ok(2)] dec_not_space by auto
  have "run_of is_space ([CHR '' '', char_of (9::nat)] @ start @ ?tail) = ([CHR '' '', char_of (9::nat)], start @ ?tail)"
    by (rule run_of_append) (use s space_chars in auto)
  then have r2: "run_of is_space (CHR '' '' # char_of (9::nat) # start @ ?tail) = ([CHR '' '', char_of (9::nat)], start @ ?tail)"
    by simp
  have t: "take 19 (start @ ?tail) = start" "drop 19 (start @ ?tail) = ?tail" using date_ok_head [OF ok(2)] by simp_all
  have hd_int: "int_str d \<noteq> []" "\<not> is_space (hd (int_str d))"
    using i dec_not_space space_chars(5) by (auto simp: list_all_iff)
  have sp1: "spaced (CHR ''+'') ?tail = Some (int_str d @ '' = '' @ finish)"
    using spaced_text [of "int_str d @ '' = '' @ finish" "CHR ''+''"] hd_int space_chars(3) by simp
  have sign: "(if int_str d @ '' = '' @ finish \<noteq> '''' \<and> hd (int_str d @ '' = '' @ finish) = CHR ''-'' then ''-'' else '''') = sign"
    using i space_chars(7) by (cases digits) auto
  have digits: "run_of is_dec (drop (length sign) (int_str d @ '' = '' @ finish)) = (digits, '' = '' @ finish)"
    using run_of_append [of digits is_dec "'' = '' @ finish"] i by (simp add: list_all_iff space_chars)
  have f: "finish \<noteq> []" "\<not> is_space (hd finish)" using date_ok_head [OF ok(3)] dec_not_space by auto
  have sp2: "spaced (CHR ''='') ('' = '' @ finish) = Some finish"
    using spaced_text [of finish "CHR ''=''"] f space_chars(4) by simp
  have "match_timed (timed_text (ip, start, d, finish)) = Some (ip, sign @ digits)"
    by (rule match_timed_eq [OF r1 r2 ne _ _ _ _ sign [symmetric] digits i(2) sp2 ok(3)])
       (use ok(2) in \<open>simp_all only: t sp1\<close>, simp_all)
  then show ?thesis by (simp add: i(1))
qed

lemma timed_line_text: "timed_ok b \<Longrightarrow> timed_line (timed_text b) = Inr (permanent_ip b)"
proof (cases b)
  case (fields ip start d finish)
  assume ok: "timed_ok b"
  then have m: "match_timed (timed_text b) = Some (ip, int_str d)" unfolding fields by (rule match_timed_text)
  have "- 1 \<le> d" "d < 2 ^ 63" using ok fields by simp_all
  then have "py_int10 (int_str d) = Inr d" using int_str_parts by metis
  with ok m fields show ?thesis by (simp add: timed_line_def canonical_ip_claimed)
qed

lemma timed_text_no_linebreak: "timed_ok b \<Longrightarrow> c \<in> set (timed_text b) \<Longrightarrow> \<not> is_linebreak c"
proof (cases b)
  case (fields ip start d finish)
  assume ok: "timed_ok b" and c: "c \<in> set (timed_text b)"
  have "\<not> is_linebreak (CHR '' '')" "\<not> is_linebreak (char_of (9::nat))" "\<not> is_linebreak (CHR ''+'')"
    "\<not> is_linebreak (CHR ''='')" "\<not> is_linebreak (CHR ''-'')" by code_simp+
  moreover have "\<not> is_linebreak c" if "c \<in> set ip" using that ok fields claimable_no_space linebreak_space by auto
  moreover have "\<not> is_linebreak c" if "c \<in> set (int_str d)"
  proof -
    have "- 1 \<le> d" "d < 2 ^ 63" using ok fields by simp_all
    then obtain sign digits where "int_str d = sign @ digits" "list_all is_dec digits" "sign = ''-'' \<or> sign = []"
      using int_str_parts by metis
    with that have "is_dec c \<or> c = CHR ''-''" by (auto simp: list_all_iff)
    then show ?thesis using dec_not_space linebreak_space space_chars(5) by blast
  qed
  moreover have "\<not> is_linebreak c" if "c \<in> set start \<or> c \<in> set finish" using that ok fields date_no_linebreak by auto
  ultimately show ?thesis using c fields by auto
qed

lemma py_strip_Nil: "py_strip s = [] \<Longrightarrow> c \<in> set s \<Longrightarrow> is_space c"
proof -
  assume "py_strip s = []"
  then have "\<forall>x \<in> set (dropWhile is_space s). is_space x" by (simp add: py_strip_def dropWhile_eq_Nil_conv)
  then have "dropWhile is_space s = []" using hd_dropWhile [of is_space s] by (metis hd_in_set)
  then show "c \<in> set s \<Longrightarrow> is_space c" by (simp add: dropWhile_eq_Nil_conv)
qed

text \<open>
  C29. The timed ban list is read completely: for any bans with canonical addresses, printed one per
  line in Fail2Ban's format, the parser returns exactly the addresses whose duration is -1, in their
  order, and refuses the list if one of them occurs twice.
\<close>

theorem extract_permanent_roundtrip:
  assumes "list_all timed_ok bans"
  shows "extract_permanent_ips (concat (map (\<lambda>b. timed_text b @ [CHR 0x0A]) bans)) =
    (let ips = List.map_filter permanent_ip bans in
     if distinct ips then Inr ips else Inl (EnumerationError ''fail2ban returned duplicate IPs''))"
proof (cases "bans = []")
  case True
  then show ?thesis by (simp add: extract_permanent_ips_def py_strip_def List.map_filter_def)
next
  case False
  let ?out = "concat (map (\<lambda>b. timed_text b @ [CHR 0x0A]) bans)"
  have "py_strip ?out \<noteq> []"
  proof
    assume strip: "py_strip ?out = []"
    obtain b where b: "b \<in> set bans" using False by (cases bans) auto
    moreover obtain ip start d finish where f: "b = (ip, start, d, finish)" by (cases b)
    ultimately have "CHR ''+'' \<in> set ?out" by force
    from py_strip_Nil [OF strip this] space_chars(3) show False by simp
  qed
  moreover have "py_splitlines ?out = map timed_text bans"
  proof -
    have "\<not> is_linebreak c" if v: "v \<in> set (map timed_text bans)" and c: "c \<in> set v" for v c
    proof -
      obtain b where b: "b \<in> set bans" "v = timed_text b" using v unfolding set_map by blast
      with assms have "timed_ok b" by (simp add: list_all_iff)
      then show ?thesis using c unfolding b(2) by (rule timed_text_no_linebreak)
    qed
    then have "py_splitlines (concat (map (\<lambda>v. v @ [CHR 0x0A]) (map timed_text bans))) = map timed_text bans"
      by (rule splitlines_concat)
    then show ?thesis by (simp add: o_def)
  qed
  moreover have "rmap timed_line (map timed_text bans) = Inr (map permanent_ip bans)"
    using assms timed_line_text by (induction bans) auto
  moreover have "List.map_filter id (map permanent_ip bans) = List.map_filter permanent_ip bans"
    by (simp add: List.map_filter_def filter_map o_def)
  ultimately show ?thesis by (simp add: extract_permanent_ips_def no_duplicates_def Let_def)
qed

definition sample_ban :: "pystr \<Rightarrow> int \<Rightarrow> timed_ban" where
  "sample_ban ip d = (ip, ''2024-01-02 03:04:05'', d, ''9999-12-31 23:59:59'')"

lemma extract_permanent_roundtrip_witness:
  "extract_permanent_ips (concat (map (\<lambda>b. timed_text b @ [CHR 0x0A])
     [sample_ban ''198.51.100.2'' (- 1), sample_ban ''198.51.100.3'' 600])) = Inr [''198.51.100.2'']"
proof -
  have "list_all timed_ok [sample_ban ''198.51.100.2'' (- 1), sample_ban ''198.51.100.3'' 600]" by code_simp
  from extract_permanent_roundtrip [OF this] show ?thesis by (simp add: sample_ban_def List.map_filter_def)
qed

end
