(* ===== verification/SenderStore.thy ===== *)
theory SenderStore
  imports SenderInput Table
begin

text \<open>
  \<open>SenderStore\<close> of \<^verbatim>\<open>client/sender.py\<close>: the three tables of the sender's SQLite database and its
  methods. A table is its rows in rowid order; \<open>sd_last_id\<close> is the counter of the outbox's
  \<open>AUTOINCREMENT\<close>. A write method runs between \<open>BEGIN IMMEDIATE\<close> and \<open>COMMIT\<close>, and an exception
  rolls back to the state before \<open>BEGIN\<close>. The clock and the random bits of \<open>uuid4\<close> are arguments;
  the payload of a row is the text that \<open>_json_bytes\<close> encodes, all ASCII.
\<close>

record lifecycle_row =
  lr_jail :: pystr
  lr_ip :: pystr
  lr_ban_id :: pystr
  lr_active :: bool

record outbox_row =
  or_id :: int
  or_seq :: int
  or_kind :: pystr
  or_event_id :: pystr
  or_payload :: pystr
  or_attempts :: int
  or_available_at :: time
  or_delivered_at :: "time option"

record sender_db =
  sd_metadata :: "(pystr \<times> pystr) list"
  sd_claims :: "lifecycle_row list"
  sd_outbox :: "outbox_row list"
  sd_last_id :: int

definition max_pending :: nat where "max_pending = 10000"

definition no_tables :: sender_db where
  "no_tables = \<lparr>sd_metadata = [], sd_claims = [], sd_outbox = [], sd_last_id = 0\<rparr>"

text \<open>The keys of the schema.\<close>

definition lifecycle_pk :: "lifecycle_row \<Rightarrow> pystr \<times> pystr" where
  "lifecycle_pk r = (lr_jail r, lr_ip r)"

definition lifecycle_uk :: "lifecycle_row \<Rightarrow> pystr \<times> pystr" where
  "lifecycle_uk r = (lr_jail r, lr_ban_id r)"

definition json_bytes :: "json \<Rightarrow> pystr" where
  "json_bytes = json_dumps True"

definition transact :: "(sender_db \<Rightarrow> (sender_db \<times> 'a) result) \<Rightarrow> sender_db \<Rightarrow> sender_db \<times> 'a result" where
  "transact body s = (case body s of Inl e \<Rightarrow> (s, Inl e) | Inr (s', x) \<Rightarrow> (s', Inr x))"

subsection \<open>Metadata, capacity, housekeeping\<close>

text \<open>\<open>fetchone()[0]\<close> on an empty result subscripts \<open>None\<close>.\<close>

definition current_seq :: "sender_db \<Rightarrow> int result" where
  "current_seq s =
     (case tlookup fst ''seq'' (sd_metadata s) of None \<Rightarrow> Inl TypeError | Some row \<Rightarrow> py_int10 (snd row))"

definition next_seq :: "sender_db \<Rightarrow> (sender_db \<times> int) result" where
  "next_seq s =
     rbind (current_seq s) (\<lambda>current.
       let seq = current + 1 in
       Inr (s\<lparr>sd_metadata := tupdate (\<lambda>r. fst r = ''seq'') (\<lambda>r. (fst r, int_str seq)) (sd_metadata s)\<rparr>, seq))"

definition undelivered :: "sender_db \<Rightarrow> outbox_row list" where
  "undelivered s = filter (\<lambda>r. or_delivered_at r = None) (sd_outbox s)"

definition check_capacity :: "nat \<Rightarrow> sender_db \<Rightarrow> unit result" where
  "check_capacity limit s =
     (if limit \<le> length (undelivered s) then Inl (StoreFullError ''sender outbox is full; delivery must catch up'')
      else Inr ())"

definition prune_delivered :: "sender_db \<Rightarrow> sender_db" where
  "prune_delivered s = s\<lparr>sd_outbox := tdelete (\<lambda>r. or_delivered_at r \<noteq> None) (sd_outbox s)\<rparr>"

definition set_last_error :: "pystr \<Rightarrow> sender_db \<Rightarrow> sender_db" where
  "set_last_error msg s = s\<lparr>sd_metadata := tupsert fst (''last_error'', take 128 msg) (sd_metadata s)\<rparr>"

definition clear_last_error :: "sender_db \<Rightarrow> sender_db" where
  "clear_last_error s = s\<lparr>sd_metadata := tdelete (\<lambda>r. fst r = ''last_error'') (sd_metadata s)\<rparr>"

definition last_error :: "sender_db \<Rightarrow> pystr option" where
  "last_error s = map_option snd (tlookup fst ''last_error'' (sd_metadata s))"

text \<open>\<open>os.path.dirname\<close>, and the constructor: the checks, the schema script, the pruning.\<close>

definition py_dirname :: "pystr \<Rightarrow> pystr" where
  "py_dirname p =
     (let h = rev (dropWhile (\<lambda>c. c \<noteq> CHR ''/'') (rev p)) in
      if list_all (\<lambda>c. c = CHR ''/'') h then h else py_rstrip_char (CHR ''/'') h)"

definition create_tables :: "sender_db \<Rightarrow> sender_db" where
  "create_tables s = s\<lparr>sd_metadata := tinsert_ignore fst (''seq'', ''0'') (sd_metadata s)\<rparr>"

definition store_init :: "(pystr \<Rightarrow> bool) \<Rightarrow> pystr \<Rightarrow> int \<Rightarrow> sender_db \<Rightarrow> sender_db result" where
  "store_init isdir path limit s =
     (let parent = py_dirname path in
      if path = '''' \<or> hd path \<noteq> CHR ''/'' then Inl ValueError
      else if parent \<noteq> '''' \<and> \<not> isdir parent then Inl OSError
      else if limit < 1 then Inl ValueError
      else Inr (prune_delivered (create_tables s)))"

subsection \<open>Statements on the claims and the outbox\<close>

definition select_lifecycle :: "pystr \<Rightarrow> pystr \<Rightarrow> sender_db \<Rightarrow> lifecycle_row option" where
  "select_lifecycle jail ip s = tlookup lifecycle_pk (jail, ip) (sd_claims s)"

text \<open>The upsert; \<open>UNIQUE(jail, ban_id)\<close> is not the conflict target and raises.\<close>

definition activate :: "pystr \<Rightarrow> pystr \<Rightarrow> pystr \<Rightarrow> sender_db \<Rightarrow> sender_db result" where
  "activate jail ip ban_id s =
     (let row = \<lparr>lr_jail = jail, lr_ip = ip, lr_ban_id = ban_id, lr_active = True\<rparr> in
      if list_ex (\<lambda>r. lifecycle_uk r = (jail, ban_id) \<and> lifecycle_pk r \<noteq> (jail, ip)) (sd_claims s)
      then Inl SqliteError
      else Inr (s\<lparr>sd_claims := tupsert lifecycle_pk row (sd_claims s)\<rparr>))"

definition deactivate :: "(pystr \<times> pystr \<Rightarrow> bool) \<Rightarrow> sender_db \<Rightarrow> sender_db" where
  "deactivate doomed s =
     s\<lparr>sd_claims := tupdate (\<lambda>r. doomed (lifecycle_pk r)) (\<lambda>r. r\<lparr>lr_active := False\<rparr>) (sd_claims s)\<rparr>"

text \<open>\<open>INSERT INTO outbox(seq, kind, event_id, payload, available_at)\<close> with its three constraints.\<close>

definition insert_outbox :: "int \<Rightarrow> pystr \<Rightarrow> pystr \<Rightarrow> pystr \<Rightarrow> time \<Rightarrow> sender_db \<Rightarrow> sender_db result" where
  "insert_outbox seq kind event_id payload available s =
     (let row = \<lparr>or_id = sd_last_id s + 1, or_seq = seq, or_kind = kind, or_event_id = event_id,
                 or_payload = payload, or_attempts = 0, or_available_at = available, or_delivered_at = None\<rparr> in
      if \<not> (- (2 ^ 63) \<le> seq \<and> seq < 2 ^ 63) then Inl OverflowError
      else if kind \<noteq> ''event'' \<and> kind \<noteq> ''snapshot'' then Inl SqliteError
      else rbind (tinsert or_seq row (sd_outbox s)) (\<lambda>_.
           rbind (tinsert or_event_id row (sd_outbox s)) (\<lambda>t.
             Inr (s\<lparr>sd_outbox := t, sd_last_id := sd_last_id s + 1\<rparr>))))"

subsection \<open>Events\<close>

definition event_payload :: "nat \<Rightarrow> int \<Rightarrow> pystr \<Rightarrow> pystr \<Rightarrow> pystr \<Rightarrow> pystr \<Rightarrow> (pystr \<times> json) result" where
  "event_payload random seq op jail ban_id ip =
     (if op \<noteq> ''ban'' \<and> op \<noteq> ''unban'' then Inl ValueError
      else
        rbind (sender_jail (JStr jail)) (\<lambda>j.
        rbind (sender_uuid ban_id) (\<lambda>b.
        rbind (canonical_ip (JStr ip)) (\<lambda>i.
          Inr (fresh_uuid random, JObj
            [(''event_id'', JStr (fresh_uuid random)), (''seq'', JInt seq), (''op'', JStr op), (''jail'', JStr j),
             (''ban_id'', JStr b), (''ip'', JStr i), (''permanent'', JBool True), (''expires_at'', JNull)])))))"

text \<open>The change of the claims: the new state and the ban id, or \<open>None\<close> where nothing has to be sent.\<close>

definition lifecycle_change ::
  "nat \<Rightarrow> pystr \<Rightarrow> pystr \<Rightarrow> pystr \<Rightarrow> sender_db \<Rightarrow> (sender_db \<times> pystr) option result" where
  "lifecycle_change random op jail ip s =
     (let row = select_lifecycle jail ip s;
          active = (case row of None \<Rightarrow> False | Some r \<Rightarrow> lr_active r) in
      if op = ''ban''
      then (if active then Inr None
            else rbind (activate jail ip (fresh_uuid random) s) (\<lambda>t. Inr (Some (t, fresh_uuid random))))
      else (case row of
          None \<Rightarrow> Inr None
        | Some r \<Rightarrow> if \<not> lr_active r then Inr None
                     else Inr (Some (deactivate (\<lambda>k. k = (jail, ip)) s, lr_ban_id r))))"

definition enqueue_body ::
  "nat \<Rightarrow> nat \<Rightarrow> nat \<Rightarrow> pystr \<Rightarrow> pystr \<Rightarrow> pystr \<Rightarrow> time \<Rightarrow> sender_db \<Rightarrow> (sender_db \<times> json option) result" where
  "enqueue_body limit random1 random2 op jail ip now s =
     rbind (lifecycle_change random1 op jail ip s) (\<lambda>change.
       case change of
         None \<Rightarrow> Inr (s, None)
       | Some (s1, ban_id) \<Rightarrow>
           rbind (check_capacity limit s1) (\<lambda>_.
           rbind (next_seq s1) (\<lambda>(s2, seq).
           rbind (event_payload random2 seq op jail ban_id ip) (\<lambda>(event_id, payload).
           rbind (insert_outbox seq ''event'' event_id (json_bytes payload) now s2) (\<lambda>s3.
             Inr (s3, Some payload))))))"

definition enqueue ::
  "nat \<Rightarrow> nat \<Rightarrow> nat \<Rightarrow> pystr \<Rightarrow> json \<Rightarrow> json \<Rightarrow> time \<Rightarrow> sender_db \<Rightarrow> sender_db \<times> json option result" where
  "enqueue limit random1 random2 op jail ip now s =
     (case rbind (sender_jail jail) (\<lambda>j. rbind (canonical_ip ip) (\<lambda>i. Inr (j, i))) of
        Inl e \<Rightarrow> (s, Inl e)
      | Inr (j, i) \<Rightarrow>
          if op \<noteq> ''ban'' \<and> op \<noteq> ''unban'' then (s, Inl ValueError)
          else transact (enqueue_body limit random1 random2 op j i now) s)"

subsection \<open>Snapshots\<close>

definition current_claim :: "pystr \<Rightarrow> pystr \<Rightarrow> sender_db \<Rightarrow> pystr option" where
  "current_claim jail ip s =
     (case select_lifecycle jail ip s of None \<Rightarrow> None | Some r \<Rightarrow> if lr_active r then Some (lr_ban_id r) else None)"

record wanted_claim =
  wc_jail :: pystr
  wc_ip :: pystr
  wc_ban_id :: pystr

definition wanted_key :: "wanted_claim \<Rightarrow> pystr \<times> pystr" where
  "wanted_key c = (wc_jail c, wc_ip c)"

text \<open>
  The ban id of an enumerated claim: the active one, else the one the claim brings, else a new
  one. \<open>random i\<close> are the bits of the \<open>i\<close>-th generated UUID.
\<close>

definition claimed_id :: "json \<Rightarrow> pystr option \<Rightarrow> pystr result option" where
  "claimed_id given existing =
     (if truthy given
      then (case existing of
              Some b \<Rightarrow> if b \<noteq> '''' then Some (Inr b)
                         else Some (case json_str given of None \<Rightarrow> Inl ValueError | Some t \<Rightarrow> sender_uuid t)
            | None \<Rightarrow> Some (case json_str given of None \<Rightarrow> Inl ValueError | Some t \<Rightarrow> sender_uuid t))
      else (case existing of Some b \<Rightarrow> if b \<noteq> '''' then Some (Inr b) else None | None \<Rightarrow> None))"

definition claim_pair :: "(pystr \<times> json) list \<Rightarrow> wanted_claim list \<Rightarrow> (pystr \<times> pystr) result" where
  "claim_pair claim taken =
     rbind (sender_jail (get_item claim ''jail'')) (\<lambda>jail.
     rbind (canonical_ip (get_item claim ''ip'')) (\<lambda>ip.
       if (jail, ip) \<in> wanted_key ` set taken then Inl ValueError else Inr (jail, ip)))"

definition add_claim ::
  "(nat \<Rightarrow> nat) \<Rightarrow> (pystr \<times> json) list \<Rightarrow> pystr \<times> pystr \<Rightarrow> pystr option \<Rightarrow> wanted_claim list \<times> nat \<Rightarrow>
   (wanted_claim list \<times> nat) result" where
  "add_claim random claim k existing acc =
     (case claimed_id (get_item claim ''ban_id'') existing of
        Some r \<Rightarrow> rbind r (\<lambda>b. Inr (fst acc @ [\<lparr>wc_jail = fst k, wc_ip = snd k, wc_ban_id = b\<rparr>], snd acc))
      | None \<Rightarrow> Inr (fst acc @ [\<lparr>wc_jail = fst k, wc_ip = snd k, wc_ban_id = fresh_uuid (random (snd acc))\<rparr>],
                     Suc (snd acc)))"

text \<open>Every claim is looked up by a \<open>SELECT\<close> of its own: the \<open>i\<close>-th one reads the store \<open>views i\<close>.\<close>

definition normalize_claim ::
  "(nat \<Rightarrow> sender_db) \<Rightarrow> (nat \<Rightarrow> nat) \<Rightarrow> (pystr \<times> json) list \<Rightarrow> wanted_claim list \<times> nat \<Rightarrow>
   (wanted_claim list \<times> nat) result" where
  "normalize_claim views random claim acc =
     rbind (claim_pair claim (fst acc)) (\<lambda>k.
       add_claim random claim k (current_claim (fst k) (snd k) (views (length (fst acc)))) acc)"

definition normalize_claims ::
  "(nat \<Rightarrow> sender_db) \<Rightarrow> (nat \<Rightarrow> nat) \<Rightarrow> (pystr \<times> json) list list \<Rightarrow> (wanted_claim list \<times> nat) result" where
  "normalize_claims views random claims = rfold (normalize_claim views random) claims ([], 0)"

text \<open>Inside the transaction: the ids that are active now win over those read before it.\<close>

definition existing_map :: "sender_db \<Rightarrow> pystr \<times> pystr \<Rightarrow> pystr option" where
  "existing_map s k = map_option lr_ban_id (tlookup lifecycle_pk k (filter lr_active (sd_claims s)))"

definition settle :: "sender_db \<Rightarrow> wanted_claim \<Rightarrow> wanted_claim" where
  "settle s0 c = c\<lparr>wc_ban_id := (case existing_map s0 (wanted_key c) of Some b \<Rightarrow> b | None \<Rightarrow> wc_ban_id c)\<rparr>"

definition claim_json :: "wanted_claim \<Rightarrow> json" where
  "claim_json c = JObj
     [(''jail'', JStr (wc_jail c)), (''ban_id'', JStr (wc_ban_id c)), (''ip'', JStr (wc_ip c)),
      (''permanent'', JBool True), (''expires_at'', JNull)]"

definition snapshot_json :: "pystr \<Rightarrow> int \<Rightarrow> wanted_claim list \<Rightarrow> json" where
  "snapshot_json sid seq cs = JObj
     [(''snapshot_id'', JStr sid), (''seq'', JInt seq), (''claims'', JArr (map claim_json (sort_key wanted_key cs)))]"

text \<open>The pairs in \<open>set(existing_map) - set(normalized)\<close>.\<close>

definition released :: "sender_db \<Rightarrow> wanted_claim list \<Rightarrow> pystr \<times> pystr \<Rightarrow> bool" where
  "released s wanted k = (existing_map s k \<noteq> None \<and> k \<notin> set (map wanted_key wanted))"

definition fence_ok :: "int option \<Rightarrow> sender_db \<Rightarrow> unit result" where
  "fence_ok expected s =
     (case expected of
        None \<Rightarrow> Inr ()
      | Some n \<Rightarrow> rbind (current_seq s) (\<lambda>seq.
          if seq \<noteq> n then Inl (SnapshotRace ''Fail2Ban changed while snapshot was enumerated'') else Inr ()))"

definition snapshot_body ::
  "nat \<Rightarrow> nat \<Rightarrow> wanted_claim list \<Rightarrow> int option \<Rightarrow> time \<Rightarrow> sender_db \<Rightarrow> (sender_db \<times> json) result" where
  "snapshot_body limit random wanted expected now s =
     rbind (fence_ok expected s) (\<lambda>_.
     rbind (check_capacity limit s) (\<lambda>_.
     let settled = map (settle s) wanted in
     rbind (rfold (\<lambda>c. activate (wc_jail c) (wc_ip c) (wc_ban_id c)) settled s) (\<lambda>s1.
     let s2 = deactivate (released s wanted) s1 in
     rbind (next_seq s2) (\<lambda>(s3, seq).
     let snapshot = snapshot_json (fresh_uuid random) seq settled in
     rbind (insert_outbox seq ''snapshot'' (fresh_uuid random) (json_bytes snapshot) now s3) (\<lambda>s4.
       Inr (s4, snapshot))))))"

text \<open>
  The claims are read from \<open>views\<close> and the transaction runs on \<open>s\<close>: other processes may have
  committed between any two of them.
\<close>

definition enqueue_snapshot ::
  "nat \<Rightarrow> (nat \<Rightarrow> nat) \<Rightarrow> (pystr \<times> json) list list \<Rightarrow> time \<Rightarrow> int option \<Rightarrow> (nat \<Rightarrow> sender_db) \<Rightarrow> sender_db \<Rightarrow>
   sender_db \<times> json result" where
  "enqueue_snapshot limit random claims now expected views s =
     (case normalize_claims views random claims of
        Inl e \<Rightarrow> (s, Inl e)
      | Inr (wanted, drawn) \<Rightarrow> transact (snapshot_body limit (random drawn) wanted expected now) s)"

subsection \<open>Delivery\<close>

definition min_pending :: "sender_db \<Rightarrow> int option" where
  "min_pending s = (case map or_seq (undelivered s) of [] \<Rightarrow> None | x # xs \<Rightarrow> Some (foldl min x xs))"

definition next_due :: "time \<Rightarrow> sender_db \<Rightarrow> outbox_row option" where
  "next_due now s = find (\<lambda>r. or_available_at r \<le> now \<and> min_pending s = Some (or_seq r)) (undelivered s)"

definition mark_delivered :: "int \<Rightarrow> time \<Rightarrow> sender_db \<Rightarrow> sender_db" where
  "mark_delivered i now s =
     s\<lparr>sd_outbox := tupdate (\<lambda>r. or_id r = i \<and> or_delivered_at r = None) (\<lambda>r. r\<lparr>or_delivered_at := Some now\<rparr>) (sd_outbox s)\<rparr>"

definition mark_retry :: "int \<Rightarrow> int \<Rightarrow> time \<Rightarrow> time \<Rightarrow> sender_db \<Rightarrow> sender_db" where
  "mark_retry i n now delay s =
     s\<lparr>sd_outbox := tupdate (\<lambda>r. or_id r = i \<and> or_delivered_at r = None)
        (\<lambda>r. r\<lparr>or_attempts := n, or_available_at := now + delay\<rparr>) (sd_outbox s)\<rparr>"

definition pending :: "sender_db \<Rightarrow> outbox_row list" where
  "pending s = sort_key or_seq (undelivered s)"

end
