(* ===== verification/SenderWorker.thy ===== *)
theory SenderWorker
  imports SenderFail2ban SenderStore
begin

text \<open>
  \<open>HTTPSClient.send\<close>, \<open>Worker\<close> and the commands of \<open>_cli\<close> in \<^verbatim>\<open>client/sender.py\<close>.

  The state holds the sender's database and the world outside, and counts the calls on the store. The
  environment supplies the clock, the random bits, what other processes commit to the database between
  two calls on the store, which of these calls SQLite refuses (a locked or damaged file, a full disk), the
  JSON scanner, Fail2Ban's command as it answers after \<open>n\<close> calls on the store, and the URL opener:
  \<open>we_open\<close> posts a body to a URL and gives the status and at most \<open>n\<close> bytes of the response, or the
  exception. The opener refuses redirects with an \<open>HTTPError\<close>.
\<close>

record 'w sender =
  sn_db :: sender_db
  sn_world :: 'w
  sn_tick :: nat

record 'w sender_env =
  we_config :: sender_config
  we_clock :: "nat \<Rightarrow> time"
  we_random :: "nat \<Rightarrow> nat \<Rightarrow> nat"
  we_others :: "nat \<Rightarrow> sender_db \<Rightarrow> sender_db"
  we_fault :: "nat \<Rightarrow> bool"
  we_scan :: "pystr \<Rightarrow> jraw result"
  we_open :: "pystr \<Rightarrow> pystr \<Rightarrow> nat \<Rightarrow> ('w, int \<times> pystr) action"
  we_runner :: "nat \<Rightarrow> 'w runner"

definition max_event_bytes :: nat where "max_event_bytes = 1000000"
definition max_response_bytes :: nat where "max_response_bytes = 64 * 1024"

text \<open>
  One call on the store: first the others' commits, then the call at the time of the tick. The methods
  are single statements or one transaction, so a call that SQLite refuses changes nothing.
\<close>

definition on_store :: "'w sender_env \<Rightarrow> (nat \<Rightarrow> sender_db \<Rightarrow> sender_db \<times> 'a result) \<Rightarrow> ('w sender, 'a) action" where
  "on_store env call s =
     (let n = sn_tick s; d = we_others env n (sn_db s) in
      case (if we_fault env n then (d, Inl SqliteError) else call n d) of
        (t, r) \<Rightarrow> (s\<lparr>sn_db := t, sn_tick := Suc n\<rparr>, r))"

definition in_world :: "('w, 'a) action \<Rightarrow> ('w sender, 'a) action" where
  "in_world m s = (case m (sn_world s) of (w, r) \<Rightarrow> (s\<lparr>sn_world := w\<rparr>, r))"

subsection \<open>Plain JSON\<close>

text \<open>\<open>json.loads\<close> without hooks: of equal members the last one wins, in the place of the first.\<close>

fun put_member :: "pystr \<Rightarrow> json \<Rightarrow> (pystr \<times> json) list \<Rightarrow> (pystr \<times> json) list" where
  "put_member k v [] = [(k, v)]"
| "put_member k v ((k', v') # ps) = (if k = k' then (k, v) # ps else (k', v') # put_member k v ps)"

definition constant_value :: "pystr \<Rightarrow> json" where
  "constant_value c = JFloat (if c = ''NaN'' then NaN else if c = ''-Infinity'' then NegInf else PosInf)"

fun plain :: "jraw \<Rightarrow> json"
  and plain_members :: "(pystr \<times> jraw) list \<Rightarrow> (pystr \<times> json) list \<Rightarrow> (pystr \<times> json) list" where
  "plain RNull = JNull"
| "plain (RBool b) = JBool b"
| "plain (RInt i) = JInt i"
| "plain (RFloat x) = JFloat x"
| "plain (RConst c) = constant_value c"
| "plain (RStr s) = JStr s"
| "plain (RArr xs) = JArr (map plain xs)"
| "plain (RObj ps) = JObj (plain_members ps [])"
| "plain_members [] acc = acc"
| "plain_members ((k, x) # ps) acc = plain_members ps (put_member k (plain x) acc)"

definition json_loads :: "(pystr \<Rightarrow> jraw result) \<Rightarrow> pystr \<Rightarrow> json result" where
  "json_loads scan data = rbind (scan data) (\<lambda>raw. Inr (plain raw))"

subsection \<open>Sending\<close>

definition send_body :: "json \<Rightarrow> json" where
  "send_body payload =
     (if jget payload ''snapshot_id'' \<noteq> None \<or> jget payload ''events'' \<noteq> None then payload
      else JObj [(''events'', JArr [payload])])"

definition send_url :: "sender_config \<Rightarrow> json \<Rightarrow> pystr" where
  "send_url cfg payload =
     sf_endpoint cfg @ (if jget payload ''snapshot_id'' \<noteq> None then ''/snapshot'' else ''/events'')"

text \<open>The \<open>except\<close> clauses around the opener.\<close>

definition open_error :: "exn \<Rightarrow> exn" where
  "open_error e = (case e of
       HTTPError n \<Rightarrow>
         if 400 \<le> n \<and> n < 500 \<and> n \<noteq> 429
         then RuntimeError (''sender endpoint rejected request with HTTP '' @ int_str n)
         else RuntimeError ''sender endpoint temporarily unavailable''
     | _ \<Rightarrow> if is_OSError e then RuntimeError ''sender endpoint unavailable'' else e)"

text \<open>The checks on a response. Decoding the bytes is part of the scanner.\<close>

definition check_response :: "(pystr \<Rightarrow> jraw result) \<Rightarrow> int \<times> pystr \<Rightarrow> unit result" where
  "check_response scan response =
     (case response of (status, raw) \<Rightarrow>
        if status < 200 \<or> 300 \<le> status then Inl (RuntimeError ''sender endpoint returned an unsuccessful response'')
        else if max_response_bytes < length raw then Inl (RuntimeError ''sender endpoint response is too large'')
        else (case json_loads scan raw of
            Inl e \<Rightarrow> Inl (if is_ValueError e then RuntimeError ''sender endpoint returned invalid JSON'' else e)
          | Inr v \<Rightarrow>
              if is_object v \<and> jget v ''accepted'' = Some (JBool True) then Inr ()
              else Inl (RuntimeError ''sender endpoint did not acknowledge the write'')))"

definition send :: "'w sender_env \<Rightarrow> json \<Rightarrow> ('w, unit) action" where
  "send env payload =
     (let body = json_bytes (send_body payload) in
      if max_event_bytes < length body then slift (Inl ValueError)
      else
        sbind (scatch (we_open env (send_url (we_config env) payload) body (max_response_bytes + 1))
                 (\<lambda>e. slift (Inl (open_error e)))) (\<lambda>response.
          slift (check_response (we_scan env) response)))"

subsection \<open>The worker\<close>

definition retry_delay :: "sender_config \<Rightarrow> int \<Rightarrow> rat" where
  "retry_delay cfg n = min (sf_max_backoff cfg) (sf_initial_backoff cfg * 2 ^ nat (min (n - 1) 20))"

definition put_db :: "(sender_db \<Rightarrow> sender_db) \<Rightarrow> sender_db \<Rightarrow> sender_db \<times> unit result" where
  "put_db f d = (f d, Inr ())"

definition row_request :: "outbox_row \<Rightarrow> json \<Rightarrow> json" where
  "row_request row payload = (if or_kind row = ''event'' then JObj [(''events'', JArr [payload])] else payload)"

definition after_failure :: "'w sender_env \<Rightarrow> outbox_row \<Rightarrow> time \<Rightarrow> ('w sender, bool) action" where
  "after_failure env row now =
     (let n = or_attempts row + 1 in
      sbind (on_store env (\<lambda>_. put_db (mark_retry (or_id row) n now (retry_delay (we_config env) n)))) (\<lambda>_.
      sbind (on_store env (\<lambda>_. put_db (set_last_error ''delivery failure''))) (\<lambda>_. sret False)))"

definition after_success :: "'w sender_env \<Rightarrow> outbox_row \<Rightarrow> time \<Rightarrow> ('w sender, bool) action" where
  "after_success env row now =
     sbind (on_store env (\<lambda>_. put_db (mark_delivered (or_id row) now))) (\<lambda>_.
     sbind (on_store env (\<lambda>_. put_db clear_last_error)) (\<lambda>_. sret True))"

definition attempt_send :: "'w sender_env \<Rightarrow> json \<Rightarrow> ('w sender, bool) action" where
  "attempt_send env request =
     scatch (sbind (in_world (send env request)) (\<lambda>_. sret True)) (\<lambda>_. sret False)"

definition process_once :: "'w sender_env \<Rightarrow> time \<Rightarrow> ('w sender, bool) action" where
  "process_once env now =
     sbind (on_store env (\<lambda>_ d. (d, Inr (next_due now d)))) (\<lambda>due.
       case due of
         None \<Rightarrow> sret False
       | Some row \<Rightarrow>
           sbind (slift (json_loads (we_scan env) (or_payload row))) (\<lambda>payload.
           sbind (attempt_send env (row_request row payload)) (\<lambda>sent.
             if sent then after_success env row now else after_failure env row now)))"

text \<open>
  \<open>run\<close>: each element of the list is what \<open>stop()\<close> returns before one round; the end of the list is the
  end of the observation. Sleeping is left to the environment's clock.
\<close>

fun worker_run :: "'w sender_env \<Rightarrow> bool list \<Rightarrow> 'w sender \<Rightarrow> 'w sender \<times> unit result" where
  "worker_run env [] s = (s, Inr ())"
| "worker_run env (stop # stops) s =
     (if stop then (s, Inr ())
      else (case process_once env (we_clock env (sn_tick s)) s of
          (t, Inl e) \<Rightarrow> (t, Inl e)
        | (t, Inr _) \<Rightarrow> worker_run env stops t))"

subsection \<open>The commands\<close>

text \<open>\<open>enqueue\<close>: \<open>bantime\<close> is the option's text. The result is the exit code.\<close>

definition check_bantime :: "pystr \<Rightarrow> pystr option \<Rightarrow> bool result" where
  "check_bantime op bantime =
     (if op = ''ban''
      then (case bantime of
          None \<Rightarrow> Inl (ConfigError ''ban enqueue requires --bantime'')
        | Some text \<Rightarrow> (case py_int10 text of
              Inl _ \<Rightarrow> Inl (ConfigError ''bantime must be an integer'')
            | Inr n \<Rightarrow> Inr (n = - 1)))
      else Inr True)"

definition cli_enqueue ::
  "'w sender_env \<Rightarrow> pystr \<Rightarrow> pystr \<Rightarrow> pystr \<Rightarrow> pystr option \<Rightarrow> ('w sender, int) action" where
  "cli_enqueue env op jail ip bantime =
     (if jail \<notin> pj_name ` set (sf_permanent_jails (we_config env))
      then slift (Inl (ConfigError ''jail is not configured as permanent''))
      else sbind (slift (check_bantime op bantime)) (\<lambda>permanent.
        if \<not> permanent then sret 0
        else sbind (on_store env (\<lambda>n. enqueue max_pending (we_random env n 0) (we_random env n 1) op (JStr jail) (JStr ip)
                      (we_clock env n))) (\<lambda>_. sret 0)))"

text \<open>
  \<open>snapshot\<close>: at most five rounds; \<open>SnapshotRace\<close> starts the next one. Fail2Ban is asked after the fence
  was read. Every claim is looked up by a call on the store, and the transaction is one more.
\<close>

fun snapshot_race :: "exn \<Rightarrow> bool" where
  "snapshot_race (SnapshotRace _) = True"
| "snapshot_race _ = False"

definition read_claim ::
  "'w sender_env \<Rightarrow> (nat \<Rightarrow> nat) \<Rightarrow> (pystr \<times> json) list \<Rightarrow> wanted_claim list \<times> nat \<Rightarrow>
   ('w sender, wanted_claim list \<times> nat) action" where
  "read_claim env random claim acc =
     sbind (slift (claim_pair claim (fst acc))) (\<lambda>k.
     sbind (on_store env (\<lambda>_ d. (d, Inr (current_claim (fst k) (snd k) d)))) (\<lambda>existing.
       slift (add_claim random claim k existing acc)))"

fun read_claims ::
  "'w sender_env \<Rightarrow> (nat \<Rightarrow> nat) \<Rightarrow> (pystr \<times> json) list list \<Rightarrow> wanted_claim list \<times> nat \<Rightarrow>
   ('w sender, wanted_claim list \<times> nat) action" where
  "read_claims env random [] acc = sret acc"
| "read_claims env random (claim # claims) acc =
     sbind (read_claim env random claim acc) (read_claims env random claims)"

definition take_snapshot ::
  "'w sender_env \<Rightarrow> (pystr \<times> json) list list \<Rightarrow> int \<Rightarrow> ('w sender, json) action" where
  "take_snapshot env claims observed s =
     (let now = we_clock env (sn_tick s); random = we_random env (sn_tick s) in
      sbind (read_claims env random claims ([], 0)) (\<lambda>(wanted, drawn).
        on_store env (\<lambda>_. transact (snapshot_body max_pending (random drawn) wanted (Some observed) now))) s)"

text \<open>The world outside, as it answers after the calls that were made on the store.\<close>

definition ask_fail2ban :: "'w sender_env \<Rightarrow> ('w sender, (pystr \<times> json) list list) action" where
  "ask_fail2ban env s = in_world (enumerate_permanent_jails (we_config env) (we_runner env (sn_tick s))) s"

fun snapshot_rounds :: "'w sender_env \<Rightarrow> nat \<Rightarrow> ('w sender, int) action" where
  "snapshot_rounds env 0 = slift (Inl (RuntimeError ''Fail2Ban changed continuously; snapshot not created''))"
| "snapshot_rounds env (Suc k) =
     sbind (on_store env (\<lambda>_ d. (d, current_seq d))) (\<lambda>observed.
     sbind (ask_fail2ban env) (\<lambda>claims.
     scatch (sbind (take_snapshot env claims observed) (\<lambda>_. sret 0))
       (\<lambda>e. if snapshot_race e then snapshot_rounds env k else slift (Inl e))))"

definition cli_snapshot :: "'w sender_env \<Rightarrow> ('w sender, int) action" where
  "cli_snapshot env = snapshot_rounds env 5"

end
