(* ===== verification/SenderInvariant.thy ===== *)
theory SenderInvariant
  imports SenderStore StoreContract
begin

text \<open>
  The meaning of the sender's database: every undelivered row carries a message, an event or a
  snapshot in the receiver's vocabulary, and replaying these messages on what the receiver holds
  gives the claims that are active at the sender. The lemmas show that every method keeps this.
\<close>

subsection \<open>Messages\<close>

datatype message = EventMsg event | SnapshotMsg pystr int "claim list"

fun msg_seq :: "message \<Rightarrow> int" where
  "msg_seq (EventMsg e) = ev_seq e"
| "msg_seq (SnapshotMsg sid seq cls) = seq"

fun msg_json :: "message \<Rightarrow> json" where
  "msg_json (EventMsg e) = event_wire e"
| "msg_json (SnapshotMsg sid seq cls) = snapshot_payload sid seq cls"

fun msg_effect :: "message \<Rightarrow> claim_map \<Rightarrow> claim_map" where
  "msg_effect (EventMsg e) m = spec_event e m"
| "msg_effect (SnapshotMsg sid seq cls) m = spec_snapshot cls"

fun msg_kind :: "message \<Rightarrow> pystr" where
  "msg_kind (EventMsg e) = ''event''"
| "msg_kind (SnapshotMsg sid seq cls) = ''snapshot''"

fun msg_id :: "message \<Rightarrow> pystr" where
  "msg_id (EventMsg e) = ev_event_id e"
| "msg_id (SnapshotMsg sid seq cls) = sid"

text \<open>What the receiver will accept, but for the jail names, which are a parameter.\<close>

definition sender_event :: "(pystr \<Rightarrow> bool) \<Rightarrow> event \<Rightarrow> bool" where
  "sender_event J e \<longleftrightarrow> J (ev_jail e) \<and> canonical_uuid (ev_event_id e) \<and> canonical_uuid (ev_ban_id e) \<and>
     claimable_ip (ev_ip e) \<and> (ev_op e = ''ban'' \<or> ev_op e = ''unban'') \<and> ev_permanent e = Some True \<and>
     ev_expires_at e = None"

definition sender_claim :: "(pystr \<Rightarrow> bool) \<Rightarrow> claim \<Rightarrow> bool" where
  "sender_claim J c \<longleftrightarrow> J (cl_jail c) \<and> canonical_uuid (cl_ban_id c) \<and> claimable_ip (cl_ip c) \<and>
     cl_permanent c \<and> cl_expires_at c = None"

fun msg_ok :: "(pystr \<Rightarrow> bool) \<Rightarrow> message \<Rightarrow> bool" where
  "msg_ok J (EventMsg e) = sender_event J e"
| "msg_ok J (SnapshotMsg sid seq cls) =
     (canonical_uuid sid \<and> list_all (sender_claim J) cls \<and> distinct (map claim_key cls))"

definition carries :: "(pystr \<Rightarrow> bool) \<Rightarrow> outbox_row \<Rightarrow> message \<Rightarrow> bool" where
  "carries J r m \<longleftrightarrow> or_seq r = msg_seq m \<and> or_kind r = msg_kind m \<and> or_event_id r = msg_id m \<and>
     or_payload r = json_bytes (msg_json m) \<and> msg_ok J m"

text \<open>The claims that are active at the sender, as a map of the receiver's kind.\<close>

definition sender_map :: "lifecycle_row list \<Rightarrow> claim_map" where
  "sender_map t =
     (\<lambda>k. map_option (\<lambda>r. (lr_ip r, True, None)) (tlookup lifecycle_uk k (filter lr_active t)))"

subsection \<open>The invariant\<close>

definition uuid_ok :: "pystr \<Rightarrow> bool" where
  "uuid_ok u \<longleftrightarrow> uuid_re u \<and> canonical_uuid u"

definition lifecycle_ok :: "(pystr \<Rightarrow> bool) \<Rightarrow> lifecycle_row \<Rightarrow> bool" where
  "lifecycle_ok J r \<longleftrightarrow> J (lr_jail r) \<and> sender_jail (JStr (lr_jail r)) = Inr (lr_jail r) \<and>
     claimable_ip (lr_ip r) \<and> uuid_ok (lr_ban_id r)"

definition claims_inv :: "(pystr \<Rightarrow> bool) \<Rightarrow> lifecycle_row list \<Rightarrow> bool" where
  "claims_inv J t \<longleftrightarrow> keyed lifecycle_pk t \<and> keyed lifecycle_uk t \<and> list_all (lifecycle_ok J) t"

definition seq_at :: "sender_db \<Rightarrow> nat \<Rightarrow> bool" where
  "seq_at s n \<longleftrightarrow> tlookup fst ''seq'' (sd_metadata s) = Some (''seq'', dec_str n) \<and> n < 2 ^ 63"

definition outbox_inv :: "nat \<Rightarrow> sender_db \<Rightarrow> bool" where
  "outbox_inv n s \<longleftrightarrow> sorted_wrt (<) (map or_seq (sd_outbox s)) \<and> sorted_wrt (<) (map or_id (sd_outbox s)) \<and>
     (\<forall>r \<in> set (sd_outbox s). 0 < or_seq r \<and> or_seq r \<le> int n \<and> or_id r \<le> sd_last_id s)"

text \<open>
  \<open>explained J R L rows t\<close>: replaying on \<open>R\<close> the messages of \<open>rows\<close> after the sequence number
  \<open>L\<close> gives the active claims of \<open>t\<close>.
\<close>

definition explained ::
  "(pystr \<Rightarrow> bool) \<Rightarrow> claim_map \<Rightarrow> int \<Rightarrow> outbox_row list \<Rightarrow> lifecycle_row list \<Rightarrow> bool" where
  "explained J R L rows t \<longleftrightarrow>
     (\<exists>ms. list_all2 (carries J) rows ms \<and> fold msg_effect (filter (\<lambda>m. L < msg_seq m) ms) R = sender_map t)"

definition sender_inv :: "(pystr \<Rightarrow> bool) \<Rightarrow> nat \<Rightarrow> claim_map \<Rightarrow> int \<Rightarrow> sender_db \<Rightarrow> bool" where
  "sender_inv J limit R L s \<longleftrightarrow>
     (\<exists>n. seq_at s n \<and> outbox_inv n s \<and> L \<le> int n) \<and> claims_inv J (sd_claims s) \<and>
     length (undelivered s) \<le> limit \<and> explained J R L (undelivered s) (sd_claims s)"

subsection \<open>The sequence counter\<close>

lemma int_str_nat: "int_str (int n) = dec_str n"
  by (simp add: int_str_def)

lemma seq_digits: "n < 2 ^ 63 \<Longrightarrow> length (dec_str n) \<le> 4300"
  using radix_str_length [of 10 n 18] by simp

lemma current_seq_at: "seq_at s n \<Longrightarrow> current_seq s = Inr (int n)"
  by (simp add: seq_at_def current_seq_def py_int10_dec_str seq_digits)

lemma next_seq_at:
  assumes "seq_at s n"
  obtains meta where "next_seq s = Inr (s\<lparr>sd_metadata := meta\<rparr>, int n + 1)"
    "tlookup fst ''seq'' meta = Some (''seq'', dec_str (Suc n))"
proof (rule that)
  let ?meta = "tupdate (\<lambda>r. fst r = ''seq'') (\<lambda>r. (fst r, int_str (int n + 1))) (sd_metadata s)"
  show "next_seq s = Inr (s\<lparr>sd_metadata := ?meta\<rparr>, int n + 1)"
    by (simp add: next_seq_def current_seq_at [OF assms] Let_def)
  have "int_str (int n + 1) = dec_str (Suc n)" using int_str_nat [of "Suc n"] by (simp add: add.commute)
  with assms show "tlookup fst ''seq'' ?meta = Some (''seq'', dec_str (Suc n))"
    by (simp add: tlookup_tupdate seq_at_def)
qed

subsection \<open>The claims\<close>

lemma uuid_ok_fresh: "uuid_ok (fresh_uuid r)"
  by (simp add: uuid_ok_def fresh_uuid_re fresh_uuid_canonical)

lemma uuid_ok_lower: "uuid_ok u \<Longrightarrow> sender_uuid u = Inr u"
  by (simp add: uuid_ok_def sender_uuid_def canonical_uuid_lower)

lemma activate_Inr:
  assumes "activate jail ip b s = Inr t" "claims_inv J (sd_claims s)"
    "lifecycle_ok J \<lparr>lr_jail = jail, lr_ip = ip, lr_ban_id = b, lr_active = True\<rparr>"
  shows "t = s\<lparr>sd_claims := tupsert lifecycle_pk \<lparr>lr_jail = jail, lr_ip = ip, lr_ban_id = b, lr_active = True\<rparr> (sd_claims s)\<rparr> \<and>
    claims_inv J (sd_claims t)"
proof -
  let ?row = "\<lparr>lr_jail = jail, lr_ip = ip, lr_ban_id = b, lr_active = True\<rparr>"
  have no: "lifecycle_uk r = (jail, b) \<Longrightarrow> r \<in> set (sd_claims s) \<Longrightarrow> lifecycle_pk r = (jail, ip)" for r
    using assms(1) by (auto simp: activate_def list_ex_iff split: if_splits)
  have t: "t = s\<lparr>sd_claims := tupsert lifecycle_pk ?row (sd_claims s)\<rparr>"
    using assms(1) by (auto simp: activate_def Let_def split: if_splits)
  have uk: "keyed lifecycle_uk (tupsert lifecycle_pk ?row (sd_claims s))"
    by (rule keyed_tupsert_unique) (use assms(2) no in \<open>auto simp: claims_inv_def lifecycle_pk_def lifecycle_uk_def\<close>)
  moreover have "list_all (lifecycle_ok J) (tupsert lifecycle_pk ?row (sd_claims s))"
    using set_tupsert [of lifecycle_pk ?row "sd_claims s"] assms(2,3) by (auto simp: claims_inv_def list_all_iff)
  ultimately show ?thesis using t assms(2) by (simp add: claims_inv_def keyed_tupsert)
qed


lemma set_tupsert_eq: "set (tupsert key r t) = insert r {x \<in> set t. key x \<noteq> key r}"
  by (auto simp: tupsert_def list_ex_iff)

lemma keyed_filter: "keyed key t \<Longrightarrow> keyed key (filter p t)"
  by (simp add: keyed_def distinct_map_filter)

lemma sender_map_Some:
  assumes "claims_inv J t"
  shows "sender_map t k = Some v \<longleftrightarrow> (\<exists>r \<in> set t. lr_active r \<and> lifecycle_uk r = k \<and> v = (lr_ip r, True, None))"
  using assms keyed_filter [of lifecycle_uk t lr_active]
  by (auto simp: sender_map_def claims_inv_def tlookup_Some)

lemma map_eqI: "(\<And>k v. m k = Some v \<longleftrightarrow> m' k = Some v) \<Longrightarrow> m = m'"
  by (intro ext) (metis not_None_eq)

lemma lookup_active: "claims_inv J (sd_claims s) \<Longrightarrow>
  select_lifecycle jail ip s = Some r \<longleftrightarrow> r \<in> set (sd_claims s) \<and> lr_jail r = jail \<and> lr_ip r = ip"
  by (auto simp: select_lifecycle_def claims_inv_def tlookup_Some lifecycle_pk_def)

text \<open>Activating a pair that is not active is a ban, deactivating it is an unban.\<close>

lemma sender_map_ban:
  assumes "claims_inv J t" "claims_inv J (tupsert lifecycle_pk \<lparr>lr_jail = jail, lr_ip = ip, lr_ban_id = b, lr_active = True\<rparr> t)"
    "\<And>r. r \<in> set t \<Longrightarrow> lifecycle_pk r = (jail, ip) \<Longrightarrow> \<not> lr_active r"
  shows "sender_map (tupsert lifecycle_pk \<lparr>lr_jail = jail, lr_ip = ip, lr_ban_id = b, lr_active = True\<rparr> t) =
    (sender_map t)((jail, b) \<mapsto> (ip, True, None))" (is "sender_map ?t = _")
proof (rule map_eqI)
  let ?row = "\<lparr>lr_jail = jail, lr_ip = ip, lr_ban_id = b, lr_active = True\<rparr>"
  have uk: "keyed lifecycle_uk ?t" and row: "?row \<in> set ?t" "lifecycle_uk ?row = (jail, b)" "lifecycle_pk ?row = (jail, ip)"
    using assms(2) by (auto simp: claims_inv_def set_tupsert_eq lifecycle_uk_def lifecycle_pk_def)
  have only: "r = ?row" if "r \<in> set ?t" "lifecycle_uk r = (jail, b)" for r
    using keyed_unique [OF uk that(1) row(1)] that(2) row(2) by simp
  fix k v
  show "sender_map ?t k = Some v \<longleftrightarrow> ((sender_map t)((jail, b) \<mapsto> (ip, True, None))) k = Some v"
  proof (cases "k = (jail, b)")
    case True
    have "(\<exists>r \<in> set ?t. lr_active r \<and> lifecycle_uk r = k \<and> v = (lr_ip r, True, None)) \<longleftrightarrow> v = (ip, True, None)"
    proof
      assume "\<exists>r \<in> set ?t. lr_active r \<and> lifecycle_uk r = k \<and> v = (lr_ip r, True, None)"
      then show "v = (ip, True, None)" using only True by fastforce
    next
      assume "v = (ip, True, None)"
      with row(1,2) True show "\<exists>r \<in> set ?t. lr_active r \<and> lifecycle_uk r = k \<and> v = (lr_ip r, True, None)"
        by (intro bexI [of _ ?row]) simp_all
    qed
    with True show ?thesis by (auto simp: sender_map_Some [OF assms(2)])
  next
    case False
    then have "(\<exists>r \<in> set ?t. lr_active r \<and> lifecycle_uk r = k \<and> v = (lr_ip r, True, None)) \<longleftrightarrow>
        (\<exists>r \<in> set t. lr_active r \<and> lifecycle_uk r = k \<and> v = (lr_ip r, True, None))"
      using row(2,3) assms(3) by (auto simp: set_tupsert_eq)
    with False show ?thesis by (simp add: sender_map_Some [OF assms(1)] sender_map_Some [OF assms(2)])
  qed
qed

lemma deactivate_claims: "sd_claims (deactivate p s) = tupdate (\<lambda>r. p (lifecycle_pk r)) (\<lambda>r. r\<lparr>lr_active := False\<rparr>) (sd_claims s)"
  by (simp add: deactivate_def)

lemma claims_inv_deactivate: "claims_inv J (sd_claims s) \<Longrightarrow> claims_inv J (sd_claims (deactivate p s))"
proof -
  assume inv: "claims_inv J (sd_claims s)"
  have "list_all (lifecycle_ok J) (sd_claims (deactivate p s))"
    using inv by (auto simp: claims_inv_def deactivate_claims list_all_iff tupdate_def lifecycle_ok_def)
  with inv show ?thesis
    by (simp add: claims_inv_def deactivate_claims keyed_tupdate lifecycle_pk_def lifecycle_uk_def)
qed

lemma sender_map_deactivate:
  assumes "claims_inv J (sd_claims s)"
  shows "sender_map (sd_claims (deactivate p s)) k = Some v \<longleftrightarrow>
    (\<exists>r \<in> set (sd_claims s). lr_active r \<and> \<not> p (lifecycle_pk r) \<and> lifecycle_uk r = k \<and> v = (lr_ip r, True, None))"
  unfolding sender_map_Some [OF claims_inv_deactivate [OF assms]]
  by (auto simp: deactivate_claims tupdate_def lifecycle_pk_def lifecycle_uk_def)

lemma sender_map_unban:
  assumes "claims_inv J (sd_claims s)" "r \<in> set (sd_claims s)" "lr_active r"
  shows "sender_map (sd_claims (deactivate (\<lambda>k. k = lifecycle_pk r) s)) = (sender_map (sd_claims s))(lifecycle_uk r := None)"
proof (rule map_eqI)
  fix k v
  have same: "lifecycle_pk x = lifecycle_pk r \<longleftrightarrow> lifecycle_uk x = lifecycle_uk r" if "x \<in> set (sd_claims s)" for x
    using assms(1,2) that keyed_unique by (metis claims_inv_def)
  then show "sender_map (sd_claims (deactivate (\<lambda>k. k = lifecycle_pk r) s)) k = Some v \<longleftrightarrow>
      ((sender_map (sd_claims s))(lifecycle_uk r := None)) k = Some v"
    by (auto simp: sender_map_deactivate [OF assms(1)] sender_map_Some [OF assms(1)])
qed

subsection \<open>The outbox\<close>

lemma sorted_wrt_snoc: "sorted_wrt (<) (xs @ [x]) \<longleftrightarrow> sorted_wrt (<) xs \<and> (\<forall>y \<in> set xs. y < x)"
  by (simp add: sorted_wrt_append)

lemma insert_outbox_Inr:
  assumes "insert_outbox (int n + 1) kind eid payload now s = Inr t" "outbox_inv n s"
  obtains row where "t = s\<lparr>sd_outbox := sd_outbox s @ [row], sd_last_id := sd_last_id s + 1\<rparr>"
    "or_seq row = int n + 1" "or_kind row = kind" "or_event_id row = eid" "or_payload row = payload"
    "or_delivered_at row = None" "or_attempts row = 0" "or_available_at row = now" "outbox_inv (Suc n) t" "Suc n < 2 ^ 63"
proof -
  let ?row = "\<lparr>or_id = sd_last_id s + 1, or_seq = int n + 1, or_kind = kind, or_event_id = eid,
    or_payload = payload, or_attempts = 0, or_available_at = now, or_delivered_at = None\<rparr>"
  have t: "t = s\<lparr>sd_outbox := sd_outbox s @ [?row], sd_last_id := sd_last_id s + 1\<rparr>" "int n + 1 < 2 ^ 63"
    using assms(1) by (auto simp: insert_outbox_def Let_def result_simps tinsert_Inr split: if_splits)
  have "outbox_inv (Suc n) t"
    using assms(2) by (auto simp: t outbox_inv_def sorted_wrt_snoc)
  with t that [of ?row] show ?thesis by simp
qed

lemma explained_push:
  assumes "explained J R L rows t" "carries J row m" "L < msg_seq m" "msg_effect m (sender_map t) = sender_map u"
  shows "explained J R L (rows @ [row]) u"
proof -
  from assms(1) obtain ms where ms: "list_all2 (carries J) rows ms"
      "fold msg_effect (filter (\<lambda>m. L < msg_seq m) ms) R = sender_map t"
    by (auto simp: explained_def)
  then show ?thesis unfolding explained_def
    by (intro exI [of _ "ms @ [m]"]) (use assms in \<open>simp add: list_all2_appendI\<close>)
qed

text \<open>Appending a message whose effect is the change of the claims keeps the invariant.\<close>

lemma sender_inv_push:
  assumes inv: "sender_inv J limit R L s" and seq: "seq_at s n" and room: "check_capacity limit s = Inr ()"
    and claims: "claims_inv J (sd_claims s1)" and s1: "sd_outbox s1 = sd_outbox s" "sd_last_id s1 = sd_last_id s"
    and meta: "tlookup fst ''seq'' (sd_metadata s1) = Some (''seq'', dec_str (Suc n))"
    and ins: "insert_outbox (int n + 1) (msg_kind m) (msg_id m) (json_bytes (msg_json m)) now s1 = Inr t"
    and m: "msg_ok J m" "msg_seq m = int n + 1" "msg_effect m (sender_map (sd_claims s)) = sender_map (sd_claims s1)"
  shows "sender_inv J limit R L t \<and> (\<exists>row. undelivered t = undelivered s @ [row] \<and> carries J row m \<and> or_available_at row = now) \<and>
    seq_at t (Suc n)"
proof -
  from inv obtain n' where n': "seq_at s n'" "outbox_inv n' s" "L \<le> int n'" by (auto simp: sender_inv_def)
  have [simp]: "n' = n" using current_seq_at [OF seq] current_seq_at [OF n'(1)] by simp
  have "outbox_inv n s1" using n'(2) s1 by (simp add: outbox_inv_def)
  from insert_outbox_Inr [OF ins this] obtain row where row:
      "t = s1\<lparr>sd_outbox := sd_outbox s1 @ [row], sd_last_id := sd_last_id s1 + 1\<rparr>"
      "or_seq row = int n + 1" "or_kind row = msg_kind m" "or_event_id row = msg_id m"
      "or_payload row = json_bytes (msg_json m)" "or_delivered_at row = None" "or_available_at row = now"
      "outbox_inv (Suc n) t" "Suc n < 2 ^ 63"
    by metis
  have und: "undelivered t = undelivered s @ [row]" using row s1(1) by (simp add: undelivered_def)
  have car: "carries J row m" using row m by (simp add: carries_def)
  have at: "seq_at t (Suc n)" using meta row(1,9) by (simp add: seq_at_def)
  have "length (undelivered s) < limit" using room by (auto simp: check_capacity_def split: if_splits)
  moreover have "explained J R L (undelivered t) (sd_claims t)"
    unfolding und by (rule explained_push [OF _ car]) (use inv m n'(3) row(1) in \<open>auto simp: sender_inv_def\<close>)
  ultimately show ?thesis
    using row(1,7,8) n'(3) at claims und car by (auto simp: sender_inv_def intro!: exI [of _ "Suc n"])
qed


subsection \<open>Enqueueing an event\<close>

definition is_active :: "lifecycle_row list \<Rightarrow> pystr \<Rightarrow> pystr \<Rightarrow> bool" where
  "is_active t jail ip \<longleftrightarrow> (\<exists>r \<in> set t. lr_jail r = jail \<and> lr_ip r = ip \<and> lr_active r)"

lemma is_active_map: "claims_inv J t \<Longrightarrow> is_active t jail ip \<longleftrightarrow> (\<exists>b. sender_map t (jail, b) = Some (ip, True, None))"
  by (auto simp: is_active_def sender_map_Some lifecycle_uk_def)

lemma is_active_lookup:
  assumes "claims_inv J (sd_claims s)"
  shows "is_active (sd_claims s) jail ip \<longleftrightarrow>
    (case select_lifecycle jail ip s of None \<Rightarrow> False | Some r \<Rightarrow> lr_active r)"
proof (cases "select_lifecycle jail ip s")
  case None
  then have "(jail, ip) \<notin> lifecycle_pk ` set (sd_claims s)" by (simp add: select_lifecycle_def tlookup_None)
  with None show ?thesis by (auto simp: is_active_def lifecycle_pk_def image_iff)
next
  case (Some r)
  then have r: "r \<in> set (sd_claims s)" "lifecycle_pk r = (jail, ip)"
    using lookup_active [OF assms] by (auto simp: lifecycle_pk_def)
  have "x = r" if "x \<in> set (sd_claims s)" "lr_jail x = jail" "lr_ip x = ip" for x
  proof -
    have "lifecycle_pk x = lifecycle_pk r" using that r(2) by (simp add: lifecycle_pk_def)
    moreover have "keyed lifecycle_pk (sd_claims s)" using assms by (simp add: claims_inv_def)
    ultimately show ?thesis using keyed_unique that(1) r(1) by metis
  qed
  moreover have "lr_jail r = jail \<and> lr_ip r = ip" using r(2) by (simp add: lifecycle_pk_def)
  ultimately have "is_active (sd_claims s) jail ip \<longleftrightarrow> lr_active r" using r(1) unfolding is_active_def by blast
  with Some show ?thesis by simp
qed

definition changed_map :: "pystr \<Rightarrow> pystr \<Rightarrow> pystr \<Rightarrow> pystr \<Rightarrow> claim_map \<Rightarrow> claim_map" where
  "changed_map op jail b ip m =
     (if op = ''ban'' then m((jail, b) \<mapsto> (ip, True, None)) else m((jail, b) := None))"

lemma lifecycle_change_Some:
  assumes "lifecycle_change random op jail ip s = Inr (Some (s1, b))" "claims_inv J (sd_claims s)"
    "J jail" "sender_jail (JStr jail) = Inr jail" "claimable_ip ip"
  shows "sd_metadata s1 = sd_metadata s \<and> sd_outbox s1 = sd_outbox s \<and> sd_last_id s1 = sd_last_id s \<and>
    claims_inv J (sd_claims s1) \<and> uuid_ok b \<and>
    is_active (sd_claims s) jail ip = (op \<noteq> ''ban'') \<and>
    sender_map (sd_claims s1) = changed_map op jail b ip (sender_map (sd_claims s))"
proof (cases "op = ''ban''")
  case True
  with assms(1) have inactive: "\<not> is_active (sd_claims s) jail ip"
    unfolding is_active_lookup [OF assms(2)] by (auto simp: lifecycle_change_def Let_def split: if_splits)
  with True assms(1) have act: "activate jail ip (fresh_uuid random) s = Inr s1" "b = fresh_uuid random"
    unfolding is_active_lookup [OF assms(2)] by (auto simp: lifecycle_change_def Let_def result_simps split: if_splits)
  have ok: "lifecycle_ok J \<lparr>lr_jail = jail, lr_ip = ip, lr_ban_id = b, lr_active = True\<rparr>"
    using assms(3-5) uuid_ok_fresh by (simp add: lifecycle_ok_def act(2))
  note s1 = activate_Inr [OF act(1) [folded act(2)] assms(2) ok, THEN conjunct1]
    and inv1 = activate_Inr [OF act(1) [folded act(2)] assms(2) ok, THEN conjunct2]
  have "sender_map (sd_claims s1) = (sender_map (sd_claims s))((jail, b) \<mapsto> (ip, True, None))"
    using sender_map_ban [OF assms(2)] inv1 inactive by (auto simp: s1 is_active_def lifecycle_pk_def)
  with True inactive inv1 uuid_ok_fresh act(2) show ?thesis by (simp add: changed_map_def) (simp add: s1)
next
  case False
  with assms(1) obtain r where r: "select_lifecycle jail ip s = Some r" "lr_active r"
      "s1 = deactivate (\<lambda>k. k = (jail, ip)) s" "b = lr_ban_id r"
    by (auto simp: lifecycle_change_def Let_def split: option.splits if_splits)
  then have mem: "r \<in> set (sd_claims s)" "lifecycle_pk r = (jail, ip)" "lifecycle_uk r = (jail, b)"
    using lookup_active [OF assms(2)] by (auto simp: lifecycle_pk_def lifecycle_uk_def)
  have "uuid_ok b" using assms(2) mem(1) r(4) by (auto simp: claims_inv_def list_all_iff lifecycle_ok_def)
  moreover have "sd_metadata s1 = sd_metadata s \<and> sd_outbox s1 = sd_outbox s \<and> sd_last_id s1 = sd_last_id s"
    by (simp add: r(3) deactivate_def)
  moreover have "is_active (sd_claims s) jail ip" using mem r(2) by (auto simp: is_active_def lifecycle_pk_def)
  ultimately show ?thesis
    using sender_map_unban [OF assms(2) mem(1) r(2)] claims_inv_deactivate [OF assms(2)] mem False r(3)
    by (simp add: changed_map_def)
qed

lemma lifecycle_change_None:
  "lifecycle_change random op jail ip s = Inr None \<Longrightarrow> claims_inv J (sd_claims s) \<Longrightarrow>
   is_active (sd_claims s) jail ip = (op = ''ban'')"
  by (auto simp: is_active_lookup lifecycle_change_def Let_def result_simps split: if_splits option.splits)

definition event_of :: "nat \<Rightarrow> int \<Rightarrow> pystr \<Rightarrow> pystr \<Rightarrow> pystr \<Rightarrow> pystr \<Rightarrow> event" where
  "event_of random seq op jail b ip =
     \<lparr>ev_event_id = fresh_uuid random, ev_seq = seq, ev_op = op, ev_jail = jail, ev_ban_id = b, ev_ip = ip,
      ev_permanent = Some True, ev_expires_at = None\<rparr>"

lemma event_payload_wire:
  assumes "op = ''ban'' \<or> op = ''unban''" "sender_jail (JStr jail) = Inr jail" "uuid_ok b" "claimable_ip ip"
  shows "event_payload random seq op jail b ip =
    Inr (fresh_uuid random, event_wire (event_of random seq op jail b ip))"
  using assms
  by (auto simp: event_payload_def uuid_ok_lower canonical_ip_claimed event_wire_def event_of_def
        json_opt_bool_def json_opt_time_def)

lemma spec_event_of: "spec_event (event_of random seq op jail b ip) m = changed_map op jail b ip m"
  by (simp add: spec_event_def event_of_def changed_map_def event_key_def event_value_def)

lemma enqueue_body_inv:
  assumes inv: "sender_inv J limit R L s" and seq: "seq_at s n"
    and args: "op = ''ban'' \<or> op = ''unban''" "J jail" "sender_jail (JStr jail) = Inr jail" "claimable_ip ip"
    and run: "enqueue_body limit r1 r2 op jail ip now s = Inr (t, out)"
  shows "(out = None \<and> t = s \<and> is_active (sd_claims s) jail ip = (op = ''ban'')) \<or>
    (\<exists>b row. out = Some (event_wire (event_of r2 (int n + 1) op jail b ip)) \<and> sender_inv J limit R L t \<and>
       is_active (sd_claims s) jail ip = (op \<noteq> ''ban'') \<and> undelivered t = undelivered s @ [row] \<and>
       carries J row (EventMsg (event_of r2 (int n + 1) op jail b ip)) \<and> or_available_at row = now \<and> seq_at t (Suc n) \<and>
       sender_map (sd_claims t) = changed_map op jail b ip (sender_map (sd_claims s)))"
proof -
  have cl: "claims_inv J (sd_claims s)" using inv by (simp add: sender_inv_def)
  from run obtain change where change: "lifecycle_change r1 op jail ip s = Inr change"
    by (auto simp: enqueue_body_def result_simps)
  show ?thesis
  proof (cases change)
    case None
    with run change lifecycle_change_None [OF _ cl] show ?thesis by (auto simp: enqueue_body_def)
  next
    case (Some p)
    obtain s1 b where p: "p = (s1, b)" by fastforce
    note ch = lifecycle_change_Some [OF change [unfolded Some p] cl args(2-4)]
    have at1: "seq_at s1 n" using seq ch by (simp add: seq_at_def)
    obtain meta where nx: "next_seq s1 = Inr (s1\<lparr>sd_metadata := meta\<rparr>, int n + 1)"
        "tlookup fst ''seq'' meta = Some (''seq'', dec_str (Suc n))"
      using next_seq_at [OF at1] by metis
    let ?e = "event_of r2 (int n + 1) op jail b ip"
    have pl: "event_payload r2 (int n + 1) op jail b ip = Inr (fresh_uuid r2, event_wire ?e)"
      by (rule event_payload_wire) (use args ch in auto)
    from run change Some p nx pl have room1: "check_capacity limit s1 = Inr ()" and
        ins: "insert_outbox (int n + 1) ''event'' (fresh_uuid r2) (json_bytes (event_wire ?e)) now (s1\<lparr>sd_metadata := meta\<rparr>) = Inr t"
        and out: "out = Some (event_wire ?e)"
      by (auto simp: enqueue_body_def result_simps)
    have same: "sd_outbox s1 = sd_outbox s" "sd_last_id s1 = sd_last_id s"
      using ch by simp_all
    have room: "check_capacity limit s = Inr ()" using room1 same by (simp add: check_capacity_def undelivered_def)
    have ok: "msg_ok J (EventMsg ?e)"
      using args ch fresh_uuid_canonical by (simp add: sender_event_def event_of_def uuid_ok_def)
    have eff: "msg_effect (EventMsg ?e) (sender_map (sd_claims s)) = sender_map (sd_claims s1)"
      using ch by (simp add: spec_event_of)
    have id: "ev_event_id ?e = fresh_uuid r2" "ev_seq ?e = int n + 1" by (simp_all add: event_of_def)
    have "sender_inv J limit R L t \<and> (\<exists>row. undelivered t = undelivered s @ [row] \<and> carries J row (EventMsg ?e) \<and> or_available_at row = now) \<and> seq_at t (Suc n)"
      by (rule sender_inv_push [OF inv seq room, of "s1\<lparr>sd_metadata := meta\<rparr>"])
         (use ch same nx ins ok eff id in simp_all)
    moreover have "sd_claims t = sd_claims s1"
      using ins by (auto simp: insert_outbox_def Let_def result_simps split: if_splits)
    ultimately show ?thesis using out ch by auto
  qed
qed


subsection \<open>Enqueueing a snapshot\<close>

definition wanted_row :: "wanted_claim \<Rightarrow> lifecycle_row" where
  "wanted_row c = \<lparr>lr_jail = wc_jail c, lr_ip = wc_ip c, lr_ban_id = wc_ban_id c, lr_active = True\<rparr>"

definition wanted_ok :: "(pystr \<Rightarrow> bool) \<Rightarrow> wanted_claim list \<Rightarrow> bool" where
  "wanted_ok J cs \<longleftrightarrow> distinct (map wanted_key cs) \<and> (\<forall>c \<in> set cs. lifecycle_ok J (wanted_row c))"

lemma wanted_row_keys: "lifecycle_pk (wanted_row c) = wanted_key c" "lr_active (wanted_row c)"
  "lifecycle_uk (wanted_row c) = (wc_jail c, wc_ban_id c)" "lr_ip (wanted_row c) = wc_ip c"
  by (simp_all add: wanted_row_def lifecycle_pk_def wanted_key_def lifecycle_uk_def)

lemma py_split_lower: "py_split (CHR ''-'') (py_lower s) = map py_lower (py_split (CHR ''-'') s)"
proof (induction s)
  case (Cons x s)
  then show ?case
    using py_split_nonempty [of "CHR ''-''" s]
    by (cases "py_split (CHR ''-'') s") (auto simp: py_lower_def lower_char_hyphen)
qed (simp add: py_lower_def)

lemma lower_hex: "is_hex c \<Longrightarrow> is_lower_hex (lower_char c)"
  using hex_code [of c] by (auto simp: lower_char_def is_lower_hex_def is_dec_def Let_def code_char_of)

lemma variant_lower: "variant_char c \<Longrightarrow> variant_char (lower_char c)"
proof -
  have all: "list_all (\<lambda>c. variant_char (lower_char c)) ''89abAB''" by code_simp
  show "variant_char c \<Longrightarrow> ?thesis"
    unfolding variant_char_def [of c] by (rule all [unfolded list_all_iff, rule_format])
qed

lemma version_lower: "version_char c \<Longrightarrow> version_char (lower_char c)"
  by (auto simp: version_char_def lower_char_def Let_def)

lemma uuid_re_lower:
  assumes "uuid_re s"
  shows "uuid_ok (py_lower s)"
proof -
  obtain a b c d e where gs: "py_split (CHR ''-'') s = [a, b, c, d, e]"
      and len: "length a = 8" "length b = 4" "length c = 4" "length d = 4" "length e = 12"
    using assms by (auto simp: uuid_re_def Let_def map_eq_Cons_conv)
  from assms gs have hex: "list_all is_hex a" "list_all is_hex b" "list_all is_hex c" "list_all is_hex d" "list_all is_hex e"
      and v: "version_char (hd c)" "variant_char (hd d)"
    by (simp_all add: uuid_re_def)
  let ?L = "\<lambda>t. py_lower t"
  have low: "list_all is_lower_hex (?L t)" if "list_all is_hex t" for t
    using that lower_hex by (auto simp: py_lower_def list_all_iff)
  have sp: "py_split (CHR ''-'') (?L s) = [?L a, ?L b, ?L c, ?L d, ?L e]" by (simp add: py_split_lower gs)
  have len': "length (?L t) = length t" "hd (?L u) = lower_char (hd u)" if "u \<noteq> []" for t u
    using that by (simp_all add: py_lower_def hd_map)
  have ne: "c \<noteq> []" "d \<noteq> []" using len by auto
  have lhex: "list_all is_hex (?L t)" if "list_all is_hex t" for t
    using low [OF that] lower_hex_facts(1) by (auto simp: list_all_iff)
  have "uuid_re (?L s)"
    using len hex v ne lhex variant_lower version_lower by (simp add: uuid_re_def sp len')
  moreover have "canonical_uuid (?L s)"
  proof -
    let ?h = "?L a @ ?L b @ ?L c @ ?L d @ ?L e"
    have lower: "list_all is_lower_hex ?h" using low hex by simp
    have "length ?h = 32" using len by (simp add: py_lower_def)
    moreover have "?L s = uuid_format ?h"
      using py_join_split [of "CHR ''-''" "?L s", unfolded sp] len by (simp add: uuid_format_def py_lower_def)
    ultimately show ?thesis
      using lower no_hyphens_format [OF lower_hex_no_hyphen [OF lower]] by (simp add: canonical_uuid_def)
  qed
  ultimately show ?thesis by (simp add: uuid_ok_def)
qed

lemma sender_uuid_ok: "sender_uuid t = Inr b \<Longrightarrow> uuid_ok b"
  by (auto simp: sender_uuid_def uuid_re_lower split: if_splits)


lemma claimed_id_ok:
  assumes "claimed_id given existing = Some (Inr b)" "\<And>x. existing = Some x \<Longrightarrow> uuid_ok x"
  shows "uuid_ok b"
  using assms
  by (auto simp: claimed_id_def dest: sender_uuid_ok split: if_splits option.splits)

lemma current_claim_ok: "claims_inv J (sd_claims s) \<Longrightarrow> current_claim jail ip s = Some x \<Longrightarrow> uuid_ok x"
proof -
  assume inv: "claims_inv J (sd_claims s)" and x: "current_claim jail ip s = Some x"
  from x obtain r where "select_lifecycle jail ip s = Some r" "x = lr_ban_id r"
    by (auto simp: current_claim_def split: option.splits if_splits)
  with lookup_active [OF inv] inv show ?thesis by (auto simp: claims_inv_def list_all_iff lifecycle_ok_def)
qed

definition jails_within :: "(pystr \<Rightarrow> bool) \<Rightarrow> (pystr \<times> json) list list \<Rightarrow> bool" where
  "jails_within J claims \<longleftrightarrow> (\<forall>c \<in> set claims. \<forall>j. sender_jail (get_item c ''jail'') = Inr j \<longrightarrow> J j)"

lemma normalize_claim_ok:
  assumes "normalize_claim views random claim acc = Inr acc'" "\<And>i. claims_inv J (sd_claims (views i))" "wanted_ok J (fst acc)"
    "\<And>j. sender_jail (get_item claim ''jail'') = Inr j \<Longrightarrow> J j"
  shows "wanted_ok J (fst acc')"
proof -
  from assms(1) obtain jail ip where j: "sender_jail (get_item claim ''jail'') = Inr jail"
      "canonical_ip (get_item claim ''ip'') = Inr ip" "(jail, ip) \<notin> wanted_key ` set (fst acc)"
    by (auto simp: normalize_claim_def claim_pair_def result_simps split: if_splits)
  have jail: "sender_jail (JStr jail) = Inr jail" using j(1) by (simp add: sender_jail_iff)
  let ?view = "views (length (fst acc))"
  from assms(1) j obtain b where b: "fst acc' = fst acc @ [\<lparr>wc_jail = jail, wc_ip = ip, wc_ban_id = b\<rparr>]"
      "claimed_id (get_item claim ''ban_id'') (current_claim jail ip ?view) = Some (Inr b) \<or>
       b = fresh_uuid (random (snd acc))"
    by (auto simp: normalize_claim_def claim_pair_def add_claim_def result_simps split: option.splits)
  have "uuid_ok b"
    using b(2) claimed_id_ok [where existing = "current_claim jail ip ?view"] current_claim_ok [OF assms(2)] uuid_ok_fresh
    by blast
  with assms(3,4) j jail b(1) canonical_ip_claimable [OF j(2)] show ?thesis
    by (auto simp: wanted_ok_def wanted_row_def lifecycle_ok_def wanted_key_def)
qed

lemma normalize_claims_ok:
  assumes "normalize_claims views random claims = Inr (wanted, drawn)" "\<And>i. claims_inv J (sd_claims (views i))" "jails_within J claims"
  shows "wanted_ok J wanted"
proof -
  have "wanted_ok J (fst (wanted, drawn))"
    by (rule rfold_invariant [where P = "\<lambda>a. wanted_ok J (fst a)", OF assms(1) [unfolded normalize_claims_def]])
       (use assms(3) in \<open>auto simp: jails_within_def intro: normalize_claim_ok [OF _ assms(2)]\<close>, simp add: wanted_ok_def)
  then show ?thesis by simp
qed

lemma rfold_activate:
  assumes "rfold (\<lambda>c. activate (wc_jail c) (wc_ip c) (wc_ban_id c)) cs s = Inr t" "claims_inv J (sd_claims s)" "wanted_ok J cs"
  shows "claims_inv J (sd_claims t) \<and>
    set (sd_claims t) = wanted_row ` set cs \<union> {r \<in> set (sd_claims s). lifecycle_pk r \<notin> wanted_key ` set cs} \<and>
    sd_metadata t = sd_metadata s \<and> sd_outbox t = sd_outbox s \<and> sd_last_id t = sd_last_id s"
  using assms
proof (induction cs arbitrary: s)
  case (Cons c cs)
  then obtain u where u: "activate (wc_jail c) (wc_ip c) (wc_ban_id c) s = Inr u"
      "rfold (\<lambda>c. activate (wc_jail c) (wc_ip c) (wc_ban_id c)) cs u = Inr t"
    by (auto simp: result_simps)
  have ok: "lifecycle_ok J \<lparr>lr_jail = wc_jail c, lr_ip = wc_ip c, lr_ban_id = wc_ban_id c, lr_active = True\<rparr>"
    using Cons.prems(3) by (simp add: wanted_ok_def wanted_row_def)
  note a = activate_Inr [OF u(1) Cons.prems(2) ok, folded wanted_row_def]
  have set_u: "set (sd_claims u) = insert (wanted_row c) {r \<in> set (sd_claims s). lifecycle_pk r \<noteq> wanted_key c}"
    by (subst conjunct1 [OF a]) (simp add: set_tupsert_eq wanted_row_keys)
  have meta: "sd_metadata u = sd_metadata s" "sd_outbox u = sd_outbox s" "sd_last_id u = sd_last_id s"
    using conjunct1 [OF a] by simp_all
  have "wanted_ok J cs" "wanted_key c \<notin> wanted_key ` set cs" using Cons.prems(3) by (auto simp: wanted_ok_def)
  with Cons.IH [OF u(2) conjunct2 [OF a]] set_u meta show ?case by (auto simp: wanted_row_keys)
qed simp


definition claim_of :: "wanted_claim \<Rightarrow> claim" where
  "claim_of c = \<lparr>cl_jail = wc_jail c, cl_ban_id = wc_ban_id c, cl_ip = wc_ip c, cl_permanent = True, cl_expires_at = None\<rparr>"

definition snapshot_msg :: "nat \<Rightarrow> int \<Rightarrow> wanted_claim list \<Rightarrow> message" where
  "snapshot_msg random seq cs = SnapshotMsg (fresh_uuid random) seq (map claim_of (sort_key wanted_key cs))"

lemma snapshot_msg_json: "msg_json (snapshot_msg random seq cs) = snapshot_json (fresh_uuid random) seq cs"
  by (simp add: snapshot_msg_def snapshot_payload_def snapshot_json_def claim_wire_def claim_of_def claim_json_def
        json_opt_time_def)

lemma settle_ok:
  assumes "claims_inv J (sd_claims s)" "wanted_ok J cs"
  shows "wanted_ok J (map (settle s) cs) \<and> map wanted_key (map (settle s) cs) = map wanted_key cs"
proof -
  have key: "wanted_key (settle s c) = wanted_key c" for c by (simp add: settle_def wanted_key_def)
  have uuid: "uuid_ok b" if "existing_map s k = Some b" for k b
  proof -
    from that obtain r where r: "tlookup lifecycle_pk k (filter lr_active (sd_claims s)) = Some r" "b = lr_ban_id r"
      by (auto simp: existing_map_def)
    then have "r \<in> set (sd_claims s)" by (auto dest: tlookup_SomeD)
    with r(2) assms(1) show ?thesis by (auto simp: claims_inv_def list_all_iff lifecycle_ok_def)
  qed
  have "lifecycle_ok J (wanted_row (settle s c))" if "c \<in> set cs" for c
    using assms(2) that uuid by (auto simp: wanted_ok_def lifecycle_ok_def wanted_row_def settle_def split: option.splits)
  moreover have "map wanted_key (map (settle s) cs) = map wanted_key cs" by (simp add: key)
  ultimately show ?thesis using assms(2) by (simp add: wanted_ok_def key o_def)
qed

lemma spec_snapshot_claims:
  assumes "distinct (map (\<lambda>c. (wc_jail c, wc_ban_id c)) cs)"
  shows "spec_snapshot (map claim_of cs) k = Some v \<longleftrightarrow> (\<exists>c \<in> set cs. k = (wc_jail c, wc_ban_id c) \<and> v = (wc_ip c, True, None))"
proof -
  have "distinct (map fst (map (\<lambda>cl. (claim_key cl, claim_value_of cl)) (map claim_of cs)))"
    using assms by (simp add: o_def claim_key_def claim_of_def)
  from map_of_eq_Some_iff [OF this] show ?thesis
    by (auto simp: spec_snapshot_def claim_key_def claim_value_of_def claim_of_def)
qed

text \<open>The replaced set: active are exactly the wanted pairs.\<close>

lemma snapshot_claims_map:
  assumes inv: "claims_inv J (sd_claims s)" and want: "wanted_ok J cs" "map wanted_key cs = map wanted_key wanted"
    and run: "rfold (\<lambda>c. activate (wc_jail c) (wc_ip c) (wc_ban_id c)) cs s = Inr s1"
  defines "s2 \<equiv> deactivate (released s wanted) s1"
  shows "claims_inv J (sd_claims s2)" "sender_map (sd_claims s2) = spec_snapshot (map claim_of (sort_key wanted_key cs))"
    "distinct (map (\<lambda>c. (wc_jail c, wc_ban_id c)) cs)"
proof -
  note a = rfold_activate [OF run inv want(1)]
  show "claims_inv J (sd_claims s2)" unfolding s2_def by (rule claims_inv_deactivate) (use a in simp)
  have keys: "wanted_key ` set cs = set (map wanted_key wanted)" using want(2) by (metis list.set_map)
  have uk: "keyed lifecycle_uk (sd_claims s1)" using a by (simp add: claims_inv_def)
  have inj: "inj_on (\<lambda>c. (wc_jail c, wc_ban_id c)) (set cs)"
  proof (rule inj_onI)
    fix c d assume cd: "c \<in> set cs" "d \<in> set cs" "(wc_jail c, wc_ban_id c) = (wc_jail d, wc_ban_id d)"
    then have "wanted_row c = wanted_row d"
      using keyed_unique [OF uk, of "wanted_row c" "wanted_row d"] a by (simp add: wanted_row_keys)
    then show "c = d" by (simp add: wanted_row_def)
  qed
  have "distinct cs" using want(1) by (auto simp: wanted_ok_def distinct_map)
  with inj show dist: "distinct (map (\<lambda>c. (wc_jail c, wc_ban_id c)) cs)" by (simp add: distinct_map)
  then have dist': "distinct (map (\<lambda>c. (wc_jail c, wc_ban_id c)) (sort_key wanted_key cs))"
    using \<open>distinct cs\<close> by (simp add: distinct_map)
  have old: "existing_map s (lifecycle_pk r) \<noteq> None" if "r \<in> set (sd_claims s)" "lr_active r" for r
    using that by (auto simp: existing_map_def tlookup_None)
  have rows: "r \<in> set (sd_claims s1) \<and> lr_active r \<and> \<not> released s wanted (lifecycle_pk r) \<longleftrightarrow> r \<in> wanted_row ` set cs" for r
  proof (cases "r \<in> wanted_row ` set cs")
    case True
    then have "lifecycle_pk r \<in> wanted_key ` set cs" "lr_active r" by (auto simp: wanted_row_keys)
    with True a keys show ?thesis by (simp add: released_def)
  next
    case False
    have "released s wanted (lifecycle_pk r)" if "r \<in> set (sd_claims s1)" "lr_active r"
    proof -
      have "r \<in> set (sd_claims s)" "lifecycle_pk r \<notin> wanted_key ` set cs" using a False that(1) by auto
      with old that(2) keys show ?thesis by (simp add: released_def)
    qed
    with False show ?thesis by blast
  qed
  show "sender_map (sd_claims s2) = spec_snapshot (map claim_of (sort_key wanted_key cs))"
  proof (rule map_eqI)
    fix k v
    have "sender_map (sd_claims s2) k = Some v \<longleftrightarrow> (\<exists>r \<in> set (sd_claims s1). lr_active r \<and>
        \<not> released s wanted (lifecycle_pk r) \<and> lifecycle_uk r = k \<and> v = (lr_ip r, True, None))"
      unfolding s2_def by (rule sender_map_deactivate [where J = J]) (use a in simp)
    also have "\<dots> \<longleftrightarrow> (\<exists>c \<in> set cs. k = (wc_jail c, wc_ban_id c) \<and> v = (wc_ip c, True, None))"
      (is "?L \<longleftrightarrow> ?R")
    proof -
      have "?L \<longleftrightarrow> (\<exists>r \<in> wanted_row ` set cs. lifecycle_uk r = k \<and> v = (lr_ip r, True, None))" using rows by blast
      also have "\<dots> \<longleftrightarrow> ?R" by (auto simp: wanted_row_keys)
      finally show ?thesis .
    qed
    also have "\<dots> \<longleftrightarrow> spec_snapshot (map claim_of (sort_key wanted_key cs)) k = Some v"
      by (simp add: spec_snapshot_claims [OF dist'])
    finally show "sender_map (sd_claims s2) k = Some v \<longleftrightarrow> spec_snapshot (map claim_of (sort_key wanted_key cs)) k = Some v" .
  qed
qed

lemma snapshot_body_inv:
  assumes inv: "sender_inv J limit R L s" and seq: "seq_at s n" and want: "wanted_ok J wanted"
    and run: "snapshot_body limit random wanted expected now s = Inr (t, out)"
  shows "sender_inv J limit R L t \<and> seq_at t (Suc n) \<and> (\<forall>m. expected = Some m \<longrightarrow> int n = m) \<and>
    (\<exists>cs row. map wanted_key cs = map wanted_key wanted \<and> undelivered t = undelivered s @ [row] \<and>
       out = msg_json (snapshot_msg random (int n + 1) cs) \<and> carries J row (snapshot_msg random (int n + 1) cs) \<and>
       or_available_at row = now \<and>
       sender_map (sd_claims t) = spec_snapshot (map claim_of (sort_key wanted_key cs)))"
proof -
  let ?cs = "map (settle s) wanted"
  have cl: "claims_inv J (sd_claims s)" using inv by (simp add: sender_inv_def)
  note st = settle_ok [OF cl want]
  from run obtain s1 where fence: "fence_ok expected s = Inr ()" and room: "check_capacity limit s = Inr ()"
      and act: "rfold (\<lambda>c. activate (wc_jail c) (wc_ip c) (wc_ban_id c)) ?cs s = Inr s1"
    by (auto simp: snapshot_body_def result_simps Let_def)
  define s2 where "s2 = deactivate (released s wanted) s1"
  note sn = snapshot_claims_map [OF cl conjunct1 [OF st] conjunct2 [OF st] act, folded s2_def]
  have meta2: "sd_metadata s2 = sd_metadata s" "sd_outbox s2 = sd_outbox s" "sd_last_id s2 = sd_last_id s"
    using rfold_activate [OF act cl conjunct1 [OF st]] by (simp_all add: s2_def deactivate_def)
  then have "seq_at s2 n" using seq by (simp add: seq_at_def)
  then obtain meta where nx: "next_seq s2 = Inr (s2\<lparr>sd_metadata := meta\<rparr>, int n + 1)"
      "tlookup fst ''seq'' meta = Some (''seq'', dec_str (Suc n))"
    using next_seq_at by metis
  let ?m = "snapshot_msg random (int n + 1) ?cs"
  have ins: "insert_outbox (int n + 1) ''snapshot'' (fresh_uuid random) (json_bytes (msg_json ?m)) now (s2\<lparr>sd_metadata := meta\<rparr>) = Inr t"
    and out: "out = msg_json ?m"
    using run fence room act nx
    by (auto simp: snapshot_body_def result_simps Let_def s2_def [symmetric] snapshot_msg_json)
  have ok: "msg_ok J ?m"
    using conjunct1 [OF st] sn(3) fresh_uuid_canonical
    by (auto simp: snapshot_msg_def list_all_iff sender_claim_def claim_of_def wanted_ok_def lifecycle_ok_def wanted_row_def
          uuid_ok_def claim_key_def distinct_map inj_on_def)
  have fields: "msg_kind ?m = ''snapshot''" "msg_id ?m = fresh_uuid random" "msg_seq ?m = int n + 1"
    by (simp_all add: snapshot_msg_def)
  have eff: "msg_effect ?m (sender_map (sd_claims s)) = sender_map (sd_claims s2)"
    by (simp add: sn(2)) (simp add: snapshot_msg_def)
  have push: "sender_inv J limit R L t \<and> (\<exists>row. undelivered t = undelivered s @ [row] \<and> carries J row ?m \<and> or_available_at row = now) \<and> seq_at t (Suc n)"
    by (rule sender_inv_push [OF inv seq room, of "s2\<lparr>sd_metadata := meta\<rparr>"])
       (use sn(1) meta2 nx(2) ins ok eff fields in simp_all)
  have claims: "sd_claims t = sd_claims s2"
    using ins by (auto simp: insert_outbox_def Let_def result_simps split: if_splits)
  have fence': "\<forall>m. expected = Some m \<longrightarrow> int n = m"
    using fence current_seq_at [OF seq] by (auto simp: fence_ok_def split: if_splits)
  from push out fence' conjunct2 [OF st] sn(2) show ?thesis unfolding claims by blast
qed


subsection \<open>Delivery and housekeeping\<close>

lemma undelivered_sorted: "outbox_inv n s \<Longrightarrow> sorted_wrt (<) (map or_seq (undelivered s)) \<and> sorted_wrt (<) (map or_id (undelivered s))"
  by (auto simp: outbox_inv_def undelivered_def sorted_wrt_map sorted_wrt_filter)

lemma foldl_min_head: "\<forall>y \<in> set xs. x < y \<Longrightarrow> foldl min x xs = (x :: int)"
  by (induction xs) (auto simp: min_def)

text \<open>Only the oldest undelivered row is ever due.\<close>

lemma next_due_head:
  assumes "outbox_inv n s"
  shows "next_due now s = (case undelivered s of [] \<Rightarrow> None | r # _ \<Rightarrow> if or_available_at r \<le> now then Some r else None)"
proof (cases "undelivered s")
  case (Cons r rest)
  have lt: "\<forall>x \<in> set rest. or_seq r < or_seq x" using undelivered_sorted [OF assms] by (simp add: Cons)
  then have "min_pending s = Some (or_seq r)" by (simp add: min_pending_def Cons foldl_min_head)
  moreover have "find (\<lambda>x. or_available_at x \<le> now \<and> or_seq r = or_seq x) rest = None"
    using lt by (auto simp: find_None_iff)
  ultimately show ?thesis by (simp add: next_due_def Cons)
qed (simp add: next_due_def)

lemma head_rows:
  assumes inv: "outbox_inv n s" and head: "undelivered s = r # rest"
    and t: "sd_outbox t = tupdate (\<lambda>x. or_id x = or_id r \<and> or_delivered_at x = None) f (sd_outbox s)"
  obtains pre post where "sd_outbox s = pre @ r # post" "sd_outbox t = pre @ f r # post" "\<forall>x \<in> set pre. or_delivered_at x \<noteq> None"
      "or_delivered_at r = None" "rest = filter (\<lambda>r. or_delivered_at r = None) post"
proof -
  obtain pre post where rows: "sd_outbox s = pre @ r # post" "\<forall>x \<in> set pre. or_delivered_at x \<noteq> None"
      "or_delivered_at r = None" "rest = filter (\<lambda>r. or_delivered_at r = None) post"
    using head by (auto simp: undelivered_def filter_eq_Cons_iff)
  have ids: "\<forall>x \<in> set post. or_id r < or_id x"
    using inv by (simp add: outbox_inv_def rows sorted_wrt_append)
  have "tupdate (\<lambda>x. or_id x = or_id r \<and> or_delivered_at x = None) f (sd_outbox s) = pre @ f r # post"
    using rows(2,3) ids by (simp add: rows(1) tupdate_def) (auto intro!: map_idI)
  with rows t show thesis by (intro that) simp_all
qed

lemma head_update:
  assumes inv: "outbox_inv n s" and head: "undelivered s = r # rest"
    and t: "sd_outbox t = tupdate (\<lambda>x. or_id x = or_id r \<and> or_delivered_at x = None) f (sd_outbox s)"
  shows "undelivered t = (if or_delivered_at (f r) = None then [f r] else []) @ rest"
  by (rule head_rows [OF inv head t]) (simp add: undelivered_def filter_False)

lemma outbox_inv_tupdate:
  assumes "outbox_inv n s" "\<And>r. or_id (f r) = or_id r \<and> or_seq (f r) = or_seq r"
    "sd_outbox t = tupdate p f (sd_outbox s)" "sd_last_id t = sd_last_id s"
  shows "outbox_inv n t"
proof -
  have "map or_seq (tupdate p f rows) = map or_seq rows" "map or_id (tupdate p f rows) = map or_id rows" for rows
    using assms(2) by (simp_all add: tupdate_def)
  moreover have "\<forall>r \<in> set (tupdate p f (sd_outbox s)). 0 < or_seq r \<and> or_seq r \<le> int n \<and> or_id r \<le> sd_last_id s"
    using assms(1,2) by (auto simp: outbox_inv_def tupdate_def)
  ultimately show ?thesis using assms by (simp add: outbox_inv_def)
qed

text \<open>What the receiver makes of a message: nothing, if it has seen its sequence number.\<close>

definition receive :: "message \<Rightarrow> claim_map \<times> int \<Rightarrow> claim_map \<times> int" where
  "receive m p = (if msg_seq m \<le> snd p then p else (msg_effect m (fst p), msg_seq m))"

lemma carried_head:
  assumes "sender_inv J limit R L s" "undelivered s = r # rest"
  obtains m ms where "carries J r m" "list_all2 (carries J) rest ms" "0 < msg_seq m" "\<forall>m' \<in> set ms. msg_seq m < msg_seq m'"
    "fold msg_effect (filter (\<lambda>m. L < msg_seq m) (m # ms)) R = sender_map (sd_claims s)"
proof -
  from assms obtain n where n: "outbox_inv n s" by (auto simp: sender_inv_def)
  from assms obtain ms0 where ms0: "list_all2 (carries J) (r # rest) ms0"
      "fold msg_effect (filter (\<lambda>m. L < msg_seq m) ms0) R = sender_map (sd_claims s)"
    by (auto simp: sender_inv_def explained_def)
  then obtain m ms where m: "ms0 = m # ms" "carries J r m" "list_all2 (carries J) rest ms" by (auto simp: list_all2_Cons1)
  have "map or_seq rest = map msg_seq ms"
    using m(3) by (induction rule: list_all2_induct) (simp_all add: carries_def)
  then have "set (map msg_seq ms) = set (map or_seq rest)" by simp
  moreover have "or_seq r = msg_seq m" using m(2) by (simp add: carries_def)
  moreover have "\<forall>x \<in> set rest. or_seq r < or_seq x" "0 < or_seq r"
  proof -
    show "\<forall>x \<in> set rest. or_seq r < or_seq x" using undelivered_sorted [OF n] assms(2) by simp
    have "r \<in> set (sd_outbox s)" using assms(2) by (metis filter_is_subset list.set_intros(1) subsetD undelivered_def)
    then show "0 < or_seq r" using n by (simp add: outbox_inv_def)
  qed
  ultimately have "\<forall>m' \<in> set ms. msg_seq m < msg_seq m'" "0 < msg_seq m"
    by simp_all (metis imageE imageI)
  with m ms0(2) that show ?thesis by blast
qed

lemma filter_after:
  assumes "\<forall>m' \<in> set ms. msg_seq m < msg_seq m'" "receive m (R, L) = (R', L')"
  shows "fold msg_effect (filter (\<lambda>x. L' < msg_seq x) ms) R' = fold msg_effect (filter (\<lambda>x. L < msg_seq x) (m # ms)) R"
    "filter (\<lambda>x. L' < msg_seq x) (m # ms) = filter (\<lambda>x. L' < msg_seq x) ms"
proof -
  have "filter (\<lambda>x. msg_seq m < msg_seq x) ms = ms" "L < msg_seq m \<Longrightarrow> filter (\<lambda>x. L < msg_seq x) ms = ms"
    using assms(1) by (auto simp: filter_id_conv)
  then show "fold msg_effect (filter (\<lambda>x. L' < msg_seq x) ms) R' = fold msg_effect (filter (\<lambda>x. L < msg_seq x) (m # ms)) R"
    using assms(2) by (auto simp: receive_def split: if_splits)
  show "filter (\<lambda>x. L' < msg_seq x) (m # ms) = filter (\<lambda>x. L' < msg_seq x) ms"
    using assms(2) by (auto simp: receive_def split: if_splits)
qed

text \<open>The receiver takes the head, whether the sender learns of it or not.\<close>

lemma sender_inv_receive:
  assumes inv: "sender_inv J limit R L s" and head: "undelivered s = r # rest"
  obtains m where "carries J r m" "\<And>R' L'. receive m (R, L) = (R', L') \<Longrightarrow> sender_inv J limit R' L' s"
proof -
  from inv obtain n where n: "seq_at s n" "outbox_inv n s" "L \<le> int n" by (auto simp: sender_inv_def)
  obtain m ms where ms: "carries J r m" "list_all2 (carries J) rest ms" "\<forall>m' \<in> set ms. msg_seq m < msg_seq m'"
      "fold msg_effect (filter (\<lambda>m. L < msg_seq m) (m # ms)) R = sender_map (sd_claims s)"
    using carried_head [OF inv head] by metis
  have "r \<in> set (sd_outbox s)" using head by (metis filter_is_subset list.set_intros(1) subsetD undelivered_def)
  then have seq: "msg_seq m \<le> int n" using n(2) ms(1) by (auto simp: outbox_inv_def carries_def)
  have "sender_inv J limit R' L' s" if step: "receive m (R, L) = (R', L')" for R' L'
  proof -
    have L': "L' \<le> int n" using step seq n(3) by (auto simp: receive_def split: if_splits)
    have "explained J R' L' (undelivered s) (sd_claims s)"
      unfolding explained_def
      by (rule exI [of _ "m # ms"]) (use head ms filter_after [OF ms(3) step] in simp)
    with inv n L' show ?thesis by (auto simp: sender_inv_def)
  qed
  with ms(1) that show ?thesis by blast
qed

text \<open>Marking the head as delivered, once the receiver has it.\<close>

lemma sender_inv_mark:
  assumes inv: "sender_inv J limit R L s" and head: "undelivered s = r # rest" and seen: "or_seq r \<le> L"
  shows "sender_inv J limit R L (mark_delivered (or_id r) now s) \<and> undelivered (mark_delivered (or_id r) now s) = rest"
proof -
  let ?t = "mark_delivered (or_id r) now s"
  from inv obtain n where n: "seq_at s n" "outbox_inv n s" "L \<le> int n" by (auto simp: sender_inv_def)
  have und: "undelivered ?t = rest"
    using head_update [OF n(2) head, of ?t "\<lambda>x. x\<lparr>or_delivered_at := Some now\<rparr>"] by (simp add: mark_delivered_def)
  have out: "outbox_inv n ?t" by (rule outbox_inv_tupdate [OF n(2)]) (simp_all add: mark_delivered_def)
  obtain m ms where ms: "carries J r m" "list_all2 (carries J) rest ms" "\<forall>m' \<in> set ms. msg_seq m < msg_seq m'"
      "fold msg_effect (filter (\<lambda>m. L < msg_seq m) (m # ms)) R = sender_map (sd_claims s)"
    using carried_head [OF inv head] by metis
  moreover have "\<not> L < msg_seq m" using ms(1) seen by (simp add: carries_def)
  ultimately have "explained J R L rest (sd_claims s)" by (auto simp: explained_def)
  with inv n und out head show ?thesis by (auto simp: sender_inv_def mark_delivered_def seq_at_def)
qed

lemma sender_inv_retry:
  assumes inv: "sender_inv J limit R L s" and head: "undelivered s = r # rest"
  shows "sender_inv J limit R L (mark_retry (or_id r) k now delay s) \<and>
    undelivered (mark_retry (or_id r) k now delay s) = r\<lparr>or_attempts := k, or_available_at := now + delay\<rparr> # rest"
proof -
  let ?t = "mark_retry (or_id r) k now delay s" and ?r = "r\<lparr>or_attempts := k, or_available_at := now + delay\<rparr>"
  from inv obtain n where n: "seq_at s n" "outbox_inv n s" "L \<le> int n" by (auto simp: sender_inv_def)
  have "or_delivered_at r = None"
    using head by (metis (mono_tags, lifting) list.set_intros(1) mem_Collect_eq set_filter undelivered_def)
  then have und: "undelivered ?t = ?r # rest"
    using head_update [OF n(2) head, of ?t "\<lambda>x. x\<lparr>or_attempts := k, or_available_at := now + delay\<rparr>"]
    by (simp add: mark_retry_def)
  have out: "outbox_inv n ?t" by (rule outbox_inv_tupdate [OF n(2)]) (simp_all add: mark_retry_def)
  obtain m ms where ms: "carries J r m" "list_all2 (carries J) rest ms"
      "fold msg_effect (filter (\<lambda>m. L < msg_seq m) (m # ms)) R = sender_map (sd_claims s)"
    using carried_head [OF inv head] by metis
  moreover have "carries J ?r m" using ms(1) by (simp add: carries_def)
  ultimately have "explained J R L (?r # rest) (sd_claims s)"
    unfolding explained_def by (intro exI [of _ "m # ms"]) simp
  with inv n und out head show ?thesis by (auto simp: sender_inv_def mark_retry_def seq_at_def)
qed

text \<open>Metadata other than the counter, the pruning and the schema script change nothing that matters.\<close>

lemma sender_inv_cong:
  assumes "sender_inv J limit R L s" "sd_claims t = sd_claims s" "undelivered t = undelivered s"
    "\<And>n. seq_at s n \<Longrightarrow> seq_at t n" "\<And>n. outbox_inv n s \<Longrightarrow> outbox_inv n t"
  shows "sender_inv J limit R L t"
  using assms by (auto simp: sender_inv_def)

lemma sender_inv_last_error:
  assumes "sender_inv J limit R L s"
  shows "sender_inv J limit R L (set_last_error msg s)" "sender_inv J limit R L (clear_last_error s)"
proof -
  have "seq_at (clear_last_error s) n" if "seq_at s n" for n
  proof -
    have "tlookup fst ''seq'' (tdelete (\<lambda>r. fst r = ''last_error'') t) = tlookup fst ''seq'' t" for t :: "(pystr \<times> pystr) list"
      by (induction t) (auto simp: tdelete_def)
    with that show ?thesis by (simp add: seq_at_def clear_last_error_def)
  qed
  then show "sender_inv J limit R L (clear_last_error s)"
    by (intro sender_inv_cong [OF assms]) (simp_all add: clear_last_error_def undelivered_def outbox_inv_def)
  show "sender_inv J limit R L (set_last_error msg s)"
    by (rule sender_inv_cong [OF assms])
       (simp_all add: set_last_error_def undelivered_def outbox_inv_def seq_at_def tlookup_tupsert)
qed

lemma sender_inv_init:
  assumes "sender_inv J limit R L s" "store_init isdir path lim0 s = Inr t"
  shows "sender_inv J limit R L t \<and> undelivered t = undelivered s"
proof -
  have t: "t = prune_delivered (create_tables s)" using assms(2) by (auto simp: store_init_def Let_def split: if_splits)
  have und: "undelivered t = undelivered s"
    by (simp add: t undelivered_def prune_delivered_def create_tables_def tdelete_def)
  have "outbox_inv n t" if "outbox_inv n s" for n
    using that by (auto simp: t outbox_inv_def prune_delivered_def create_tables_def tdelete_def sorted_wrt_map sorted_wrt_filter)
  moreover have "seq_at t n" if "seq_at s n" for n
    using that by (simp add: t seq_at_def prune_delivered_def create_tables_def tlookup_tinsert_ignore)
  ultimately have "sender_inv J limit R L t"
    by (intro sender_inv_cong [OF assms(1)]) (simp_all add: und t prune_delivered_def create_tables_def undelivered_def tdelete_def)
  with und show ?thesis by blast
qed

lemma sender_inv_fresh:
  assumes "store_init isdir path lim0 no_tables = Inr s"
  shows "sender_inv J limit Map.empty 0 s"
proof -
  have "s = \<lparr>sd_metadata = [(''seq'', ''0'')], sd_claims = [], sd_outbox = [], sd_last_id = 0\<rparr>"
    using assms by (auto simp: store_init_def Let_def prune_delivered_def create_tables_def no_tables_def
      tinsert_ignore_def tdelete_def split: if_splits)
  moreover have "dec_str 0 = ''0''" by code_simp
  ultimately show ?thesis
    by (auto simp: sender_inv_def seq_at_def outbox_inv_def claims_inv_def undelivered_def explained_def sender_map_def
          intro!: exI [of _ 0])
qed

end
