(* ===== verification/SenderContract.thy ===== *)
theory SenderContract
  imports SenderInvariant
begin

text \<open>
  What the sender's store promises to its hooks and its worker, for every database that the
  methods can produce in any order, with any arguments, clock readings and random bits.
\<close>

subsection \<open>Reachable databases\<close>

text \<open>
  \<open>Rejoin\<close> is another process opening the file; a snapshot reads each claim from a state of its own.
  The worker marks or postpones only the row that is due.
\<close>

inductive sender_reachable :: "nat \<Rightarrow> sender_db \<Rightarrow> bool" for limit :: nat where
  Start: "store_init isdir path lim0 no_tables = Inr s \<Longrightarrow> sender_reachable limit s"
| Rejoin: "sender_reachable limit s \<Longrightarrow> store_init isdir path lim0 s = Inr t \<Longrightarrow> sender_reachable limit t"
| Hook: "sender_reachable limit s \<Longrightarrow> enqueue limit r1 r2 op jail ip now s = (t, out) \<Longrightarrow> sender_reachable limit t"
| Snapshot: "(\<And>i. sender_reachable limit (views i)) \<Longrightarrow> sender_reachable limit s \<Longrightarrow>
    enqueue_snapshot limit random claims now expected views s = (t, result) \<Longrightarrow> sender_reachable limit t"
| Delivered: "sender_reachable limit s \<Longrightarrow> next_due now s = Some row \<Longrightarrow>
    sender_reachable limit (mark_delivered (or_id row) when s)"
| Postponed: "sender_reachable limit s \<Longrightarrow> next_due now s = Some row \<Longrightarrow>
    sender_reachable limit (mark_retry (or_id row) k when delay s)"
| Noted: "sender_reachable limit s \<Longrightarrow> sender_reachable limit (set_last_error msg s)"
| Cleared: "sender_reachable limit s \<Longrightarrow> sender_reachable limit (clear_last_error s)"

abbreviation any_jail :: "pystr \<Rightarrow> bool" where
  "any_jail \<equiv> \<lambda>_. True"

lemma enqueue_inv:
  assumes inv: "sender_inv J limit R L s" and run: "enqueue limit r1 r2 op jail ip now s = (t, out)"
    and J: "\<And>j. sender_jail jail = Inr j \<Longrightarrow> J j"
  shows "sender_inv J limit R L t \<and> (\<exists>more. undelivered t = undelivered s @ more)"
proof (cases "t = s")
  case False
  from run False obtain j i where args: "sender_jail jail = Inr j" "canonical_ip ip = Inr i" "op = ''ban'' \<or> op = ''unban''"
      and tr: "transact (enqueue_body limit r1 r2 op j i now) s = (t, out)"
    by (auto simp: enqueue_def result_simps split: sum.splits if_splits)
  from tr False obtain x where body: "enqueue_body limit r1 r2 op j i now s = Inr (t, x)"
    by (auto simp: transact_def split: sum.splits)
  obtain n where n: "seq_at s n" using inv by (auto simp: sender_inv_def)
  have j: "sender_jail (JStr j) = Inr j" using args(1) by (simp add: sender_jail_iff)
  from enqueue_body_inv [OF inv n args(3) J [OF args(1)] j canonical_ip_claimable [OF args(2)] body] inv
  show ?thesis by auto
qed (use inv in simp)

lemma enqueue_snapshot_inv:
  assumes inv: "sender_inv J limit R L s" and cl0: "\<And>i. claims_inv J (sd_claims (views i))"
    and run: "enqueue_snapshot limit random claims now expected views s = (t, result)" and J: "jails_within J claims"
  shows "sender_inv J limit R L t \<and> (\<exists>more. undelivered t = undelivered s @ more)"
proof (cases "t = s")
  case False
  from run False obtain wanted drawn where w: "normalize_claims views random claims = Inr (wanted, drawn)"
      "transact (snapshot_body limit (random drawn) wanted expected now) s = (t, result)"
    by (auto simp: enqueue_snapshot_def split: sum.splits)
  with False obtain x where body: "snapshot_body limit (random drawn) wanted expected now s = Inr (t, x)"
    by (auto simp: transact_def split: sum.splits)
  obtain n where n: "seq_at s n" using inv by (auto simp: sender_inv_def)
  from snapshot_body_inv [OF inv n normalize_claims_ok [OF w(1) cl0 J] body] show ?thesis by auto
qed (use inv in simp)

lemma head_due:
  assumes "sender_inv J limit R L s" "next_due now s = Some row"
  obtains rest where "undelivered s = row # rest"
proof -
  from assms(1) obtain n where "outbox_inv n s" by (auto simp: sender_inv_def)
  from next_due_head [OF this, of now] assms(2) that show ?thesis
    by (auto split: list.splits if_splits)
qed

text \<open>Delivering the head, seen by the sender alone: some receiver state explains the rest.\<close>

lemma sender_inv_delivered:
  assumes inv: "sender_inv J limit R L s" and head: "undelivered s = r # rest"
  shows "\<exists>R' L'. sender_inv J limit R' L' (mark_delivered (or_id r) when s)"
proof -
  obtain m where m: "carries J r m" "\<And>R' L'. receive m (R, L) = (R', L') \<Longrightarrow> sender_inv J limit R' L' s"
    using sender_inv_receive [OF inv head] by blast
  obtain R' L' where step: "receive m (R, L) = (R', L')" by fastforce
  have "or_seq r \<le> L'" using step m(1) by (auto simp: receive_def carries_def split: if_splits)
  from sender_inv_mark [OF m(2) [OF step] head this] show ?thesis by blast
qed

lemma sender_reachable_inv: "sender_reachable limit s \<Longrightarrow> \<exists>R L. sender_inv any_jail limit R L s"
proof (induction rule: sender_reachable.induct)
  case (Start isdir path lim0 s)
  then show ?case using sender_inv_fresh by blast
next
  case (Rejoin s isdir path lim0 t)
  then show ?case using sender_inv_init by blast
next
  case (Hook s r1 r2 op jail ip now t out)
  then show ?case using enqueue_inv by blast
next
  case (Snapshot views s random claims now expected t result)
  have "claims_inv any_jail (sd_claims (views i))" for i using Snapshot.IH(1) [of i] by (auto simp: sender_inv_def)
  moreover obtain R L where "sender_inv any_jail limit R L s" using Snapshot.IH(2) by blast
  ultimately have "sender_inv any_jail limit R L t"
    by (intro enqueue_snapshot_inv [OF _ _ Snapshot.hyps(3), THEN conjunct1]) (simp_all add: jails_within_def)
  then show ?case by blast
next
  case (Delivered s now row "when")
  then obtain R L where inv: "sender_inv any_jail limit R L s" by blast
  then obtain rest where "undelivered s = row # rest" using Delivered.hyps(2) by (rule head_due)
  with inv show ?case by (rule sender_inv_delivered)
next
  case (Postponed s now row k "when" delay)
  then obtain R L where inv: "sender_inv any_jail limit R L s" by blast
  then obtain rest where "undelivered s = row # rest" using Postponed.hyps(2) by (rule head_due)
  from sender_inv_retry [OF inv this] show ?case by blast
next
  case (Noted s msg)
  then show ?case using sender_inv_last_error by blast
next
  case (Cleared s)
  then show ?case using sender_inv_last_error by blast
qed

subsection \<open>Properties\<close>

text \<open>
  C26. In every reachable database of the sender the sequence counter is readable and bounds all
  numbers in the outbox, which strictly increase in the order of the rows; at most \<open>max_pending\<close>
  rows are undelivered; each pair of jail and address has one row, and within a jail a ban id has one
  row; all addresses are canonical and unprotected, and all ban ids are canonical UUIDs.
\<close>

theorem sender_store_invariant:
  assumes "sender_reachable limit s"
  shows "\<exists>n. current_seq s = Inr n \<and> 0 \<le> n \<and> n < 2 ^ 63 \<and> sorted_wrt (<) (map or_seq (sd_outbox s)) \<and>
    (\<forall>r \<in> set (sd_outbox s). 0 < or_seq r \<and> or_seq r \<le> n) \<and> length (pending s) \<le> limit \<and>
    distinct (map lifecycle_pk (sd_claims s)) \<and> distinct (map lifecycle_uk (sd_claims s)) \<and>
    (\<forall>r \<in> set (sd_claims s). claimable_ip (lr_ip r) \<and> canonical_uuid (lr_ban_id r))"
proof -
  from sender_reachable_inv [OF assms] obtain R L n where
      n: "seq_at s n" "outbox_inv n s" "claims_inv any_jail (sd_claims s)" "length (undelivered s) \<le> limit"
    by (auto simp: sender_inv_def)
  have "n < 2 ^ 63" using n(1) by (simp add: seq_at_def)
  with n current_seq_at [OF n(1)] show ?thesis
    by (intro exI [of _ "int n"])
       (auto simp: outbox_inv_def claims_inv_def keyed_def pending_def list_all_iff lifecycle_ok_def uuid_ok_def)
qed

text \<open>
  Delivery keeps the order: the worker is offered a row only if it is undelivered, due, and
  older than every other undelivered row; a due oldest row is always offered.
\<close>

theorem next_due_oldest_first:
  assumes "sender_reachable limit s"
  shows "next_due now s = Some r \<longleftrightarrow>
    r \<in> set (sd_outbox s) \<and> or_delivered_at r = None \<and> or_available_at r \<le> now \<and>
    (\<forall>x \<in> set (sd_outbox s). or_delivered_at x = None \<longrightarrow> or_seq r \<le> or_seq x)"
proof -
  from sender_reachable_inv [OF assms] obtain n where n: "outbox_inv n s" by (auto simp: sender_inv_def)
  have mem: "x \<in> set (undelivered s) \<longleftrightarrow> x \<in> set (sd_outbox s) \<and> or_delivered_at x = None" for x
    by (auto simp: undelivered_def)
  show ?thesis
  proof (cases "undelivered s")
    case Nil
    with mem show ?thesis by (simp add: next_due_head [OF n])
  next
    case (Cons h rest)
    have "\<forall>x \<in> set rest. or_seq h < or_seq x" using undelivered_sorted [OF n] Cons by simp
    then have "r = h \<longleftrightarrow> r \<in> set (undelivered s) \<and> (\<forall>x \<in> set (undelivered s). or_seq r \<le> or_seq x)"
      using Cons by (auto simp: not_less [symmetric])
    with Cons have "next_due now s = Some r \<longleftrightarrow>
        (r \<in> set (undelivered s) \<and> (\<forall>x \<in> set (undelivered s). or_seq r \<le> or_seq x)) \<and> or_available_at r \<le> now"
      by (auto simp: next_due_head [OF n])
    then show ?thesis unfolding Ball_def mem by blast
  qed
qed


subsection \<open>Outcomes of a hook\<close>

lemma insert_outbox_Inl:
  assumes "insert_outbox (int n + 1) kind eid payload now s = Inl e" "outbox_inv n s" "kind = ''event'' \<or> kind = ''snapshot''"
  shows "e = OverflowError \<and> 2 ^ 63 \<le> int n + 1 \<or> e = SqliteError \<and> eid \<in> or_event_id ` set (sd_outbox s)"
proof -
  have "or_seq r \<noteq> int n + 1" if "r \<in> set (sd_outbox s)" for r using assms(2) that by (auto simp: outbox_inv_def)
  then have "int n + 1 \<notin> or_seq ` set (sd_outbox s)" by (metis imageE)
  with assms(1,3) show ?thesis
    by (auto simp: insert_outbox_def Let_def result_simps tinsert_Inl tinsert_Inr split: if_splits)
qed

lemma lifecycle_change_Inl:
  assumes "lifecycle_change random op jail ip s = Inl e"
  shows "e = SqliteError \<and> fresh_uuid random \<in> lr_ban_id ` set (sd_claims s)"
proof -
  from assms have act: "activate jail ip (fresh_uuid random) s = Inl e"
    by (auto simp: lifecycle_change_def Let_def result_simps split: if_splits option.splits)
  then obtain r where "r \<in> set (sd_claims s)" "lifecycle_uk r = (jail, fresh_uuid random)"
    by (auto simp: activate_def list_ex_iff Let_def split: if_splits)
  with act show ?thesis by (force simp: lifecycle_uk_def activate_def Let_def split: if_splits)
qed

text \<open>A hook's call with valid arguments fails only for want of room, of numbers or of a new UUID.\<close>

definition hook_failure :: "nat \<Rightarrow> nat \<Rightarrow> nat \<Rightarrow> sender_db \<Rightarrow> exn \<Rightarrow> bool" where
  "hook_failure limit r1 r2 s e \<longleftrightarrow>
     e = StoreFullError ''sender outbox is full; delivery must catch up'' \<and> limit \<le> length (pending s) \<or>
     e = OverflowError \<and> current_seq s = Inr (2 ^ 63 - 1) \<or>
     e = SqliteError \<and> (fresh_uuid r1 \<in> lr_ban_id ` set (sd_claims s) \<or> fresh_uuid r2 \<in> or_event_id ` set (sd_outbox s))"

lemma enqueue_body_Inl:
  assumes inv: "sender_inv J limit R L s" and args: "op = ''ban'' \<or> op = ''unban''" "J jail" "sender_jail (JStr jail) = Inr jail" "claimable_ip ip"
    and run: "enqueue_body limit r1 r2 op jail ip now s = Inl e"
  shows "hook_failure limit r1 r2 s e"
proof (cases "lifecycle_change r1 op jail ip s")
  case (Inl e')
  then have "e' = e" using run by (simp add: enqueue_body_def)
  with lifecycle_change_Inl [OF Inl] show ?thesis by (simp add: hook_failure_def)
next
  case (Inr change)
  obtain n where n: "seq_at s n" "outbox_inv n s" "claims_inv J (sd_claims s)" using inv by (auto simp: sender_inv_def)
  from Inr run obtain s1 b where c: "lifecycle_change r1 op jail ip s = Inr (Some (s1, b))"
    by (auto simp: enqueue_body_def split: option.splits)
  note ch = lifecycle_change_Some [OF c n(3) args(2-4)]
  have at1: "seq_at s1 n" using n(1) ch by (simp add: seq_at_def)
  obtain meta where nx: "next_seq s1 = Inr (s1\<lparr>sd_metadata := meta\<rparr>, int n + 1)"
    using next_seq_at [OF at1] by metis
  have pl: "event_payload r2 (int n + 1) op jail b ip =
      Inr (fresh_uuid r2, event_wire (event_of r2 (int n + 1) op jail b ip))"
    by (rule event_payload_wire) (use args ch in auto)
  show ?thesis
  proof (cases "check_capacity limit s1")
    case (Inl e')
    then have "limit \<le> length (undelivered s)" "e' = StoreFullError ''sender outbox is full; delivery must catch up''"
      using ch by (auto simp: check_capacity_def undelivered_def split: if_splits)
    moreover have "e' = e" using run c Inl by (simp add: enqueue_body_def)
    ultimately show ?thesis by (simp add: hook_failure_def pending_def)
  next
    case (Inr u)
    with run c nx pl obtain p where "insert_outbox (int n + 1) ''event'' (fresh_uuid r2) p now (s1\<lparr>sd_metadata := meta\<rparr>) = Inl e"
      by (auto simp: enqueue_body_def result_simps)
    moreover have "outbox_inv n (s1\<lparr>sd_metadata := meta\<rparr>)" using n(2) ch by (simp add: outbox_inv_def)
    ultimately have "e = OverflowError \<and> 2 ^ 63 \<le> int n + 1 \<or> e = SqliteError \<and> fresh_uuid r2 \<in> or_event_id ` set (sd_outbox s)"
      using insert_outbox_Inl ch by fastforce
    moreover have "int n < 2 ^ 63" using n(1) by (simp add: seq_at_def)
    ultimately show ?thesis using current_seq_at [OF n(1)] by (auto simp: hook_failure_def)
  qed
qed

lemma pending_undelivered: "outbox_inv n s \<Longrightarrow> pending s = undelivered s"
proof -
  assume "outbox_inv n s"
  then have "sorted_wrt (<) (map or_seq (undelivered s))" using undelivered_sorted by blast
  then have "sorted (map or_seq (undelivered s))" by (rule strict_sorted_imp_sorted)
  then show ?thesis by (simp add: pending_def sorted_sort_id sort_key_id_if_sorted)
qed

lemma enqueue_result:
  assumes "sender_reachable limit s" "sender_jail jail = Inr j" "canonical_ip ip = Inr i" "op = ''ban'' \<or> op = ''unban''"
    "enqueue limit r1 r2 op jail ip now s = (t, out)"
  shows "(case out of
      Inl e \<Rightarrow> t = s \<and> hook_failure limit r1 r2 s e
    | Inr None \<Rightarrow> t = s \<and> is_active (sd_claims s) j i = (op = ''ban'')
    | Inr (Some p) \<Rightarrow> is_active (sd_claims s) j i = (op \<noteq> ''ban'') \<and>
        (\<exists>n b row. current_seq s = Inr n \<and> current_seq t = Inr (n + 1) \<and> pending t = pending s @ [row] \<and>
           or_seq row = n + 1 \<and> or_payload row = json_bytes p \<and> or_available_at row = now \<and>
           p = event_wire \<lparr>ev_event_id = fresh_uuid r2, ev_seq = n + 1, ev_op = op, ev_jail = j, ev_ban_id = b, ev_ip = i,
                 ev_permanent = Some True, ev_expires_at = None\<rparr> \<and>
           sender_map (sd_claims t) = changed_map op j b i (sender_map (sd_claims s))))"
proof -
  from sender_reachable_inv [OF assms(1)] obtain R L where inv: "sender_inv any_jail limit R L s" by blast
  then obtain n where n: "seq_at s n" "outbox_inv n s" by (auto simp: sender_inv_def)
  have args: "sender_jail (JStr j) = Inr j" "claimable_ip i"
    using assms(2,3) canonical_ip_claimable by (auto simp: sender_jail_iff)
  have tr: "transact (enqueue_body limit r1 r2 op j i now) s = (t, out)" using assms(2-5) by (auto simp: enqueue_def)
  show ?thesis
  proof (cases "enqueue_body limit r1 r2 op j i now s")
    case (Inl e)
    with tr enqueue_body_Inl [OF inv assms(4) _ args Inl] show ?thesis by (auto simp: transact_def)
  next
    case (Inr r)
    obtain t' x where r: "r = (t', x)" by fastforce
    with tr Inr have tx: "t' = t" "out = Inr x" by (simp_all add: transact_def)
    from enqueue_body_inv [OF inv n(1) assms(4) _ args Inr [unfolded r tx(1)]] consider
        "x = None" "t = s" "is_active (sd_claims s) j i = (op = ''ban'')"
      | b row where "x = Some (event_wire (event_of r2 (int n + 1) op j b i))" "sender_inv any_jail limit R L t"
          "is_active (sd_claims s) j i = (op \<noteq> ''ban'')" "undelivered t = undelivered s @ [row]"
          "carries any_jail row (EventMsg (event_of r2 (int n + 1) op j b i))" "or_available_at row = now" "seq_at t (Suc n)"
          "sender_map (sd_claims t) = changed_map op j b i (sender_map (sd_claims s))"
      by blast
    then show ?thesis
    proof cases
      case 1
      then show ?thesis by (simp add: tx)
    next
      case 2
      from 2(2) obtain n' where "outbox_inv n' t" by (auto simp: sender_inv_def)
      then have "pending t = pending s @ [row]" using 2(4) pending_undelivered n(2) by metis
      then show ?thesis
        using 2 current_seq_at [OF n(1)] current_seq_at [OF 2(7)]
        by (auto simp: tx carries_def event_of_def add.commute intro!: exI [of _ row])
    qed
  qed
qed


text \<open>
  C27. \<open>enqueue\<close>, for arguments of any kind: a jail or an address that is refused (a loopback address,
  say), or another operation than \<open>ban\<close> and \<open>unban\<close>, raises \<open>ValueError\<close> and changes nothing. With valid
  arguments it commits exactly one event, or nothing: a ban of an active pair and an unban of an inactive
  one return without a change; otherwise the next number is taken, the event is appended to the outbox
  and the claim changes with it. Then it raises only \<open>StoreFullError\<close> when the outbox is full,
  \<open>OverflowError\<close> when the numbers are exhausted, or \<open>sqlite3.Error\<close> when a generated UUID is already in
  use, and nothing has changed. (This is the method's own transaction; a database that SQLite cannot lock
  or write is the fault of the call on the store, \<open>on_store\<close>.)
\<close>

theorem enqueue_outcome:
  assumes "sender_reachable limit s" "enqueue limit r1 r2 op jail ip now s = (t, out)"
  shows "(case (sender_jail jail, canonical_ip ip) of
      (Inr j, Inr i) \<Rightarrow>
        if op \<noteq> ''ban'' \<and> op \<noteq> ''unban'' then t = s \<and> out = Inl ValueError
        else (case out of
          Inl e \<Rightarrow> t = s \<and> hook_failure limit r1 r2 s e
        | Inr None \<Rightarrow> t = s \<and> is_active (sd_claims s) j i = (op = ''ban'')
        | Inr (Some p) \<Rightarrow> is_active (sd_claims s) j i = (op \<noteq> ''ban'') \<and>
            (\<exists>n b row. current_seq s = Inr n \<and> current_seq t = Inr (n + 1) \<and> pending t = pending s @ [row] \<and>
               or_seq row = n + 1 \<and> or_payload row = json_bytes p \<and> or_available_at row = now \<and>
               p = event_wire \<lparr>ev_event_id = fresh_uuid r2, ev_seq = n + 1, ev_op = op, ev_jail = j, ev_ban_id = b, ev_ip = i,
                     ev_permanent = Some True, ev_expires_at = None\<rparr> \<and>
               sender_map (sd_claims t) = changed_map op j b i (sender_map (sd_claims s))))
    | _ \<Rightarrow> t = s \<and> out = Inl ValueError)"
proof (cases "sender_jail jail")
  case (Inl e)
  with assms(2) sender_jail_raises [OF Inl] show ?thesis by (simp add: enqueue_def)
next
  case j: (Inr j)
  show ?thesis
  proof (cases "canonical_ip ip")
    case (Inl e)
    with assms(2) j canonical_ip_raises [OF Inl] show ?thesis by (simp add: enqueue_def)
  next
    case i: (Inr i)
    show ?thesis
    proof (cases "op = ''ban'' \<or> op = ''unban''")
      case True
      then have valid: "(op \<noteq> ''ban'' \<and> op \<noteq> ''unban'') = False" by auto
      show ?thesis
        unfolding j i prod.case sum.case valid if_False by (rule enqueue_result [OF assms(1) j i True assms(2)])
    next
      case False
      with assms(2) j i show ?thesis by (simp add: enqueue_def)
    qed
  qed
qed

definition fresh_store :: sender_db where
  "fresh_store = \<lparr>sd_metadata = [(''seq'', ''0'')], sd_claims = [], sd_outbox = [], sd_last_id = 0\<rparr>"

lemma fresh_store_reachable: "sender_reachable limit fresh_store"
proof -
  have "store_init (\<lambda>_. True) ''/var/db/s.sqlite'' 10000 no_tables = Inr fresh_store" by code_simp
  then show ?thesis by (rule Start)
qed

definition banned_store :: sender_db where
  "banned_store = fst (enqueue 10000 7 8 ''ban'' (JStr ''sshd'') (JStr '' 198.51.100.2 '') 100 fresh_store)"

lemma banned_store_reachable: "sender_reachable 10000 banned_store"
  unfolding banned_store_def by (rule Hook [OF fresh_store_reachable]) (rule surjective_pairing)

lemma fresh_store_seq: "current_seq fresh_store = Inr 0"
  by code_simp

lemma banned_run:
  obtains p where "enqueue 10000 7 8 ''ban'' (JStr ''sshd'') (JStr '' 198.51.100.2 '') 100 fresh_store = (banned_store, Inr (Some p))"
proof -
  obtain out where run: "enqueue 10000 7 8 ''ban'' (JStr ''sshd'') (JStr '' 198.51.100.2 '') 100 fresh_store = (banned_store, out)"
    by (metis banned_store_def prod.collapse)
  have j: "sender_jail (JStr ''sshd'') = Inr ''sshd''" "canonical_ip (JStr '' 198.51.100.2 '') = Inr ''198.51.100.2''"
    by code_simp+
  have "\<not> hook_failure 10000 7 8 fresh_store e" for e
    by (simp add: hook_failure_def fresh_store_seq) (simp add: fresh_store_def pending_def undelivered_def)
  moreover have "\<not> is_active (sd_claims fresh_store) ''sshd'' ''198.51.100.2''"
    by (simp add: fresh_store_def is_active_def)
  ultimately obtain p where "out = Inr (Some p)"
    using enqueue_result [OF fresh_store_reachable j _ run] by (cases out) (auto split: option.splits)
  with run that show ?thesis by blast
qed

lemma banned_store_facts:
  obtains row where "pending banned_store = [row]" "or_seq row = 1" "or_available_at row = 100" "current_seq banned_store = Inr 1"
proof -
  obtain p where run: "enqueue 10000 7 8 ''ban'' (JStr ''sshd'') (JStr '' 198.51.100.2 '') 100 fresh_store = (banned_store, Inr (Some p))"
    by (rule banned_run)
  have j: "sender_jail (JStr ''sshd'') = Inr ''sshd''" "canonical_ip (JStr '' 198.51.100.2 '') = Inr ''198.51.100.2''"
    by code_simp+
  have "pending fresh_store = []" by (simp add: fresh_store_def pending_def undelivered_def)
  with enqueue_result [OF fresh_store_reachable j _ run] that show ?thesis by (auto simp: fresh_store_seq)
qed

lemma enqueue_outcome_witness:
  "\<exists>row. pending banned_store = [row] \<and> or_seq row = 1 \<and> current_seq banned_store = Inr 1"
proof -
  obtain p where run: "enqueue 10000 7 8 ''ban'' (JStr ''sshd'') (JStr '' 198.51.100.2 '') 100 fresh_store = (banned_store, Inr (Some p))"
    by (rule banned_run)
  have j: "sender_jail (JStr ''sshd'') = Inr ''sshd''" "canonical_ip (JStr '' 198.51.100.2 '') = Inr ''198.51.100.2''"
    by code_simp+
  have "pending fresh_store = []" by (simp add: fresh_store_def pending_def undelivered_def)
  with enqueue_outcome [OF fresh_store_reachable run] j show ?thesis by (auto simp: fresh_store_seq)
qed

lemma sender_store_invariant_witness:
  "current_seq banned_store = Inr 1 \<and> or_seq ` set (sd_outbox banned_store) \<subseteq> {1}"
proof -
  obtain row where "current_seq banned_store = Inr 1" by (rule banned_store_facts)
  with sender_store_invariant [OF banned_store_reachable] show ?thesis by force
qed

lemma next_due_oldest_first_witness: "\<exists>r. next_due 100 banned_store = Some r \<and> or_seq r = 1"
proof -
  obtain row where row: "pending banned_store = [row]" "or_seq row = 1" "or_available_at row = 100" by (rule banned_store_facts)
  then have "set (undelivered banned_store) = {row}" by (metis list.simps(15) empty_set pending_def set_sort)
  then have mem: "x \<in> set (sd_outbox banned_store) \<and> or_delivered_at x = None \<longleftrightarrow> x = row" for x
    by (auto simp: undelivered_def)
  have "row \<in> set (sd_outbox banned_store) \<and> or_delivered_at row = None"
    "\<forall>x \<in> set (sd_outbox banned_store). or_delivered_at x = None \<longrightarrow> or_seq row \<le> or_seq x"
    using mem by (blast, metis order_refl)
  then have "next_due 100 banned_store = Some row"
    using next_due_oldest_first [OF banned_store_reachable, of 100 row] row(3) by simp
  with row show ?thesis by blast
qed

lemma rfold_keys:
  assumes "rfold (normalize_claim views random) claims acc = Inr (wanted, drawn)"
  shows "set (map wanted_key wanted) = set (map wanted_key (fst acc)) \<union>
    {(j, i). \<exists>c \<in> set claims. sender_jail (get_item c ''jail'') = Inr j \<and> canonical_ip (get_item c ''ip'') = Inr i}"
  using assms
proof (induction claims arbitrary: acc)
  case (Cons c claims)
  then obtain acc1 where acc1: "normalize_claim views random c acc = Inr acc1"
      "rfold (normalize_claim views random) claims acc1 = Inr (wanted, drawn)"
    by (auto simp: result_simps)
  then obtain j i where ji: "sender_jail (get_item c ''jail'') = Inr j" "canonical_ip (get_item c ''ip'') = Inr i"
    by (auto simp: normalize_claim_def claim_pair_def result_simps)
  with acc1(1) have "set (map wanted_key (fst acc1)) = insert (j, i) (set (map wanted_key (fst acc)))"
    by (auto simp: normalize_claim_def claim_pair_def add_claim_def result_simps wanted_key_def split: option.splits if_splits)
  with Cons.IH [OF acc1(2)] ji show ?case by auto
qed simp

lemma normalize_claims_keys:
  assumes "normalize_claims views random claims = Inr (wanted, drawn)"
  shows "set (map wanted_key wanted) =
    {(j, i). \<exists>c \<in> set claims. sender_jail (get_item c ''jail'') = Inr j \<and> canonical_ip (get_item c ''ip'') = Inr i}"
  using rfold_keys [OF assms [unfolded normalize_claims_def]] by simp

text \<open>
  C28. A snapshot is one atomic replacement behind the fence: if \<open>enqueue_snapshot\<close> returns, then the
  counter still had the expected value, the next number was taken, and the pairs that are active
  afterwards are exactly the enumerated ones, with the ban ids that the appended snapshot carries; if
  it raises, nothing has changed.
\<close>

theorem snapshot_replaces_behind_fence:
  assumes "\<And>i. sender_reachable limit (views i)" "sender_reachable limit s"
    "enqueue_snapshot limit random claims now expected views s = (t, out)"
  shows "(case out of
      Inl e \<Rightarrow> t = s
    | Inr snapshot \<Rightarrow>
        (\<exists>n row sid cls. current_seq s = Inr n \<and> (\<forall>m. expected = Some m \<longrightarrow> m = n) \<and> current_seq t = Inr (n + 1) \<and>
           pending t = pending s @ [row] \<and> or_seq row = n + 1 \<and> or_payload row = json_bytes snapshot \<and>
           snapshot = snapshot_payload sid (n + 1) cls \<and> sender_map (sd_claims t) = spec_snapshot cls \<and>
           {(j, i). is_active (sd_claims t) j i} =
             {(j, i). \<exists>c \<in> set claims. sender_jail (get_item c ''jail'') = Inr j \<and> canonical_ip (get_item c ''ip'') = Inr i}))"
proof (cases out)
  case (Inl e)
  with assms(3) show ?thesis by (auto simp: enqueue_snapshot_def transact_def split: sum.splits)
next
  case (Inr snapshot)
  from sender_reachable_inv [OF assms(2)] obtain R L where inv: "sender_inv any_jail limit R L s" by blast
  then obtain n where n: "seq_at s n" "outbox_inv n s" by (auto simp: sender_inv_def)
  from assms(3) Inr obtain wanted drawn where w: "normalize_claims views random claims = Inr (wanted, drawn)"
      "snapshot_body limit (random drawn) wanted expected now s = Inr (t, snapshot)"
    by (auto simp: enqueue_snapshot_def transact_def split: sum.splits)
  have cl0: "claims_inv any_jail (sd_claims (views i))" for i
    using sender_reachable_inv [OF assms(1)] by (auto simp: sender_inv_def)
  have ok: "wanted_ok any_jail wanted" by (rule normalize_claims_ok [OF w(1) cl0]) (simp add: jails_within_def)
  from snapshot_body_inv [OF inv n(1) ok w(2)] obtain cs row where b:
      "sender_inv any_jail limit R L t" "seq_at t (Suc n)" "\<forall>m. expected = Some m \<longrightarrow> int n = m"
      "map wanted_key cs = map wanted_key wanted" "undelivered t = undelivered s @ [row]"
      "snapshot = msg_json (snapshot_msg (random drawn) (int n + 1) cs)"
      "carries any_jail row (snapshot_msg (random drawn) (int n + 1) cs)"
      "sender_map (sd_claims t) = spec_snapshot (map claim_of (sort_key wanted_key cs))"
    by blast
  from b(1) obtain n' where n': "outbox_inv n' t" and clt: "claims_inv any_jail (sd_claims t)" by (auto simp: sender_inv_def)
  have pend: "pending t = pending s @ [row]" using b(5) pending_undelivered n(2) n' by metis
  have "{(j, i). is_active (sd_claims t) j i} = set (map wanted_key wanted)"
  proof -
    have "distinct (map claim_key (map claim_of (sort_key wanted_key cs)))"
      using b(7) by (simp add: carries_def snapshot_msg_def)
    then have "distinct (map (\<lambda>c. (wc_jail c, wc_ban_id c)) (sort_key wanted_key cs))"
      by (simp add: o_def claim_key_def claim_of_def)
    note spec = spec_snapshot_claims [OF this]
    have "is_active (sd_claims t) j i \<longleftrightarrow> (j, i) \<in> wanted_key ` set cs" for j i
      unfolding is_active_map [OF clt] b(8) spec by (auto simp: wanted_key_def)
    then have "{(j, i). is_active (sd_claims t) j i} = wanted_key ` set cs" by auto
    then show ?thesis using b(4) by (metis list.set_map)
  qed
  also have "\<dots> = {(j, i). \<exists>c \<in> set claims. sender_jail (get_item c ''jail'') = Inr j \<and> canonical_ip (get_item c ''ip'') = Inr i}"
    using normalize_claims_keys [OF w(1)] .
  finally have active: "{(j, i). is_active (sd_claims t) j i} =
      {(j, i). \<exists>c \<in> set claims. sender_jail (get_item c ''jail'') = Inr j \<and> canonical_ip (get_item c ''ip'') = Inr i}" .
  have row: "or_seq row = int n + 1 \<and> or_payload row = json_bytes snapshot"
    using b(6,7) by (simp add: carries_def snapshot_msg_def)
  have body: "snapshot = snapshot_payload (fresh_uuid (random drawn)) (int n + 1) (map claim_of (sort_key wanted_key cs))"
    using b(6) by (simp add: snapshot_msg_def)
  have cur: "current_seq s = Inr (int n)" "current_seq t = Inr (int n + 1)"
    using current_seq_at [OF n(1)] current_seq_at [OF b(2)] by (simp_all add: add.commute)
  show ?thesis
    unfolding Inr sum.case
    by (rule exI [of _ "int n"], rule exI [of _ row], rule exI [of _ "fresh_uuid (random drawn)"],
        rule exI [of _ "map claim_of (sort_key wanted_key cs)"])
       (intro conjI cur pend row [THEN conjunct1] row [THEN conjunct2] body b(8) active, use b(3) in auto)
qed


text \<open>An enumeration that finds no ban makes an empty snapshot.\<close>

lemma snapshot_replaces_behind_fence_witness:
  "\<exists>t snapshot. enqueue_snapshot 10000 (\<lambda>i. i) [] 200 (Some 0) (\<lambda>_. fresh_store) fresh_store = (t, Inr snapshot) \<and>
     current_seq t = Inr 1 \<and> {(j, i). is_active (sd_claims t) j i} = {}"
proof -
  obtain t out where run: "enqueue_snapshot 10000 (\<lambda>i. i) [] 200 (Some 0) (\<lambda>_. fresh_store) fresh_store = (t, out)"
    by fastforce
  have next0: "next_seq fresh_store = Inr (fresh_store\<lparr>sd_metadata := [(''seq'', ''1'')]\<rparr>, 1)" by code_simp
  have quiet: "released fresh_store [] k = False" "deactivate p fresh_store = fresh_store" for k p
    by (simp_all add: released_def existing_map_def fresh_store_def deactivate_def tupdate_def)
  have "check_capacity 10000 fresh_store = Inr ()" by (simp add: check_capacity_def fresh_store_def undelivered_def)
  with run obtain snapshot where out: "out = Inr snapshot"
    by (auto simp: enqueue_snapshot_def normalize_claims_def transact_def snapshot_body_def fence_ok_def fresh_store_seq
          quiet next0 Let_def insert_outbox_def tinsert_def) (auto simp: fresh_store_def)
  with snapshot_replaces_behind_fence [OF fresh_store_reachable fresh_store_reachable run] run
  show ?thesis by (auto simp: fresh_store_seq)
qed

end
