(* ===== verification/SenderDelivery.thy ===== *)
theory SenderDelivery
  imports SenderWorker SenderContract
begin

text \<open>
  Properties of the worker: what one round does to the outbox, the bounds of the backoff, and the
  draining of the outbox in order over a working connection.
\<close>

subsection \<open>Backoff\<close>

text \<open>
  C30. The pause after the \<open>n\<close>-th failed attempt lies between the configured initial and maximal
  backoff, never shrinks from one attempt to the next, doubles until it reaches the maximum or the
  twenty-first attempt, and stays the same afterwards.
\<close>

theorem retry_delay_bounds:
  assumes "0 < sf_initial_backoff cfg" "sf_initial_backoff cfg \<le> sf_max_backoff cfg" "1 \<le> n"
  shows "sf_initial_backoff cfg \<le> retry_delay cfg n \<and> retry_delay cfg n \<le> sf_max_backoff cfg \<and>
    retry_delay cfg n \<le> retry_delay cfg (n + 1) \<and>
    (if n \<le> 20 then retry_delay cfg (n + 1) = min (sf_max_backoff cfg) (2 * retry_delay cfg n)
     else retry_delay cfg (n + 1) = retry_delay cfg n)"
proof -
  let ?i = "sf_initial_backoff cfg" and ?m = "sf_max_backoff cfg"
  have one: "1 * ?i \<le> 2 ^ k * ?i" for k :: nat
    using assms(1) by (intro mult_right_mono) simp_all
  have d: "retry_delay cfg k = min ?m (2 ^ nat (min (k - 1) 20) * ?i)" for k
    by (simp add: retry_delay_def mult.commute)
  have step: "nat (min (n + 1 - 1) 20) = (if n \<le> 20 then Suc (nat (min (n - 1) 20)) else nat (min (n - 1) 20))"
    using assms(3) by (auto simp: min_def)
  have low: "?i \<le> retry_delay cfg n" "retry_delay cfg n \<le> ?m"
    using one [of "nat (min (n - 1) 20)"] assms(2) by (simp_all add: d)
  show ?thesis
  proof (cases "n \<le> 20")
    case True
    then have "retry_delay cfg (n + 1) = min ?m (2 * retry_delay cfg n)"
      using assms(1,2) unfolding d step by (auto simp: min_def)
    with low True assms(1) show ?thesis by (auto simp: min_def)
  next
    case False
    then have "retry_delay cfg (n + 1) = retry_delay cfg n" unfolding d step by simp
    with low False show ?thesis by simp
  qed
qed

lemma retry_delay_bounds_witness:
  "retry_delay (sample_sender_config ''https://h.example/v1'') 4 =
     min 300 (2 * retry_delay (sample_sender_config ''https://h.example/v1'') 3)"
  using retry_delay_bounds [of "sample_sender_config ''https://h.example/v1''" 3] by (simp add: sample_sender_config_def)

subsection \<open>One round of the worker\<close>

text \<open>No other process commits to the store, and SQLite refuses no call.\<close>

definition alone :: "'w sender_env \<Rightarrow> bool" where
  "alone env \<longleftrightarrow> (\<forall>n d. we_others env n d = d)"

definition steady :: "'w sender_env \<Rightarrow> bool" where
  "steady env \<longleftrightarrow> (\<forall>n. \<not> we_fault env n)"

lemma on_store_alone:
  "alone env \<Longrightarrow> on_store env call s =
     (case (if we_fault env (sn_tick s) then (sn_db s, Inl SqliteError) else call (sn_tick s) (sn_db s)) of
        (d, r) \<Rightarrow> (s\<lparr>sn_db := d, sn_tick := Suc (sn_tick s)\<rparr>, r))"
  by (simp add: on_store_def alone_def Let_def)

lemma last_error_set: "last_error (set_last_error msg s) = Some (take 128 msg)"
  by (simp add: last_error_def set_last_error_def tlookup_tupsert)

lemma last_error_clear: "last_error (clear_last_error s) = None"
proof -
  have "tlookup fst ''last_error'' (tdelete (\<lambda>r. fst r = ''last_error'') t) = None" for t :: "(pystr \<times> pystr) list"
    by (auto simp: tlookup_None)
  then show ?thesis by (simp add: last_error_def clear_last_error_def)
qed

lemma attempt_send_total: "\<exists>b. attempt_send env request s = (s\<lparr>sn_world := fst (send env request (sn_world s))\<rparr>, Inr b) \<and>
    (b \<longleftrightarrow> (\<exists>u. snd (send env request (sn_world s)) = Inr u))"
  by (auto simp: attempt_send_def in_world_def scatch_def sbind_def split: prod.splits sum.splits)

text \<open>What a round does to the row that it tried to deliver, to the table, and to the metadata.\<close>

definition round_row :: "'w sender_env \<Rightarrow> time \<Rightarrow> bool \<Rightarrow> outbox_row \<Rightarrow> outbox_row" where
  "round_row env now sent row =
     (if sent then row\<lparr>or_delivered_at := Some now\<rparr>
      else row\<lparr>or_attempts := or_attempts row + 1, or_available_at := now + retry_delay (we_config env) (or_attempts row + 1)\<rparr>)"

definition marked :: "'w sender_env \<Rightarrow> time \<Rightarrow> bool \<Rightarrow> outbox_row \<Rightarrow> sender_db \<Rightarrow> sender_db" where
  "marked env now sent row =
     (if sent then mark_delivered (or_id row) now
      else mark_retry (or_id row) (or_attempts row + 1) now (retry_delay (we_config env) (or_attempts row + 1)))"

definition noted :: "bool \<Rightarrow> sender_db \<Rightarrow> sender_db" where
  "noted sent = (if sent then clear_last_error else set_last_error ''delivery failure'')"

lemma marked_parts [simp]:
  "sd_claims (marked env now sent row d) = sd_claims d" "sd_metadata (marked env now sent row d) = sd_metadata d"
  "sd_last_id (marked env now sent row d) = sd_last_id d"
  by (simp_all add: marked_def mark_delivered_def mark_retry_def)

lemma noted_parts [simp]:
  "sd_claims (noted sent d) = sd_claims d" "sd_outbox (noted sent d) = sd_outbox d" "sd_last_id (noted sent d) = sd_last_id d"
  "undelivered (noted sent d) = undelivered d" "pending (noted sent d) = pending d"
  by (simp_all add: noted_def clear_last_error_def set_last_error_def undelivered_def pending_def)

lemma marked_seq [simp]: "current_seq (marked env now sent row d) = current_seq d"
  by (simp add: current_seq_def)

lemma noted_seq [simp]: "current_seq (noted sent d) = current_seq d"
proof -
  have "tlookup fst ''seq'' (tdelete (\<lambda>r. fst r = ''last_error'') t) = tlookup fst ''seq'' t" for t :: "(pystr \<times> pystr) list"
    by (induction t) (auto simp: tlookup_def tdelete_def)
  then show ?thesis by (simp add: noted_def current_seq_def clear_last_error_def set_last_error_def tlookup_tupsert)
qed

lemma marked_rows:
  assumes "outbox_inv n d" "undelivered d = row # rest"
  obtains pre post where "sd_outbox d = pre @ row # post" "sd_outbox (marked env now sent row d) = pre @ round_row env now sent row # post"
    and "undelivered (marked env now sent row d) = (if sent then rest else round_row env now sent row # rest)"
proof -
  have t: "sd_outbox (marked env now sent row d) =
      tupdate (\<lambda>x. or_id x = or_id row \<and> or_delivered_at x = None)
        (\<lambda>x. if sent then x\<lparr>or_delivered_at := Some now\<rparr>
             else x\<lparr>or_attempts := or_attempts row + 1, or_available_at := now + retry_delay (we_config env) (or_attempts row + 1)\<rparr>)
        (sd_outbox d)"
    by (auto simp: marked_def mark_delivered_def mark_retry_def tupdate_def)
  from head_update [OF assms t] have u: "undelivered (marked env now sent row d) =
      (if sent then rest else round_row env now sent row # rest)"
    using assms(2) by (auto simp: round_row_def undelivered_def filter_eq_Cons_iff)
  from head_rows [OF assms t] that u show thesis by (auto simp: round_row_def)
qed

lemma process_once_cases:
  assumes "alone env" "process_once env now s = (t, r)"
  obtains (refused) "r = Inl SqliteError" "we_fault env (sn_tick s)" "sn_db t = sn_db s" "sn_world t = sn_world s"
    | (none_due) "next_due now (sn_db s) = None" "r = Inr False" "sn_db t = sn_db s" "sn_world t = sn_world s"
    | (garbled) row e where "next_due now (sn_db s) = Some row" "json_loads (we_scan env) (or_payload row) = Inl e" "r = Inl e"
        "sn_db t = sn_db s" "sn_world t = sn_world s"
    | (tried) row payload a sent where "next_due now (sn_db s) = Some row" "json_loads (we_scan env) (or_payload row) = Inr payload"
        "send env (row_request row payload) (sn_world s) = (sn_world t, a)" "sent = (a = Inr ())"
        "r = Inr sent \<and> sn_db t = noted sent (marked env now sent row (sn_db s)) \<or>
         r = Inl SqliteError \<and> we_fault env (sn_tick s + 1) \<and> sn_db t = sn_db s \<or>
         r = Inl SqliteError \<and> we_fault env (sn_tick s + 2) \<and> sn_db t = marked env now sent row (sn_db s)"
proof (cases "we_fault env (sn_tick s)")
  case True
  with assms show thesis by (intro refused) (auto simp: process_once_def sbind_def on_store_alone)
next
  case steady: False
  show thesis
  proof (cases "next_due now (sn_db s)")
    case None
    with assms steady show thesis by (intro none_due) (auto simp: process_once_def sbind_def on_store_alone)
  next
    case (Some row)
    show thesis
    proof (cases "json_loads (we_scan env) (or_payload row)")
      case (Inl e)
      with Some assms steady show thesis by (intro garbled) (auto simp: process_once_def sbind_def on_store_alone)
    next
      case (Inr payload)
      let ?s = "s\<lparr>sn_tick := Suc (sn_tick s)\<rparr>"
      obtain w a where send: "send env (row_request row payload) (sn_world s) = (w, a)" by fastforce
      let ?b = "a = Inr ()"
      have b: "attempt_send env (row_request row payload) ?s = (?s\<lparr>sn_world := w\<rparr>, Inr ?b)"
        using attempt_send_total [of env "row_request row payload" ?s] send by auto
      have run: "process_once env now s = (if ?b then after_success env row now else after_failure env row now) (?s\<lparr>sn_world := w\<rparr>)"
        using Some Inr b assms(1) steady by (simp add: process_once_def sbind_def on_store_alone)
      show thesis
        by (rule tried [OF Some Inr _ refl, of a])
           (use assms run send in \<open>auto simp: after_success_def after_failure_def sbind_def on_store_alone put_db_def Let_def
              marked_def noted_def split: if_splits\<close>)
    qed
  qed
qed

text \<open>
  C31. One round of the worker, while no other process commits to the store. When nothing is due, nothing
  happens. Otherwise the payload of the oldest undelivered row is sent, and the round returns \<open>True\<close>
  exactly when the sending succeeded: then the row is marked as delivered at this time, leaves the pending
  list, and the last error is cleared; after any failure of the sending the row stays in front with one
  more attempt and the backoff as its next date, and the failure is recorded. Every other row of the
  outbox, the claims and the sequence number stay as they are. The round raises only what SQLite raises,
  or the JSON error of a payload that cannot be read.
\<close>

theorem process_once_outcome:
  assumes "sender_reachable limit (sn_db s)" "alone env" "process_once env now s = (t, r)"
  shows "sd_claims (sn_db t) = sd_claims (sn_db s) \<and> current_seq (sn_db t) = current_seq (sn_db s) \<and>
    (case r of
       Inl e \<Rightarrow> e = SqliteError \<and> (\<exists>i < 3. we_fault env (sn_tick s + i)) \<or>
         (\<exists>row rest. pending (sn_db s) = row # rest \<and> json_loads (we_scan env) (or_payload row) = Inl e \<and>
            sn_db t = sn_db s \<and> sn_world t = sn_world s)
     | Inr sent \<Rightarrow>
         (\<not> sent \<and> sn_db t = sn_db s \<and> sn_world t = sn_world s \<and>
            (\<forall>row rest. pending (sn_db s) = row # rest \<longrightarrow> now < or_available_at row)) \<or>
         (\<exists>row rest pre post payload result. pending (sn_db s) = row # rest \<and> or_available_at row \<le> now \<and>
            json_loads (we_scan env) (or_payload row) = Inr payload \<and>
            send env (row_request row payload) (sn_world s) = (sn_world t, result) \<and> sent = (result = Inr ()) \<and>
            sd_outbox (sn_db s) = pre @ row # post \<and> sd_outbox (sn_db t) = pre @ round_row env now sent row # post \<and>
            pending (sn_db t) = (if sent then rest else round_row env now sent row # rest) \<and>
            last_error (sn_db t) = (if sent then None else Some ''delivery failure'')))"
proof -
  from sender_reachable_inv [OF assms(1)] obtain R L n where inv: "sender_inv any_jail limit R L (sn_db s)"
      and n: "outbox_inv n (sn_db s)" by (auto simp: sender_inv_def)
  note pend = pending_undelivered [OF n]
  from assms(2,3) show ?thesis
  proof (cases rule: process_once_cases)
    case refused
    then show ?thesis by (auto intro!: exI [of _ "0 :: nat"])
  next
    case none_due
    then show ?thesis
      using next_due_head [OF n, of now] pend by (auto simp: not_le split: list.splits if_splits)
  next
    case (garbled row e)
    then obtain rest where "undelivered (sn_db s) = row # rest"
      using next_due_head [OF n, of now] by (auto split: list.splits if_splits)
    with garbled pend show ?thesis by simp
  next
    case (tried row payload a sent)
    then obtain rest where head: "undelivered (sn_db s) = row # rest" "or_available_at row \<le> now"
      using next_due_head [OF n, of now] by (auto split: list.splits if_splits)
    let ?d = "marked env now sent row (sn_db s)"
    obtain pre post where rows: "sd_outbox (sn_db s) = pre @ row # post" "sd_outbox ?d = pre @ round_row env now sent row # post"
        and left: "undelivered ?d = (if sent then rest else round_row env now sent row # rest)"
      using marked_rows [OF n head(1)] by blast
    obtain n' where n': "outbox_inv n' ?d"
    proof (cases sent)
      case True
      then show thesis using sender_inv_delivered [OF inv head(1)] that by (auto simp: sender_inv_def marked_def)
    next
      case False
      then show thesis using sender_inv_retry [OF inv head(1)] that by (auto simp: sender_inv_def marked_def)
    qed
    from pending_undelivered [OF n'] left have p: "pending ?d = (if sent then rest else round_row env now sent row # rest)" by simp
    have err: "last_error (noted sent ?d) = (if sent then None else Some ''delivery failure'')"
      using last_error_clear last_error_set [of "''delivery failure''"] by (simp add: noted_def)
    from tried(5) show ?thesis
    proof (elim disjE conjE)
      assume r: "r = Inr sent" "sn_db t = noted sent ?d"
      have "pending (sn_db s) = row # rest" using head(1) pend by simp
      with r tried(2-4) head(2) rows p err show ?thesis
        by (simp only: sum.case noted_parts marked_parts noted_seq marked_seq simp_thms)
           (intro disjI2 exI conjI; (assumption | rule refl))
    qed (auto intro: exI [of _ "1 :: nat"] exI [of _ "2 :: nat"])
  qed
qed

lemma process_once_total:
  assumes "alone env" "steady env" "\<And>row. next_due now (sn_db s) = Some row \<Longrightarrow> \<exists>p. json_loads (we_scan env) (or_payload row) = Inr p"
  shows "\<exists>t sent. process_once env now s = (t, Inr sent)"
proof -
  obtain t r where run: "process_once env now s = (t, r)" by fastforce
  from assms(1) run show ?thesis
    by (cases rule: process_once_cases) (use run assms(2,3) in \<open>auto simp: steady_def\<close>)
qed

definition sample_worker_env :: "nat sender_env" where
  "sample_worker_env =
     \<lparr>we_config = sample_sender_config ''https://h.example/v1'', we_clock = (\<lambda>_. 100), we_random = (\<lambda>_ i. i),
      we_others = (\<lambda>_ d. d), we_fault = (\<lambda>_. False), we_scan = (\<lambda>_. Inr (RObj [(''accepted'', RBool True)])),
      we_open = (\<lambda>url body n w. (w + 1, Inr (200, ''{}''))), we_runner = (\<lambda>n argv w. (w, Inr (0, '''')))\<rparr>"

definition sample_sender :: "nat sender" where
  "sample_sender = \<lparr>sn_db = banned_store, sn_world = 0, sn_tick = 0\<rparr>"

lemma sample_alone: "alone sample_worker_env" "steady sample_worker_env"
  by (simp_all add: alone_def steady_def sample_worker_env_def)

lemma sample_decodes: "json_loads (we_scan sample_worker_env) text = Inr (JObj [(''accepted'', JBool True)])"
  by (simp add: sample_worker_env_def json_loads_def)

lemma process_once_outcome_witness:
  "\<exists>t sent row. process_once sample_worker_env 100 sample_sender = (t, Inr sent) \<and> pending banned_store = [row] \<and>
     sent = (snd (send sample_worker_env (row_request row (JObj [(''accepted'', JBool True)])) 0) = Inr ()) \<and>
     (if sent then pending (sn_db t) = [] else \<exists>r. pending (sn_db t) = [r] \<and> or_attempts r = or_attempts row + 1)"
proof -
  obtain t sent where run: "process_once sample_worker_env 100 sample_sender = (t, Inr sent)"
    using process_once_total [OF sample_alone] sample_decodes by blast
  obtain row where row: "pending banned_store = [row]" "or_available_at row = 100" by (rule banned_store_facts)
  have "sender_reachable 10000 (sn_db sample_sender)" using banned_store_reachable by (simp add: sample_sender_def)
  from process_once_outcome [OF this sample_alone(1) run] row run show ?thesis
    by (auto simp: sample_sender_def sample_decodes round_row_def split: if_splits)
qed

subsection \<open>Draining the outbox\<close>

text \<open>The posts of the rows, one after the other.\<close>

definition deliver_row :: "'w sender_env \<Rightarrow> outbox_row \<Rightarrow> 'w \<Rightarrow> 'w" where
  "deliver_row env row w =
     (case json_loads (we_scan env) (or_payload row) of
        Inl _ \<Rightarrow> w | Inr payload \<Rightarrow> fst (send env (row_request row payload) w))"

text \<open>A row that is due whenever the clock is read and whose request is always acknowledged.\<close>

definition deliverable :: "'w sender_env \<Rightarrow> nat \<Rightarrow> outbox_row \<Rightarrow> bool" where
  "deliverable env n row \<longleftrightarrow> (\<forall>i \<ge> n. or_available_at row \<le> we_clock env i) \<and>
     (\<exists>p. json_loads (we_scan env) (or_payload row) = Inr p \<and>
        (\<forall>w. snd (send env (row_request row p) w) = Inr ()))"

lemma deliverable_later: "deliverable env n row \<Longrightarrow> n \<le> m \<Longrightarrow> deliverable env m row"
  by (auto simp: deliverable_def)

lemma on_store_tick: "sn_tick (fst (on_store env call s)) = Suc (sn_tick s)"
  by (simp add: on_store_def Let_def split: prod.split)

lemma process_once_tick: "process_once env now s = (t, r) \<Longrightarrow> sn_tick s \<le> sn_tick t"
  by (auto simp: process_once_def after_success_def after_failure_def attempt_send_def in_world_def on_store_def sbind_def
      scatch_def put_db_def Let_def split: prod.splits sum.splits option.splits if_splits)

lemma worker_drains_rows:
  assumes "sender_reachable limit (sn_db s)" "alone env" "steady env" "\<forall>row \<in> set rows. deliverable env (sn_tick s) row"
    "pending (sn_db s) = rows"
  shows "\<exists>t. worker_run env (replicate (length rows) False) s = (t, Inr ()) \<and> pending (sn_db t) = [] \<and>
    sn_world t = fold (deliver_row env) rows (sn_world s)"
  using assms
proof (induction rows arbitrary: s)
  case (Cons row rows)
  let ?now = "we_clock env (sn_tick s)"
  from sender_reachable_inv [OF Cons.prems(1)] obtain R L n where inv: "sender_inv any_jail limit R L (sn_db s)"
      and n: "outbox_inv n (sn_db s)" by (auto simp: sender_inv_def)
  have head: "undelivered (sn_db s) = row # rows" using Cons.prems(5) pending_undelivered [OF n] by simp
  then have due: "next_due ?now (sn_db s) = Some row"
    using Cons.prems(4) next_due_head [OF n] by (simp add: deliverable_def)
  obtain p where p: "json_loads (we_scan env) (or_payload row) = Inr p" "snd (send env (row_request row p) (sn_world s)) = Inr ()"
    using Cons.prems(4) by (auto simp: deliverable_def)
  obtain t sent where run: "process_once env ?now s = (t, Inr sent)"
    using process_once_total [OF Cons.prems(2,3), of ?now s] due p by auto
  have t: "sent" "sn_world t = deliver_row env row (sn_world s)"
      "sn_db t = clear_last_error (mark_delivered (or_id row) ?now (sn_db s))"
    using Cons.prems(2) run by (cases rule: process_once_cases; use due p in \<open>auto simp: deliver_row_def marked_def noted_def\<close>)+
  have reach: "sender_reachable limit (sn_db t)"
    unfolding t(3) by (intro Cleared Delivered [OF Cons.prems(1) due])
  then obtain n' where n': "outbox_inv n' (sn_db t)" using sender_reachable_inv by (auto simp: sender_inv_def)
  have "undelivered (mark_delivered (or_id row) ?now (sn_db s)) = rows"
    using head_update [OF n head, of "mark_delivered (or_id row) ?now (sn_db s)" "\<lambda>x. x\<lparr>or_delivered_at := Some ?now\<rparr>"]
    by (simp add: mark_delivered_def)
  then have "undelivered (sn_db t) = rows" by (simp add: t(3) undelivered_def clear_last_error_def)
  then have "pending (sn_db t) = rows" using pending_undelivered [OF n'] by simp
  with Cons.IH [OF reach Cons.prems(2,3)] Cons.prems(4) deliverable_later [OF _ process_once_tick [OF run]] obtain u where
      "worker_run env (replicate (length rows) False) t = (u, Inr ())" "pending (sn_db u) = []"
      "sn_world u = fold (deliver_row env) rows (sn_world t)" by auto
  with run t(2) show ?case by (intro exI [of _ u]) simp
qed simp

text \<open>
  C32. The worker empties the outbox: while no other process commits to the store and SQLite refuses no
  call, if every pending row is due at all clock readings from now on (none waits for its backoff), its
  payload can be read, and the receiver acknowledges its request in whatever state it is, then as many
  rounds as rows are pending post every row exactly once, in the order of the sequence numbers, and leave
  nothing undelivered.
\<close>

theorem worker_drains:
  assumes "sender_reachable limit (sn_db s)" "alone env" "steady env"
    "\<forall>row \<in> set (pending (sn_db s)). deliverable env (sn_tick s) row"
  shows "\<exists>t. worker_run env (replicate (length (pending (sn_db s))) False) s = (t, Inr ()) \<and> pending (sn_db t) = [] \<and>
    sn_world t = fold (deliver_row env) (pending (sn_db s)) (sn_world s)"
  by (rule worker_drains_rows [OF assms refl])

lemma sample_sends:
  "snd (send sample_worker_env (JObj [(''accepted'', JBool True)]) w) = Inr ()"
  "snd (send sample_worker_env (JObj [(''events'', JArr [JObj [(''accepted'', JBool True)]])]) w) = Inr ()"
proof -
  have len: "length (json_bytes (send_body (JObj [(''accepted'', JBool True)]))) \<le> max_event_bytes"
    "length (json_bytes (send_body (JObj [(''events'', JArr [JObj [(''accepted'', JBool True)]])]))) \<le> max_event_bytes"
    by code_simp+
  have ok: "check_response (we_scan sample_worker_env) (200, ''{}'') = Inr ()" by code_simp
  show "snd (send sample_worker_env (JObj [(''accepted'', JBool True)]) w) = Inr ()"
    "snd (send sample_worker_env (JObj [(''events'', JArr [JObj [(''accepted'', JBool True)]])]) w) = Inr ()"
    using len ok by (simp_all add: send_def Let_def sbind_def scatch_def sample_worker_env_def)
qed

lemma worker_drains_witness:
  "\<exists>t. worker_run sample_worker_env (replicate (length (pending (sn_db sample_sender))) False) sample_sender = (t, Inr ()) \<and>
     pending (sn_db t) = []"
proof -
  obtain row where row: "pending banned_store = [row]" "or_available_at row = 100" by (rule banned_store_facts)
  have reach: "sender_reachable 10000 (sn_db sample_sender)" using banned_store_reachable by (simp add: sample_sender_def)
  have "deliverable sample_worker_env 0 row"
    using row(2) sample_decodes [of "or_payload row"] sample_sends
    by (simp add: deliverable_def row_request_def) (simp add: sample_worker_env_def)
  then have "\<forall>row \<in> set (pending (sn_db sample_sender)). deliverable sample_worker_env (sn_tick sample_sender) row"
    using row(1) by (simp add: sample_sender_def)
  from worker_drains [OF reach sample_alone this] show ?thesis by blast
qed

end
