(* ===== verification/JsonScan.thy ===== *)
theory JsonScan
  imports Validation PyInt
begin

text \<open>
  Reading back what \<open>json.dumps\<close> writes. The components take the scanner of \<^verbatim>\<open>json.loads\<close> as a
  parameter; what they need of it is that it reads dumped text. \<open>reads_dumps\<close> states this, and
  \<open>json_scan\<close>, a reader of the compact texts that \<open>json.dumps\<close> writes for values without floats,
  shows that it can hold.
\<close>

subsection \<open>Dumped values\<close>

text \<open>\<open>sort_keys=True\<close> orders the members at every level.\<close>

fun canon :: "json \<Rightarrow> json" where
  "canon (JArr xs) = JArr (map canon xs)"
| "canon (JObj ps) = JObj (sort_key fst (map (\<lambda>(k, v). (k, canon v)) ps))"
| "canon v = v"

fun raw_of :: "json \<Rightarrow> jraw" where
  "raw_of JNull = RNull"
| "raw_of (JBool b) = RBool b"
| "raw_of (JInt i) = RInt i"
| "raw_of (JFloat x) = RFloat x"
| "raw_of (JStr s) = RStr s"
| "raw_of (JArr xs) = RArr (map raw_of xs)"
| "raw_of (JObj ps) = RObj (map (\<lambda>(k, v). (k, raw_of v)) ps)"

text \<open>The values the programs exchange: no floats, numbers that SQLite can hold, distinct keys.\<close>

fun portable :: "json \<Rightarrow> bool" where
  "portable (JFloat x) = False"
| "portable (JInt i) = (0 \<le> i \<and> i < 2 ^ 63)"
| "portable (JArr xs) = list_all portable xs"
| "portable (JObj ps) = (distinct (map fst ps) \<and> list_all (\<lambda>(k, v). portable v) ps)"
| "portable v = True"

definition reads_dumps :: "(pystr \<Rightarrow> jraw result) \<Rightarrow> bool" where
  "reads_dumps scan \<longleftrightarrow> (\<forall>v. portable v \<longrightarrow> scan (json_dumps True v) = Inr (raw_of (canon v)))"

lemma fst_canon: "fst \<circ> (\<lambda>(k, v). (k, f v)) = fst"
  by auto

lemma keys_canon: "distinct (map fst ps) \<Longrightarrow> distinct (map fst (sort_key fst (map (\<lambda>(k, v). (k, canon v)) ps)))"
  by (metis distinct_map distinct_sort set_sort fst_canon map_map)

lemma portable_canon: "portable v \<Longrightarrow> portable (canon v)"
proof (induction v)
  case (JObj ps)
  then have "distinct (map fst (sort_key fst (map (\<lambda>(k, v). (k, canon v)) ps)))" by (simp add: keys_canon)
  with JObj show ?case by (fastforce simp: list_all_iff)
qed (auto simp: list_all_iff)

lemma canon_idem: "canon (canon v) = canon v"
proof (induction v)
  case (JObj ps)
  let ?qs = "sort_key fst (map (\<lambda>(k, v). (k, canon v)) ps)"
  have "map (\<lambda>(k, v). (k, canon v)) ?qs = ?qs"
    by (rule map_idI) (use JObj in fastforce)
  then show ?case by (simp add: sort_key_id_if_sorted)
qed simp_all

text \<open>Members keep their values, whatever their order.\<close>

lemma canon_members:
  assumes "distinct (map fst ps)"
  shows "map_of (sort_key fst (map (\<lambda>(k, v). (k, canon v)) ps)) k = map_option canon (map_of ps k)"
proof -
  let ?qs = "map (\<lambda>(k, v). (k, canon v)) ps"
  have d: "distinct (map fst ?qs)" using assms by (simp add: fst_canon)
  moreover have "distinct (map fst (sort_key fst ?qs))" by (rule keys_canon) (rule assms)
  ultimately have "map_of (sort_key fst ?qs) = map_of ?qs" by (simp add: map_of_inject_set)
  then show ?thesis by (simp add: map_of_map)
qed

lemma jget_canon: "portable v \<Longrightarrow> jget (canon v) k = map_option canon (jget v k)"
  by (cases v) (simp_all add: jget_def canon_members)

lemma is_object_canon [simp]: "is_object (canon v) = is_object v"
  by (cases v) (simp_all add: is_object_def)


subsection \<open>A reader of dumped text\<close>

text \<open>The two-character escapes of \<open>json.dumps\<close>, and the string up to its closing quote.\<close>

definition unescape :: "char \<Rightarrow> char option" where
  "unescape c =
     (if c = CHR ''n'' then Some (char_of (10::nat))
      else if c = CHR ''r'' then Some (char_of (13::nat))
      else if c = CHR ''t'' then Some (char_of (9::nat))
      else if c = CHR ''f'' then Some (char_of (12::nat))
      else if c = CHR ''b'' then Some (char_of (8::nat))
      else if code c = 34 \<or> code c = 92 then Some c
      else None)"

definition no_json :: exn where
  "no_json = JSONDecodeError ''Expecting value''"

fun scan_string :: "pystr \<Rightarrow> (pystr \<times> pystr) result" where
  "scan_string [] = Inl no_json"
| "scan_string (c # s) =
     (if code c = 34 then Inr ('''', s)
      else if code c \<noteq> 92 then rbind (scan_string s) (\<lambda>(t, r). Inr (c # t, r))
      else (case s of
          [] \<Rightarrow> Inl no_json
        | d # s' \<Rightarrow>
            if d = CHR ''u''
            then rbind (scan_string (drop 4 s')) (\<lambda>(t, r). Inr (char_of (radix_val 16 (take 4 s')) # t, r))
            else (case unescape d of
                None \<Rightarrow> Inl no_json
              | Some e \<Rightarrow> rbind (scan_string s') (\<lambda>(t, r). Inr (e # t, r)))))"

definition scan_number :: "pystr \<Rightarrow> (jraw \<times> pystr) result" where
  "scan_number s =
     (let digits = takeWhile is_dec s in
      if digits = '''' then Inl no_json
      else rbind (py_int10 digits) (\<lambda>i. Inr (RInt i, dropWhile is_dec s)))"

definition expect :: "pystr \<Rightarrow> 'a \<Rightarrow> pystr \<Rightarrow> ('a \<times> pystr) result" where
  "expect word v s = (if starts_with word s then Inr (v, drop (length word) s) else Inl no_json)"

text \<open>The fuel bounds the nesting and the number of elements.\<close>

fun scan_value :: "nat \<Rightarrow> pystr \<Rightarrow> (jraw \<times> pystr) result"
  and scan_items :: "nat \<Rightarrow> pystr \<Rightarrow> (jraw list \<times> pystr) result"
  and scan_members :: "nat \<Rightarrow> pystr \<Rightarrow> ((pystr \<times> jraw) list \<times> pystr) result" where
  "scan_value 0 s = Inl no_json"
| "scan_value (Suc n) s =
     (case s of
        [] \<Rightarrow> Inl no_json
      | c # s' \<Rightarrow>
          if c = CHR ''n'' then expect ''ull'' RNull s'
          else if c = CHR ''t'' then expect ''rue'' (RBool True) s'
          else if c = CHR ''f'' then expect ''alse'' (RBool False) s'
          else if code c = 34 then rbind (scan_string s') (\<lambda>(t, r). Inr (RStr t, r))
          else if c = CHR ''['' then
            (if starts_with '']'' s' then Inr (RArr [], tl s')
             else rbind (scan_items n s') (\<lambda>(xs, r). Inr (RArr xs, r)))
          else if c = CHR ''{'' then
            (if starts_with ''}'' s' then Inr (RObj [], tl s')
             else rbind (scan_members n s') (\<lambda>(ps, r). Inr (RObj ps, r)))
          else scan_number s)"
| "scan_items 0 s = Inl no_json"
| "scan_items (Suc n) s =
     rbind (scan_value n s) (\<lambda>(x, r).
       case r of
         [] \<Rightarrow> Inl no_json
       | c # r' \<Rightarrow>
           if c = CHR '']'' then Inr ([x], r')
           else if c = CHR '','' then rbind (scan_items n r') (\<lambda>(xs, r''). Inr (x # xs, r''))
           else Inl no_json)"
| "scan_members 0 s = Inl no_json"
| "scan_members (Suc n) s =
     (case s of
        [] \<Rightarrow> Inl no_json
      | q # s' \<Rightarrow>
          if code q \<noteq> 34 then Inl no_json
          else rbind (scan_string s') (\<lambda>(k, t).
            case t of
              [] \<Rightarrow> Inl no_json
            | d # t' \<Rightarrow>
                if d \<noteq> CHR '':'' then Inl no_json
                else rbind (scan_value n t') (\<lambda>(x, r).
                  case r of
                    [] \<Rightarrow> Inl no_json
                  | c # r' \<Rightarrow>
                      if c = CHR ''}'' then Inr ([(k, x)], r')
                      else if c = CHR '','' then rbind (scan_members n r') (\<lambda>(ps, r''). Inr ((k, x) # ps, r''))
                      else Inl no_json)))"

definition json_scan :: "pystr \<Rightarrow> jraw result" where
  "json_scan s =
     rbind (scan_value (Suc (length s)) s) (\<lambda>(v, r). if r = [] then Inr v else Inl no_json)"

subsection \<open>It reads what is dumped\<close>

lemma escape_u: "radix_val 16 (hex4 (code c)) = code c" "length (hex4 (code c)) = 4"
proof -
  have "(of_char c :: nat) mod 256 < 256" by simp
  then have "code c < 16 ^ Suc 1" by (simp add: code_def del: mod_less_divisor)
  then have "length (hex_str (code c)) \<le> 4" using radix_str_length [of 16 "code c" 1] by simp
  then show "radix_val 16 (hex4 (code c)) = code c" "length (hex4 (code c)) = 4"
    by (simp_all add: hex4_def radix_val_zfill radix_val_radix_str length_zfill)
qed

lemma char_of_code: "char_of (code c) = c"
  by (simp add: code_def)

lemma scan_escaped:
  "scan_string (json_escape_char c @ s) = rbind (scan_string s) (\<lambda>(t, r). Inr (c # t, r))"
proof -
  have chars: "char_of (92::nat) = CHR 0x5C" "char_of (34::nat) = CHR 0x22" "char_of (10::nat) = CHR 0x0A"
    "char_of (13::nat) = CHR 0x0D" "char_of (9::nat) = CHR 0x09" "char_of (12::nat) = CHR 0x0C"
    "char_of (8::nat) = CHR 0x08" by code_simp+
  have codes: "code (CHR 0x5C) = 92" "code (CHR 0x22) = 34" "code (CHR 0x0A) = 10" "code (CHR 0x0D) = 13"
    "code (CHR 0x09) = 9" "code (CHR 0x0C) = 12" "code (CHR 0x08) = 8" by code_simp+
  show ?thesis
  proof (cases "code c \<in> {92, 34, 10, 13, 9, 12, 8}")
    case True
    then have "c \<in> {CHR 0x5C, CHR 0x22, CHR 0x0A, CHR 0x0D, CHR 0x09, CHR 0x0C, CHR 0x08}"
      using char_of_code [of c] chars by auto
    then show ?thesis
      by (elim insertE) (simp_all add: json_escape_char_def Let_def chars codes unescape_def)
  next
    case False
    then show ?thesis
      using escape_u [of c] by (simp add: json_escape_char_def Let_def chars codes char_of_code)
  qed
qed


lemma scan_quoted: "scan_string (concat (map json_escape_char s) @ CHR 0x22 # rest) = Inr (s, rest)"
proof (induction s)
  case Nil
  have "code (CHR 0x22) = 34" by code_simp
  then show ?case by simp
qed (simp add: scan_escaped)

text \<open>What may follow a value: nothing that would extend a number.\<close>

definition closes :: "pystr \<Rightarrow> bool" where
  "closes rest \<longleftrightarrow> rest = [] \<or> \<not> is_dec (hd rest)"

lemma closes_simps: "closes []" "closes (CHR '','' # r)" "closes (CHR '']'' # r)" "closes (CHR ''}'' # r)"
  by (simp_all add: closes_def) code_simp+

lemma scan_number_dec:
  assumes "n < 2 ^ 63" "closes rest"
  shows "scan_number (dec_str n @ rest) = Inr (RInt (int n), rest)"
proof -
  have d: "dec_str n \<noteq> []" "list_all is_dec (dec_str n)" using dec_str_digits [of n] by (simp_all add: is_ascii_digits_def)
  have "n < 10 ^ Suc 18" using assms(1) by simp
  then have "py_int10 (dec_str n) = Inr (int n)" using radix_str_length [of 10 n 18] by (simp add: py_int10_dec_str)
  moreover have "takeWhile is_dec (dec_str n @ rest) = dec_str n" "dropWhile is_dec (dec_str n @ rest) = rest"
    using d assms(2) by (auto simp: closes_def list_all_iff takeWhile_append2 dropWhile_append2 takeWhile_eq_Nil_iff dropWhile_eq_self_iff)
  ultimately show ?thesis using d by (simp add: scan_number_def)
qed

lemma dumps_head:
  assumes "portable v"
  obtains c s where "json_dumps True v = c # s" "c \<noteq> CHR '']''" "c \<noteq> CHR ''}''"
proof (cases v)
  case (JInt i)
  then have "0 \<le> i" using assms by simp
  moreover obtain c s where c: "dec_str (nat i) = c # s" by (cases "dec_str (nat i)") simp_all
  moreover have "is_dec c" using dec_str_digits [of "nat i"] c by (simp add: is_ascii_digits_def)
  moreover have "\<not> is_dec (CHR '']'')" "\<not> is_dec (CHR ''}'')" by code_simp+
  ultimately show ?thesis using that JInt by (auto simp: int_str_def)
next
  case (JBool b)
  then show ?thesis using that by (cases b) simp_all
qed (use that assms in \<open>auto simp: json_quote_def Let_def\<close>)

text \<open>A reader is given for every element, the elements are then read in their order.\<close>

definition reads_at :: "('a \<Rightarrow> pystr) \<Rightarrow> ('a \<Rightarrow> jraw) \<Rightarrow> 'a \<Rightarrow> bool" where
  "reads_at d r x \<longleftrightarrow> d x \<noteq> [] \<and>
     (\<forall>n rest. length (d x) \<le> n \<longrightarrow> closes rest \<longrightarrow> scan_value (Suc n) (d x @ rest) = Inr (r x, rest))"

lemma reads_atD:
  "reads_at d r x \<Longrightarrow> length (d x) < n \<Longrightarrow> closes rest \<Longrightarrow> scan_value n (d x @ rest) = Inr (r x, rest)"
  by (cases n) (auto simp: reads_at_def)

lemma scan_items_read:
  assumes "list_all (reads_at d r) xs" "xs \<noteq> []" "length (py_join '','' (map d xs)) < n"
  shows "scan_items (Suc n) (py_join '','' (map d xs) @ CHR '']'' # rest) = Inr (map r xs, rest)"
  using assms
proof (induction xs arbitrary: n)
  case (Cons x xs)
  have x: "reads_at d r x" "d x \<noteq> []" using Cons.prems(1) by (auto simp: reads_at_def)
  show ?case
  proof (cases xs)
    case Nil
    with reads_atD [OF x(1), of n "CHR '']'' # rest"] Cons.prems(3) show ?thesis by (simp add: closes_simps)
  next
    case (Cons y ys)
    then have join: "py_join '','' (map d (x # xs)) = d x @ CHR '','' # py_join '','' (map d xs)" by simp
    with Cons.prems(3) x(2) obtain m where m: "n = Suc m" "length (d x) < n" "length (py_join '','' (map d xs)) < m"
      by (cases n) auto
    have "scan_items n (py_join '','' (map d xs) @ CHR '']'' # rest) = Inr (map r xs, rest)"
      unfolding m(1) by (rule Cons.IH) (use Cons Cons.prems m(3) in auto)
    with reads_atD [OF x(1) m(2), of "CHR '','' # py_join '','' (map d xs) @ CHR '']'' # rest"]
    show ?thesis unfolding join by (simp add: closes_simps)
  qed
qed simp


definition member_text :: "('a \<Rightarrow> pystr) \<Rightarrow> pystr \<times> 'a \<Rightarrow> pystr" where
  "member_text d p = json_quote (fst p) @ CHR '':'' # d (snd p)"

lemma scan_members_read:
  assumes "list_all (\<lambda>p. reads_at d r (snd p)) ps" "ps \<noteq> []" "length (py_join '','' (map (member_text d) ps)) < n"
  shows "scan_members (Suc n) (py_join '','' (map (member_text d) ps) @ CHR ''}'' # rest) =
    Inr (map (\<lambda>p. (fst p, r (snd p))) ps, rest)"
  using assms
proof (induction ps arbitrary: n)
  case (Cons p ps)
  have q: "code (CHR 0x22) = 34" by code_simp
  have p: "reads_at d r (snd p)" using Cons.prems(1) by simp
  have key: "scan_string (concat (map json_escape_char (fst p)) @ CHR 0x22 # t) = Inr (fst p, t)" for t
    by (rule scan_quoted)
  show ?case
  proof (cases ps)
    case Nil
    have "length (d (snd p)) < n" using Cons.prems(3) Nil by (simp add: member_text_def)
    from reads_atD [OF p this, of "CHR ''}'' # rest"] Nil key q show ?thesis
      by (simp add: member_text_def json_quote_def closes_simps)
  next
    case (Cons p' ps')
    let ?more = "py_join '','' (map (member_text d) ps) @ CHR ''}'' # rest"
    have join: "py_join '','' (map (member_text d) (p # ps)) @ CHR ''}'' # rest = member_text d p @ CHR '','' # ?more"
      using Cons by simp
    have len: "length (py_join '','' (map (member_text d) (p # ps))) =
        length (member_text d p) + 1 + length (py_join '','' (map (member_text d) ps))"
      using Cons by simp
    have longer: "length (d (snd p)) + 1 < length (member_text d p)" by (simp add: member_text_def json_quote_def)
    with len obtain m where m: "n = Suc m" "length (d (snd p)) < n" "length (py_join '','' (map (member_text d) ps)) < m"
      using Cons.prems(3) longer by (cases n) auto
    have "scan_members n ?more = Inr (map (\<lambda>p. (fst p, r (snd p))) ps, rest)"
      unfolding m(1) by (rule Cons.IH) (use Cons Cons.prems m(3) in auto)
    with reads_atD [OF p m(2), of "CHR '','' # ?more"] key q
    show ?thesis unfolding join by (simp add: member_text_def json_quote_def closes_simps)
  qed
qed simp

lemma sort_key_map: "sort_key f (map g xs) = map g (sort_key (\<lambda>x. f (g x)) xs)"
proof -
  have ins: "insort_key f (g x) (map g ys) = map g (insort_key (\<lambda>x. f (g x)) x ys)" for x ys
    by (induction ys) auto
  show ?thesis by (induction xs) (simp_all add: ins)
qed

lemma member_comp:
  "(\<lambda>x. fst (case x of (k, v) \<Rightarrow> (k, f v))) = fst"
  "(\<lambda>(k, t). json_quote k @ '':'' @ t) \<circ> (\<lambda>(k, v). (k, d v)) = member_text d"
  "(\<lambda>(k, v). (k, raw_of v)) \<circ> (\<lambda>(k, v). (k, canon v)) = (\<lambda>p. (fst p, raw_of (canon (snd p))))"
  by (auto simp: fun_eq_iff member_text_def)

lemma dumps_object:
  "json_dumps True (JObj ps) = CHR ''{'' # py_join '','' (map (member_text (json_dumps True)) (sort_key fst ps)) @ ''}''"
  using member_comp(2) [of "json_dumps True"] by (simp add: Let_def sort_key_map member_comp)

lemma raw_canon_object:
  "raw_of (canon (JObj ps)) = RObj (map (\<lambda>p. (fst p, raw_of (canon (snd p)))) (sort_key fst ps))"
  by (simp add: sort_key_map member_comp)

lemma reads_at_dumps: "portable v \<Longrightarrow> reads_at (json_dumps True) (\<lambda>a. raw_of (canon a)) v"
proof (induction v)
  case (JInt i)
  have "scan_value (Suc n) (dec_str (nat i) @ rest) = Inr (RInt i, rest)" if "closes rest" for n rest
  proof -
    obtain c s where c: "dec_str (nat i) = c # s" by (cases "dec_str (nat i)") simp_all
    have "is_dec c" using dec_str_digits [of "nat i"] c by (simp add: is_ascii_digits_def)
    moreover have "\<not> is_dec (CHR ''n'')" "\<not> is_dec (CHR ''t'')" "\<not> is_dec (CHR ''f'')" "\<not> is_dec (CHR ''['')"
      "\<not> is_dec (CHR ''{'')" "\<not> is_dec (CHR 0x22)" by code_simp+
    moreover have "c = CHR 0x22" if "code c = 34"
    proof -
      have "code (CHR 0x22) = 34" by code_simp
      with that show ?thesis by (metis code_inj)
    qed
    ultimately have step: "scan_value (Suc n) (dec_str (nat i) @ rest) = scan_number (dec_str (nat i) @ rest)"
      unfolding c by auto
    have "nat i < 2 ^ 63" using JInt by (simp add: nat_less_iff)
    from scan_number_dec [OF this that] JInt show ?thesis unfolding step by simp
  qed
  then show ?case using JInt by (simp add: reads_at_def int_str_def)
next
  case (JStr s)
  have "code (CHR 0x22) = 34" by code_simp
  then show ?case by (simp add: reads_at_def json_quote_def scan_quoted)
next
  case (JArr xs)
  have all: "list_all (reads_at (json_dumps True) (\<lambda>a. raw_of (canon a))) xs" using JArr by (auto simp: list_all_iff)
  have code: "code (CHR ''['') \<noteq> 34" by code_simp
  show ?case
  proof (cases xs)
    case Nil
    with code show ?thesis by (simp add: reads_at_def starts_with_def)
  next
    case (Cons x ys)
    let ?j = "py_join '','' (map (json_dumps True) xs)"
    have "portable x" using JArr.prems Cons by simp
    then obtain c s where c: "json_dumps True x = c # s" "c \<noteq> CHR '']''" by (rule dumps_head)
    then obtain s' where s': "?j = c # s'" using Cons by (cases ys) auto
    have "scan_value (Suc n) (CHR ''['' # ?j @ CHR '']'' # rest) = Inr (RArr (map (\<lambda>a. raw_of (canon a)) xs), rest)"
      if long: "length ?j + 2 \<le> n" for n rest
    proof -
      obtain m where m: "n = Suc m" "length ?j < m" using long by (cases n) auto
      have "scan_items n (?j @ CHR '']'' # rest) = Inr (map (\<lambda>a. raw_of (canon a)) xs, rest)"
        unfolding m(1) by (rule scan_items_read [OF all _ m(2)]) (use Cons in simp)
      with code c(2) show ?thesis by (simp add: starts_with_def s')
    qed
    then show ?thesis by (simp add: reads_at_def)
  qed
next
  case (JObj ps)
  let ?qs = "sort_key fst ps"
  have all: "list_all (\<lambda>p. reads_at (json_dumps True) (\<lambda>a. raw_of (canon a)) (snd p)) ?qs"
    using JObj by (fastforce simp: list_all_iff)
  have code: "code (CHR ''{'') \<noteq> 34" by code_simp
  show ?case
  proof (cases "?qs = []")
    case True
    with code show ?thesis unfolding reads_at_def dumps_object comp_def raw_canon_object
      by (simp add: starts_with_def)
  next
    case False
    let ?j = "py_join '','' (map (member_text (json_dumps True)) ?qs)"
    obtain p ys where p: "?qs = p # ys" using False by (cases ?qs) auto
    then obtain s' where s': "?j = CHR 0x22 # s'" by (cases ys) (auto simp: member_text_def json_quote_def)
    have "scan_value (Suc n) (CHR ''{'' # ?j @ CHR ''}'' # rest) =
        Inr (RObj (map (\<lambda>p. (fst p, raw_of (canon (snd p)))) ?qs), rest)"
      if long: "length ?j + 2 \<le> n" for n rest
    proof -
      obtain m where m: "n = Suc m" "length ?j < m" using long by (cases n) auto
      have "scan_members n (?j @ CHR ''}'' # rest) = Inr (map (\<lambda>p. (fst p, raw_of (canon (snd p)))) ?qs, rest)"
        unfolding m(1) by (rule scan_members_read [OF all False m(2)])
      with code show ?thesis by (simp add: starts_with_def s')
    qed
    then show ?thesis unfolding reads_at_def dumps_object comp_def raw_canon_object by simp
  qed
qed (auto simp: reads_at_def expect_def starts_with_def)

lemma json_scan_dumps: "reads_dumps json_scan"
  unfolding reads_dumps_def
proof (intro allI impI)
  fix v assume "portable v"
  from reads_atD [OF reads_at_dumps [OF this], of "Suc (length (json_dumps True v))" "[]"]
  show "json_scan (json_dumps True v) = Inr (raw_of (canon v))"
    by (simp add: json_scan_def closes_simps del: scan_value.simps)
qed

end
