(* ===== verification/EndToEnd.thy ===== *)
theory EndToEnd
  imports SenderDelivery ServerContract JsonScan
begin

text \<open>
  The sender and the receiver together: the text that the worker posts is read by the receiver as the
  message that the outbox row carries, and whatever the connection loses, every delivery attempt keeps
  the agreement between the sender's claims, the rows still to be delivered and the receiver's claims.
\<close>

subsection \<open>Decoding dumped text\<close>

lemma put_member_fresh: "k \<notin> fst ` set ps \<Longrightarrow> put_member k v ps = ps @ [(k, v)]"
  by (induction ps) auto

lemma plain_raw:
  "portable v \<Longrightarrow> plain (raw_of v) = v"
proof (induction v)
  case (JArr xs)
  then show ?case by (auto simp: list_all_iff intro!: map_idI)
next
  case (JObj ps)
  have "plain_members (map (\<lambda>(k, v). (k, raw_of v)) qs) acc = acc @ qs"
    if "distinct (map fst (acc @ qs))" "set qs \<subseteq> set ps" for acc qs
    using that
  proof (induction qs arbitrary: acc)
    case (Cons q qs)
    obtain k v where q: "q = (k, v)" by fastforce
    have "(k, v) \<in> set ps" using Cons.prems(2) q by simp
    then have v: "plain (raw_of v) = v" using JObj by (fastforce simp: list_all_iff)
    have "k \<notin> fst ` set acc" using Cons.prems(1) q by auto
    moreover have "distinct (map fst ((acc @ [(k, v)]) @ qs))" "set qs \<subseteq> set ps" using Cons.prems q by auto
    ultimately show ?case using Cons.IH [of "acc @ [(k, v)]"] v q by (simp add: put_member_fresh)
  qed simp
  from this [of "[]" ps] JObj.prems show ?case by simp
qed simp_all

lemma unique_object_distinct:
  "distinct (map fst (acc @ ps)) \<Longrightarrow> unique_object err acc ps = Inr (acc @ ps)"
proof (induction ps arbitrary: acc)
  case (Cons p ps)
  obtain k v where p: "p = (k, v)" by fastforce
  have "k \<notin> fst ` set acc" "distinct (map fst ((acc @ [(k, v)]) @ ps))" using Cons.prems p by auto
  with Cons.IH [of "acc @ [(k, v)]"] p show ?case by simp
qed simp

lemma decode_raw_of: "portable v \<Longrightarrow> decode_raw err const (raw_of v) = Inr v"
proof (induction v)
  case (JArr xs)
  have "decode_list err const (map raw_of ys) = Inr ys" if "set ys \<subseteq> set xs" for ys
    using that JArr by (induction ys) (auto simp: list_all_iff)
  from this [of xs] show ?case by simp
next
  case (JObj ps)
  have "decode_members err const (map (\<lambda>(k, v). (k, raw_of v)) qs) = Inr qs" if "set qs \<subseteq> set ps" for qs
    using that JObj by (induction qs) (fastforce simp: list_all_iff)+
  from this [of ps] unique_object_distinct [of "[]" ps err] JObj.prems show ?case by simp
qed simp_all

lemma json_loads_dumps: "reads_dumps scan \<Longrightarrow> portable v \<Longrightarrow> json_loads scan (json_bytes v) = Inr (canon v)"
  by (simp add: reads_dumps_def json_loads_def json_bytes_def plain_raw portable_canon)

lemma strict_loads_dumps: "reads_dumps scan \<Longrightarrow> portable v \<Longrightarrow> strict_json_loads scan (json_bytes v) = Inr (canon v)"
  by (simp add: reads_dumps_def strict_json_loads_def json_bytes_def decode_raw_of portable_canon)

subsection \<open>The receiver reads the message\<close>

definition canon_members :: "(pystr \<times> json) list \<Rightarrow> (pystr \<times> json) list" where
  "canon_members ps = sort_key fst (map (\<lambda>(k, v). (k, canon v)) ps)"

lemma canon_object: "canon (JObj ps) = JObj (canon_members ps)"
  by (simp add: canon_members_def)

lemma canon_members_of: "distinct (map fst ps) \<Longrightarrow> map_of (canon_members ps) k = map_option canon (map_of ps k)"
  by (simp add: canon_members_def canon_members)

lemma canon_members_keys [simp]: "set (jkeys (canon_members ps)) = set (jkeys ps)"
  by (force simp: canon_members_def jkeys_def)

lemma item_canon: "distinct (map fst ps) \<Longrightarrow> item (canon_members ps) k = map_sum id canon (item ps k)"
  by (simp add: item_def canon_members_of split: option.splits)

lemma get_item_canon: "distinct (map fst ps) \<Longrightarrow> get_item (canon_members ps) k = canon (get_item ps k)"
  by (simp add: get_item_def canon_members_of split: option.splits)

lemma check_fields_canon:
  "check_fields what required allowed raw = Inr u \<Longrightarrow> check_fields what required allowed (canon_members raw) = Inr u"
  by (simp add: check_fields_iff)

lemma canon_opt: "canon (json_opt_bool b) = json_opt_bool b" "canon (json_opt_time t) = json_opt_time t"
  by (cases b; cases t; simp add: json_opt_bool_def json_opt_time_def)+

text \<open>The parsers look members up by name, so the order of the members does not matter.\<close>

lemma parse_event_canon:
  assumes "parse_event fromiso (event_wire e) = Inr e'"
  shows "parse_event fromiso (canon (event_wire e)) = Inr e'"
  using assms unfolding event_wire_def canon_object
  by (simp add: parse_event_def result_simps check_fields_iff item_canon get_item_canon)
     (simp add: item_def get_item_def canon_opt)

lemma parse_claim_canon:
  assumes "parse_claim fromiso (claim_wire c) = Inr c'"
  shows "parse_claim fromiso (canon (claim_wire c)) = Inr c'"
  using assms unfolding claim_wire_def canon_object
  by (simp add: parse_claim_def result_simps check_fields_iff item_canon)
     (simp add: item_def canon_opt)


subsection \<open>What the worker posts\<close>

definition message_body :: "message \<Rightarrow> json" where
  "message_body m =
     (case m of
        EventMsg e \<Rightarrow> JObj [(''events'', JArr [canon (event_wire e)])]
      | SnapshotMsg sid seq cls \<Rightarrow> canon (snapshot_payload sid seq cls))"

lemma snapshot_id_canon: "jget (canon (snapshot_payload sid seq cls)) ''snapshot_id'' = Some (JStr sid)"
  unfolding snapshot_payload_def canon_object by (simp add: jget_def canon_members_of)

lemma send_message: "carries J r m \<Longrightarrow> send_body (row_request r (canon (msg_json m))) = message_body m"
  by (cases m) (simp_all add: carries_def row_request_def send_body_def message_body_def snapshot_id_canon, simp add: jget_def)

lemma portable_event: "sender_event J e \<Longrightarrow> 0 \<le> ev_seq e \<Longrightarrow> ev_seq e < 2 ^ 63 \<Longrightarrow> portable (event_wire e)"
  by (auto simp: event_wire_def sender_event_def json_opt_bool_def json_opt_time_def)

lemma portable_claim: "sender_claim J c \<Longrightarrow> portable (claim_wire c)"
  by (auto simp: claim_wire_def sender_claim_def json_opt_time_def)

lemma portable_message:
  assumes "msg_ok J m" "0 \<le> msg_seq m" "msg_seq m < 2 ^ 63"
  shows "portable (msg_json m)" "portable (message_body m)"
proof -
  show p: "portable (msg_json m)"
    using assms portable_event portable_claim
    by (cases m) (auto simp: snapshot_payload_def list_all_iff)
  show "portable (message_body m)"
    using portable_canon [OF p] by (cases m) (simp_all add: message_body_def)
qed

text \<open>The events and claims of the sender are those that the receiver's validation passes unchanged.\<close>

lemma sender_event_ok: "sender_event id_re e \<Longrightarrow> 0 < ev_seq e \<Longrightarrow> ev_seq e < 2 ^ 63 \<Longrightarrow> event_ok e \<and> expiry_ok (ev_expires_at e)"
  by (auto simp: sender_event_def event_ok_def expiry_ok_def)

lemma sender_claim_ok: "sender_claim id_re c \<Longrightarrow> claim_ok c \<and> expiry_ok (cl_expires_at c)"
  by (auto simp: sender_claim_def claim_ok_def expiry_ok_def)

lemma outer_object_iff: "outer_object (JObj d) req = Inr body \<longleftrightarrow> body = d \<and> set (jkeys d) = set req"
  by (auto simp: outer_object_def Let_def)

lemma canon_event_body: "canon (message_body (EventMsg e)) = JObj [(''events'', JArr [canon (event_wire e)])]"
  by (simp add: message_body_def canon_idem)

lemma canon_snapshot_body:
  "canon (message_body (SnapshotMsg sid seq cls)) = JObj (canon_members
     [(''snapshot_id'', JStr sid), (''seq'', JInt seq), (''claims'', JArr (map claim_wire cls))])"
  unfolding message_body_def message.case canon_idem
  unfolding snapshot_payload_def canon_object ..

lemma body_events:
  "outer_object (canon (message_body (EventMsg e))) [''events''] = Inr body \<Longrightarrow>
     field_of body ''events'' = JArr [canon (event_wire e)]"
  unfolding canon_event_body outer_object_iff by (simp add: field_of_def)

lemma body_not_snapshot:
  "outer_object (canon (message_body (EventMsg e))) [''snapshot_id'', ''seq'', ''claims''] \<noteq> Inr body"
  unfolding canon_event_body outer_object_iff by (simp add: jkeys_def)

lemma body_not_events: "outer_object (canon (message_body (SnapshotMsg sid seq cls))) [''events''] \<noteq> Inr body"
  unfolding canon_snapshot_body outer_object_iff canon_members_keys by (simp add: jkeys_def)

lemma body_snapshot:
  assumes "outer_object (canon (message_body (SnapshotMsg sid seq cls))) [''snapshot_id'', ''seq'', ''claims''] = Inr body"
  shows "field_of body ''snapshot_id'' = JStr sid" "field_of body ''seq'' = JInt seq"
    "field_of body ''claims'' = JArr (map (\<lambda>c. canon (claim_wire c)) cls)"
  using assms unfolding canon_snapshot_body outer_object_iff
  by (simp_all add: field_of_def canon_members_of)


subsection \<open>What a message does to the receiver\<close>

lemma validate_event_message:
  assumes "sender_event id_re e" "0 < ev_seq e" "ev_seq e < 2 ^ 63"
    "validate_events fromiso (JArr [canon (event_wire e)]) limit = Inr es"
  shows "es = [e]"
proof -
  have "parse_event fromiso (canon (event_wire e)) = Inr e"
    using sender_event_ok [OF assms(1-3)] by (intro parse_event_canon parse_event_wire) simp_all
  with assms(4) show ?thesis by (auto simp: validate_events_iff)
qed

lemma validate_snapshot_message:
  assumes "msg_ok id_re (SnapshotMsg sid seq cls)"
    "validate_snapshot fromiso (JStr sid) (JInt seq) (JArr (map (\<lambda>c. canon (claim_wire c)) cls)) limit = Inr (i, n, cs)"
  shows "i = sid \<and> n = seq \<and> cs = cls \<and> claims_ok cls"
proof -
  have "rmap (parse_claim fromiso) (map (\<lambda>c. canon (claim_wire c)) cls) = Inr cls"
    using assms(1) by (induction cls) (auto simp: parse_claim_canon parse_claim_wire sender_claim_ok)
  moreover have "uuid_field (JStr sid) ''snapshot_id'' = Inr sid"
    using assms(1) by (simp add: uuid_field_idem)
  ultimately show ?thesis using assms(2) by (auto simp: validate_snapshot_iff seq_field_iff)
qed

lemma post_events_Inr:
  assumes "idle (se_env senv)" "post_events senv cl raw s = (u, Inr x)"
  obtains body es now where "outer_object raw [''events''] = Inr body"
    "validate_events (se_iso senv) (field_of body ''events'') (nat (lm_events_per_request (cf_limits (se_config senv)))) = Inr es"
    "apply_events (env_sha (se_env senv)) (cc_id cl) es (claims_cap senv) now (gd_db (sv_guard s)) = (gd_db (sv_guard u), Inr x)"
  using assms(2)
  by (auto simp: post_events_def Let_def sbind_def slift_def claims_cap_def on_guard_Inr store_call_Inr
      idle_simp [OF assms(1)] split: sum.splits prod.splits)

lemma post_snapshot_Inr:
  assumes "idle (se_env senv)" "post_snapshot senv cl raw s = (u, Inr x)"
  obtains body sid seq cls now where "outer_object raw [''snapshot_id'', ''seq'', ''claims''] = Inr body"
    "validate_snapshot (se_iso senv) (field_of body ''snapshot_id'') (field_of body ''seq'') (field_of body ''claims'')
       (claims_cap senv) = Inr (sid, seq, cls)"
    "apply_snapshot (env_sha (se_env senv)) (cc_id cl) sid seq cls (claims_cap senv) now (gd_db (sv_guard s)) =
       (gd_db (sv_guard u), Inr x)"
  using assms(2)
  by (auto simp: post_snapshot_def Let_def sbind_def slift_def claims_cap_def on_guard_Inr store_call_Inr
      idle_simp [OF assms(1)] split: sum.splits prod.splits)

text \<open>The view of one client: its claims and its sequence number.\<close>

definition view :: "pystr \<Rightarrow> db \<Rightarrow> claim_map \<times> int" where
  "view c d = (claims_of d c, last_seq_of d c)"

lemma events_message:
  assumes "db_ok d" "sender_event id_re e" "0 < ev_seq e" "ev_seq e < 2 ^ 63"
    "apply_events sha c [e] cap now d = (d', Inr x)"
  shows "view c d' = receive (EventMsg e) (view c d) \<and> ev_seq e \<le> last_seq_of d' c"
proof -
  have "batch_ok [e]" using sender_event_ok [OF assms(2-4)] by (simp add: batch_ok_def)
  from apply_events_view [OF assms(1) this assms(5)] show ?thesis
    by (auto simp: view_def receive_def split: if_splits)
qed

lemma snapshot_message:
  assumes "db_ok d" "claims_ok cls" "0 < seq" "seq < 2 ^ 63"
    "apply_snapshot sha c sid seq cls cap now d = (d', Inr x)"
  shows "view c d' = receive (SnapshotMsg sid seq cls) (view c d) \<and> seq \<le> last_seq_of d' c"
proof -
  have "seq \<le> 2 ^ 63 - 1" using assms(4) by simp
  from apply_snapshot_view [OF assms(1-3) this assms(5)] show ?thesis
    by (auto simp: view_def receive_def split: if_splits)
qed

lemma perform_write_message:
  assumes idle: "idle (se_env senv)" and ok: "db_ok (gd_db (sv_guard s))"
    and m: "msg_ok id_re m" "0 < msg_seq m" "msg_seq m < 2 ^ 63"
    and run: "perform_write senv cl path (canon (message_body m)) s = (u, Inr (Inr x))"
  shows "view (cc_id cl) (gd_db (sv_guard u)) = receive m (view (cc_id cl) (gd_db (sv_guard s))) \<and>
    msg_seq m \<le> last_seq_of (gd_db (sv_guard u)) (cc_id cl)"
proof -
  consider "post_events senv cl (canon (message_body m)) s = (u, Inr x)"
    | "post_snapshot senv cl (canon (message_body m)) s = (u, Inr x)"
    using run by (auto simp: perform_write_def scatch_def sbind_def sret_def slift_def
        split: if_splits sum.splits prod.splits option.splits)
  then show ?thesis
  proof cases
    case 1
    then obtain body es now where o: "outer_object (canon (message_body m)) [''events''] = Inr body"
        "validate_events (se_iso senv) (field_of body ''events'') (nat (lm_events_per_request (cf_limits (se_config senv)))) = Inr es"
        "apply_events (env_sha (se_env senv)) (cc_id cl) es (claims_cap senv) now (gd_db (sv_guard s)) = (gd_db (sv_guard u), Inr x)"
      by (rule post_events_Inr [OF idle])
    then obtain e where e: "m = EventMsg e" using body_not_events by (cases m) auto
    then have ev: "sender_event id_re e" "0 < ev_seq e" "ev_seq e < 2 ^ 63" using m by simp_all
    have "es = [e]" using validate_event_message [OF ev] o(1,2) body_events unfolding e by metis
    with events_message [OF ok ev] o(3) e show ?thesis by simp
  next
    case 2
    then obtain body sid seq cls now where o: "outer_object (canon (message_body m)) [''snapshot_id'', ''seq'', ''claims''] = Inr body"
        "validate_snapshot (se_iso senv) (field_of body ''snapshot_id'') (field_of body ''seq'') (field_of body ''claims'')
           (claims_cap senv) = Inr (sid, seq, cls)"
        "apply_snapshot (env_sha (se_env senv)) (cc_id cl) sid seq cls (claims_cap senv) now (gd_db (sv_guard s)) =
           (gd_db (sv_guard u), Inr x)"
      by (rule post_snapshot_Inr [OF idle])
    then obtain sid' seq' cls' where e: "m = SnapshotMsg sid' seq' cls'" using body_not_snapshot by (cases m) auto
    note b = body_snapshot [OF o(1) [unfolded e]]
    have "sid = sid' \<and> seq = seq' \<and> cls = cls' \<and> claims_ok cls'"
      by (rule validate_snapshot_message [OF m(1) [unfolded e] o(2) [unfolded b]])
    with snapshot_message [OF ok _ _ _ o(3)] m(2,3) e show ?thesis by simp
  qed
qed


subsection \<open>A posted message\<close>

text \<open>The request that carries a text: its certificate, its length, and as much of it as arrives.\<close>

definition carries_text :: "pystr \<Rightarrow> pystr \<Rightarrow> http_request \<Rightarrow> bool" where
  "carries_text der text req \<longleftrightarrow> rq_cert req = Inr (Some der) \<and>
     header_values ''Content-Length'' req = [dec_str (length text)] \<and> (\<exists>k. rq_bytes req = take k text)"

lemma content_length_text:
  assumes "carries_text der text req" "length text < 10 ^ 9"
  shows "content_length req = Inr (int (length text))"
proof -
  have "length text < 10 ^ Suc 8" using assms(2) by simp
  then have "length (dec_str (length text)) \<le> 4300" using radix_str_length [of 10 "length text" 8] by simp
  moreover have "CHR '','' \<notin> set (dec_str (length text))" by (rule dec_str_no_char) code_simp
  ultimately show ?thesis using assms(1) by (simp add: content_length_def carries_text_def py_int10_dec_str)
qed

lemma request_body_text:
  assumes "carries_text der text req" "length text < 10 ^ 9" "request_body senv req = Inr (Inr raw)"
  shows "strict_json_loads (se_scan senv) text = Inr raw"
proof -
  obtain data where d: "read_exactly req (length text) = Inr data" "length data = length text"
      "strict_json_loads (se_scan senv) data = Inr raw"
    using assms(3) content_length_text [OF assms(1,2)]
    by (auto simp: request_body_def rbind_def split: if_splits sum.splits option.splits)
  obtain k where "rq_bytes req = take k text" using assms(1) by (auto simp: carries_text_def)
  with d(1) have "data = take k text \<or> data = take (length text) (take k text)"
    by (auto simp: read_exactly_def split: if_splits option.splits)
  then obtain j where j: "data = take j text" by (metis take_take)
  with d(2) have "data = text" by (cases "j \<le> length text") auto
  with d(3) show ?thesis by simp
qed

definition successful :: "reply \<Rightarrow> bool" where
  "successful rep \<longleftrightarrow> 200 \<le> rp_status rep \<and> rp_status rep < 300"

lemma perform_write_refused:
  assumes "perform_write senv cl path raw s = (v, Inr (Inl rep))"
  shows "\<not> successful rep"
proof -
  have "rp_status rep \<in> {400, 403, 404, 409, 503}"
    using assms post_error_status
    by (fastforce simp: perform_write_def scatch_def sbind_def sret_def slift_def error_reply_def
        split: if_splits sum.splits prod.splits option.splits)
  then show ?thesis by (auto simp: successful_def)
qed

lemma do_POST_runs:
  assumes "do_POST senv req s = (t, q)"
  obtains (refused) "sv_guard t = sv_guard s" "\<And>rep. q = Inr rep \<Longrightarrow> \<not> successful rep"
    | (performed) cl raw u v res where "passes senv req s cl" "request_body senv req = Inr (Inr raw)"
        "sv_guard u = sv_guard s" "perform_write senv cl (rq_path req) raw u = (v, res)"
        "case res of Inr (Inr x) \<Rightarrow> finish_write senv cl x v = (t, q)
           | Inr (Inl rep) \<Rightarrow> t = v \<and> q = Inr rep | Inl e \<Rightarrow> t = v \<and> q = Inl e"
proof -
  obtain u a where a: "authorize senv req s = (u, a)" by fastforce
  note g = authorize_guard [OF a]
  have st: "\<not> successful rp" if "a = Inr (Inl rp)" for rp
    using a that by (auto simp: successful_def authorize_cases error_reply_def split: sum.splits option.splits prod.splits if_splits)
  have body: "\<not> successful rp" if "request_body senv req = Inr (Inl rp)" for rp
    using that by (auto simp: successful_def request_body_def content_length_def Let_def error_reply_def rbind_eq_Inr
        split: if_splits sum.splits option.splits)
  show ?thesis
  proof (cases "\<exists>cl raw. a = Inr (Inr cl) \<and> request_body senv req = Inr (Inr raw)")
    case True
    then obtain cl raw where cl: "a = Inr (Inr cl)" "request_body senv req = Inr (Inr raw)" by blast
    obtain v res where w: "perform_write senv cl (rq_path req) raw u = (v, res)" by fastforce
    have "case res of Inr (Inr x) \<Rightarrow> finish_write senv cl x v = (t, q)
        | Inr (Inl rep) \<Rightarrow> t = v \<and> q = Inr rep | Inl e \<Rightarrow> t = v \<and> q = Inl e"
      using assms a cl w by (auto simp: do_POST_def sbind_def sret_def slift_def split: sum.splits prod.splits)
    then show ?thesis using performed [OF authorize_Inr [OF a [unfolded cl(1)]] cl(2) g w] by blast
  next
    case False
    have "sv_guard t = sv_guard s \<and> (\<forall>rep. q = Inr rep \<longrightarrow> \<not> successful rep)"
      using assms a False g st body
      by (cases a; cases "request_body senv req") (auto simp: do_POST_def sbind_def sret_def slift_def split: sum.splits)
    then show ?thesis using refused by blast
  qed
qed

lemma same_view: "same_claims d d' \<Longrightarrow> view c d' = view c d"
  using same_claims_view by (simp add: view_def)

lemma do_POST_message:
  assumes idle: "idle (se_env senv)" and scan: "reads_dumps (se_scan senv)" and ok: "guard_ok (sv_guard s)"
    and client: "clients_by_fingerprint (se_config senv) (env_sha (se_env senv) der) = Some cl"
    and m: "msg_ok id_re m" "0 < msg_seq m" "msg_seq m < 2 ^ 63"
    and req: "carries_text der (json_bytes (message_body m)) req" "length (json_bytes (message_body m)) < 10 ^ 9"
    and run: "do_POST senv req s = (t, q)"
  shows "guard_ok (sv_guard t)"
    and "view (cc_id cl) (gd_db (sv_guard t)) \<in>
      {view (cc_id cl) (gd_db (sv_guard s)), receive m (view (cc_id cl) (gd_db (sv_guard s)))}"
    and "q = Inr rep \<Longrightarrow> successful rep \<Longrightarrow> msg_seq m \<le> last_seq_of (gd_db (sv_guard t)) (cc_id cl)"
proof -
  let ?view = "\<lambda>s. view (cc_id cl) (gd_db (sv_guard s))"
  show "guard_ok (sv_guard t)"
    using keepsD [OF do_POST_keeps_ok [OF idle_others_ok [OF idle]] _ run] ok by simp
  have "?view t \<in> {?view s, receive m (?view s)} \<and>
    (q = Inr rep \<longrightarrow> successful rep \<longrightarrow> msg_seq m \<le> last_seq_of (gd_db (sv_guard t)) (cc_id cl))"
    using run
  proof (cases rule: do_POST_runs)
    case refused
    then show ?thesis by auto
  next
    case (performed cl' raw u v res)
    from performed(1) req(1) client have cl': "cl' = cl"
      by (auto simp: passes_def carries_text_def dest!: client_of_Some)
    have raw: "raw = canon (message_body m)"
      using request_body_text [OF req performed(2)] strict_loads_dumps [OF scan portable_message(2) [OF m(1)]] m by simp
    have db: "db_ok (gd_db (sv_guard u))" using ok performed(3) by (simp add: guard_ok_def)
    note out = perform_write_outcome [OF idle db performed(4)]
    show ?thesis
    proof (cases "\<exists>x. res = Inr (Inr x)")
      case True
      then obtain x where x: "res = Inr (Inr x)" by blast
      have w: "?view v = receive m (?view s) \<and> msg_seq m \<le> last_seq_of (gd_db (sv_guard v)) (cc_id cl)"
        using perform_write_message [OF idle db m, of cl "rq_path req" v x] performed(3,4) raw cl' x by simp
      have "finish_write senv cl x v = (t, q)" using performed(5) x cl' by simp
      from keepsD [OF finish_write_keeps [OF idle] _ this, of "gd_db (sv_guard v)"]
      have "same_claims (gd_db (sv_guard v)) (gd_db (sv_guard t))" by simp
      from same_view [OF this] w show ?thesis by (simp add: view_def)
    next
      case False
      then have "gd_db (sv_guard v) = gd_db (sv_guard u) \<and> (q = Inr rep \<longrightarrow> \<not> successful rep) \<and> t = v"
        using out performed(4,5) by (auto simp: write_outcome_def dest: perform_write_refused split: sum.splits)
      then show ?thesis using performed(3) by auto
    qed
  qed
  then show "?view t \<in> {?view s, receive m (?view s)}"
    "q = Inr rep \<Longrightarrow> successful rep \<Longrightarrow> msg_seq m \<le> last_seq_of (gd_db (sv_guard t)) (cc_id cl)" by blast+
qed


subsection \<open>The connection\<close>

text \<open>
  What else happens at the receiver between two requests of a client: other clients' requests, status
  requests, periodic enforcement. It keeps the invariant and the client's claims and sequence number.
\<close>

definition elsewhere :: "pystr \<Rightarrow> 'w server \<Rightarrow> 'w server \<Rightarrow> bool" where
  "elsewhere c s t \<longleftrightarrow>
     (guard_ok (sv_guard s) \<longrightarrow>
        guard_ok (sv_guard t) \<and> view c (gd_db (sv_guard t)) = view c (gd_db (sv_guard s)))"

text \<open>
  The opener over HTTPS: a request may get lost, may arrive cut off, may be performed and its answer get
  lost, or is performed and answered. It is never altered, and never answered without being performed.
\<close>

definition posts ::
  "'w server_env \<Rightarrow> pystr \<Rightarrow> pystr \<Rightarrow> (pystr \<Rightarrow> pystr \<Rightarrow> nat \<Rightarrow> ('w server, int \<times> pystr) action) \<Rightarrow> bool" where
  "posts senv der c opener \<longleftrightarrow>
     (\<forall>url body n s t r. opener url body n s = (t, r) \<longrightarrow>
        (elsewhere c s t \<and> (\<exists>e. r = Inl e)) \<or>
        (\<exists>req s1 t1 q. elsewhere c s s1 \<and> carries_text der body req \<and> do_POST senv req s1 = (t1, q) \<and>
           elsewhere c t1 t \<and>
           ((\<exists>e. r = Inl e) \<or> (\<exists>rep answer. q = Inr rep \<and> r = Inr (int (rp_status rep), answer)))))"

text \<open>What other processes do to the sender's database.\<close>

inductive local_steps :: "nat \<Rightarrow> sender_db \<Rightarrow> sender_db \<Rightarrow> bool" for limit :: nat where
  Idle: "local_steps limit d d"
| Open: "local_steps limit d d1 \<Longrightarrow> store_init isdir path lim0 d1 = Inr d2 \<Longrightarrow> local_steps limit d d2"
| Action: "local_steps limit d d1 \<Longrightarrow> enqueue limit r1 r2 op jail ip now d1 = (d2, out) \<Longrightarrow>
    (\<And>j. sender_jail jail = Inr j \<Longrightarrow> id_re j) \<Longrightarrow> local_steps limit d d2"
| Reconcile: "local_steps limit d d1 \<Longrightarrow> (\<And>i. claims_inv id_re (sd_claims (views i))) \<Longrightarrow> jails_within id_re claims \<Longrightarrow>
    enqueue_snapshot limit random claims now expected views d1 = (d2, result) \<Longrightarrow> local_steps limit d d2"

lemma local_steps_inv:
  "local_steps limit d d' \<Longrightarrow> sender_inv id_re limit R L d \<Longrightarrow>
   sender_inv id_re limit R L d' \<and> (\<exists>more. undelivered d' = undelivered d @ more)"
proof (induction rule: local_steps.induct)
  case (Open d d1 isdir path lim0 d2)
  with sender_inv_init [OF _ Open.hyps(2)] show ?case by auto
next
  case (Action d d1 r1 r2 op jail ip now d2 out)
  with enqueue_inv [OF _ Action.hyps(2,3)] show ?case by fastforce
next
  case (Reconcile d d1 views claims random now expected d2 result)
  with enqueue_snapshot_inv [OF _ Reconcile.hyps(2) Reconcile.hyps(4,3)] show ?case by fastforce
qed simp

text \<open>
  The agreement of a sender with the receiver: what the receiver holds for the client, and the rows
  still to be delivered, make the claims that are active at the sender.
\<close>

definition agreement :: "nat \<Rightarrow> pystr \<Rightarrow> 'w server sender \<Rightarrow> bool" where
  "agreement limit c s \<longleftrightarrow> guard_ok (sv_guard (sn_world s)) \<and>
     sender_inv id_re limit (claims_of (gd_db (sv_guard (sn_world s))) c) (last_seq_of (gd_db (sv_guard (sn_world s))) c) (sn_db s)"

lemma agreement_view:
  "agreement limit c s \<longleftrightarrow> guard_ok (sv_guard (sn_world s)) \<and>
     (case view c (gd_db (sv_guard (sn_world s))) of (R, L) \<Rightarrow> sender_inv id_re limit R L (sn_db s))"
  by (simp add: agreement_def view_def)

lemma agreement_settled:
  assumes "agreement limit c s" "pending (sn_db s) = []"
  shows "claims_of (gd_db (sv_guard (sn_world s))) c = sender_map (sd_claims (sn_db s))"
proof -
  have "undelivered (sn_db s) = []" using assms(2) by (metis pending_def set_empty set_sort)
  with assms(1) show ?thesis by (simp add: agreement_def sender_inv_def explained_def)
qed


subsection \<open>One attempt\<close>

text \<open>The setting: a client with its certificate, a receiver, and a worker whose opener reaches it.\<close>

definition connected :: "'w server_env \<Rightarrow> pystr \<Rightarrow> client_config \<Rightarrow> 'w server sender_env \<Rightarrow> bool" where
  "connected senv der cl env \<longleftrightarrow> idle (se_env senv) \<and> reads_dumps (se_scan senv) \<and> reads_dumps (we_scan env) \<and>
     clients_by_fingerprint (se_config senv) (env_sha (se_env senv) der) = Some cl \<and>
     posts senv der (cc_id cl) (we_open env)"

lemma elsewhereD:
  "elsewhere c s t \<Longrightarrow> guard_ok (sv_guard s) \<Longrightarrow>
   guard_ok (sv_guard t) \<and> view c (gd_db (sv_guard t)) = view c (gd_db (sv_guard s))"
  by (simp add: elsewhere_def)

lemma check_response_status: "check_response scan (status, answer) = Inr () \<Longrightarrow> 200 \<le> status \<and> status < 300"
  by (auto simp: check_response_def split: if_splits)


lemma send_run:
  assumes "length (json_bytes (send_body payload)) \<le> max_event_bytes"
    "we_open env (send_url (we_config env) payload) (json_bytes (send_body payload)) (max_response_bytes + 1) w = (w', a)"
  shows "send env payload w = (w', case a of Inl e \<Rightarrow> Inl (open_error e) | Inr answer \<Rightarrow> check_response (we_scan env) answer)"
  using assms by (cases a) (simp_all add: send_def sbind_def scatch_def slift_def Let_def)

lemma send_message_outcome:
  assumes net: "connected senv der cl env" and ok: "guard_ok (sv_guard w)"
    and m: "msg_ok id_re m" "0 < msg_seq m" "msg_seq m < 2 ^ 63" "carries id_re row m"
    and run: "send env (row_request row (canon (msg_json m))) w = (w', r)"
  shows "guard_ok (sv_guard w') \<and>
    view (cc_id cl) (gd_db (sv_guard w')) \<in>
      {view (cc_id cl) (gd_db (sv_guard w)), receive m (view (cc_id cl) (gd_db (sv_guard w)))} \<and>
    (r = Inr () \<longrightarrow> msg_seq m \<le> last_seq_of (gd_db (sv_guard w')) (cc_id cl))"
proof (cases "max_event_bytes < length (json_bytes (message_body m))")
  case True
  then show ?thesis using run ok by (auto simp: send_def send_message [OF m(4)] slift_def Let_def)
next
  case False
  let ?text = "json_bytes (message_body m)" and ?view = "\<lambda>w. view (cc_id cl) (gd_db (sv_guard w))"
  let ?url = "send_url (we_config env) (row_request row (canon (msg_json m)))"
  from net have idle: "idle (se_env senv)" and scan: "reads_dumps (se_scan senv)"
    and client: "clients_by_fingerprint (se_config senv) (env_sha (se_env senv) der) = Some cl"
    and posts: "posts senv der (cc_id cl) (we_open env)" by (simp_all add: connected_def)
  obtain w2 a where a: "we_open env ?url ?text (max_response_bytes + 1) w = (w2, a)" by fastforce
  have "send env (row_request row (canon (msg_json m))) w =
      (w2, case a of Inl e \<Rightarrow> Inl (open_error e) | Inr answer \<Rightarrow> check_response (we_scan env) answer)"
    by (rule send_run) (use a False send_message [OF m(4)] in simp_all)
  with run have w2: "w' = w2"
    and r: "r = (case a of Inl e \<Rightarrow> Inl (open_error e) | Inr answer \<Rightarrow> check_response (we_scan env) answer)" by simp_all
  have acked: "\<exists>status answer. a = Inr (status, answer) \<and> 200 \<le> status \<and> status < 300" if "r = Inr ()"
  proof (cases a)
    case (Inr answer)
    then show ?thesis using that r check_response_status [of "we_scan env" "fst answer" "snd answer"]
      by (cases answer) auto
  qed (use that r in simp)
  have long: "length ?text < 10 ^ 9" using False by (simp add: max_event_bytes_def)
  note reached = posts [unfolded posts_def, rule_format, OF a]
  from reached consider (lost) e where "elsewhere (cc_id cl) w w2" "a = Inl e"
    | (posted) req s1 t1 q where "elsewhere (cc_id cl) w s1" "carries_text der ?text req" "do_POST senv req s1 = (t1, q)"
        "elsewhere (cc_id cl) t1 w2" "(\<exists>e. a = Inl e) \<or> (\<exists>rep answer. q = Inr rep \<and> a = Inr (int (rp_status rep), answer))"
    by blast
  then show ?thesis
  proof cases
    case lost
    with elsewhereD [OF lost(1) ok] acked show ?thesis by (auto simp: w2)
  next
    case posted
    note s1 = elsewhereD [OF posted(1) ok]
    note did = do_POST_message [OF idle scan s1 [THEN conjunct1] client m(1-3) posted(2) long posted(3)]
    note t1 = elsewhereD [OF posted(4) did(1)]
    have "msg_seq m \<le> last_seq_of (gd_db (sv_guard w2)) (cc_id cl)" if "r = Inr ()"
    proof -
      from acked [OF that] posted(5) obtain rep where "q = Inr rep" "successful rep" by (auto simp: successful_def)
      from did(3) [OF this] t1 show ?thesis by (simp add: view_def)
    qed
    moreover have "?view w2 \<in> {?view w, receive m (?view w)}" using did(2) s1 t1 by auto
    ultimately show ?thesis using t1 by (auto simp: w2)
  qed
qed


subsection \<open>One round of the worker\<close>

definition local_others :: "nat \<Rightarrow> 'w sender_env \<Rightarrow> bool" where
  "local_others limit env \<longleftrightarrow> (\<forall>n d. local_steps limit d (we_others env n d))"

lemma local_others_inv:
  "local_others limit env \<Longrightarrow> sender_inv id_re limit R L d \<Longrightarrow>
   sender_inv id_re limit R L (we_others env n d) \<and> (\<exists>more. undelivered (we_others env n d) = undelivered d @ more)"
  by (rule local_steps_inv) (simp_all add: local_others_def)

text \<open>The marks after an attempt, with the others' commits before each.\<close>

lemma after_marks:
  assumes others: "local_others limit env" and inv: "sender_inv id_re limit R L (sn_db s)"
    and head: "undelivered (sn_db s) = row # rest"
  shows "after_failure env row now s = (t, r) \<Longrightarrow> sender_inv id_re limit R L (sn_db t) \<and> sn_world t = sn_world s"
    and "or_seq row \<le> L \<Longrightarrow> after_success env row now s = (t, r) \<Longrightarrow>
      sender_inv id_re limit R L (sn_db t) \<and> sn_world t = sn_world s"
proof -
  let ?d = "we_others env (sn_tick s) (sn_db s)"
  from local_others_inv [OF others inv] head obtain more where
    d: "sender_inv id_re limit R L ?d" "undelivered ?d = row # (rest @ more)" by fastforce
  note retry = sender_inv_retry [OF d, THEN conjunct1]
  note mark = sender_inv_mark [OF d]
  note keep = sender_inv_last_error local_others_inv [OF others, THEN conjunct1]
  show "sender_inv id_re limit R L (sn_db t) \<and> sn_world t = sn_world s" if "after_failure env row now s = (t, r)"
    using that
    by (auto simp: after_failure_def sbind_def on_store_def put_db_def sret_def Let_def intro!: keep retry d(1) split: if_splits)
  show "sender_inv id_re limit R L (sn_db t) \<and> sn_world t = sn_world s"
    if "or_seq row \<le> L" "after_success env row now s = (t, r)"
    using that(2)
    by (auto simp: after_success_def sbind_def on_store_def put_db_def sret_def Let_def
        intro!: keep mark [OF that(1), THEN conjunct1] d(1) split: if_splits)
qed

lemma process_once_agreement:
  assumes net: "connected senv der cl env" and others: "local_others limit env"
    and agree: "agreement limit (cc_id cl) s" and run: "process_once env now s = (t, r)"
  shows "agreement limit (cc_id cl) t"
proof -
  let ?view = "\<lambda>w. view (cc_id cl) (gd_db (sv_guard w))"
  let ?d = "we_others env (sn_tick s) (sn_db s)"
  let ?s1 = "s\<lparr>sn_db := ?d, sn_tick := Suc (sn_tick s)\<rparr>"
  obtain R L where RL: "?view (sn_world s) = (R, L)" by fastforce
  have ok: "guard_ok (sv_guard (sn_world s))" and inv0: "sender_inv id_re limit R L (sn_db s)"
    using agree RL by (simp_all add: agreement_view)
  have inv: "sender_inv id_re limit R L ?d" using local_others_inv [OF others inv0] by blast
  have first: "on_store env (\<lambda>_ d. (d, Inr (next_due now d))) s =
      (?s1, if we_fault env (sn_tick s) then Inl SqliteError else Inr (next_due now ?d))"
    by (simp add: on_store_def Let_def)
  show ?thesis
  proof (cases "we_fault env (sn_tick s) \<or> next_due now ?d = None")
    case True
    then have "t = ?s1" using run first by (auto simp: process_once_def sbind_def sret_def split: if_splits)
    then show ?thesis using ok inv RL by (simp add: agreement_view)
  next
    case False
    then obtain row where Some: "next_due now ?d = Some row" by blast
    from False first have first: "on_store env (\<lambda>_ d. (d, Inr (next_due now d))) s = (?s1, Inr (next_due now ?d))" by simp
    obtain rest where head: "undelivered ?d = row # rest" using head_due [OF inv Some] by blast
    obtain m where m: "carries id_re row m" "\<And>R' L'. receive m (R, L) = (R', L') \<Longrightarrow> sender_inv id_re limit R' L' ?d"
      using sender_inv_receive [OF inv head] by blast
    obtain n where n: "seq_at ?d n" "outbox_inv n ?d" using inv by (auto simp: sender_inv_def)
    have "row \<in> set (sd_outbox ?d)" using head by (metis filter_is_subset list.set_intros(1) subsetD undelivered_def)
    then have seq: "0 < msg_seq m" "msg_seq m < 2 ^ 63" "or_seq row = msg_seq m"
      using n m(1) by (auto simp: outbox_inv_def seq_at_def carries_def)
    have ok_m: "msg_ok id_re m" using m(1) by (simp add: carries_def)
    have "or_payload row = json_bytes (msg_json m)" using m(1) by (simp add: carries_def)
    then have load: "json_loads (we_scan env) (or_payload row) = Inr (canon (msg_json m))"
      using net json_loads_dumps portable_message(1) [OF ok_m] seq(1,2) by (simp add: connected_def)
    let ?request = "row_request row (canon (msg_json m))"
    obtain w r' where send: "send env ?request (sn_world s) = (w, r')" by fastforce
    note out = send_message_outcome [OF net ok ok_m seq(1,2) m(1) send]
    obtain b where b: "attempt_send env ?request ?s1 = (?s1\<lparr>sn_world := w\<rparr>, Inr b)" "b \<longleftrightarrow> (\<exists>u. r' = Inr u)"
      using attempt_send_total [of env ?request ?s1] send by auto
    have step: "process_once env now s = (if b then after_success env row now else after_failure env row now) (?s1\<lparr>sn_world := w\<rparr>)"
      using Some load b(1) first by (simp add: process_once_def sbind_def slift_def)
    obtain R' L' where RL': "?view w = (R', L')" by fastforce
    have inv': "sender_inv id_re limit R' L' ?d" using out RL RL' m(2) inv by auto
    note marks = after_marks [OF others, of R' L' "?s1\<lparr>sn_world := w\<rparr>", simplified, OF inv' head]
    have "sender_inv id_re limit R' L' (sn_db t) \<and> sn_world t = w"
    proof (cases b)
      case True
      then have "or_seq row \<le> L'" using b(2) out RL' seq(3) by (auto simp: view_def)
      from marks(2) [OF this] run step True show ?thesis by simp
    next
      case False
      from marks(1) run step False show ?thesis by simp
    qed
    then show ?thesis using out RL' by (simp add: agreement_view)
  qed
qed


subsection \<open>The whole system\<close>

text \<open>
  A sender that starts with a fresh database towards a receiver that holds nothing of its client; then,
  in any order, hooks and snapshots at the sender, rounds of the worker, and other activity at the
  receiver.
\<close>

inductive together ::
  "nat \<Rightarrow> client_config \<Rightarrow> 'w server sender_env \<Rightarrow> 'w server sender \<Rightarrow> bool"
  for limit :: nat and cl :: client_config and env :: "'w server sender_env" where
  Begin: "store_init isdir path lim0 no_tables = Inr (sn_db s) \<Longrightarrow> guard_ok (sv_guard (sn_world s)) \<Longrightarrow>
    view (cc_id cl) (gd_db (sv_guard (sn_world s))) = (Map.empty, 0) \<Longrightarrow> together limit cl env s"
| Local: "together limit cl env s \<Longrightarrow> local_steps limit (sn_db s) d \<Longrightarrow> together limit cl env (s\<lparr>sn_db := d\<rparr>)"
| Remote: "together limit cl env s \<Longrightarrow> elsewhere (cc_id cl) (sn_world s) w \<Longrightarrow> together limit cl env (s\<lparr>sn_world := w\<rparr>)"
| Round: "together limit cl env s \<Longrightarrow> process_once env now s = (t, r) \<Longrightarrow> together limit cl env t"

lemma together_agreement:
  assumes net: "connected senv der cl env" and others: "local_others limit env"
  shows "together limit cl env s \<Longrightarrow> agreement limit (cc_id cl) s"
proof (induction rule: together.induct)
  case (Begin isdir path lim0 s)
  then show ?case using sender_inv_fresh by (simp add: agreement_view)
next
  case (Local s d)
  then show ?case using local_steps_inv by (auto simp: agreement_view)
next
  case (Remote s w)
  then show ?case using elsewhereD by (fastforce simp: agreement_view)
next
  case (Round s now t r)
  then show ?case using process_once_agreement [OF net others] by blast
qed

text \<open>
  C33. The receiver converges to the sender: whatever hooks, snapshots, retries, lost requests, lost
  answers and other clients do in between, as soon as the sender has nothing left to deliver, the claims
  that the receiver holds for this client are exactly the claims that are active at the sender, with
  their jails, ban ids and addresses.
\<close>

theorem settled_sender_agrees:
  assumes "connected senv der cl env" "local_others limit env" "together limit cl env s" "pending (sn_db s) = []"
  shows "claims_of (gd_db (sv_guard (sn_world s))) (cc_id cl) (jail, ban_id) = Some v \<longleftrightarrow>
    (\<exists>r \<in> set (sd_claims (sn_db s)). lr_active r \<and> lr_jail r = jail \<and> lr_ban_id r = ban_id \<and> v = (lr_ip r, True, None))"
proof -
  note agree = together_agreement [OF assms(1-3)]
  have "claims_inv id_re (sd_claims (sn_db s))" using agree by (simp add: agreement_def sender_inv_def)
  from sender_map_Some [OF this] show ?thesis
    unfolding agreement_settled [OF agree assms(4)] by (auto simp: lifecycle_uk_def)
qed

text \<open>Another client's request is activity elsewhere.\<close>

lemma elsewhere_same:
  "(guard_ok (sv_guard s) \<Longrightarrow> guard_ok (sv_guard t)) \<Longrightarrow> same_claims (gd_db (sv_guard s)) (gd_db (sv_guard t)) \<Longrightarrow> elsewhere c s t"
  by (simp add: elsewhere_def same_view)

lemma elsewhere_post:
  assumes idle: "idle (se_env senv)" and run: "do_POST senv req s = (t, r)"
    and other: "\<And>cl. client_of senv req = Inr (Some cl) \<Longrightarrow> cc_id cl \<noteq> c"
  shows "elsewhere c s t"
  unfolding elsewhere_def
proof (intro impI conjI)
  assume ok: "guard_ok (sv_guard s)"
  show "guard_ok (sv_guard t)" using keepsD [OF do_POST_keeps_ok [OF idle_others_ok [OF idle]] _ run] ok by simp
  show "view c (gd_db (sv_guard t)) = view c (gd_db (sv_guard s))"
  proof (cases "same_claims (gd_db (sv_guard s)) (gd_db (sv_guard t))")
    case False
    from do_POST_effect [OF idle ok run False] obtain cl w now d x where w: "passes senv req s cl" "write_valid w"
        "run_write (env_sha (se_env senv)) (cc_id cl) (claims_cap senv) now w (gd_db (sv_guard s)) = (d, Inr x)"
        "same_claims d (gd_db (sv_guard t))" by blast
    have "c \<noteq> cc_id cl" using other [of cl] w(1) by (auto simp: passes_def)
    then have "view c d = view c (gd_db (sv_guard s))"
      using run_write_view(1) [OF _ w(2,3)] ok by (simp add: guard_ok_def view_def)
    with same_view [OF w(4)] show ?thesis by simp
  qed (rule same_view)
qed

end
