(* ===== verification/EndToEndRun.thy ===== *)
theory EndToEndRun
  imports EndToEnd
begin

text \<open>
  A run of the whole system: a ban is enqueued at a fresh sender, the worker posts it over a direct
  connection, and the receiver decodes it, stores the claim and has it enforced.
\<close>

subsection \<open>A direct connection\<close>

definition direct_request :: "pystr \<Rightarrow> pystr \<Rightarrow> pystr \<Rightarrow> http_request" where
  "direct_request der url body =
     \<lparr>rq_path = (if ends_with ''/snapshot'' url then ''/v1/snapshot'' else ''/v1/events''),
      rq_headers = [(''Content-Length'', dec_str (length body)), (''Content-Type'', ''application/json'')],
      rq_cert = Inr (Some der), rq_bytes = body, rq_end = None, rq_monotonic = 0\<rparr>"

definition direct_post ::
  "'w server_env \<Rightarrow> pystr \<Rightarrow> pystr \<Rightarrow> pystr \<Rightarrow> nat \<Rightarrow> ('w server, int \<times> pystr) action" where
  "direct_post senv der url body n s =
     (case do_POST senv (direct_request der url body) s of
        (t, Inl e) \<Rightarrow> (t, Inl OSError)
      | (t, Inr rep) \<Rightarrow> (t, Inr (int (rp_status rep), take n (json_dumps False (rp_body rep)))))"

lemma direct_request_carries: "carries_text der body (direct_request der url body)"
proof -
  have "py_lower ''Content-Type'' \<noteq> py_lower ''Content-Length''" by code_simp
  then have "header_values ''Content-Length'' (direct_request der url body) = [dec_str (length body)]"
    by (simp add: header_values_def direct_request_def)
  moreover have "rq_bytes (direct_request der url body) = take (length body) body" by (simp add: direct_request_def)
  ultimately show ?thesis unfolding carries_text_def
    by (auto simp: direct_request_def intro!: exI [of _ "length body"])
qed

lemma elsewhere_refl: "elsewhere c s s"
  by (simp add: elsewhere_def)

lemma direct_post_posts: "posts senv der c (direct_post senv der)"
  unfolding posts_def
proof (intro allI impI disjI2)
  fix url body n s t r
  assume run: "direct_post senv der url body n s = (t, r)"
  obtain t1 q where q: "do_POST senv (direct_request der url body) s = (t1, q)" by fastforce
  with run have "t = t1 \<and> ((\<exists>e. r = Inl e) \<or> (\<exists>rep answer. q = Inr rep \<and> r = Inr (int (rp_status rep), answer)))"
    by (auto simp: direct_post_def split: sum.splits)
  with q elsewhere_refl direct_request_carries
  show "\<exists>req s1 t1 q. elsewhere c s s1 \<and> carries_text der body req \<and> do_POST senv req s1 = (t1, q) \<and> elsewhere c t1 t \<and>
      ((\<exists>e. r = Inl e) \<or> (\<exists>rep answer. q = Inr rep \<and> r = Inr (int (rp_status rep), answer)))"
    by blast
qed

subsection \<open>The two sides\<close>

definition run_receiver :: "nat server_env" where
  "run_receiver = posting_env\<lparr>se_scan := json_scan\<rparr>"

definition run_worker :: "nat server sender_env" where
  "run_worker =
     \<lparr>we_config = sample_sender_config ''https://h.example/v1'', we_clock = (\<lambda>_. 100), we_random = (\<lambda>_ i. i),
      we_others = (\<lambda>_ d. d), we_fault = (\<lambda>_. False), we_scan = json_scan, we_open = direct_post run_receiver ''der'',
      we_runner = (\<lambda>n argv w. (w, Inr (0, '''')))\<rparr>"

definition new_server :: "nat server" where
  "new_server = sample_server\<lparr>sv_guard := sv_guard sample_server\<lparr>gd_db := empty_db\<rparr>\<rparr>"

definition run_client :: client_config where
  "run_client = hd (cf_clients sample_config)"

lemma run_connected: "connected run_receiver ''der'' run_client run_worker"
proof -
  have "clients_by_fingerprint sample_config (replicate 64 (CHR ''a'')) = Some run_client"
    unfolding run_client_def by code_simp
  then show ?thesis
    using posting_idle json_scan_dumps direct_post_posts
    by (simp add: connected_def run_receiver_def run_worker_def posting_env_def sample_sha_def)
qed

lemma run_others: "local_others limit run_worker"
  by (simp add: local_others_def run_worker_def Idle)

subsection \<open>The ban\<close>

definition run_event :: event where
  "run_event = \<lparr>ev_event_id = ''00000000-0000-4000-8000-000000000008'', ev_seq = 1, ev_op = ''ban'',
     ev_jail = ''sshd'', ev_ban_id = ''00000000-0000-4000-8000-000000000007'', ev_ip = ''198.51.100.2'',
     ev_permanent = Some True, ev_expires_at = None\<rparr>"

definition queued_db :: sender_db where
  "queued_db =
     \<lparr>sd_metadata = [(''seq'', ''1'')],
      sd_claims = [\<lparr>lr_jail = ''sshd'', lr_ip = ''198.51.100.2'',
        lr_ban_id = ''00000000-0000-4000-8000-000000000007'', lr_active = True\<rparr>],
      sd_outbox = [\<lparr>or_id = 1, or_seq = 1, or_kind = ''event'',
        or_event_id = ''00000000-0000-4000-8000-000000000008'', or_payload = json_bytes (event_wire run_event),
        or_attempts = 0, or_available_at = 100, or_delivered_at = None\<rparr>],
      sd_last_id = 1\<rparr>"

lemma run_uuids:
  "fresh_uuid 7 = ''00000000-0000-4000-8000-000000000007''" "fresh_uuid 8 = ''00000000-0000-4000-8000-000000000008''"
proof -
  have digit: "digit_char 0 = CHR ''0''" "digit_char 4 = CHR ''4''" "digit_char 7 = CHR ''7''" "digit_char 8 = CHR ''8''"
    by code_simp+
  have "uuid4 7 = 4 * 2 ^ 76 + 2 * 2 ^ 62 + 7" "uuid4 8 = 4 * 2 ^ 76 + 2 * 2 ^ 62 + 8"
    by (simp_all add: uuid4_def)
  then have hex: "hex_str (uuid4 7) = ''40008000000000000007''" "hex_str (uuid4 8) = ''40008000000000000008''"
    by (simp_all add: radix_str.simps digit)
  show "fresh_uuid 7 = ''00000000-0000-4000-8000-000000000007''" "fresh_uuid 8 = ''00000000-0000-4000-8000-000000000008''"
    unfolding fresh_uuid_def uuid_str_def hex by code_simp+
qed

lemma run_enqueue:
  "enqueue 10000 7 8 ''ban'' (JStr ''sshd'') (JStr '' 198.51.100.2 '') 100 fresh_store =
     (queued_db, Inr (Some (event_wire run_event)))"
proof -
  have inputs: "sender_jail (JStr ''sshd'') = Inr ''sshd''" "canonical_ip (JStr '' 198.51.100.2 '') = Inr ''198.51.100.2''"
    "canonical_ip (JStr ''198.51.100.2'') = Inr ''198.51.100.2''" "int_str 1 = ''1''" "py_int10 ''0'' = Inr 0"
    "sender_uuid ''00000000-0000-4000-8000-000000000007'' = Inr ''00000000-0000-4000-8000-000000000007''"
    by code_simp+
  show ?thesis
    by (simp add: enqueue_def inputs transact_def enqueue_body_def lifecycle_change_def select_lifecycle_def
        fresh_store_def activate_def tupsert_def check_capacity_def undelivered_def next_seq_def current_seq_def
        event_payload_def insert_outbox_def tinsert_def run_uuids queued_db_def run_event_def event_wire_def
        json_opt_bool_def json_opt_time_def Let_def tupdate_def)
qed

definition queued :: "nat server sender" where
  "queued = \<lparr>sn_db = queued_db, sn_world = new_server, sn_tick = 0\<rparr>"

lemma queued_together: "together 10000 run_client run_worker queued"
proof -
  let ?s = "\<lparr>sn_db = fresh_store, sn_world = new_server, sn_tick = 0\<rparr>"
  have init: "store_init (\<lambda>_. True) ''/var/db/s.sqlite'' 10000 no_tables = Inr fresh_store" by code_simp
  have "guard_ok (sv_guard new_server)"
    using empty_db_ok by (simp add: guard_ok_def new_server_def sample_server_def sample_guard_def)
  moreover have "view (cc_id run_client) (gd_db (sv_guard new_server)) = (Map.empty, 0)"
    by (simp add: view_def new_server_def empty_db_def claims_of_def last_seq_of_def fun_eq_iff)
  ultimately have "together 10000 run_client run_worker ?s" using init by (intro Begin) simp_all
  moreover have "local_steps 10000 fresh_store queued_db"
  proof (rule Action [OF Idle run_enqueue])
    fix j assume "sender_jail (JStr ''sshd'') = Inr j"
    then have "j = ''sshd''" by (simp add: sender_jail_iff)
    moreover have "id_re ''sshd''" by code_simp
    ultimately show "id_re j" by simp
  qed
  ultimately show ?thesis using Local [of 10000 run_client run_worker ?s queued_db] by (simp add: queued_def)
qed

text \<open>One round of the worker: the row is delivered, the receiver holds the claim.\<close>

lemma run_round:
  "case process_once run_worker 100 queued of (t, r) \<Rightarrow>
     r = Inr True \<and> map or_delivered_at (sd_outbox (sn_db t)) = [Some 100] \<and>
     map cr_ip (db_claims (gd_db (sv_guard (sn_world t)))) = [''198.51.100.2''] \<and>
     sd_claims (sn_db t) = sd_claims queued_db"
  by code_simp

text \<open>The receiver ends with the sender's claim, by the general theorem.\<close>

lemma settled_sender_agrees_witness:
  "\<exists>t. process_once run_worker 100 queued = (t, Inr True) \<and> pending (sn_db t) = [] \<and>
     length (db_claims (gd_db (sv_guard (sn_world t)))) = 1 \<and>
     (\<exists>r. r \<in> set (sd_claims (sn_db t)) \<and> lr_active r \<and>
        claims_of (gd_db (sv_guard (sn_world t))) (cc_id run_client) (lr_jail r, lr_ban_id r) = Some (lr_ip r, True, None))"
proof -
  obtain t r where run: "process_once run_worker 100 queued = (t, r)" by fastforce
  with run_round have t: "r = Inr True" "map or_delivered_at (sd_outbox (sn_db t)) = [Some 100]"
      "map cr_ip (db_claims (gd_db (sv_guard (sn_world t)))) = [''198.51.100.2'']" "sd_claims (sn_db t) = sd_claims queued_db"
    by simp_all
  have joint: "together 10000 run_client run_worker t" by (rule Round [OF queued_together run])
  have "undelivered (sn_db t) = []" using t(2) by (auto simp: undelivered_def)
  then have none: "pending (sn_db t) = []" by (simp add: pending_def)
  let ?r = "hd (sd_claims queued_db)"
  have r: "?r \<in> set (sd_claims (sn_db t)) \<and> lr_active ?r" unfolding t(4) by (simp add: queued_db_def)
  then have "claims_of (gd_db (sv_guard (sn_world t))) (cc_id run_client) (lr_jail ?r, lr_ban_id ?r) = Some (lr_ip ?r, True, None)"
    using settled_sender_agrees [OF run_connected run_others joint none] by blast
  moreover have "length (db_claims (gd_db (sv_guard (sn_world t)))) = 1" using t(3) by (metis length_map list.size(3) One_nat_def length_Cons)
  ultimately show ?thesis using run t(1) none r by blast
qed

end
