(* ===== verification/Trace.thy ===== *)
theory Trace
  imports Prelude
begin

text \<open>
  Programs that call the operating system, as actions over a world that is only reached through an
  interpreter of the calls: every call and its result is kept in a trace. \<open>call_policy\<close> is the
  interface of a policy that says which call is allowed after which results; its lemmas walk through
  a program with the set of results known so far, and end in the statement that every call of the
  trace was allowed.
\<close>

type_synonym ('c, 'v, 'w) kernel = "'c \<Rightarrow> ('w, 'v) action"

record ('c, 'v, 'w) host =
  ho_world :: 'w
  ho_trace :: "('c \<times> 'v result) list"

definition sys :: "('c, 'v, 'w) kernel \<Rightarrow> 'c \<Rightarrow> (('c, 'v, 'w) host, 'v) action" where
  "sys k c h =
     (case k c (ho_world h) of (w, r) \<Rightarrow> (\<lparr>ho_world = w, ho_trace = ho_trace h @ [(c, r)]\<rparr>, r))"

definition on_world :: "('w \<Rightarrow> 'w \<times> 'a) \<Rightarrow> ('c, 'v, 'w) host \<Rightarrow> ('c, 'v, 'w) host \<times> 'a result" where
  "on_world f h = (case f (ho_world h) of (w, x) \<Rightarrow> (h\<lparr>ho_world := w\<rparr>, Inr x))"

text \<open>\<open>try ... finally\<close>: an exception of the final part replaces the outcome.\<close>

definition sfinally :: "('s, 'a) action \<Rightarrow> ('s, unit) action \<Rightarrow> ('s, 'a) action" where
  "sfinally m final s =
     (case m s of (t, r) \<Rightarrow> (case final t of (u, Inl e) \<Rightarrow> (u, Inl e) | (u, Inr _) \<Rightarrow> (u, r)))"

lemma keeps_sfinally [keeps_rules]: "keeps P m \<Longrightarrow> keeps P final \<Longrightarrow> keeps P (sfinally m final)"
  unfolding keeps_def sfinally_def by (fastforce split: prod.splits sum.splits)

type_synonym ('c, 'v) policy = "('c \<times> 'v result) set \<Rightarrow> 'c \<Rightarrow> bool"

text \<open>Every call of a trace was allowed by the results before it.\<close>

definition guarded :: "('c, 'v) policy \<Rightarrow> ('c \<times> 'v result) list \<Rightarrow> bool" where
  "guarded may tr \<longleftrightarrow> (\<forall>pre c x post. tr = pre @ (c, x) # post \<longrightarrow> may (set pre) c)"

definition known :: "('c, 'v) policy \<Rightarrow> ('c \<times> 'v result) set \<Rightarrow> ('c, 'v, 'w) host \<Rightarrow> bool" where
  "known may S h \<longleftrightarrow> guarded may (ho_trace h) \<and> S \<subseteq> set (ho_trace h)"

abbreviation guarded_triple ::
  "('c, 'v) policy \<Rightarrow> ('c \<times> 'v result) set \<Rightarrow> (('c, 'v, 'w) host, 'a) action \<Rightarrow> ('a \<Rightarrow> ('c, 'v, 'w) host \<Rightarrow> bool) \<Rightarrow> bool" where
  "guarded_triple may S m Q \<equiv> striple (known may S) m Q (\<lambda>_. known may {})"

lemma guarded_Nil [simp]: "guarded may []"
  by (simp add: guarded_def)

lemma guarded_snoc: "guarded may (tr @ [(c, x)]) \<longleftrightarrow> guarded may tr \<and> may (set tr) c"
proof
  assume g: "guarded may (tr @ [(c, x)])"
  have "may (set pre) d" if "tr = pre @ (d, y) # post" for pre d y post
    using g that unfolding guarded_def by (metis append.assoc append_Cons)
  moreover have "may (set tr) c" using g unfolding guarded_def by blast
  ultimately show "guarded may tr \<and> may (set tr) c" unfolding guarded_def by blast
next
  assume g: "guarded may tr \<and> may (set tr) c"
  have "may (set pre) d" if "tr @ [(c, x)] = pre @ (d, y) # post" for pre d y post
  proof (cases post rule: rev_cases)
    case Nil
    with that g show ?thesis by simp
  next
    case (snoc post' z)
    with that have "tr = pre @ (d, y) # post'" by simp
    with g show ?thesis unfolding guarded_def by blast
  qed
  then show "guarded may (tr @ [(c, x)])" unfolding guarded_def by blast
qed

lemma known_weaken: "known may S h \<Longrightarrow> S' \<subseteq> S \<Longrightarrow> known may S' h"
  by (auto simp: known_def)

lemma known_start: "known may {} \<lparr>ho_world = w, ho_trace = []\<rparr>"
  by (simp add: known_def)

lemma knownD: "known may S h \<Longrightarrow> ho_trace h = pre @ (c, x) # post \<Longrightarrow> may (set pre) c"
  by (simp add: known_def guarded_def)

lemma on_world_known: "keeps (known may S) (on_world f)"
  by (auto simp: keeps_def on_world_def known_def split: prod.splits)

locale call_policy =
  fixes may :: "('c, 'v) policy"
  assumes may_mono: "may S c \<Longrightarrow> S \<subseteq> S' \<Longrightarrow> may S' c"
begin

text \<open>A call that is allowed on what is known adds its result to what is known.\<close>

lemma sys_known:
  assumes "may S c"
  shows "striple (known may S) (sys k c) (\<lambda>v. known may (insert (c, Inr v) S))
    (\<lambda>e. known may (insert (c, Inl e) S))"
  using may_mono [OF assms]
  by (auto simp: striple_def sys_def known_def guarded_snoc split: prod.splits sum.splits)

lemma sys_step:
  assumes "may S c" "\<And>v. guarded_triple may (insert (c, Inr v) S) (f v) Q"
  shows "guarded_triple may S (sbind (sys k c) f) Q"
  by (rule striple_bind [OF striple_mono [OF sys_known [OF assms(1)]] assms(2)])
     (auto elim: known_weaken)

lemma lift_step:
  assumes "\<And>x. r = Inr x \<Longrightarrow> guarded_triple may S (f x) Q"
  shows "guarded_triple may S (sbind (slift r) f) Q"
  using assms known_weaken [of may S _ "{}"] by (cases r) (auto simp: striple_def)

text \<open>A call whose result is converted.\<close>

lemma typed_step:
  assumes "may S c" "\<And>v x. get v = Inr x \<Longrightarrow> guarded_triple may (insert (c, Inr v) S) (f x) Q"
  shows "guarded_triple may S (sbind (sbind (sys k c) (\<lambda>v. slift (get v))) f) Q"
proof -
  have "sbind (sbind (sys k c) (\<lambda>v. slift (get v))) f = sbind (sys k c) (\<lambda>v. sbind (slift (get v)) f)"
    by (auto simp: sbind_def fun_eq_iff split: prod.splits sum.splits)
  moreover have "guarded_triple may (insert (c, Inr v) S) (sbind (slift (get v)) f) Q" for v
    by (rule lift_step) (rule assms(2))
  ultimately show ?thesis using sys_step [OF assms(1)] by metis
qed

lemma sys_keeps:
  assumes "may S c"
  shows "keeps (known may S) (sys k c)"
proof -
  have "striple (known may S) (sys k c) (\<lambda>_. known may S) (\<lambda>_. known may S)"
    by (rule striple_mono [OF sys_known [OF assms]]) (auto elim: known_weaken)
  then show ?thesis by (simp add: keeps_striple)
qed

end

end
