(* ===== verification/HelperMain.thy ===== *)
theory HelperMain
  imports Helper Trace
begin

text \<open>
  \<open>main\<close> of \<^verbatim>\<open>pf_helper.py\<close>: the checks before the privileged helper binds its socket, the removal
  of a stale socket, and the loop over the connections. The system calls go through an interpreter
  \<open>'w helper_kernel\<close>, which is a parameter; every call and its result is kept in a trace.
\<close>

subsection \<open>System calls\<close>

datatype syscall =
    Geteuid
  | Getpwnam pystr
  | Lstat pystr
  | Exists pystr
  | IsSymlink pystr
  | Connect pystr
  | Unlink pystr
  | Umask nat
  | Bind pystr
  | Chown pystr nat nat
  | Chmod pystr nat
  | Listen nat
  | Accept
  | CloseListener
  | UnlinkMissing pystr

datatype sysvalue =
    Done
  | Flag bool
  | Uid nat
  | Account nat nat
  | Stat file_info

type_synonym 'w helper_kernel = "(syscall, sysvalue, 'w) kernel"
type_synonym 'w helper_host = "(syscall, sysvalue, 'w) host"

text \<open>The typed results; a kernel that answers with another type is a \<open>TypeError\<close>.\<close>

definition sys_flag :: "'w helper_kernel \<Rightarrow> syscall \<Rightarrow> ('w helper_host, bool) action" where
  "sys_flag k c = sbind (sys k c) (\<lambda>v. slift (case v of Flag b \<Rightarrow> Inr b | _ \<Rightarrow> Inl TypeError))"

definition sys_uid :: "'w helper_kernel \<Rightarrow> syscall \<Rightarrow> ('w helper_host, nat) action" where
  "sys_uid k c = sbind (sys k c) (\<lambda>v. slift (case v of Uid n \<Rightarrow> Inr n | _ \<Rightarrow> Inl TypeError))"

definition sys_account :: "'w helper_kernel \<Rightarrow> syscall \<Rightarrow> ('w helper_host, nat \<times> nat) action" where
  "sys_account k c = sbind (sys k c) (\<lambda>v. slift (case v of Account u g \<Rightarrow> Inr (u, g) | _ \<Rightarrow> Inl TypeError))"

definition sys_stat :: "'w helper_kernel \<Rightarrow> syscall \<Rightarrow> ('w helper_host, file_info) action" where
  "sys_stat k c = sbind (sys k c) (\<lambda>v. slift (case v of Stat i \<Rightarrow> Inr i | _ \<Rightarrow> Inl TypeError))"

subsection \<open>Startup\<close>

text \<open>\<open>parser.error\<close> prints the message and exits with status 2.\<close>

definition usage_error :: exn where
  "usage_error = SystemExit 2"

definition check :: "bool \<Rightarrow> ('s, unit) action" where
  "check ok = slift (if ok then Inr () else Inl usage_error)"

text \<open>\<open>Path(p).parent\<close>\<close>

definition path_parent :: "pystr \<Rightarrow> pystr" where
  "path_parent p = path_text (path_root p) (butlast (path_parts p))"

definition socket_dir_ok :: "pystr \<Rightarrow> file_info \<Rightarrow> bool" where
  "socket_dir_ok path i = (is_absolute path \<and> trusted_dir 0 i)"

definition root_socket :: "file_info \<Rightarrow> bool" where
  "root_socket i = (fi_kind i = SocketKind \<and> fi_uid i = 0)"

text \<open>\<open>path.exists() or path.is_symlink()\<close>\<close>

definition path_present :: "'w helper_kernel \<Rightarrow> pystr \<Rightarrow> ('w helper_host, bool) action" where
  "path_present k path =
     sbind (sys_flag k (Exists path)) (\<lambda>b. if b then sret True else sys_flag k (IsSymlink path))"

text \<open>The probe of an existing socket: only one that refuses a connection is removed.\<close>

definition probe :: "'w helper_kernel \<Rightarrow> pystr \<Rightarrow> ('w helper_host, bool) action" where
  "probe k path =
     scatch (sbind (sys k (Connect path)) (\<lambda>_. sret True))
       (\<lambda>e. if e = ConnectionRefusedError then sret False else slift (Inl e))"

definition remove_stale :: "'w helper_kernel \<Rightarrow> pystr \<Rightarrow> ('w helper_host, unit) action" where
  "remove_stale k path =
     sbind (sys_stat k (Lstat path)) (\<lambda>i.
     sbind (check (root_socket i)) (\<lambda>_.
     sbind (probe k path) (\<lambda>alive.
       if alive then slift (Inl usage_error) else sbind (sys k (Unlink path)) (\<lambda>_. sret ()))))"

definition bind_socket :: "'w helper_kernel \<Rightarrow> pystr \<Rightarrow> nat \<Rightarrow> ('w helper_host, unit) action" where
  "bind_socket k path gid =
     sbind (sys k (Umask 63)) (\<lambda>_.
     sbind (sys k (Bind path)) (\<lambda>_.
     sbind (sys k (Chown path 0 gid)) (\<lambda>_.
     sbind (sys k (Chmod path 432)) (\<lambda>_.
     sbind (sys k (Listen 16)) (\<lambda>_. sret ())))))"

text \<open>Everything up to the loop; the result is the uid that may connect.\<close>

definition helper_startup :: "'w helper_kernel \<Rightarrow> pystr \<Rightarrow> pystr \<Rightarrow> ('w helper_host, nat) action" where
  "helper_startup k socket user =
     (let path = path_str socket in
      sbind (sys_uid k Geteuid) (\<lambda>euid.
      sbind (check (euid = 0)) (\<lambda>_.
      sbind (sys_account k (Getpwnam user)) (\<lambda>(uid, gid).
      sbind (check (uid \<noteq> 0)) (\<lambda>_.
      sbind (sys_stat k (Lstat (path_parent socket))) (\<lambda>parent.
      sbind (check (socket_dir_ok socket parent)) (\<lambda>_.
      sbind (path_present k path) (\<lambda>present.
      sbind (if present then remove_stale k path else sret ()) (\<lambda>_.
      sbind (bind_socket k path gid) (\<lambda>_. sret uid))))))))))"

subsection \<open>The loop\<close>

text \<open>One accepted connection: the peer's uid, what the peer sends, and the whitelist file at that time.\<close>

record connection =
  co_peer :: "nat result"
  co_sent :: "pystr result"
  co_whitelist :: "pystr result"

text \<open>The list is what \<open>accept\<close> delivers; its end is the end of the observation. The replies are collected.\<close>

fun serve_loop ::
  "'w helper_kernel \<Rightarrow> 'w runner \<Rightarrow> (pystr \<Rightarrow> pystr) \<Rightarrow> (pystr \<Rightarrow> jraw result) \<Rightarrow> nat \<Rightarrow> connection list \<Rightarrow> ('w helper_host, pystr list) action" where
  "serve_loop k run sha scan uid [] = sret []"
| "serve_loop k run sha scan uid (c # cs) =
     sbind (sys k Accept) (\<lambda>_.
     sbind (on_world (handle run sha scan (co_whitelist c) (co_peer c) uid (co_sent c))) (\<lambda>reply.
     sbind (serve_loop k run sha scan uid cs) (\<lambda>replies. sret (reply # replies))))"

text \<open>The \<open>finally\<close> clause; an exception of its own replaces the one in flight.\<close>

definition close_down :: "'w helper_kernel \<Rightarrow> pystr \<Rightarrow> exn \<Rightarrow> ('w helper_host, 'a) action" where
  "close_down k path e =
     sbind (sys k CloseListener) (\<lambda>_. sbind (sys k (UnlinkMissing path)) (\<lambda>_. slift (Inl e)))"

definition helper_main ::
  "'w helper_kernel \<Rightarrow> 'w runner \<Rightarrow> (pystr \<Rightarrow> pystr) \<Rightarrow> (pystr \<Rightarrow> jraw result) \<Rightarrow> pystr \<Rightarrow> pystr \<Rightarrow> connection list \<Rightarrow>
   ('w helper_host, pystr list) action" where
  "helper_main k run sha scan socket user cs =
     sbind (helper_startup k socket user) (\<lambda>uid.
       scatch (serve_loop k run sha scan uid cs) (close_down k (path_str socket)))"


subsection \<open>Which calls are allowed when\<close>

text \<open>What must have happened, by the calls made so far, before a critical call.\<close>

type_synonym known_calls = "(syscall \<times> sysvalue result) set"

definition may_call :: "pystr \<Rightarrow> pystr \<Rightarrow> known_calls \<Rightarrow> syscall \<Rightarrow> bool" where
  "may_call socket user S c =
     (case c of
        Unlink p \<Rightarrow> p = path_str socket \<and> (\<exists>i. (Lstat p, Inr (Stat i)) \<in> S \<and> root_socket i) \<and>
          (Connect p, Inl ConnectionRefusedError) \<in> S
      | Bind p \<Rightarrow> p = path_str socket \<and> (Geteuid, Inr (Uid 0)) \<in> S \<and>
          (\<exists>uid gid. (Getpwnam user, Inr (Account uid gid)) \<in> S \<and> uid \<noteq> 0) \<and>
          (\<exists>i. (Lstat (path_parent socket), Inr (Stat i)) \<in> S \<and> socket_dir_ok socket i) \<and>
          (\<exists>v. (Umask 63, Inr v) \<in> S)
      | Accept \<Rightarrow> (\<exists>v. (Bind (path_str socket), Inr v) \<in> S) \<and>
          (\<exists>uid gid v. (Getpwnam user, Inr (Account uid gid)) \<in> S \<and> uid \<noteq> 0 \<and>
             (Chown (path_str socket) 0 gid, Inr v) \<in> S) \<and>
          (\<exists>v. (Chmod (path_str socket) 432, Inr v) \<in> S)
      | UnlinkMissing p \<Rightarrow> p = path_str socket \<and> (\<exists>v. (Bind p, Inr v) \<in> S)
      | _ \<Rightarrow> True)"

lemma may_call_mono: "may_call socket user S c \<Longrightarrow> S \<subseteq> S' \<Longrightarrow> may_call socket user S' c"
  by (auto simp: may_call_def split: syscall.splits)

interpretation hp: call_policy "may_call socket user" for socket user
  by unfold_locales (rule may_call_mono)

lemma check_step:
  assumes "b \<Longrightarrow> guarded_triple (may_call socket user) S (f ()) Q"
  shows "guarded_triple (may_call socket user) S (sbind (check b) f) Q"
  unfolding check_def by (rule hp.lift_step) (use assms in \<open>auto split: if_splits\<close>)

text \<open>The typed calls.\<close>

lemma account_step:
  assumes "may_call socket user S c"
    "\<And>u g. guarded_triple (may_call socket user) (insert (c, Inr (Account u g)) S) (f (u, g)) Q"
  shows "guarded_triple (may_call socket user) S (sbind (sys_account k c) f) Q"
  unfolding sys_account_def
  by (rule hp.typed_step [OF assms(1)]) (use assms(2) in \<open>auto split: sysvalue.splits\<close>)

lemma uid_step:
  assumes "may_call socket user S c" "\<And>u. guarded_triple (may_call socket user) (insert (c, Inr (Uid u)) S) (f u) Q"
  shows "guarded_triple (may_call socket user) S (sbind (sys_uid k c) f) Q"
  unfolding sys_uid_def
  by (rule hp.typed_step [OF assms(1)]) (use assms(2) in \<open>auto split: sysvalue.splits\<close>)

lemma stat_step:
  assumes "may_call socket user S c" "\<And>i. guarded_triple (may_call socket user) (insert (c, Inr (Stat i)) S) (f i) Q"
  shows "guarded_triple (may_call socket user) S (sbind (sys_stat k c) f) Q"
  unfolding sys_stat_def
  by (rule hp.typed_step [OF assms(1)]) (use assms(2) in \<open>auto split: sysvalue.splits\<close>)

lemma flag_triple:
  assumes "may_call socket user S c"
  shows "guarded_triple (may_call socket user) S (sys_flag k c) (\<lambda>_. known (may_call socket user) S)"
proof -
  have "guarded_triple (may_call socket user) S (sbind (sys_flag k c) sret) (\<lambda>_. known (may_call socket user) S)"
    unfolding sys_flag_def
    by (rule hp.typed_step [OF assms]) (auto intro: striple_ret known_weaken)
  moreover have "sbind (sys_flag k c) sret = sys_flag k c"
    by (auto simp: sbind_def sret_def fun_eq_iff split: prod.splits sum.splits)
  ultimately show ?thesis by simp
qed

lemma present_triple: "guarded_triple (may_call socket user) S (path_present k p) (\<lambda>_. known (may_call socket user) S)"
proof -
  have ok: "may_call socket user S (Exists p)" "may_call socket user S (IsSymlink p)" by (simp_all add: may_call_def)
  show ?thesis
    unfolding path_present_def
    by (rule striple_bind [OF flag_triple [OF ok(1)]]) (auto intro: striple_ret flag_triple [OF ok(2)])
qed

text \<open>A stale socket is removed only after a refused connection.\<close>

lemma probe_triple:
  "guarded_triple (may_call socket user) S (probe k p)
     (\<lambda>alive. if alive then known (may_call socket user) {} else known (may_call socket user) (insert (Connect p, Inl ConnectionRefusedError) S))"
proof -
  have "may_call socket user S (Connect p)" by (simp add: may_call_def)
  note connect = hp.sys_known [OF this, of k]
  have "striple (known (may_call socket user) S) (sbind (sys k (Connect p)) (\<lambda>_. sret True))
      (\<lambda>alive. if alive then known (may_call socket user) {} else known (may_call socket user) (insert (Connect p, Inl ConnectionRefusedError) S))
      (\<lambda>e. known (may_call socket user) (insert (Connect p, Inl e) S))"
    by (rule striple_bind [OF connect]) (auto intro!: striple_ret elim: known_weaken)
  then show ?thesis
    unfolding probe_def
    by (rule striple_catch) (auto simp: striple_def elim: known_weaken)
qed

lemma remove_stale_triple:
  "guarded_triple (may_call socket user) S (remove_stale k (path_str socket)) (\<lambda>_. known (may_call socket user) S)"
proof -
  let ?p = "path_str socket"
  have unlink: "guarded_triple (may_call socket user) (insert (Connect ?p, Inl ConnectionRefusedError) (insert (Lstat ?p, Inr (Stat i)) S))
      (sbind (sys k (Unlink ?p)) (\<lambda>_. sret ())) (\<lambda>_. known (may_call socket user) S)" if "root_socket i" for i
    by (rule hp.sys_step) (use that in \<open>auto simp: may_call_def intro: striple_ret elim: known_weaken\<close>)
  show ?thesis
    unfolding remove_stale_def
    by (intro stat_step check_step striple_bind [OF probe_triple])
       (use unlink in \<open>auto simp: may_call_def striple_def\<close>)
qed


definition serving :: "pystr \<Rightarrow> pystr \<Rightarrow> nat \<Rightarrow> nat \<Rightarrow> sysvalue \<Rightarrow> sysvalue \<Rightarrow> sysvalue \<Rightarrow> known_calls" where
  "serving socket user uid gid v1 v2 v3 =
     {(Getpwnam user, Inr (Account uid gid)), (Bind (path_str socket), Inr v1),
      (Chown (path_str socket) 0 gid, Inr v2), (Chmod (path_str socket) 432, Inr v3)}"

definition ready :: "pystr \<Rightarrow> pystr \<Rightarrow> 'w helper_host \<Rightarrow> bool" where
  "ready socket user h \<longleftrightarrow>
     (\<exists>uid gid v1 v2 v3. uid \<noteq> 0 \<and> known (may_call socket user) (serving socket user uid gid v1 v2 v3) h)"

lemma ready_known: "ready socket user h \<Longrightarrow> known (may_call socket user) {} h"
  by (auto simp: ready_def elim: known_weaken)

lemma bind_socket_triple:
  assumes "uid \<noteq> 0" "socket_dir_ok socket i"
    "{(Geteuid, Inr (Uid 0)), (Getpwnam user, Inr (Account uid gid)), (Lstat (path_parent socket), Inr (Stat i))} \<subseteq> S"
  shows "guarded_triple (may_call socket user) S (sbind (bind_socket k (path_str socket) gid) (\<lambda>_. sret uid)) (\<lambda>_. ready socket user)"
proof -
  have assoc: "sbind (bind_socket k (path_str socket) gid) (\<lambda>_. sret uid) =
      sbind (sys k (Umask 63)) (\<lambda>_. sbind (sys k (Bind (path_str socket))) (\<lambda>_.
      sbind (sys k (Chown (path_str socket) 0 gid)) (\<lambda>_. sbind (sys k (Chmod (path_str socket) 432)) (\<lambda>_.
      sbind (sys k (Listen 16)) (\<lambda>_. sret uid)))))"
    by (auto simp: bind_socket_def sbind_def sret_def fun_eq_iff split: prod.splits sum.splits)
  have finished: "ready socket user h" if "known (may_call socket user) T h" "serving socket user uid gid v1 v2 v3 \<subseteq> T" for T h v1 v2 v3
    unfolding ready_def using that assms(1) known_weaken by blast
  show ?thesis
    unfolding assoc
    by (intro hp.sys_step striple_ret)
       (use assms in \<open>auto simp: may_call_def serving_def intro!: finished\<close>)
qed

lemma startup_triple:
  "guarded_triple (may_call socket user) {} (helper_startup k socket user) (\<lambda>_. ready socket user)"
proof -
  have rest: "guarded_triple (may_call socket user)
      {(Lstat (path_parent socket), Inr (Stat parent)), (Getpwnam user, Inr (Account uid gid)), (Geteuid, Inr (Uid euid))}
      (sbind (path_present k (path_str socket)) (\<lambda>present.
        sbind (if present then remove_stale k (path_str socket) else sret ()) (\<lambda>_.
        sbind (bind_socket k (path_str socket) gid) (\<lambda>_. sret uid)))) (\<lambda>_. ready socket user)"
    (is "guarded_triple _ ?S _ _") if facts: "euid = 0" "uid \<noteq> 0" "socket_dir_ok socket parent" for euid uid gid parent
  proof -
    have clear: "guarded_triple (may_call socket user) ?S (if present then remove_stale k (path_str socket) else sret ())
        (\<lambda>_. known (may_call socket user) ?S)" for present
      using remove_stale_triple by (cases present) (auto intro: striple_ret)
    show ?thesis
      by (rule striple_bind [OF present_triple], rule striple_bind [OF clear], rule bind_socket_triple [OF facts(2,3)])
         (use facts(1) in auto)
  qed
  show ?thesis
    unfolding helper_startup_def Let_def
    by (rule uid_step, simp add: may_call_def, rule check_step, rule account_step, simp add: may_call_def,
        unfold prod.case, rule check_step, rule stat_step, simp add: may_call_def, rule check_step, rule rest)
qed

lemma handle_keeps: "keeps (ready socket user) (on_world f)"
  by (auto simp: keeps_def on_world_def ready_def known_def split: prod.splits)

lemma sys_keeps_ready:
  assumes "\<And>u g v1 v2 v3. u \<noteq> 0 \<Longrightarrow> may_call socket user (serving socket user u g v1 v2 v3) c"
  shows "keeps (ready socket user) (sys k c)"
  unfolding keeps_def
proof (intro allI impI)
  fix h :: "'a helper_host" assume "ready socket user h"
  then obtain u g v1 v2 v3 where u: "u \<noteq> 0" "known (may_call socket user) (serving socket user u g v1 v2 v3) h"
    by (auto simp: ready_def)
  have "known (may_call socket user) (serving socket user u g v1 v2 v3) (fst (sys k c h))"
    using hp.sys_keeps [where k = k, OF assms [OF u(1)]] u(2) unfolding keeps_def by blast
  with u(1) show "ready socket user (fst (sys k c h))" unfolding ready_def by blast
qed

lemma serve_loop_keeps: "keeps (ready socket user) (serve_loop k run sha scan uid cs)"
proof (induction cs)
  case (Cons c cs)
  have "keeps (ready socket user) (sys k Accept)"
    by (rule sys_keeps_ready) (auto simp: may_call_def serving_def)
  then show ?case using Cons by (auto intro!: keeps_rules handle_keeps)
qed (simp add: keeps_def)

lemma close_down_keeps: "keeps (ready socket user) (close_down k (path_str socket) e)"
proof -
  have "keeps (ready socket user) (sys k c)" if "c = CloseListener \<or> c = UnlinkMissing (path_str socket)" for c
    by (rule sys_keeps_ready) (use that in \<open>auto simp: may_call_def serving_def\<close>)
  then show ?thesis unfolding close_down_def by (intro keeps_rules) blast+
qed

text \<open>
  C34. The privileged helper is careful with its socket: whatever the system calls return, it binds only
  as root, for a service account that is not root, in a directory that only root can write to, and under
  umask 077; it removes an existing path only if that is a socket of root that refused a connection; it
  accepts a connection only once the socket belongs to root and the service group with mode 0660; and the
  final clean-up removes nothing but its own socket.
\<close>

theorem helper_calls_guarded:
  assumes "helper_main k run sha scan socket user cs \<lparr>ho_world = w, ho_trace = []\<rparr> = (t, r)"
    "ho_trace t = pre @ (c, x) # post"
  shows "may_call socket user (set pre) c"
proof -
  let ?h = "\<lparr>ho_world = w, ho_trace = []\<rparr>"
  have start: "known (may_call socket user) {} ?h" by (simp add: known_def guarded_Nil)
  have "known (may_call socket user) {} t"
  proof -
    obtain u a where a: "helper_startup k socket user ?h = (u, a)" by fastforce
    show ?thesis
    proof (cases a)
      case (Inl e)
      then have "t = u" using assms(1) a by (simp add: helper_main_def sbind_def)
      with stripleD(2) [OF startup_triple start] a Inl show ?thesis by blast
    next
      case (Inr uid)
      have "ready socket user u" using stripleD(1) [OF startup_triple start] a Inr by blast
      moreover have "scatch (serve_loop k run sha scan uid cs) (close_down k (path_str socket)) u = (t, r)"
        using assms(1) a Inr by (simp add: helper_main_def sbind_def)
      ultimately have "ready socket user t"
        by (rule keepsD [OF keeps_scatch [OF serve_loop_keeps close_down_keeps]])
      then show ?thesis by (rule ready_known)
    qed
  qed
  then show ?thesis using assms(2) by (simp add: known_def guarded_def)
qed

text \<open>A kernel with a stale socket of root in place.\<close>

definition sample_kernel :: "nat helper_kernel" where
  "sample_kernel c w = (w + 1, case c of
       Geteuid \<Rightarrow> Inr (Uid 0)
     | Getpwnam _ \<Rightarrow> Inr (Account 900 901)
     | Lstat p \<Rightarrow> Inr (Stat (if p = ''/var/run/f2bguard'' then \<lparr>fi_kind = Directory, fi_uid = 0, fi_mode = 493, fi_size = 0\<rparr>
         else \<lparr>fi_kind = SocketKind, fi_uid = 0, fi_mode = 432, fi_size = 0\<rparr>))
     | Exists _ \<Rightarrow> Inr (Flag True)
     | Connect _ \<Rightarrow> Inl ConnectionRefusedError
     | _ \<Rightarrow> Inr Done)"

definition sample_main :: "nat helper_host \<times> pystr list result" where
  "sample_main = helper_main sample_kernel (\<lambda>argv stdin w. (w, Inl OSError)) (\<lambda>_. '''') (\<lambda>_. Inl ValueError)
     ''/var/run/f2bguard/pf.sock'' ''f2bguard'' [] \<lparr>ho_world = 0, ho_trace = []\<rparr>"

lemma sample_calls:
  "map fst (ho_trace (fst sample_main)) =
     [Geteuid, Getpwnam ''f2bguard'', Lstat ''/var/run/f2bguard'', Exists ''/var/run/f2bguard/pf.sock'',
      Lstat ''/var/run/f2bguard/pf.sock'', Connect ''/var/run/f2bguard/pf.sock'', Unlink ''/var/run/f2bguard/pf.sock'',
      Umask 63, Bind ''/var/run/f2bguard/pf.sock'', Chown ''/var/run/f2bguard/pf.sock'' 0 901,
      Chmod ''/var/run/f2bguard/pf.sock'' 432, Listen 16]"
  by code_simp

lemma helper_calls_guarded_witness:
  "may_call ''/var/run/f2bguard/pf.sock'' ''f2bguard'' (set (take 6 (ho_trace (fst sample_main))))
     (Unlink ''/var/run/f2bguard/pf.sock'')"
proof -
  obtain t r where run: "sample_main = (t, r)" by fastforce
  let ?tr = "ho_trace t"
  have calls: "map fst ?tr = map fst (ho_trace (fst sample_main))" unfolding run fst_conv ..
  have "length (map fst ?tr) = 12" unfolding calls sample_calls by simp
  then have len: "6 < length ?tr" by simp
  have "map fst ?tr ! 6 = Unlink ''/var/run/f2bguard/pf.sock''" unfolding calls sample_calls by simp
  then obtain x where "?tr ! 6 = (Unlink ''/var/run/f2bguard/pf.sock'', x)"
    using len by (cases "?tr ! 6") simp
  then have split: "?tr = take 6 ?tr @ (Unlink ''/var/run/f2bguard/pf.sock'', x) # drop 7 ?tr"
    using id_take_nth_drop [OF len] by simp
  show ?thesis unfolding run fst_conv by (rule helper_calls_guarded [OF run [unfolded sample_main_def] split])
qed

end
