(* ===== verification/ServerProcess.thy ===== *)
theory ServerProcess
  imports Server Trace
begin

text \<open>
  The process around the handlers of \<^verbatim>\<open>src/f2bguard/server.py\<close>: \<open>build_server\<close>, \<open>serve\<close> and \<open>main\<close> as
  programs over the calls that open the store, the listener and the TLS context, and the 64 worker slots
  that \<open>process_request\<close> takes and \<open>process_request_thread\<close> gives back, as operations on a semaphore and
  as a step relation over all interleavings of the accepting thread and the workers.
\<close>

subsection \<open>The start of the server\<close>

datatype server_call =
    OpenStore pystr int
  | BindListener bool pystr int
  | NewContext
  | MinimumTls12
  | RequireClientCertificate
  | LoadCertChain pystr pystr
  | LoadClientCa pystr
  | StartPeriodic
  | ServeForever
  | SetStop
  | CloseServer
  | JoinPeriodic

type_synonym 'w server_kernel = "(server_call, unit, 'w) kernel"
type_synonym 'w server_host = "(server_call, unit, 'w) host"

text \<open>The class of an IPv6 listener differs in its address family only.\<close>

definition ipv6_listener :: "ip_addr \<Rightarrow> bool" where
  "ipv6_listener a = (ip_version a = 6)"

definition open_listener :: "'w server_kernel \<Rightarrow> config \<Rightarrow> bool \<Rightarrow> ('w server_host, unit) action" where
  "open_listener k cfg six =
     sbind (sys k (OpenStore (cf_database cfg) (cf_history_days cfg))) (\<lambda>_.
     sys k (BindListener six (cf_listen cfg) (cf_port cfg)))"

definition tls_context :: "'w server_kernel \<Rightarrow> tls_config \<Rightarrow> ('w server_host, unit) action" where
  "tls_context k tls =
     sbind (sys k NewContext) (\<lambda>_.
     sbind (sys k MinimumTls12) (\<lambda>_.
     sbind (sys k RequireClientCertificate) (\<lambda>_.
     sbind (sys k (LoadCertChain (tls_cert tls) (tls_key tls))) (\<lambda>_.
     sys k (LoadClientCa (tls_ca tls))))))"

definition build_server :: "'w server_kernel \<Rightarrow> config \<Rightarrow> ('w server_host, unit) action" where
  "build_server k cfg =
     sbind (slift (rguard (cf_enabled cfg) (ConfigError ''service is disabled''))) (\<lambda>_.
     sbind (slift (ip_address (cf_listen cfg))) (\<lambda>address.
     sbind (open_listener k cfg (ipv6_listener address)) (\<lambda>_.
     tls_context k (cf_tls cfg))))"

definition stop_server :: "'w server_kernel \<Rightarrow> ('w server_host, unit) action" where
  "stop_server k = sbind (sys k SetStop) (\<lambda>_. sbind (sys k CloseServer) (\<lambda>_. sys k JoinPeriodic))"

definition serve :: "'w server_kernel \<Rightarrow> config \<Rightarrow> ('w server_host, unit) action" where
  "serve k cfg =
     sbind (build_server k cfg) (\<lambda>_.
     sbind (sys k StartPeriodic) (\<lambda>_.
     sfinally (sys k ServeForever) (stop_server k)))"

text \<open>\<open>main\<close> turns the expected failures into the exit status 2.\<close>

definition reported_exn :: "exn \<Rightarrow> bool" where
  "reported_exn e = ((case e of ConfigError _ \<Rightarrow> True | _ \<Rightarrow> False) \<or> is_OSError e)"

definition server_main ::
  "'w server_kernel \<Rightarrow> (pystr \<Rightarrow> jraw result) \<Rightarrow> fs \<Rightarrow> pystr \<Rightarrow> ('w server_host, nat) action" where
  "server_main k scan fs path =
     scatch
       (sbind (slift (load_config scan fs path)) (\<lambda>cfg.
          if \<not> cf_enabled cfg then sret 0 else sbind (serve k cfg) (\<lambda>_. sret 0)))
       (\<lambda>e. if reported_exn e then sret 2 else slift (Inl e))"

subsection \<open>The worker slots\<close>

text \<open>\<open>BoundedSemaphore(64)\<close>: \<open>acquire(blocking=False)\<close> and \<open>release\<close> are atomic.\<close>

definition worker_limit :: nat where "worker_limit = 64"

definition acquire_slot :: "nat \<Rightarrow> nat \<times> bool" where
  "acquire_slot free = (if free = 0 then (free, False) else (free - 1, True))"

definition release_slot :: "(nat, unit) action" where
  "release_slot free = (if worker_limit < free + 1 then (free, Inl ValueError) else (free + 1, Inr ()))"

text \<open>What the calls of one request do: the start of its thread, the handshake, the handler, the logging
  of an unexpected exception, and the shutdown of the connection.\<close>

record request_io =
  io_start :: "unit result"
  io_secure :: "unit result"
  io_finish :: "unit result"
  io_report :: "unit result"
  io_shutdown :: "unit result"

definition launch_request :: "request_io \<Rightarrow> (nat, bool) action" where
  "launch_request io =
     scatch (sbind (slift (io_start io)) (\<lambda>_. sret True)) (\<lambda>e. sbind release_slot (\<lambda>_. slift (Inl e)))"

definition process_request :: "request_io \<Rightarrow> (nat, bool) action" where
  "process_request io free =
     (case acquire_slot free of
        (f, False) \<Rightarrow> sbind (slift (io_shutdown io)) (\<lambda>_. sret False) f
      | (f, True) \<Rightarrow> launch_request io f)"

definition process_request_thread :: "request_io \<Rightarrow> (nat, unit) action" where
  "process_request_thread io =
     sfinally
       (scatch (slift (rbind (io_secure io) (\<lambda>_. io_finish io)))
          (\<lambda>e. if is_OSError e then sret () else slift (io_report io)))
       (sbind (slift (io_shutdown io)) (\<lambda>_. release_slot))"

text \<open>
  The accepting thread handles one connection at a time; the workers run beside it, so that their
  releases may come between the two calls of \<open>process_request\<close>, the taking of the slot and the start of
  the thread. A worker whose shutdown raises ends without a release: its slot is lost.
\<close>

record slots =
  sl_free :: nat
  sl_starting :: "nat option"
  sl_running :: "nat list"
  sl_lost :: nat

definition idle_slots :: slots where
  "idle_slots = \<lparr>sl_free = worker_limit, sl_starting = None, sl_running = [], sl_lost = 0\<rparr>"

inductive slot_step :: "slots \<Rightarrow> slots \<Rightarrow> bool" where
  Refuse: "sl_starting s = None \<Longrightarrow> \<not> snd (acquire_slot (sl_free s)) \<Longrightarrow> process_request io (sl_free s) = (f, r) \<Longrightarrow>
    slot_step s (s\<lparr>sl_free := f\<rparr>)"
| Admit: "sl_starting s = None \<Longrightarrow> acquire_slot (sl_free s) = (f, True) \<Longrightarrow>
    slot_step s (s\<lparr>sl_free := f, sl_starting := Some c\<rparr>)"
| Start: "sl_starting s = Some c \<Longrightarrow> launch_request io (sl_free s) = (f, Inr b) \<Longrightarrow>
    slot_step s (s\<lparr>sl_free := f, sl_starting := None, sl_running := c # sl_running s\<rparr>)"
| StartFails: "sl_starting s = Some c \<Longrightarrow> launch_request io (sl_free s) = (f, Inl e) \<Longrightarrow>
    slot_step s (s\<lparr>sl_free := f, sl_starting := None\<rparr>)"
| Finish: "c \<in> set (sl_running s) \<Longrightarrow> process_request_thread io (sl_free s) = (f, r) \<Longrightarrow> io_shutdown io = Inr () \<Longrightarrow>
    slot_step s (s\<lparr>sl_free := f, sl_running := remove1 c (sl_running s)\<rparr>)"
| Lose: "c \<in> set (sl_running s) \<Longrightarrow> process_request_thread io (sl_free s) = (f, r) \<Longrightarrow> io_shutdown io = Inl e \<Longrightarrow>
    slot_step s (s\<lparr>sl_free := f, sl_running := remove1 c (sl_running s), sl_lost := sl_lost s + 1\<rparr>)"

inductive slots_reachable :: "slots \<Rightarrow> bool" where
  Idle: "slots_reachable idle_slots"
| Step: "slots_reachable s \<Longrightarrow> slot_step s t \<Longrightarrow> slots_reachable t"

inductive_cases slot_stepE: "slot_step s t"

subsection \<open>No slot is released twice, none is forgotten\<close>

definition starting_count :: "slots \<Rightarrow> nat" where
  "starting_count s = (case sl_starting s of None \<Rightarrow> 0 | Some _ \<Rightarrow> 1)"

definition slots_taken :: "slots \<Rightarrow> nat" where
  "slots_taken s = length (sl_running s) + starting_count s + sl_lost s"

lemma process_request_thread_slot:
  "process_request_thread io free =
     (case io_shutdown io of Inl e \<Rightarrow> (free, Inl e)
      | Inr _ \<Rightarrow> (case release_slot free of (f, Inl e) \<Rightarrow> (f, Inl e)
         | (f, Inr _) \<Rightarrow> (f, snd (process_request_thread io free))))"
  by (auto simp: process_request_thread_def sfinally_def scatch_def sbind_def split: prod.splits sum.splits)

lemma launch_request_slot:
  "launch_request io free =
     (case io_start io of Inr _ \<Rightarrow> (free, Inr True)
      | Inl e \<Rightarrow> (case release_slot free of (f, Inl d) \<Rightarrow> (f, Inl d) | (f, Inr _) \<Rightarrow> (f, Inl e)))"
  by (auto simp: launch_request_def scatch_def sbind_def split: prod.splits sum.splits)

lemma refused_request_slot:
  assumes "\<not> snd (acquire_slot free)" "process_request io free = (f, r)"
  shows "f = free"
  using assms by (auto simp: process_request_def acquire_slot_def sbind_def split: if_splits sum.splits prod.splits)

text \<open>Without a release in between, the steps of the accepting thread are \<open>process_request\<close>.\<close>

lemma process_request_steps:
  assumes "sl_starting s = None" "process_request io (sl_free s) = (f, r)"
  shows "\<exists>t. slot_step\<^sup>*\<^sup>* s t \<and> sl_free t = f \<and> sl_starting t = None \<and> sl_lost t = sl_lost s \<and>
    sl_running t = (if r = Inr True then c # sl_running s else sl_running s)"
proof (cases "snd (acquire_slot (sl_free s))")
  case False
  from slot_step.Refuse [OF assms(1) False assms(2)] False assms show ?thesis
    by (intro exI [of _ "s\<lparr>sl_free := f\<rparr>"])
      (auto simp: process_request_def acquire_slot_def sbind_def split: if_splits sum.splits)
next
  case True
  then obtain g where g: "acquire_slot (sl_free s) = (g, True)" by (cases "acquire_slot (sl_free s)") auto
  let ?s = "s\<lparr>sl_free := g, sl_starting := Some c\<rparr>"
  have admit: "slot_step s ?s" by (rule slot_step.Admit [OF assms(1) g])
  have launch: "launch_request io (sl_free ?s) = (f, r)" using assms(2) g by (simp add: process_request_def)
  show ?thesis
  proof (cases r)
    case (Inl e)
    with slot_step.StartFails [of ?s c io f e] launch have "slot_step ?s (s\<lparr>sl_free := f, sl_starting := None\<rparr>)" by simp
    with admit have "slot_step\<^sup>*\<^sup>* s (s\<lparr>sl_free := f, sl_starting := None\<rparr>)" by (meson converse_rtranclp_into_rtranclp r_into_rtranclp)
    with Inl show ?thesis by (intro exI [of _ "s\<lparr>sl_free := f, sl_starting := None\<rparr>"]) simp
  next
    case (Inr b)
    with launch have b: "b" by (auto simp: launch_request_slot split: sum.splits prod.splits)
    let ?t = "s\<lparr>sl_free := f, sl_starting := None, sl_running := c # sl_running s\<rparr>"
    from slot_step.Start [of ?s c io f b] launch Inr have "slot_step ?s ?t" by simp
    with admit have "slot_step\<^sup>*\<^sup>* s ?t" by (meson converse_rtranclp_into_rtranclp r_into_rtranclp)
    with Inr b show ?thesis by (intro exI [of _ ?t]) simp
  qed
qed

lemma slot_step_balance:
  assumes "slot_step s t" "sl_free s + slots_taken s = worker_limit"
  shows "sl_free t + slots_taken t = worker_limit"
  using assms(1)
proof cases
  case (Finish c io f r)
  then obtain n where n: "length (sl_running s) = Suc n" by (metis length_pos_if_in_set gr0_conv_Suc)
  with assms(2) have "release_slot (sl_free s) = (sl_free s + 1, Inr ())"
    unfolding release_slot_def slots_taken_def by simp
  with Finish(3,4) have "f = sl_free s + 1"
    by (subst (asm) process_request_thread_slot) simp
  with n show ?thesis using Finish(1,2) assms(2) by (simp add: slots_taken_def starting_count_def length_remove1)
next
  case (Lose c io f r e)
  then obtain n where n: "length (sl_running s) = Suc n" by (metis length_pos_if_in_set gr0_conv_Suc)
  have "f = sl_free s" using Lose(3,4) by (subst (asm) process_request_thread_slot) simp
  with n show ?thesis using Lose(1,2) assms(2) by (simp add: slots_taken_def starting_count_def length_remove1)
next
  case (Refuse io f r)
  with assms(2) show ?thesis by (auto dest: refused_request_slot simp: slots_taken_def starting_count_def)
qed (use assms(2) in \<open>auto simp: slots_taken_def starting_count_def acquire_slot_def release_slot_def launch_request_slot
       split: if_splits sum.splits\<close>)

lemma slots_balance: "slots_reachable s \<Longrightarrow> sl_free s + slots_taken s = worker_limit"
proof (induction rule: slots_reachable.induct)
  case (Step s t)
  show ?case by (rule slot_step_balance [OF Step.hyps(2) Step.IH])
qed (simp add: idle_slots_def slots_taken_def starting_count_def)

text \<open>
  C35. Whatever the order in which connections arrive, threads start or fail to start and requests end,
  every one of the 64 worker slots is free, held by exactly one request, or lost by a shutdown that
  raised: so at most 64 requests are served at a time, a connection is refused only when all slots are
  held or lost, and no release ever exceeds the bound of the semaphore, whether a thread could not be
  started or its request ended, by success, by failed handshake or by an unexpected exception.
\<close>

theorem worker_slots_invariant:
  assumes "slots_reachable s"
  shows "sl_free s + length (sl_running s) + starting_count s + sl_lost s = 64 \<and>
    (snd (acquire_slot (sl_free s)) \<longleftrightarrow> length (sl_running s) + starting_count s + sl_lost s < 64) \<and>
    (sl_starting s \<noteq> None \<longrightarrow> snd (release_slot (sl_free s)) = Inr ()) \<and>
    (sl_running s \<noteq> [] \<and> io_shutdown io = Inr () \<longrightarrow> fst (process_request_thread io (sl_free s)) = sl_free s + 1) \<and>
    (io_start io = Inr () \<and> io_shutdown io = Inr () \<longrightarrow>
       snd (process_request io (sl_free s)) = Inr (length (sl_running s) + starting_count s + sl_lost s < 64))"
proof (intro conjI impI)
  have bal: "sl_free s + slots_taken s = 64" using slots_balance [OF assms] by (simp add: worker_limit_def)
  then show "sl_free s + length (sl_running s) + starting_count s + sl_lost s = 64" by (simp add: slots_taken_def)
  show "snd (acquire_slot (sl_free s)) \<longleftrightarrow> length (sl_running s) + starting_count s + sl_lost s < 64"
    using bal by (auto simp: acquire_slot_def slots_taken_def)
  show "snd (release_slot (sl_free s)) = Inr ()" if "sl_starting s \<noteq> None"
    using bal that by (auto simp: release_slot_def worker_limit_def slots_taken_def starting_count_def)
  assume running: "sl_running s \<noteq> [] \<and> io_shutdown io = Inr ()"
  then have "release_slot (sl_free s) = (sl_free s + 1, Inr ())"
    using bal by (cases "sl_running s") (auto simp: release_slot_def worker_limit_def slots_taken_def)
  then show "fst (process_request_thread io (sl_free s)) = sl_free s + 1"
    using running by (subst process_request_thread_slot) simp
next
  assume "io_start io = Inr () \<and> io_shutdown io = Inr ()"
  moreover have "sl_free s + slots_taken s = 64" using slots_balance [OF assms] by (simp add: worker_limit_def)
  ultimately show "snd (process_request io (sl_free s)) = Inr (length (sl_running s) + starting_count s + sl_lost s < 64)"
    by (auto simp: process_request_def acquire_slot_def launch_request_slot slots_taken_def)
qed

text \<open>A state with one running request whose handler raises an unexpected exception.\<close>

definition crashing_io :: request_io where
  "crashing_io = \<lparr>io_start = Inr (), io_secure = Inr (), io_finish = Inl KeyError, io_report = Inr (), io_shutdown = Inr ()\<rparr>"

definition one_running :: slots where
  "one_running = \<lparr>sl_free = 63, sl_starting = None, sl_running = [7], sl_lost = 0\<rparr>"

lemma one_running_reachable: "slots_reachable one_running"
proof -
  let ?s = "\<lparr>sl_free = 63, sl_starting = Some 7, sl_running = [], sl_lost = 0\<rparr>"
  have "slot_step idle_slots ?s"
    using slot_step.Admit [of idle_slots 63 7] by (simp add: idle_slots_def acquire_slot_def worker_limit_def)
  moreover have "slot_step ?s one_running"
    using slot_step.Start [of ?s 7 crashing_io 63 True] by (simp add: one_running_def launch_request_slot crashing_io_def)
  ultimately show ?thesis using slots_reachable.intros by blast
qed

lemma worker_slots_invariant_witness:
  "sl_free one_running + length (sl_running one_running) + starting_count one_running + sl_lost one_running = 64 \<and>
   fst (process_request_thread crashing_io (sl_free one_running)) = sl_free one_running + 1"
  using worker_slots_invariant [OF one_running_reachable, of crashing_io]
  by (simp add: one_running_def crashing_io_def)

subsection \<open>No request before the context demands client certificates\<close>

definition returned :: "(server_call \<times> unit result) set \<Rightarrow> server_call \<Rightarrow> bool" where
  "returned S c \<longleftrightarrow> (c, Inr ()) \<in> S"

definition server_may :: "config \<Rightarrow> (server_call, unit) policy" where
  "server_may cfg S c =
     (cf_enabled cfg \<and>
      (case c of
         OpenStore p days \<Rightarrow> p = cf_database cfg \<and> days = cf_history_days cfg
       | BindListener six a port \<Rightarrow> a = cf_listen cfg \<and> port = cf_port cfg \<and>
           (\<exists>addr. ip_address a = Inr addr \<and> (six \<longleftrightarrow> ip_version addr = 6)) \<and>
           returned S (OpenStore (cf_database cfg) (cf_history_days cfg))
       | LoadCertChain cert key \<Rightarrow> cert = tls_cert (cf_tls cfg) \<and> key = tls_key (cf_tls cfg)
       | LoadClientCa ca \<Rightarrow> ca = tls_ca (cf_tls cfg)
       | ServeForever \<Rightarrow> returned S MinimumTls12 \<and> returned S RequireClientCertificate \<and>
           returned S (LoadCertChain (tls_cert (cf_tls cfg)) (tls_key (cf_tls cfg))) \<and>
           returned S (LoadClientCa (tls_ca (cf_tls cfg))) \<and> returned S StartPeriodic
       | CloseServer \<Rightarrow> returned S SetStop
       | JoinPeriodic \<Rightarrow> returned S CloseServer
       | _ \<Rightarrow> True))"

lemma server_may_mono: "server_may cfg S c \<Longrightarrow> S \<subseteq> S' \<Longrightarrow> server_may cfg S' c"
  by (auto simp: server_may_def returned_def split: server_call.splits)

interpretation sp: call_policy "server_may cfg" for cfg
  by unfold_locales (rule server_may_mono)

definition set_up :: "config \<Rightarrow> (server_call \<times> unit result) set" where
  "set_up cfg = (\<lambda>c. (c, Inr ())) ` {MinimumTls12, RequireClientCertificate,
     LoadCertChain (tls_cert (cf_tls cfg)) (tls_key (cf_tls cfg)), LoadClientCa (tls_ca (cf_tls cfg))}"

lemma last_sys_step:
  assumes "server_may cfg S c" "insert (c, Inr ()) S \<supseteq> T"
  shows "guarded_triple (server_may cfg) S (sys k c) (\<lambda>_. known (server_may cfg) T)"
  by (rule striple_mono [OF sp.sys_known [OF assms(1)]]) (use assms(2) in \<open>auto elim: known_weaken\<close>)

lemma build_server_triple:
  "guarded_triple (server_may cfg) {} (build_server k cfg) (\<lambda>_. known (server_may cfg) (set_up cfg))"
proof -
  have flat: "build_server k cfg = sbind (slift (rguard (cf_enabled cfg) (ConfigError ''service is disabled''))) (\<lambda>_.
     sbind (slift (ip_address (cf_listen cfg))) (\<lambda>address.
     sbind (sys k (OpenStore (cf_database cfg) (cf_history_days cfg))) (\<lambda>_.
     sbind (sys k (BindListener (ipv6_listener address) (cf_listen cfg) (cf_port cfg))) (\<lambda>_.
     tls_context k (cf_tls cfg)))))"
    unfolding build_server_def open_listener_def
    by (auto simp: sbind_def fun_eq_iff split: prod.splits sum.splits)
  show ?thesis
    unfolding flat tls_context_def
    by (intro sp.lift_step sp.sys_step last_sys_step)
       (auto simp: rguard_eq_Inr server_may_def returned_def set_up_def ipv6_listener_def)
qed

lemma sfinally_triple:
  assumes "striple P m Q E" "\<And>x. striple (Q x) final (\<lambda>_. I) (\<lambda>_. I)" "\<And>e. striple (E e) final (\<lambda>_. I) (\<lambda>_. I)"
  shows "striple P (sfinally m final) (\<lambda>_. I) (\<lambda>_. I)"
  unfolding keeps_striple striple_def
proof (intro allI impI)
  fix s assume "P s"
  obtain t r where m: "m s = (t, r)" by fastforce
  obtain u v where f: "final t = (u, v)" by fastforce
  have "I u"
  proof (cases r)
    case (Inl e)
    with \<open>P s\<close> m have "E e t" by (blast dest: stripleD(2) [OF assms(1)])
    with f show ?thesis by (cases v) (auto dest: stripleD [OF assms(3)])
  next
    case (Inr x)
    with \<open>P s\<close> m have "Q x t" by (blast dest: stripleD(1) [OF assms(1)])
    with f show ?thesis by (cases v) (auto dest: stripleD [OF assms(2)])
  qed
  with m f show "case sfinally m final s of (t, Inl e) \<Rightarrow> I t | (t, Inr x) \<Rightarrow> I t"
    by (simp add: sfinally_def split: sum.splits)
qed

lemma stop_server_triple:
  assumes "cf_enabled cfg"
  shows "guarded_triple (server_may cfg) {} (stop_server k) (\<lambda>_. known (server_may cfg) {})"
  unfolding stop_server_def
  by (intro sp.sys_step last_sys_step) (use assms in \<open>auto simp: server_may_def returned_def\<close>)

lemma serve_triple:
  assumes "cf_enabled cfg"
  shows "guarded_triple (server_may cfg) {} (serve k cfg) (\<lambda>_. known (server_may cfg) {})"
proof -
  have serve: "guarded_triple (server_may cfg) (insert (StartPeriodic, Inr v) (set_up cfg))
      (sfinally (sys k ServeForever) (stop_server k)) (\<lambda>_. known (server_may cfg) {})" for v
    by (intro sfinally_triple [OF last_sys_step [where T = "{}"]] stop_server_triple [OF assms])
       (use assms in \<open>auto simp: server_may_def returned_def set_up_def\<close>)
  show ?thesis
    unfolding serve_def
    by (intro striple_bind [OF build_server_triple] sp.sys_step serve) (use assms in \<open>simp add: server_may_def\<close>)
qed

text \<open>All calls of a trace returned.\<close>

definition clean :: "('c, 'v, 'w) host \<Rightarrow> bool" where
  "clean h = list_all (\<lambda>(c, x). \<not> isl x) (ho_trace h)"

abbreviation returns_clean :: "(('c, 'v, 'w) host, 'a) action \<Rightarrow> bool" where
  "returns_clean m \<equiv> striple clean m (\<lambda>_. clean) (\<lambda>_ _. True)"

lemma clean_sys: "returns_clean (sys k c)"
  by (auto simp: striple_def sys_def clean_def split: prod.splits sum.splits)

lemma clean_bind: "returns_clean m \<Longrightarrow> (\<And>x. returns_clean (f x)) \<Longrightarrow> returns_clean (sbind m f)"
  by (rule striple_bind)

lemma clean_finally: "returns_clean m \<Longrightarrow> returns_clean final \<Longrightarrow> returns_clean (sfinally m final)"
  unfolding striple_def sfinally_def by (fastforce split: prod.splits sum.splits)

lemma clean_lift: "returns_clean (slift r)"
  by (auto simp: striple_def split: sum.splits)

lemma serve_clean: "returns_clean (serve k cfg)"
  unfolding serve_def build_server_def open_listener_def tls_context_def stop_server_def
  by (intro clean_bind clean_finally clean_sys clean_lift)

text \<open>
  C36. The receiver's process: with a configuration that is refused or disabled it makes no call at all, and
  ends with status 2 (or the exception that is not expected) and 0. Otherwise every call is allowed when it
  is made: the store and the listener are opened with the configured values, the listener after the store;
  requests are served only once the TLS context has the minimum version 1.2, demands client certificates,
  and has loaded its certificate and the client CA; at the end the periodic thread is told to stop before
  the server is closed. Status 0 then means that every call returned.
\<close>

theorem server_calls_guarded:
  assumes "server_main k scan fs path \<lparr>ho_world = w, ho_trace = []\<rparr> = (t, r)"
  shows "case load_config scan fs path of
      Inl e \<Rightarrow> ho_trace t = [] \<and> r = (if reported_exn e then Inr 2 else Inl e)
    | Inr cfg \<Rightarrow>
        if cf_enabled cfg
        then (\<forall>pre c x post. ho_trace t = pre @ (c, x) # post \<longrightarrow> server_may cfg (set pre) c) \<and>
          (r = Inr 0 \<longrightarrow> list_all (\<lambda>(c, x). \<not> isl x) (ho_trace t))
        else ho_trace t = [] \<and> r = Inr 0"
proof (cases "load_config scan fs path")
  case (Inl e)
  with assms show ?thesis by (auto simp: server_main_def scatch_def)
next
  case (Inr cfg)
  let ?h = "\<lparr>ho_world = w, ho_trace = []\<rparr>"
  show ?thesis
  proof (cases "cf_enabled cfg")
    case False
    with Inr assms show ?thesis by (auto simp: server_main_def scatch_def)
  next
    case True
    obtain u a where run: "serve k cfg ?h = (u, a)" by fastforce
    have t: "t = u" "r = Inr 0 \<Longrightarrow> a = Inr ()"
      using assms Inr True run by (auto simp: server_main_def scatch_def sbind_def split: sum.splits if_splits)
    have "known (server_may cfg) {} u"
      using run by (cases a) (auto dest: stripleD [OF serve_triple [OF True] known_start])
    moreover have "a = Inr () \<Longrightarrow> clean u"
      using stripleD(1) [OF serve_clean, of ?h] run by (simp add: clean_def)
    ultimately show ?thesis using Inr True t by (auto dest: knownD simp: clean_def)
  qed
qed

text \<open>An enabled configuration for an IPv6 listener, and a system where every call returns.\<close>

definition enabled_raw :: jraw where
  "enabled_raw = RObj [(''enabled'', RBool True), (''listen'', RStr ''::1''),
     (''tls'', RObj [(''cert'', RStr ''/c''), (''key'', RStr ''/k''), (''ca'', RStr ''/a'')]),
     (''clients'', RArr [RObj [(''id'', RStr ''web''), (''cert_sha256'', RArr [RStr sample_fingerprint]),
       (''allowed_jails'', RArr [RStr ''sshd''])]])]"

definition enabled_config :: config where
  "enabled_config = sample_config\<lparr>cf_enabled := True, cf_listen := ''::1'',
     cf_tls := \<lparr>tls_cert = ''/c'', tls_key = ''/k'', tls_ca = ''/a''\<rparr>\<rparr>"

definition enabled_load :: "config result" where
  "enabled_load = load_config (\<lambda>_. Inr enabled_raw) sample_fs ''/usr/local/etc/c.json''"

lemma enabled_load: "load_config (\<lambda>_. Inr enabled_raw) sample_fs ''/usr/local/etc/c.json'' = Inr enabled_config"
proof -
  have "enabled_load = Inr enabled_config" by code_simp
  then show ?thesis by (simp add: enabled_load_def)
qed

definition enabled_run :: "unit server_host \<times> nat result" where
  "enabled_run = server_main (\<lambda>_ w. (w, Inr ())) (\<lambda>_. Inr enabled_raw) sample_fs ''/usr/local/etc/c.json''
     \<lparr>ho_world = (), ho_trace = []\<rparr>"

definition enabled_calls :: "server_call list" where
  "enabled_calls = [OpenStore ''/var/db/f2bguard/state.sqlite'' 90, BindListener True ''::1'' 9443, NewContext, MinimumTls12,
     RequireClientCertificate, LoadCertChain ''/c'' ''/k'', LoadClientCa ''/a'', StartPeriodic, ServeForever,
     SetStop, CloseServer, JoinPeriodic]"

lemma enabled_run: "enabled_run = (\<lparr>ho_world = (), ho_trace = map (\<lambda>c. (c, Inr ())) enabled_calls\<rparr>, Inr 0)"
  by code_simp

lemma server_calls_guarded_witness:
  "server_may enabled_config (set (map (\<lambda>c. (c, Inr ())) (take 8 enabled_calls))) ServeForever"
proof -
  let ?tr = "map (\<lambda>c. (c, Inr ())) enabled_calls :: (server_call \<times> unit result) list"
  have "cf_enabled enabled_config" by (simp add: enabled_config_def)
  with server_calls_guarded [OF enabled_run [unfolded enabled_run_def]]
  have "\<forall>pre c x post. ?tr = pre @ (c, x) # post \<longrightarrow> server_may enabled_config (set pre) c"
    by (simp add: enabled_load)
  moreover have "?tr = map (\<lambda>c. (c, Inr ())) (take 8 enabled_calls) @ (ServeForever, Inr ()) #
      map (\<lambda>c. (c, Inr ())) (drop 9 enabled_calls)"
    by (simp add: enabled_calls_def)
  ultimately show ?thesis by blast
qed

end
