(* ===== verification/FileTree.thy ===== *)
theory FileTree
  imports TrustedFile "HOL-Library.Sublist"
begin

text \<open>
  The file system that the packaging tools work on: an association list from resolved paths (lists of
  names) to directories and files with their modes, and the operations of \<open>pathlib\<close> and \<open>shutil\<close> that
  the tools use. Every operation is counted and may fail with an \<open>OSError\<close>, as a fault function of the
  environment decides. Contents are strings of bytes; texts are code points below 256.
\<close>

type_synonym fpath = "pystr list"

datatype node = Dir nat | File pystr nat

type_synonym tree = "(fpath \<times> node) list"

definition node_at :: "tree \<Rightarrow> fpath \<Rightarrow> node option" where
  "node_at tr p = (if p = [] then Some (Dir 493) else map_of tr p)"

definition put :: "fpath \<Rightarrow> node \<Rightarrow> tree \<Rightarrow> tree" where
  "put p n tr = (p, n) # filter (\<lambda>(q, _). q \<noteq> p) tr"

definition drop_node :: "fpath \<Rightarrow> tree \<Rightarrow> tree" where
  "drop_node p tr = filter (\<lambda>(q, _). q \<noteq> p) tr"

definition file_at :: "tree \<Rightarrow> fpath \<Rightarrow> (pystr \<times> nat) option" where
  "file_at tr p = (case node_at tr p of Some (File b m) \<Rightarrow> Some (b, m) | _ \<Rightarrow> None)"

lemma map_of_filter_neq: "map_of (filter (\<lambda>(q, _). q \<noteq> p) tr) q = (if q = p then None else map_of tr q)"
  by (induction tr) auto

lemma node_at_put: "p \<noteq> [] \<Longrightarrow> node_at (put p n tr) q = (if q = p then Some n else node_at tr q)"
  by (simp add: node_at_def put_def map_of_filter_neq)

lemma node_at_drop: "p \<noteq> [] \<Longrightarrow> node_at (drop_node p tr) q = (if q = p then None else node_at tr q)"
  by (simp add: node_at_def drop_node_def map_of_filter_neq)

subsection \<open>Operations that may fail\<close>

datatype disk_call =
    Query fpath
  | ListTree fpath
  | ReadFile fpath
  | MakeDir fpath
  | OpenFile fpath
  | WriteFile fpath
  | ChangeMode fpath
  | RemoveTree fpath
  | RemoveNode fpath

text \<open>
  The environment: which call fails, the umask, SHA-256, the packing of an archive's entries, and the
  bytes that an archive has in its file after its first entries.
\<close>

record tar_entry =
  te_name :: pystr
  te_dir :: bool
  te_mode :: nat
  te_owner :: "nat \<times> nat"
  te_names :: "pystr \<times> pystr"
  te_mtime :: nat
  te_data :: pystr

record build_env =
  be_fault :: "nat \<Rightarrow> disk_call \<Rightarrow> bool"
  be_umask :: nat
  be_sha :: "pystr \<Rightarrow> pystr"
  be_pack :: "tar_entry list \<Rightarrow> pystr"
  be_partial :: "tar_entry list \<Rightarrow> pystr"

record disk =
  dk_tree :: tree
  dk_calls :: nat

definition disk_op :: "build_env \<Rightarrow> disk_call \<Rightarrow> (tree \<Rightarrow> tree \<times> 'a result) \<Rightarrow> (disk, 'a) action" where
  "disk_op env c f d =
     (if be_fault env (dk_calls d) c then (d\<lparr>dk_calls := dk_calls d + 1\<rparr>, Inl OSError)
      else case f (dk_tree d) of (tr, r) \<Rightarrow> (\<lparr>dk_tree = tr, dk_calls = dk_calls d + 1\<rparr>, r))"

definition default_mode :: "build_env \<Rightarrow> nat \<Rightarrow> nat" where
  "default_mode env mode = mode - (mode AND be_umask env)"

definition path_exists :: "build_env \<Rightarrow> fpath \<Rightarrow> (disk, bool) action" where
  "path_exists env p = disk_op env (Query p) (\<lambda>tr. (tr, Inr (node_at tr p \<noteq> None)))"

definition is_file :: "build_env \<Rightarrow> fpath \<Rightarrow> (disk, bool) action" where
  "is_file env p = disk_op env (Query p) (\<lambda>tr. (tr, Inr (file_at tr p \<noteq> None)))"

text \<open>The size of a directory is never asked for; it depends on the file system.\<close>

definition file_size :: "build_env \<Rightarrow> fpath \<Rightarrow> (disk, nat) action" where
  "file_size env p = disk_op env (Query p)
     (\<lambda>tr. (tr, case node_at tr p of Some (File b _) \<Rightarrow> Inr (length b) | Some (Dir _) \<Rightarrow> Inr 0 | None \<Rightarrow> Inl OSError))"

definition node_info :: "build_env \<Rightarrow> fpath \<Rightarrow> (disk, node) action" where
  "node_info env p = disk_op env (Query p)
     (\<lambda>tr. (tr, case node_at tr p of Some n \<Rightarrow> Inr n | None \<Rightarrow> Inl OSError))"

definition read_bytes :: "build_env \<Rightarrow> fpath \<Rightarrow> (disk, pystr) action" where
  "read_bytes env p = disk_op env (ReadFile p)
     (\<lambda>tr. (tr, case file_at tr p of Some (b, _) \<Rightarrow> Inr b | None \<Rightarrow> Inl OSError))"

text \<open>UTF-8, for the code points below 256.\<close>

fun decode_utf8 :: "pystr \<Rightarrow> pystr result" where
  "decode_utf8 [] = Inr []"
| "decode_utf8 [c] = (if is_ascii c then Inr [c] else Inl UnicodeDecodeError)"
| "decode_utf8 (c # d # s) =
     (if is_ascii c then rbind (decode_utf8 (d # s)) (\<lambda>t. Inr (c # t))
      else if (code c = 194 \<or> code c = 195) \<and> 128 \<le> code d \<and> code d < 192
      then rbind (decode_utf8 s) (\<lambda>t. Inr (char_of ((code c - 192) * 64 + (code d - 128)) # t))
      else Inl UnicodeDecodeError)"

definition encode_utf8 :: "pystr \<Rightarrow> pystr" where
  "encode_utf8 s = concat (map (\<lambda>c. if is_ascii c then [c]
     else [char_of (192 + code c div 64), char_of (128 + code c mod 64)]) s)"

definition text_of :: "pystr \<Rightarrow> pystr result" where
  "text_of b = rbind (decode_utf8 b) (\<lambda>s. Inr (universal_newlines s))"

definition read_text :: "build_env \<Rightarrow> fpath \<Rightarrow> (disk, pystr) action" where
  "read_text env p = sbind (read_bytes env p) (\<lambda>b. slift (text_of b))"

text \<open>\<open>sorted(p.rglob('*'))\<close> and \<open>sorted(p.glob('*.py'))\<close>; a directory that does not exist has no entries.\<close>

definition descendants :: "tree \<Rightarrow> fpath \<Rightarrow> fpath list" where
  "descendants tr p = sort (remdups (map fst (filter (\<lambda>(q, _). strict_prefix p q) tr)))"

definition list_tree :: "build_env \<Rightarrow> fpath \<Rightarrow> (disk, fpath list) action" where
  "list_tree env p = disk_op env (ListTree p) (\<lambda>tr. (tr, Inr (descendants tr p)))"

definition py_files :: "tree \<Rightarrow> fpath \<Rightarrow> fpath list" where
  "py_files tr p = filter (\<lambda>q. butlast q = p \<and> ends_with ''.py'' (last q)) (descendants tr p)"

definition list_py :: "build_env \<Rightarrow> fpath \<Rightarrow> (disk, fpath list) action" where
  "list_py env p = disk_op env (ListTree p) (\<lambda>tr. (tr, Inr (py_files tr p)))"

fun seach :: "('a \<Rightarrow> ('s, unit) action) \<Rightarrow> 'a list \<Rightarrow> ('s, unit) action" where
  "seach f [] = sret ()"
| "seach f (x # xs) = sbind (f x) (\<lambda>_. seach f xs)"

text \<open>\<open>mkdir(parents=True, exist_ok=True)\<close>: every missing ancestor, from the root downwards.\<close>

definition make_dir :: "build_env \<Rightarrow> fpath \<Rightarrow> (disk, unit) action" where
  "make_dir env p = disk_op env (MakeDir p)
     (\<lambda>tr. case node_at tr p of
        Some (Dir _) \<Rightarrow> (tr, Inr ())
      | Some (File _ _) \<Rightarrow> (tr, Inl OSError)
      | None \<Rightarrow> (case node_at tr (butlast p) of
            Some (Dir _) \<Rightarrow> (put p (Dir (default_mode env 511)) tr, Inr ())
          | _ \<Rightarrow> (tr, Inl OSError)))"

definition ancestors :: "fpath \<Rightarrow> fpath list" where
  "ancestors p = map (\<lambda>i. take i p) [1 ..< Suc (length p)]"

definition make_dirs :: "build_env \<Rightarrow> fpath \<Rightarrow> (disk, unit) action" where
  "make_dirs env p = seach (make_dir env) (ancestors p)"

definition open_write :: "build_env \<Rightarrow> fpath \<Rightarrow> (disk, unit) action" where
  "open_write env p = disk_op env (OpenFile p)
     (\<lambda>tr. case node_at tr (butlast p) of
        Some (Dir _) \<Rightarrow> (case node_at tr p of
            Some (Dir _) \<Rightarrow> (tr, Inl OSError)
          | Some (File _ m) \<Rightarrow> (put p (File '''' m) tr, Inr ())
          | None \<Rightarrow> (put p (File '''' (default_mode env 438)) tr, Inr ()))
      | _ \<Rightarrow> (tr, Inl OSError))"

definition fill :: "build_env \<Rightarrow> fpath \<Rightarrow> pystr \<Rightarrow> (disk, unit) action" where
  "fill env p data = disk_op env (WriteFile p)
     (\<lambda>tr. case file_at tr p of Some (_, m) \<Rightarrow> (put p (File data m) tr, Inr ()) | None \<Rightarrow> (tr, Inl OSError))"

definition change_mode :: "build_env \<Rightarrow> fpath \<Rightarrow> nat \<Rightarrow> (disk, unit) action" where
  "change_mode env p mode = disk_op env (ChangeMode p)
     (\<lambda>tr. case node_at tr p of Some (File b _) \<Rightarrow> (put p (File b mode) tr, Inr ())
       | Some (Dir _) \<Rightarrow> (if p = [] then tr else put p (Dir mode) tr, Inr ()) | None \<Rightarrow> (tr, Inl OSError))"

definition write_bytes :: "build_env \<Rightarrow> fpath \<Rightarrow> pystr \<Rightarrow> (disk, unit) action" where
  "write_bytes env p data = sbind (open_write env p) (\<lambda>_. fill env p data)"

text \<open>
  \<open>unlink\<close> and \<open>rmdir\<close>, and \<open>rmtree\<close>: every node below the path and then the path itself, each after all
  that lies below it. The first call that fails ends it, and what was removed until then stays removed.
\<close>

definition remove_node :: "build_env \<Rightarrow> fpath \<Rightarrow> (disk, unit) action" where
  "remove_node env p = disk_op env (RemoveNode p)
     (\<lambda>tr. if p = [] \<or> node_at tr p = None \<or> descendants tr p \<noteq> [] then (tr, Inl OSError) else (drop_node p tr, Inr ()))"

definition open_tree :: "build_env \<Rightarrow> fpath \<Rightarrow> (disk, fpath list) action" where
  "open_tree env p = disk_op env (RemoveTree p)
     (\<lambda>tr. (tr, case node_at tr p of Some (Dir _) \<Rightarrow> Inr (descendants tr p) | _ \<Rightarrow> Inl OSError))"

definition remove_tree :: "build_env \<Rightarrow> fpath \<Rightarrow> (disk, unit) action" where
  "remove_tree env p = sbind (open_tree env p) (\<lambda>below. seach (remove_node env) (rev below @ [p]))"

subsection \<open>What the operations do to the files\<close>

text \<open>Names are not empty, are not \<open>.\<close>, hold no slash; the parent of a node is a directory.\<close>

definition good_name :: "pystr \<Rightarrow> bool" where
  "good_name n = (n \<noteq> '''' \<and> n \<noteq> ''.'' \<and> CHR ''/'' \<notin> set n)"

definition tree_ok :: "tree \<Rightarrow> bool" where
  "tree_ok tr = list_all (\<lambda>(p, _). p \<noteq> [] \<and> list_all good_name p \<and>
     (case node_at tr (butlast p) of Some (Dir _) \<Rightarrow> True | _ \<Rightarrow> False)) tr"

definition tree_closed :: "tree \<Rightarrow> bool" where
  "tree_closed tr \<longleftrightarrow> (\<forall>p. p \<noteq> [] \<longrightarrow> node_at tr p \<noteq> None \<longrightarrow> (\<exists>m. node_at tr (butlast p) = Some (Dir m)))"

lemma tree_ok_node:
  assumes "tree_ok tr" "node_at tr p = Some n" "p \<noteq> []"
  shows "list_all good_name p" "\<exists>m. node_at tr (butlast p) = Some (Dir m)"
proof -
  from assms(2,3) have "(p, n) \<in> set tr" by (simp add: node_at_def map_of_SomeD)
  with assms(1) show "list_all good_name p" "\<exists>m. node_at tr (butlast p) = Some (Dir m)"
    by (auto simp: tree_ok_def list_all_iff split: option.splits node.splits)
qed

lemma tree_ok_closed: "tree_ok tr \<Longrightarrow> tree_closed tr"
  by (auto simp: tree_closed_def dest: tree_ok_node(2))

text \<open>Nothing lies below a path that does not exist, nor below a file.\<close>

lemma closed_below:
  assumes "tree_closed tr" "prefix p q" "node_at tr q \<noteq> None"
  shows "node_at tr p \<noteq> None \<and> (p \<noteq> q \<longrightarrow> (\<exists>m. node_at tr p = Some (Dir m)))"
  using assms(2,3)
proof (induction q rule: rev_induct)
  case (snoc x q)
  show ?case
  proof (cases "p = q @ [x]")
    case False
    then have pq: "prefix p q" using snoc.prems(1) by (simp add: prefix_snoc)
    obtain m where m: "node_at tr q = Some (Dir m)"
      using assms(1) [unfolded tree_closed_def, rule_format, of "q @ [x]"] snoc.prems(2) by auto
    from snoc.IH [OF pq] m have "node_at tr p \<noteq> None \<and> (p \<noteq> q \<longrightarrow> (\<exists>m. node_at tr p = Some (Dir m)))" by simp
    with m show ?thesis by (cases "p = q") auto
  qed (use snoc.prems in simp)
qed simp

lemma disk_op_Inr:
  "disk_op env c f s = (t, Inr x) \<Longrightarrow> dk_tree t = fst (f (dk_tree s)) \<and> snd (f (dk_tree s)) = Inr x"
  by (auto simp: disk_op_def split: if_splits prod.splits)

lemma disk_op_tree: "disk_op env c f s = (t, r) \<Longrightarrow> dk_tree t = dk_tree s \<or> dk_tree t = fst (f (dk_tree s))"
  by (auto simp: disk_op_def split: if_splits prod.splits)

text \<open>Operations that only look.\<close>

definition looks :: "(disk, 'a) action \<Rightarrow> bool" where
  "looks m \<longleftrightarrow> (\<forall>s. dk_tree (fst (m s)) = dk_tree s)"

named_theorems looking "operations that leave the tree as it is"

lemma looksD: "looks m \<Longrightarrow> m s = (t, r) \<Longrightarrow> dk_tree t = dk_tree s"
  by (metis fst_conv looks_def)

lemma looks_op: "(\<And>tr. fst (f tr) = tr) \<Longrightarrow> looks (disk_op env c f)"
  unfolding looks_def by (metis disk_op_tree prod.collapse)

lemma looks_ops [looking]:
  "looks (path_exists env p)" "looks (is_file env p)" "looks (file_size env p)" "looks (read_bytes env p)"
  "looks (list_tree env p)" "looks (list_py env p)" "looks (node_info env p)" "looks (open_tree env p)"
  by (simp_all add: path_exists_def is_file_def file_size_def read_bytes_def list_tree_def list_py_def node_info_def
        open_tree_def looks_op)

lemma looks_sret [looking]: "looks (sret x)" "looks (slift r)"
  by (simp_all add: looks_def)

lemma looks_sbind [looking]: "looks m \<Longrightarrow> (\<And>x. looks (f x)) \<Longrightarrow> looks (sbind m f)"
  by (auto simp: looks_def sbind_def split: prod.splits sum.splits) (metis fst_conv)+

lemma looks_if [looking]: "looks m \<Longrightarrow> looks n \<Longrightarrow> looks (if b then m else n)"
  by simp

lemma looks_text [looking]: "looks (read_text env p)"
  unfolding read_text_def by (intro looking)

lemma read_bytes_Inr: "read_bytes env p s = (t, Inr b) \<Longrightarrow> \<exists>m. file_at (dk_tree s) p = Some (b, m)"
  by (auto simp: read_bytes_def dest!: disk_op_Inr split: option.splits)

lemma read_text_Inr:
  "read_text env p s = (t, Inr x) \<Longrightarrow> \<exists>b m. file_at (dk_tree s) p = Some (b, m) \<and> text_of b = Inr x"
  by (auto simp: read_text_def sbind_Inr dest!: read_bytes_Inr)

lemma descendants_set: "set (descendants tr p) = {q. strict_prefix p q \<and> node_at tr q \<noteq> None}"
proof -
  have "q \<in> fst ` set tr \<longleftrightarrow> node_at tr q \<noteq> None" if "strict_prefix p q" for q
    using that by (cases "q = []") (auto simp: node_at_def map_of_eq_None_iff)
  then show ?thesis by (auto simp: descendants_def image_iff) (metis fst_conv, force)
qed

lemma path_exists_Inr: "path_exists env p s = (t, Inr b) \<Longrightarrow> b = (node_at (dk_tree s) p \<noteq> None)"
  by (auto simp: path_exists_def dest!: disk_op_Inr)

lemma is_file_Inr: "is_file env p s = (t, Inr b) \<Longrightarrow> b = (file_at (dk_tree s) p \<noteq> None)"
  by (auto simp: is_file_def dest!: disk_op_Inr)

lemma list_tree_Inr: "list_tree env p s = (t, Inr ps) \<Longrightarrow> ps = descendants (dk_tree s) p"
  by (auto simp: list_tree_def dest!: disk_op_Inr)

lemma list_py_Inr: "list_py env p s = (t, Inr ps) \<Longrightarrow> ps = py_files (dk_tree s) p"
  by (auto simp: list_py_def dest!: disk_op_Inr)

text \<open>Making directories adds no file and removes none; a written file replaces nothing else.\<close>

lemma file_at_put_file: "p \<noteq> [] \<Longrightarrow> file_at (put p (File b m) tr) = (file_at tr)(p := Some (b, m))"
  by (rule ext) (simp add: file_at_def node_at_put)

lemma file_at_put_dir: "p \<noteq> [] \<Longrightarrow> file_at tr p = None \<Longrightarrow> file_at (put p (Dir m) tr) = file_at tr"
  by (rule ext) (auto simp: file_at_def node_at_put)

lemma make_dir_files:
  assumes "make_dir env p s = (t, r)"
  shows "file_at (dk_tree t) = file_at (dk_tree s)"
proof (cases "node_at (dk_tree s) p")
  case None
  then have "p \<noteq> []" "file_at (dk_tree s) p = None" by (auto simp: node_at_def file_at_def)
  with None disk_op_tree [OF assms [unfolded make_dir_def]] show ?thesis
    by (auto simp: file_at_put_dir split: option.splits node.splits)
next
  case (Some n)
  with disk_op_tree [OF assms [unfolded make_dir_def]] show ?thesis by (auto split: node.splits)
qed

lemma seach_files:
  assumes "\<And>x s t r. f x s = (t, r) \<Longrightarrow> file_at (dk_tree t) = file_at (dk_tree s)" "seach f xs s = (t, r)"
  shows "file_at (dk_tree t) = file_at (dk_tree s)"
  using assms(2)
proof (induction xs arbitrary: s)
  case (Cons x xs)
  then show ?case using assms(1) [of x s] by (auto simp: sbind_def split: prod.splits sum.splits)
qed simp

lemma make_dirs_files: "make_dirs env p s = (t, r) \<Longrightarrow> file_at (dk_tree t) = file_at (dk_tree s)"
  unfolding make_dirs_def by (rule seach_files [OF make_dir_files])

lemma open_write_Inr:
  assumes "open_write env p s = (t, Inr ())" "p \<noteq> []"
  shows "file_at (dk_tree t) = (file_at (dk_tree s))(p := Some ('''', case file_at (dk_tree s) p of
    Some (_, m) \<Rightarrow> m | None \<Rightarrow> default_mode env 438))"
proof (cases "node_at (dk_tree s) p")
  case None
  then have f: "file_at (dk_tree s) p = None" by (simp add: file_at_def)
  show ?thesis
    using disk_op_Inr [OF assms(1) [unfolded open_write_def]] assms(2) None f
    by (auto simp: file_at_put_file split: option.splits node.splits)
next
  case (Some n)
  then have f: "file_at (dk_tree s) p = (case n of File b m \<Rightarrow> Some (b, m) | _ \<Rightarrow> None)" by (simp add: file_at_def)
  show ?thesis
    using disk_op_Inr [OF assms(1) [unfolded open_write_def]] assms(2) Some f
    by (auto simp: file_at_put_file split: option.splits node.splits)
qed

lemma fill_Inr:
  assumes "fill env p data s = (t, Inr ())" "p \<noteq> []"
  shows "\<exists>b m. file_at (dk_tree s) p = Some (b, m) \<and> file_at (dk_tree t) = (file_at (dk_tree s))(p := Some (data, m))"
  using disk_op_Inr [OF assms(1) [unfolded fill_def]] assms(2)
  by (auto simp: file_at_put_file split: option.splits)

lemma write_bytes_Inr:
  assumes "write_bytes env p data s = (t, Inr ())" "p \<noteq> []"
  shows "file_at (dk_tree t) = (file_at (dk_tree s))(p := Some (data, case file_at (dk_tree s) p of
    Some (_, m) \<Rightarrow> m | None \<Rightarrow> default_mode env 438))"
proof -
  from assms(1) obtain u where u: "open_write env p s = (u, Inr ())" "fill env p data u = (t, Inr ())"
    by (auto simp: write_bytes_def sbind_Inr)
  show ?thesis using fill_Inr [OF u(2) assms(2)] open_write_Inr [OF u(1) assms(2)] by auto
qed

lemma change_mode_file:
  assumes "change_mode env p mode s = (t, Inr ())" "file_at (dk_tree s) p = Some (b, m)" "p \<noteq> []"
  shows "file_at (dk_tree t) = (file_at (dk_tree s))(p := Some (b, mode))"
  using disk_op_Inr [OF assms(1) [unfolded change_mode_def]] assms(2,3)
  by (auto simp: file_at_put_file file_at_def node_at_def split: option.splits node.splits if_splits)

subsection \<open>Where a program may change the tree\<close>

text \<open>
  \<open>confined A\<close>: outside of \<open>A\<close> nothing changes, but for directories that are added above a path of \<open>A\<close>.
\<close>

definition confined :: "fpath set \<Rightarrow> tree \<Rightarrow> tree \<Rightarrow> bool" where
  "confined A s t \<longleftrightarrow> tree_closed t \<and>
     (\<forall>q. q \<notin> A \<longrightarrow> node_at t q = node_at s q \<or>
        (node_at s q = None \<and> (\<exists>m. node_at t q = Some (Dir m)) \<and> (\<exists>a\<in>A. strict_prefix q a)))"

abbreviation keeps_confined :: "fpath set \<Rightarrow> tree \<Rightarrow> (disk, 'a) action \<Rightarrow> bool" where
  "keeps_confined A s \<equiv> keeps (\<lambda>d. confined A s (dk_tree d))"

definition may_make :: "fpath set \<Rightarrow> fpath \<Rightarrow> bool" where
  "may_make A p \<longleftrightarrow> (\<exists>a\<in>A. prefix p a)"

lemma confined_refl: "tree_closed s \<Longrightarrow> confined A s s"
  by (simp add: confined_def)

lemma confined_looks: "looks m \<Longrightarrow> keeps_confined A s m"
  by (simp add: keeps_def looks_def)

lemma confined_op:
  assumes "\<And>tr. confined A s tr \<Longrightarrow> confined A s (fst (f tr))"
  shows "keeps_confined A s (disk_op env c f)"
  unfolding keeps_def using disk_op_tree assms by (metis prod.collapse)

lemma closed_put:
  assumes "tree_closed tr" "p \<noteq> []" "node_at tr (butlast p) = Some (Dir m)"
    "\<And>k. node_at tr p = Some (Dir k) \<Longrightarrow> \<exists>j. n = Dir j"
  shows "tree_closed (put p n tr)"
  unfolding tree_closed_def
proof (intro allI impI)
  fix q assume q: "q \<noteq> []" "node_at (put p n tr) q \<noteq> None"
  have "butlast p \<noteq> p" using assms(2) by (metis append_butlast_last_id append_self_conv not_Cons_self2)
  show "\<exists>m. node_at (put p n tr) (butlast q) = Some (Dir m)"
  proof (cases "q = p")
    case True
    with assms(2,3) \<open>butlast p \<noteq> p\<close> show ?thesis by (simp add: node_at_put)
  next
    case False
    with q assms(2) have "node_at tr q \<noteq> None" by (simp add: node_at_put)
    with assms(1) q(1) obtain k where "node_at tr (butlast q) = Some (Dir k)" unfolding tree_closed_def by blast
    with assms(2,4) show ?thesis by (auto simp: node_at_put)
  qed
qed

lemma confined_put:
  assumes "confined A s tr" "p \<noteq> []" "node_at tr (butlast p) = Some (Dir m)" "p \<in> A"
    "\<And>k. node_at tr p = Some (Dir k) \<Longrightarrow> \<exists>j. n = Dir j"
  shows "confined A s (put p n tr)"
proof -
  have "tree_closed tr" using assms(1) by (simp add: confined_def)
  from closed_put [OF this assms(2,3,5)] assms(1,2,4) show ?thesis
    unfolding confined_def by (auto simp: node_at_put)
qed

lemma confined_replace:
  assumes "confined A s tr" "p \<noteq> []" "node_at tr p = Some old" "p \<in> A" "\<And>k. old = Dir k \<Longrightarrow> \<exists>j. n = Dir j"
  shows "confined A s (put p n tr)"
proof -
  have "tree_closed tr" using assms(1) by (simp add: confined_def)
  with assms(2,3) obtain m where "node_at tr (butlast p) = Some (Dir m)" unfolding tree_closed_def by blast
  then show ?thesis by (rule confined_put [OF assms(1,2)]) (use assms(3-5) in auto)
qed

lemma confined_make_dir [keeps_rules]:
  assumes "may_make A p"
  shows "keeps_confined A s (make_dir env p)"
  unfolding make_dir_def
proof (rule confined_op)
  fix tr assume c: "confined A s tr"
  show "confined A s (fst (case node_at tr p of Some (Dir _) \<Rightarrow> (tr, Inr ()) | Some (File _ _) \<Rightarrow> (tr, Inl OSError)
      | None \<Rightarrow> (case node_at tr (butlast p) of Some (Dir _) \<Rightarrow> (put p (Dir (default_mode env 511)) tr, Inr ())
          | _ \<Rightarrow> (tr, Inl OSError))))"
  proof (cases "node_at tr p = None \<and> (\<exists>m. node_at tr (butlast p) = Some (Dir m))")
    case True
    then obtain m where n: "node_at tr p = None" "node_at tr (butlast p) = Some (Dir m)" by blast
    then have "p \<noteq> []" by (auto simp: node_at_def)
    let ?t = "put p (Dir (default_mode env 511)) tr"
    have "tree_closed tr" using c by (simp add: confined_def)
    from closed_put [OF this \<open>p \<noteq> []\<close> n(2)] have "tree_closed ?t" by blast
    moreover have "node_at s p = None" if "p \<notin> A" using c n(1) that unfolding confined_def by fastforce
    moreover have "\<exists>a\<in>A. strict_prefix p a" if "p \<notin> A"
      using assms that unfolding may_make_def strict_prefix_def by blast
    ultimately have "confined A s ?t"
      using c \<open>p \<noteq> []\<close> unfolding confined_def by (auto simp: node_at_put)
    with n show ?thesis by simp
  qed (use c in \<open>auto split: option.splits node.splits\<close>)
qed

lemma keeps_seach [keeps_rules]: "(\<And>x. x \<in> set xs \<Longrightarrow> keeps P (f x)) \<Longrightarrow> keeps P (seach f xs)"
  by (induction xs) (auto intro!: keeps_sbind keeps_sret)

lemma confined_make_dirs [keeps_rules]:
  assumes "may_make A p"
  shows "keeps_confined A s (make_dirs env p)"
proof -
  have "may_make A q" if "q \<in> set (ancestors p)" for q
    using assms that take_is_prefix unfolding may_make_def ancestors_def
    by (auto intro: prefix_order.trans [OF take_is_prefix])
  then show ?thesis unfolding make_dirs_def by (intro keeps_rules)
qed

lemma confined_open_write [keeps_rules]: "p \<in> A \<Longrightarrow> p \<noteq> [] \<Longrightarrow> keeps_confined A s (open_write env p)"
  unfolding open_write_def
  by (rule confined_op) (auto split: option.splits node.splits intro!: confined_put)

lemma confined_fill [keeps_rules]: "p \<in> A \<Longrightarrow> p \<noteq> [] \<Longrightarrow> keeps_confined A s (fill env p data)"
  unfolding fill_def
  by (rule confined_op) (auto simp: file_at_def split: option.splits node.splits intro: confined_replace)

lemma confined_change_mode [keeps_rules]: "p \<in> A \<Longrightarrow> p \<noteq> [] \<Longrightarrow> keeps_confined A s (change_mode env p mode)"
  unfolding change_mode_def
  by (rule confined_op) (auto split: option.splits node.splits intro: confined_replace)

lemma confined_write_bytes [keeps_rules]: "p \<in> A \<Longrightarrow> p \<noteq> [] \<Longrightarrow> keeps_confined A s (write_bytes env p data)"
  unfolding write_bytes_def by (intro keeps_rules)

subsection \<open>Removing a directory with all that it holds\<close>

lemma no_descendants: "descendants tr p = [] \<longleftrightarrow> (\<forall>q. strict_prefix p q \<longrightarrow> node_at tr q = None)"
proof -
  have "descendants tr p = [] \<longleftrightarrow> set (descendants tr p) = {}" by simp
  then show ?thesis unfolding descendants_set Collect_empty_eq by metis
qed

lemma closed_drop:
  assumes "tree_closed tr" "p \<noteq> []" "descendants tr p = []"
  shows "tree_closed (drop_node p tr)"
  unfolding tree_closed_def
proof (intro allI impI)
  fix q assume q: "q \<noteq> []" "node_at (drop_node p tr) q \<noteq> None"
  with assms(2) have n: "q \<noteq> p" "node_at tr q \<noteq> None" by (auto simp: node_at_drop split: if_splits)
  have "butlast q \<noteq> p"
  proof
    assume "butlast q = p"
    with n(1) have "strict_prefix p q" by (metis prefixeq_butlast strict_prefix_def)
    with n(2) assms(3) [unfolded no_descendants, rule_format, of q] show False by simp
  qed
  moreover obtain m where "node_at tr (butlast q) = Some (Dir m)" using assms(1) q(1) n(2) unfolding tree_closed_def by blast
  ultimately show "\<exists>m. node_at (drop_node p tr) (butlast q) = Some (Dir m)" using assms(2) by (simp add: node_at_drop)
qed

text \<open>\<open>trimmed p s t\<close>: from \<open>s\<close> to \<open>t\<close> some nodes at or below \<open>p\<close> were removed.\<close>

definition trimmed :: "fpath \<Rightarrow> tree \<Rightarrow> tree \<Rightarrow> bool" where
  "trimmed p s t \<longleftrightarrow> (\<forall>q. node_at t q = node_at s q \<or> prefix p q \<and> node_at t q = None)"

lemma trimmed_refl [simp]: "trimmed p s s"
  by (simp add: trimmed_def)

lemma trimmed_trans: "trimmed p s t \<Longrightarrow> trimmed p t u \<Longrightarrow> trimmed p s u"
  unfolding trimmed_def by metis

lemma remove_node_trimmed: "remove_node env q s = (t, r) \<Longrightarrow> prefix p q \<Longrightarrow> trimmed p (dk_tree s) (dk_tree t)"
  by (auto simp: remove_node_def disk_op_def trimmed_def node_at_drop split: if_splits)

lemma seach_trimmed:
  assumes "\<And>q. q \<in> set qs \<Longrightarrow> prefix p q" "seach (remove_node env) qs s = (t, r)"
  shows "trimmed p (dk_tree s) (dk_tree t)"
  using assms
proof (induction qs arbitrary: s)
  case (Cons q qs)
  obtain u x where u: "remove_node env q s = (u, x)" by fastforce
  have first: "trimmed p (dk_tree s) (dk_tree u)" by (rule remove_node_trimmed [OF u]) (use Cons.prems(1) in simp)
  show ?case
  proof (cases x)
    case (Inl e)
    with u Cons.prems(2) first show ?thesis by (auto simp: sbind_def)
  next
    case (Inr y)
    with u Cons.prems have "trimmed p (dk_tree u) (dk_tree t)" by (intro Cons.IH) (simp_all add: sbind_def)
    with first show ?thesis by (rule trimmed_trans)
  qed
qed simp

lemma remove_tree_trimmed:
  assumes "remove_tree env p s = (t, r)"
  shows "trimmed p (dk_tree s) (dk_tree t)"
proof -
  obtain u x where u: "open_tree env p s = (u, x)" by fastforce
  note tree = looksD [OF looks_ops(8) u]
  show ?thesis
  proof (cases x)
    case (Inl e)
    with u assms tree show ?thesis by (auto simp: remove_tree_def sbind_def)
  next
    case (Inr qs)
    with u have "qs = descendants (dk_tree s) p"
      by (auto simp: open_tree_def dest!: disk_op_Inr split: option.splits node.splits)
    then have below: "prefix p q" if "q \<in> set (rev qs @ [p])" for q using that by (auto simp: descendants_set)
    have "seach (remove_node env) (rev qs @ [p]) u = (t, r)" using assms u Inr by (simp add: remove_tree_def sbind_def)
    from seach_trimmed [OF below this] tree show ?thesis by simp
  qed
qed

text \<open>Nodes that are removed after all that lies below them.\<close>

lemma strict_prefix_less: "strict_prefix x y \<Longrightarrow> (x :: fpath) < y"
  unfolding strict_prefix_def prefix_def list_less_def by (auto intro: lexord_append_rightI simp: neq_Nil_conv)

lemma seach_removes:
  assumes "sorted_wrt (\<lambda>x y. x \<noteq> y \<and> \<not> strict_prefix x y) qs"
    "\<And>q. q \<in> set qs \<Longrightarrow> q \<noteq> [] \<and> node_at (dk_tree s) q \<noteq> None"
    "\<And>q n. q \<in> set qs \<Longrightarrow> \<not> be_fault env n (RemoveNode q)"
    "\<And>q x. q \<in> set qs \<Longrightarrow> strict_prefix q x \<Longrightarrow> node_at (dk_tree s) x \<noteq> None \<Longrightarrow> x \<in> set qs"
  shows "\<exists>t. seach (remove_node env) qs s = (t, Inr ()) \<and> (\<forall>q \<in> set qs. node_at (dk_tree t) q = None)"
  using assms
proof (induction qs arbitrary: s)
  case (Cons q qs)
  let ?t = "\<lparr>dk_tree = drop_node q (dk_tree s), dk_calls = dk_calls s + 1\<rparr>"
  have q: "q \<noteq> []" "node_at (dk_tree s) q \<noteq> None" "\<not> be_fault env n (RemoveNode q)" for n
    using Cons.prems(2,3) by simp_all
  have "node_at (dk_tree s) x = None" if "strict_prefix q x" for x
  proof (rule ccontr)
    assume "node_at (dk_tree s) x \<noteq> None"
    from Cons.prems(4) [of q x, OF _ that this] that Cons.prems(1) show False by (auto simp: strict_prefix_def)
  qed
  then have "descendants (dk_tree s) q = []" unfolding no_descendants by blast
  with q have first: "remove_node env q s = (?t, Inr ())" by (simp add: remove_node_def disk_op_def)
  have at: "node_at (dk_tree ?t) x = (if x = q then None else node_at (dk_tree s) x)" for x
    using node_at_drop [OF q(1)] by simp
  obtain t where t: "seach (remove_node env) qs ?t = (t, Inr ())" "\<forall>q \<in> set qs. node_at (dk_tree t) q = None"
  proof -
    have "\<exists>t. seach (remove_node env) qs ?t = (t, Inr ()) \<and> (\<forall>q \<in> set qs. node_at (dk_tree t) q = None)"
    proof (rule Cons.IH)
      show "y \<noteq> [] \<and> node_at (dk_tree ?t) y \<noteq> None" if "y \<in> set qs" for y
        unfolding at using Cons.prems(1,2) that by auto
      show "x \<in> set qs" if "y \<in> set qs" "strict_prefix y x" "node_at (dk_tree ?t) x \<noteq> None" for x y
        using Cons.prems(4) [of y x] that unfolding at by (auto split: if_splits)
    qed (use Cons.prems in auto)
    with that show thesis by blast
  qed
  have "node_at (dk_tree t) q = None"
  proof -
    have "node_at (dk_tree t) x = None" if "node_at (dk_tree ?t) x = None" for x
      using seach_trimmed [of qs "[]" env ?t t "Inr ()", OF _ t(1)] that unfolding trimmed_def by (metis Nil_prefix)
    with at show ?thesis by simp
  qed
  with t first show ?case by (auto simp: sbind_def)
qed simp

lemma remove_tree_removes:
  assumes "node_at (dk_tree s) p = Some (Dir m)" "p \<noteq> []" "\<And>n. \<not> be_fault env n (RemoveTree p)"
    "\<And>n q. prefix p q \<Longrightarrow> \<not> be_fault env n (RemoveNode q)"
  shows "\<exists>t. remove_tree env p s = (t, Inr ()) \<and> (\<forall>q. prefix p q \<longrightarrow> node_at (dk_tree t) q = None)"
proof -
  let ?qs = "descendants (dk_tree s) p" and ?s = "s\<lparr>dk_calls := dk_calls s + 1\<rparr>"
  have start: "open_tree env p s = (?s, Inr ?qs)" using assms(1,3) by (simp add: open_tree_def disk_op_def)
  have members: "x \<in> set (rev ?qs @ [p]) \<longleftrightarrow> prefix p x \<and> node_at (dk_tree s) x \<noteq> None" for x
    using assms(1) by (auto simp: descendants_set strict_prefix_def)
  have "sorted ?qs" "distinct ?qs" by (simp_all add: descendants_def)
  then have "sorted_wrt (<) ?qs" by (simp add: strict_sorted_iff)
  then have "sorted_wrt (\<lambda>x y. x \<noteq> y \<and> \<not> strict_prefix x y) (rev ?qs)"
    unfolding sorted_wrt_rev by (rule sorted_wrt_mono_rel [rotated]) (auto dest: strict_prefix_less)
  then have order: "sorted_wrt (\<lambda>x y. x \<noteq> y \<and> \<not> strict_prefix x y) (rev ?qs @ [p])"
    by (auto simp: sorted_wrt_append descendants_set strict_prefix_def)
  have "\<exists>t. seach (remove_node env) (rev ?qs @ [p]) ?s = (t, Inr ()) \<and> (\<forall>q \<in> set (rev ?qs @ [p]). node_at (dk_tree t) q = None)"
  proof (rule seach_removes [OF order])
    show "x \<in> set (rev ?qs @ [p])" if "q \<in> set (rev ?qs @ [p])" "strict_prefix q x" "node_at (dk_tree ?s) x \<noteq> None" for q x
      using that unfolding members by (auto simp: strict_prefix_def intro: prefix_order.trans)
  qed (use members assms(2,4) in auto)
  then obtain t where t: "seach (remove_node env) (rev ?qs @ [p]) ?s = (t, Inr ())"
      "\<forall>q \<in> set (rev ?qs @ [p]). node_at (dk_tree t) q = None" by blast
  then have run: "remove_tree env p s = (t, Inr ())" using start by (simp add: remove_tree_def sbind_def)
  have "node_at (dk_tree t) q = None" if "prefix p q" for q
  proof (cases "q \<in> set (rev ?qs @ [p])")
    case False
    then have "node_at (dk_tree s) q = None" using that unfolding members by blast
    with remove_tree_trimmed [OF run] show ?thesis unfolding trimmed_def by metis
  qed (use t(2) in blast)
  with run show ?thesis by blast
qed

lemmas confined_reads [keeps_rules] =
  looks_ops [THEN confined_looks] looks_text [THEN confined_looks]

end
