(* ===== verification/BuildPackage.thy ===== *)
theory BuildPackage
  imports FileTree Json
begin

text \<open>
  \<^verbatim>\<open>tools/build_lab_package.py\<close>: the checks on the target, the version of the port, the staged payload
  with its placeholders filled in, the package manifest, the script for the target, the check of the
  stage against \<^verbatim>\<open>pkg-plist\<close>, the archive, and \<open>build_bundle\<close>, which removes its output when a step fails.
\<close>

subsection \<open>Texts\<close>

definition dq :: pystr where "dq = [CHR 0x22]"
definition sq :: pystr where "sq = [CHR 0x27]"
definition nl :: pystr where "nl = [CHR 0x0A]"

text \<open>\<open>p in s\<close> and \<open>s.replace(p, r)\<close> for a non-empty \<open>p\<close>.\<close>

fun contains :: "pystr \<Rightarrow> pystr \<Rightarrow> bool" where
  "contains p [] = (p = [])"
| "contains p (c # s) = (starts_with p (c # s) \<or> contains p s)"

function py_replace :: "pystr \<Rightarrow> pystr \<Rightarrow> pystr \<Rightarrow> pystr" where
  "py_replace p r s =
     (if p = [] \<or> s = [] then s
      else if starts_with p s then r @ py_replace p r (drop (length p) s)
      else hd s # py_replace p r (tl s))"
  by pat_completeness auto
termination
  by (relation "measure (\<lambda>(p, r, s). length s)") auto

declare py_replace.simps [simp del]

text \<open>\<open>repr\<close> of a string.\<close>

definition repr_char :: "char \<Rightarrow> char \<Rightarrow> pystr" where
  "repr_char q c =
     (if c = q \<or> code c = 92 then [CHR 0x5C, c]
      else if code c = 10 then CHR 0x5C # ''n''
      else if code c = 13 then CHR 0x5C # ''r''
      else if code c = 9 then CHR 0x5C # ''t''
      else if code c < 32 \<or> (127 \<le> code c \<and> code c < 161) \<or> code c = 173
      then CHR 0x5C # CHR ''x'' # zfill 2 (radix_str 16 (code c))
      else [c])"

definition py_repr :: "pystr \<Rightarrow> pystr" where
  "py_repr s =
     (let q = (if CHR 0x27 \<in> set s \<and> CHR 0x22 \<notin> set s then CHR 0x22 else CHR 0x27) in
      q # concat (map (repr_char q) s) @ [q])"

definition list_repr :: "pystr list \<Rightarrow> pystr" where
  "list_repr xs = ''['' @ py_join '', '' (map py_repr xs) @ '']''"

definition encode_ascii :: "pystr \<Rightarrow> pystr result" where
  "encode_ascii s = (if all_ascii s then Inr s else Inl ValueError)"

subsection \<open>Paths\<close>

definition posix :: "fpath \<Rightarrow> pystr" where
  "posix p = py_join ''/'' p"

text \<open>\<open>path.lstrip('/')\<close> as a relative path.\<close>

definition relative_parts :: "pystr \<Rightarrow> fpath" where
  "relative_parts s = path_parts (dropWhile (\<lambda>c. c = CHR ''/'') s)"

definition path_suffix :: "pystr \<Rightarrow> pystr" where
  "path_suffix name =
     (let t = takeWhile (\<lambda>c. c \<noteq> CHR ''.'') (rev name) in
      if t \<noteq> [] \<and> length t + 1 < length name then CHR ''.'' # rev t else '''')"

definition with_suffix :: "fpath \<Rightarrow> pystr \<Rightarrow> fpath result" where
  "with_suffix p ext =
     (if p = [] then Inl ValueError
      else let name = last p; old = path_suffix name in
        Inr (butlast p @ [take (length name - length old) name @ ext]))"

definition archive_path :: "fpath \<Rightarrow> fpath result" where
  "archive_path output =
     with_suffix output ((if output = [] then '''' else path_suffix (last output)) @ ''.tar.gz'')"

subsection \<open>The target\<close>

definition package_name :: pystr where "package_name = ''pfSense-pkg-f2bguard''"
definition package_origin :: pystr where "package_origin = ''security/pfSense-pkg-f2bguard''"
definition package_prefix :: pystr where "package_prefix = ''/usr/local''"

definition safe_version :: "pystr \<Rightarrow> bool" where
  "safe_version s = (case s of [] \<Rightarrow> False | c # cs \<Rightarrow> is_dec c \<and> list_all (\<lambda>d. is_alnum d \<or> d \<in> set ''._,+-'') cs)"

definition is_letter :: "char \<Rightarrow> bool" where
  "is_letter c = (is_alnum c \<and> \<not> is_dec c)"

definition safe_abi :: "pystr \<Rightarrow> bool" where
  "safe_abi s =
     (case py_split (CHR '':'') s of
        [os, major, arch] \<Rightarrow>
          (case os of [] \<Rightarrow> False | c # cs \<Rightarrow> is_letter c \<and> list_all (\<lambda>d. is_alnum d \<or> d \<in> set ''_.-'') cs) \<and>
          major \<noteq> [] \<and> list_all is_dec major \<and>
          arch \<noteq> [] \<and> list_all (\<lambda>d. is_alnum d \<or> d \<in> set ''_.*-'') arch
      | _ \<Rightarrow> False)"

definition safe_python :: "pystr \<Rightarrow> bool" where
  "safe_python s = (take 2 s = ''3.'' \<and> list_all is_dec (drop 2 s) \<and> (length s = 3 \<or> length s = 4))"

definition placeholders :: "pystr list" where
  "placeholders = [''%%PKGVERSION%%'', ''%%PYTHON_CMD%%'', ''%%PORTNAME%%'']"

record target =
  tg_abi :: pystr
  tg_python :: pystr
  tg_python_package :: pystr
  tg_sqlite_package :: pystr

definition python_flavor :: "target \<Rightarrow> pystr" where
  "python_flavor t = py_delete ''.'' (tg_python t)"

definition python_command :: "target \<Rightarrow> pystr" where
  "python_command t = ''/usr/local/bin/python'' @ tg_python t"

definition package_abi :: "target \<Rightarrow> pystr result" where
  "package_abi t =
     (case py_split (CHR '':'') (tg_abi t) of
        os # major # _ # _ \<Rightarrow> Inr (os @ '':'' @ major @ '':*'')
      | _ \<Rightarrow> Inl ValueError)"

definition validate_target :: "target \<Rightarrow> unit result" where
  "validate_target t =
     rbind (rguard (safe_abi (tg_abi t) \<and> \<not> contains ''*'' (tg_abi t))
       (BuildError ''--abi must be an exact target ABI such as FreeBSD:16:amd64'')) (\<lambda>_.
     rbind (rguard (safe_python (tg_python t))
       (BuildError ''--python-version must be a major.minor value such as 3.11'')) (\<lambda>_.
     rbind (rguard (safe_version (tg_python_package t))
       (BuildError ''--python-package-version is not a safe package version'')) (\<lambda>_.
     rguard (safe_version (tg_sqlite_package t))
       (BuildError ''--sqlite-package-version is not a safe package version''))))"

subsection \<open>The version of the port\<close>

text \<open>\<open>^PORTVERSION\s*=\s*([^\s#]+)\<close> at a line start: the group and the rest of the text.\<close>

definition match_version :: "pystr \<Rightarrow> (pystr \<times> pystr) option" where
  "match_version s =
     (if \<not> starts_with ''PORTVERSION'' s then None
      else case dropWhile is_space (drop 11 s) of
        [] \<Rightarrow> None
      | c # r \<Rightarrow>
          if c \<noteq> CHR ''='' then None
          else let v = dropWhile is_space r;
                   word = takeWhile (\<lambda>d. \<not> is_space d \<and> d \<noteq> CHR ''#'') v in
            if word = [] then None else Some (word, drop (length word) v))"

lemma match_version_shorter: "match_version s = Some (w, r) \<Longrightarrow> length r < length s"
proof -
  assume m: "match_version s = Some (w, r)"
  then obtain q where q: "dropWhile is_space (drop 11 s) = CHR ''='' # q" "w \<noteq> []" "r = drop (length w) (dropWhile is_space q)"
    by (auto simp: match_version_def Let_def split: if_splits list.splits)
  have "Suc (length q) \<le> length s" using length_dropWhile_le [of is_space "drop 11 s"] q(1) by simp
  moreover have "length r \<le> length q" using length_dropWhile_le [of is_space q] q(3) by simp
  ultimately show ?thesis by simp
qed

text \<open>\<open>re.findall\<close>: the flag says whether the position is the start of a line.\<close>

function find_versions :: "bool \<Rightarrow> pystr \<Rightarrow> pystr list" where
  "find_versions start s =
     (case s of
        [] \<Rightarrow> []
      | c # cs \<Rightarrow>
          (case if start then match_version s else None of
             Some (word, rest) \<Rightarrow> word # find_versions False rest
           | None \<Rightarrow> find_versions (code c = 10) cs))"
  by pat_completeness auto
termination
  by (relation "measure (\<lambda>(start, s). length s)") (auto dest: match_version_shorter split: if_splits)

declare find_versions.simps [simp del]

definition numeric_version :: "pystr \<Rightarrow> bool" where
  "numeric_version s =
     (length (py_split (CHR ''.'') s) = 3 \<and> list_all (\<lambda>w. w \<noteq> [] \<and> list_all is_dec w) (py_split (CHR ''.'') s))"

definition port_version :: "build_env \<Rightarrow> fpath \<Rightarrow> (disk, pystr) action" where
  "port_version env repo =
     sbind (read_text env (repo @ [''pfsense'', ''Makefile''])) (\<lambda>text.
       slift (case find_versions True text of
           [v] \<Rightarrow> (if numeric_version v then Inr v else Inl (BuildError ''pfsense/Makefile must define one numeric PORTVERSION''))
         | _ \<Rightarrow> Inl (BuildError ''pfsense/Makefile must define one numeric PORTVERSION'')))"

subsection \<open>The payload\<close>

definition write_file :: "build_env \<Rightarrow> fpath \<Rightarrow> pystr \<Rightarrow> nat \<Rightarrow> (disk, unit) action" where
  "write_file env p data mode =
     sbind (make_dirs env (butlast p)) (\<lambda>_.
     sbind (write_bytes env p data) (\<lambda>_. change_mode env p mode))"

definition substitute :: "pystr \<Rightarrow> target \<Rightarrow> pystr \<Rightarrow> pystr result" where
  "substitute version t data =
     rbind (encode_ascii version) (\<lambda>v.
     rbind (encode_ascii (python_command t)) (\<lambda>cmd.
     rbind (encode_ascii package_name) (\<lambda>name.
       Inr (py_replace ''%%PORTNAME%%'' name (py_replace ''%%PYTHON_CMD%%'' cmd (py_replace ''%%PKGVERSION%%'' v data))))))"

definition rc_path :: fpath where "rc_path = [''usr'', ''local'', ''etc'', ''rc.d'', ''f2bguard'']"

definition payload_mode :: "fpath \<Rightarrow> nat" where
  "payload_mode rel = (if rel = rc_path then 365 else 420)"

definition port_script :: "pystr \<Rightarrow> bool" where
  "port_script name = (name \<in> set [''pkg-install.in'', ''pkg-deinstall.in''])"

fun stage_sources ::
  "build_env \<Rightarrow> fpath \<Rightarrow> fpath \<Rightarrow> pystr \<Rightarrow> target \<Rightarrow> fpath list \<Rightarrow> (disk, pystr list) action" where
  "stage_sources env base stage version t [] = sret []"
| "stage_sources env base stage version t (source # rest) =
     sbind (is_file env source) (\<lambda>file.
       if \<not> file \<or> port_script (last source) then stage_sources env base stage version t rest
       else let rel = drop (length base) source in
         sbind (read_bytes env source) (\<lambda>b.
         sbind (slift (substitute version t b)) (\<lambda>data.
         sbind (write_file env (stage @ rel) data (payload_mode rel)) (\<lambda>_.
         sbind (stage_sources env base stage version t rest) (\<lambda>paths. sret ((''/'' @ posix rel) # paths))))))"

definition module_dir :: fpath where
  "module_dir = [''usr'', ''local'', ''share'', ''f2bguard'', ''f2bguard'']"

fun stage_modules :: "build_env \<Rightarrow> fpath \<Rightarrow> fpath list \<Rightarrow> (disk, pystr list) action" where
  "stage_modules env stage [] = sret []"
| "stage_modules env stage (source # rest) =
     (let rel = module_dir @ [last source] in
      sbind (read_bytes env source) (\<lambda>b.
      sbind (write_file env (stage @ rel) b 420) (\<lambda>_.
      sbind (stage_modules env stage rest) (\<lambda>paths. sret ((''/'' @ posix rel) # paths)))))"

definition payload :: "build_env \<Rightarrow> fpath \<Rightarrow> fpath \<Rightarrow> pystr \<Rightarrow> target \<Rightarrow> (disk, pystr list) action" where
  "payload env repo stage version t =
     (let base = repo @ [''pfsense'', ''files''] in
      sbind (list_tree env base) (\<lambda>sources.
      sbind (stage_sources env base stage version t sources) (\<lambda>paths.
      sbind (list_py env (repo @ [''src'', ''f2bguard''])) (\<lambda>modules.
      sbind (stage_modules env stage modules) (\<lambda>more. sret (sort (paths @ more)))))))"

subsection \<open>The list of the port\<close>

fun plist_entries :: "pystr \<Rightarrow> pystr list \<Rightarrow> pystr list" where
  "plist_entries base [] = []"
| "plist_entries base (raw # lines) =
     (let line = py_strip raw in
      if line = '''' \<or> starts_with ''#'' line then plist_entries base lines
      else if starts_with ''@cwd '' line
      then plist_entries (py_replace ''%%PREFIX%%'' package_prefix (drop 5 line)) lines
      else if starts_with ''@'' line then plist_entries base lines
      else py_replace ''//'' ''/''
          (py_rstrip_char (CHR ''/'') base @ ''/'' @ dropWhile (\<lambda>c. c = CHR ''/'') line) # plist_entries base lines)"

definition expected_plist :: "build_env \<Rightarrow> fpath \<Rightarrow> (disk, pystr list) action" where
  "expected_plist env repo =
     sbind (read_text env (repo @ [''pfsense'', ''pkg-plist''])) (\<lambda>text.
       sret (sort (plist_entries ''/usr/local'' (py_splitlines text))))"

subsection \<open>The manifest, the script for the target and the check of the stage\<close>

definition script_text :: "pystr \<Rightarrow> pystr" where
  "script_text hook =
     ''#!/bin/sh'' @ nl @ dq @ ''${PKG_ROOTDIR}/usr/local/bin/php'' @ dq @ '' -f '' @ dq @
     ''${PKG_ROOTDIR}/etc/rc.packages'' @ dq @ '' '' @ package_name @ '' '' @ hook @ nl"

definition lifecycle_scripts :: json where
  "lifecycle_scripts = JObj [(''post-install'', JStr (script_text ''POST-INSTALL'')),
     (''pre-deinstall'', JStr (script_text ''DEINSTALL'')),
     (''post-deinstall'', JStr (script_text ''POST-DEINSTALL''))]"

fun total_size :: "build_env \<Rightarrow> fpath \<Rightarrow> pystr list \<Rightarrow> (disk, nat) action" where
  "total_size env stage [] = sret 0"
| "total_size env stage (p # ps) =
     sbind (file_size env (stage @ relative_parts p)) (\<lambda>n.
     sbind (total_size env stage ps) (\<lambda>m. sret (n + m)))"

definition dependency :: "pystr \<Rightarrow> pystr \<Rightarrow> json" where
  "dependency origin version = JObj [(''origin'', JStr origin), (''version'', JStr version)]"

definition manifest :: "build_env \<Rightarrow> fpath \<Rightarrow> fpath \<Rightarrow> pystr list \<Rightarrow> pystr \<Rightarrow> target \<Rightarrow> (disk, json) action" where
  "manifest env repo stage paths version t =
     sbind (total_size env stage paths) (\<lambda>size.
     sbind (read_text env (repo @ [''pfsense'', ''pkg-descr''])) (\<lambda>descr.
     sbind (slift (package_abi t)) (\<lambda>abi.
       let flavor = python_flavor t in
       sret (JObj [
         (''name'', JStr package_name), (''version'', JStr version), (''origin'', JStr package_origin),
         (''comment'', JStr ''pfSense integration for Fail2Ban Guard''), (''desc'', JStr (py_strip descr)),
         (''maintainer'', JStr ''mediaburg@users.noreply.github.com''), (''prefix'', JStr package_prefix),
         (''abi'', JStr abi), (''arch'', JStr (py_lower abi)), (''licenselogic'', JStr ''single''),
         (''licenses'', JArr [JStr ''BSD2CLAUSE'']), (''categories'', JArr [JStr ''security'']),
         (''flatsize'', JInt (int size)),
         (''deps'', JObj [
            (''python'' @ flavor, dependency (''lang/python'' @ flavor) (tg_python_package t)),
            (''py'' @ flavor @ ''-sqlite3'', dependency ''databases/py-sqlite3'' (tg_sqlite_package t))]),
         (''scripts'', lifecycle_scripts)]))))"

definition remote_lines :: "target \<Rightarrow> pystr \<Rightarrow> pystr \<Rightarrow> pystr \<Rightarrow> pystr list" where
  "remote_lines target version flavor expected = [
     ''#!/bin/sh'',
     ''# Run as root on the intended pfSense target. Creates an archive only; never installs it.'',
     ''set -eu'',
     ''bundle=$(CDPATH= cd -- '' @ dq @ ''$(dirname -- '' @ dq @ ''$0'' @ dq @ '')'' @ dq @ '' && pwd)'',
     ''[ '' @ dq @ ''$(uname -s)'' @ dq @ '' = FreeBSD ] || { echo '' @ dq @ ''FreeBSD target required'' @ dq @
      '' >&2; exit 1; }'',
     ''[ '' @ dq @ ''$(pkg config ABI)'' @ dq @ '' = '' @ py_repr (tg_abi target) @ '' ] || { echo '' @ dq @
      ''Target ABI mismatch'' @ dq @ '' >&2; exit 1; }'',
     ''for tool in /bin/sh /bin/cat /bin/ps /usr/bin/grep /usr/bin/logger /bin/kill /bin/mkdir '' @
      ''/usr/sbin/chown /bin/chmod /bin/sleep /bin/rm /usr/sbin/daemon /usr/bin/env /sbin/pfctl '' @
      ''/usr/sbin/service; do'',
     ''    [ -x '' @ dq @ ''$tool'' @ dq @ '' ] || { echo '' @ dq @
      ''Required runtime command is missing or not executable: $tool'' @ dq @ '' >&2; exit 1; }'',
     ''done'',
     ''[ -r /etc/rc.subr ] || { echo '' @ dq @ ''Required rc framework is missing: /etc/rc.subr'' @ dq @
      '' >&2; exit 1; }'',
     ''[ -x /etc/rc.filter_configure_sync ] || { echo '' @ dq @
      ''Required pfSense filter entry point is missing'' @ dq @ '' >&2; exit 1; }'',
     ''[ '' @ dq @ ''$('' @ dq @ python_command target @ dq @ '' -c '' @ sq @ ''import sys; print(f'' @ dq @
      ''{sys.version_info.major}.{sys.version_info.minor}'' @ dq @ '')'' @ sq @ '')'' @ dq @ '' = '' @
      py_repr (tg_python target) @ '' ] || { echo '' @ dq @ ''Python version mismatch'' @ dq @ '' >&2; exit 1; }'',
     dq @ python_command target @ dq @ '' -c '' @ sq @
      ''import hashlib, http.server, ipaddress, json, socket, sqlite3, ssl'' @ sq,
     ''[ '' @ dq @ ''$(pkg query '' @ sq @ ''%v'' @ sq @ '' python'' @ flavor @ '')'' @ dq @ '' = '' @
      py_repr (tg_python_package target) @ '' ] || { echo '' @ dq @ ''python'' @ flavor @
      '' package version mismatch'' @ dq @ '' >&2; exit 1; }'',
     ''[ '' @ dq @ ''$(pkg query '' @ sq @ ''%v'' @ sq @ '' py'' @ flavor @ ''-sqlite3)'' @ dq @ '' = '' @
      py_repr (tg_sqlite_package target) @ '' ] || { echo '' @ dq @ ''py'' @ flavor @
      ''-sqlite3 package version mismatch'' @ dq @ '' >&2; exit 1; }'',
     ''mkdir -p '' @ dq @ ''$bundle/output'' @ dq,
     ''[ ! -e '' @ dq @ ''$bundle/output/'' @ expected @ dq @ '' ] || { echo '' @ dq @
      ''Refusing to overwrite existing package'' @ dq @ '' >&2; exit 1; }'',
     ''pkg create -f txz -m '' @ dq @ ''$bundle/metadata'' @ dq @ '' -r '' @ dq @ ''$bundle/stage'' @ dq @
      '' -p '' @ dq @ ''$bundle/plist'' @ dq @ '' -o '' @ dq @ ''$bundle/output'' @ dq,
     ''package='' @ dq @ ''$bundle/output/'' @ expected @ dq,
     ''[ -f '' @ dq @ ''$package'' @ dq @ '' ] || { echo '' @ dq @
      ''pkg create did not produce expected artifact'' @ dq @ '' >&2; exit 1; }'',
     ''pkg query -F '' @ dq @ ''$package'' @ dq @ '' '' @ sq @ ''%n-%v %q'' @ sq,
     ''sha256 -q '' @ dq @ ''$package'' @ dq,
     ''printf '' @ sq @ ''Created only; package was not installed: %s'',
     sq @ '' '' @ dq @ ''$package'' @ dq]"

definition remote_builder :: "target \<Rightarrow> pystr \<Rightarrow> pystr" where
  "remote_builder target version =
     concat (map (\<lambda>line. line @ nl)
       (remote_lines target version (python_flavor target) (package_name @ ''-'' @ version @ ''.pkg'')))"

definition bundle_file :: "fpath \<Rightarrow> pystr \<Rightarrow> fpath" where
  "bundle_file bundle path = bundle @ [''stage''] @ relative_parts path"

fun check_placeholders :: "build_env \<Rightarrow> fpath \<Rightarrow> pystr list \<Rightarrow> (disk, unit) action" where
  "check_placeholders env bundle [] = sret ()"
| "check_placeholders env bundle (path # paths) =
     sbind (read_bytes env (bundle_file bundle path)) (\<lambda>data.
       if list_ex (\<lambda>m. contains m data) placeholders
       then slift (Inl (BuildError (''unexpanded placeholder in '' @ path)))
       else check_placeholders env bundle paths)"

definition validate_stage :: "build_env \<Rightarrow> fpath \<Rightarrow> fpath \<Rightarrow> pystr list \<Rightarrow> (disk, unit) action" where
  "validate_stage env repo bundle paths =
     sbind (expected_plist env repo) (\<lambda>expected.
     if paths \<noteq> expected
     then slift (Inl (BuildError (''pkg-plist mismatch; missing='' @ list_repr (sorted_diff expected paths) @
       '', extra='' @ list_repr (sorted_diff paths expected))))
     else
       sbind (check_placeholders env bundle paths) (\<lambda>_.
       sbind (read_text env (bundle @ [''stage'', ''usr'', ''local'', ''pkg'', ''f2bguard.inc''])) (\<lambda>integration.
       sbind (read_text env (bundle @ ''stage'' # rc_path)) (\<lambda>rc.
         slift (if \<not> contains (sq @ ''enabled'' @ sq @ '' => false'') integration \<or>
                   \<not> contains (''f2bguard_enable:='' @ dq @ ''NO'' @ dq) rc
                then Inl (BuildError ''package no longer has a verifiable disabled default'')
                else Inr ())))))"

subsection \<open>The archive\<close>

definition tar_prefix :: pystr where "tar_prefix = ''f2bguard-lab-package''"

definition tar_info :: "pystr \<Rightarrow> node \<Rightarrow> pystr \<Rightarrow> tar_entry" where
  "tar_info name n data =
     \<lparr>te_name = name, te_dir = (case n of Dir _ \<Rightarrow> True | File _ _ \<Rightarrow> False),
      te_mode = (case n of Dir m \<Rightarrow> m mod 4096 | File _ m \<Rightarrow> m mod 4096), te_owner = (0, 0),
      te_names = (''root'', ''wheel''), te_mtime = 0, te_data = data\<rparr>"

text \<open>
  The members are written one after the other: after each of them the file holds the stream of those
  written so far, and when a step fails it keeps that part. The last write completes the stream.
\<close>

fun add_members ::
  "build_env \<Rightarrow> fpath \<Rightarrow> fpath \<Rightarrow> tar_entry list \<Rightarrow> fpath list \<Rightarrow> (disk, tar_entry list) action" where
  "add_members env bundle archive added [] = sret added"
| "add_members env bundle archive added (p # ps) =
     sbind (node_info env p) (\<lambda>n.
     sbind (is_file env p) (\<lambda>found.
     sbind (if found then read_bytes env p else sret '''') (\<lambda>data.
       let more = added @ [tar_info (posix (tar_prefix # drop (length bundle) p)) n data] in
       sbind (fill env archive (be_partial env more)) (\<lambda>_. add_members env bundle archive more ps))))"

definition deterministic_archive :: "build_env \<Rightarrow> fpath \<Rightarrow> fpath \<Rightarrow> (disk, unit) action" where
  "deterministic_archive env bundle archive =
     sbind (open_write env archive) (\<lambda>_.
     sbind (list_tree env bundle) (\<lambda>members.
     sbind (add_members env bundle archive [] (sort_key (\<lambda>p. posix (drop (length bundle) p)) members)) (\<lambda>entries.
       fill env archive (be_pack env entries))))"

subsection \<open>The bundle\<close>

text \<open>\<open>json.dumps(value, indent=2, sort_keys=True)\<close>; the number is the current indentation.\<close>

definition indented :: "nat \<Rightarrow> pystr \<Rightarrow> pystr \<Rightarrow> pystr list \<Rightarrow> pystr" where
  "indented n left right items =
     (if items = [] then left @ right
      else left @ nl @ replicate (n + 2) (CHR 0x20) @ py_join ('','' @ nl @ replicate (n + 2) (CHR 0x20)) items @
        nl @ replicate n (CHR 0x20) @ right)"

fun json_pretty :: "nat \<Rightarrow> json \<Rightarrow> pystr" where
  "json_pretty n (JArr xs) = indented n ''['' '']'' (map (json_pretty (n + 2)) xs)"
| "json_pretty n (JObj ps) =
     (let qs = sort_key fst (map (\<lambda>(k, v). (k, json_pretty (n + 2) v)) ps) in
      indented n ''{'' ''}'' (map (\<lambda>(k, t). json_quote k @ '': '' @ t) qs))"
| "json_pretty n v = json_dumps True v"

definition build_details :: "target \<Rightarrow> pystr \<Rightarrow> json result" where
  "build_details t version =
     rbind (package_abi t) (\<lambda>abi. Inr (JObj [
       (''package'', JStr package_name), (''version'', JStr version), (''target_abi'', JStr (tg_abi t)),
       (''package_abi'', JStr abi), (''python_command'', JStr (python_command t)),
       (''python_package_version'', JStr (tg_python_package t)),
       (''sqlite_package_version'', JStr (tg_sqlite_package t)), (''install_performed'', JBool False)]))"

definition plist_text :: "pystr list \<Rightarrow> pystr" where
  "plist_text paths = ''@owner root'' @ nl @ ''@group wheel'' @ nl @ py_join nl paths @ nl"

text \<open>The files beside the stage, the archive and its checksum; the texts are those of \<open>build_steps\<close>.\<close>

definition write_bundle ::
  "build_env \<Rightarrow> fpath \<Rightarrow> pystr \<Rightarrow> pystr \<Rightarrow> pystr \<Rightarrow> pystr result \<Rightarrow> (disk, fpath \<times> fpath) action" where
  "write_bundle env output manifest_text plist script details =
     sbind (write_file env (output @ [''metadata'', ''+MANIFEST'']) manifest_text 420) (\<lambda>_.
     sbind (write_file env (output @ [''plist'']) plist 420) (\<lambda>_.
     sbind (write_file env (output @ [''build-on-pfsense.sh'']) script 365) (\<lambda>_.
     sbind (slift details) (\<lambda>info.
     sbind (write_file env (output @ [''BUILD-INFO.json'']) info 420) (\<lambda>_.
     sbind (slift (archive_path output)) (\<lambda>archive.
     sbind (deterministic_archive env output archive) (\<lambda>_.
     sbind (read_bytes env archive) (\<lambda>packed.
     sbind (slift (encode_ascii (be_sha env packed @ ''  '' @ last archive @ nl))) (\<lambda>line.
     sbind (write_file env (output @ [''STAGING-SHA256'']) line 420) (\<lambda>_.
       sret (output, archive)))))))))))"

definition json_file :: "json \<Rightarrow> pystr" where
  "json_file v = encode_utf8 (json_pretty 0 v @ nl)"

definition build_steps ::
  "build_env \<Rightarrow> fpath \<Rightarrow> fpath \<Rightarrow> target \<Rightarrow> pystr \<Rightarrow> (disk, fpath \<times> fpath) action" where
  "build_steps env repo output t version =
     (let stage = output @ [''stage''] in
      sbind (payload env repo stage version t) (\<lambda>paths.
      sbind (validate_stage env repo output paths) (\<lambda>_.
      sbind (manifest env repo stage paths version t) (\<lambda>m.
        write_bundle env output (json_file m) (encode_utf8 (plist_text paths)) (encode_utf8 (remote_builder t version))
          (rbind (build_details t version) (\<lambda>d. Inr (json_file d)))))))"

definition clean_up :: "build_env \<Rightarrow> fpath \<Rightarrow> exn \<Rightarrow> (disk, 'a) action" where
  "clean_up env output e =
     sbind (path_exists env output) (\<lambda>there.
     sbind (if there then remove_tree env output else sret ()) (\<lambda>_. slift (Inl e)))"

definition output_taken :: "build_env \<Rightarrow> fpath \<Rightarrow> (disk, bool) action" where
  "output_taken env output =
     sbind (path_exists env output) (\<lambda>there.
       if there then sret True
       else sbind (slift (archive_path output)) (\<lambda>archive. path_exists env archive))"

definition build_bundle :: "build_env \<Rightarrow> fpath \<Rightarrow> fpath \<Rightarrow> target \<Rightarrow> (disk, fpath \<times> fpath) action" where
  "build_bundle env repo output t =
     sbind (slift (validate_target t)) (\<lambda>_.
     sbind (output_taken env output) (\<lambda>taken.
     sbind (slift (rguard (\<not> taken) (BuildError (''refusing to overwrite output: /'' @ posix output)))) (\<lambda>_.
     sbind (port_version env repo) (\<lambda>version.
       scatch (build_steps env repo output t version) (clean_up env output)))))"

text \<open>\<open>main\<close>: the exit status; \<open>parser.error\<close> exits with 2.\<close>

definition lab_main :: "build_env \<Rightarrow> fpath \<Rightarrow> fpath \<Rightarrow> target \<Rightarrow> (disk, int) action" where
  "lab_main env repo output t =
     scatch (sbind (build_bundle env repo output t) (\<lambda>_. sret 0))
       (\<lambda>e. slift (Inl (if (case e of BuildError _ \<Rightarrow> True | _ \<Rightarrow> False) \<or> is_OSError e then SystemExit 2 else e)))"

end
