(* ===== verification/BuildContract.thy ===== *)
theory BuildContract
  imports BuildPackage
begin

text \<open>
  What \<open>build_bundle\<close> promises: a validated target fills the generated shell script with plain words only;
  the tool changes nothing outside its output, and leaves no output when it fails; and a bundle that was
  built stages exactly the files of the package list, with every placeholder filled in.
\<close>

subsection \<open>Validated targets\<close>

definition shell_plain :: "char \<Rightarrow> bool" where
  "shell_plain c = (is_alnum c \<or> c \<in> set ''._,+:-'')"

lemma plain_ascii: "shell_plain c \<Longrightarrow> is_ascii c"
  by (auto simp: shell_plain_def is_alnum_def is_dec_def is_ascii_def Let_def code_def)

lemma plain_repr_char: "shell_plain c \<Longrightarrow> repr_char (CHR 0x27) c = [c]"
  by (auto simp: shell_plain_def is_alnum_def is_dec_def repr_char_def Let_def code_def)

lemma plain_repr:
  assumes "list_all shell_plain s"
  shows "py_repr s = sq @ s @ sq"
proof -
  have "CHR 0x27 \<notin> set s" using assms by (auto simp: list_all_iff shell_plain_def is_alnum_def is_dec_def Let_def code_def)
  moreover have "concat (map (repr_char (CHR 0x27)) s) = s"
    using assms by (induction s) (auto simp: plain_repr_char)
  ultimately show ?thesis by (simp add: py_repr_def sq_def Let_def)
qed

lemma dec_plain: "is_dec c \<Longrightarrow> shell_plain c"
  by (simp add: shell_plain_def is_alnum_def Let_def)

lemma safe_version_plain: "safe_version s \<Longrightarrow> list_all shell_plain s"
  by (cases s) (auto simp: safe_version_def list_all_iff shell_plain_def is_alnum_def Let_def)

lemma safe_python_plain: "safe_python s \<Longrightarrow> list_all shell_plain s"
proof -
  assume s: "safe_python s"
  have "list_all shell_plain (take 2 s @ drop 2 s)"
    using s by (auto simp: safe_python_def list_all_iff shell_plain_def is_alnum_def is_dec_def code_def Let_def)
  then show ?thesis by simp
qed

lemma contains_star: "\<not> contains ''*'' s \<Longrightarrow> CHR ''*'' \<notin> set s"
  by (induction s) (auto simp: starts_with_def)

lemma set_py_split: "set s \<subseteq> insert c (\<Union> (set ` set (py_split c s)))"
  using set_py_join [of "[c]" "py_split c s"] unfolding py_join_split by auto

lemma safe_abi_plain:
  assumes "safe_abi s" "CHR ''*'' \<notin> set s"
  shows "list_all shell_plain s" "\<exists>os major arch. py_split (CHR '':'') s = [os, major, arch]"
proof -
  obtain os major arch where p: "py_split (CHR '':'') s = [os, major, arch]"
    using assms(1) by (auto simp: safe_abi_def split: list.splits)
  then show "\<exists>os major arch. py_split (CHR '':'') s = [os, major, arch]" by blast
  have "shell_plain c \<or> c = CHR ''*''" if "c \<in> set os \<union> set major \<union> set arch" for c
    using assms(1) p that
    by (cases os) (auto simp: safe_abi_def list_all_iff shell_plain_def is_letter_def is_alnum_def Let_def)
  then show "list_all shell_plain s"
    using set_py_split [of s "CHR '':''"] assms(2) unfolding p
    by (auto simp: list_all_iff shell_plain_def)
qed

lemma validate_target_Inr:
  assumes "validate_target t = Inr ()"
  shows "safe_abi (tg_abi t)" "CHR ''*'' \<notin> set (tg_abi t)" "safe_python (tg_python t)"
    "safe_version (tg_python_package t)" "safe_version (tg_sqlite_package t)"
  using assms contains_star by (auto simp: validate_target_def rbind_eq_Inr rguard_eq_Inr)

lemma plain_all_ascii: "list_all shell_plain s \<Longrightarrow> all_ascii s"
  by (auto simp: all_ascii_def list_all_iff plain_ascii)

lemma numeric_version_plain: "numeric_version v \<Longrightarrow> list_all shell_plain v"
proof -
  assume "numeric_version v"
  then have "shell_plain c" if "w \<in> set (py_split (CHR ''.'') v)" "c \<in> set w" for w c
    using that dec_plain unfolding numeric_version_def list_all_iff by blast
  then show ?thesis
    using set_py_split [of v "CHR ''.''"] by (fastforce simp: list_all_iff shell_plain_def)
qed

text \<open>
  A target that passes \<open>_validate_target\<close> and a numeric version bring only letters, digits and the
  characters \<open>. _ , + : -\<close> into the generated script, so that \<open>repr\<close> just puts them between single quotes,
  and no value can end a word or a quotation of the shell; and with such a target neither the package ABI
  nor the filling of a file's placeholders can fail.
\<close>

theorem validated_target_is_plain:
  assumes "validate_target t = Inr ()" "numeric_version version"
  shows "(\<forall>v \<in> {tg_abi t, tg_python t, tg_python_package t, tg_sqlite_package t, version}.
      list_all (\<lambda>c. is_alnum c \<or> c \<in> set ''._,+:-'') v \<and> py_repr v = sq @ v @ sq) \<and>
    (\<exists>os major arch. tg_abi t = os @ '':'' @ major @ '':'' @ arch \<and> package_abi t = Inr (os @ '':'' @ major @ '':*'')) \<and>
    (\<exists>filled. substitute version t data = Inr filled)"
proof (intro conjI)
  note v = validate_target_Inr [OF assms(1)]
  have plain: "list_all shell_plain x"
    if "x \<in> {tg_abi t, tg_python t, tg_python_package t, tg_sqlite_package t, version}" for x
    using that v safe_abi_plain(1) safe_python_plain safe_version_plain numeric_version_plain [OF assms(2)] by blast
  then show "\<forall>v \<in> {tg_abi t, tg_python t, tg_python_package t, tg_sqlite_package t, version}.
      list_all (\<lambda>c. is_alnum c \<or> c \<in> set ''._,+:-'') v \<and> py_repr v = sq @ v @ sq"
    using plain_repr by (simp add: shell_plain_def [abs_def])
  have "all_ascii version" "all_ascii (python_command t)"
    using plain plain_all_ascii by (auto simp: python_command_def all_ascii_def is_ascii_def code_def)
  then show "\<exists>filled. substitute version t data = Inr filled"
    by (simp add: substitute_def encode_ascii_def package_name_def all_ascii_def is_ascii_def code_def)
  obtain os major arch where p: "py_split (CHR '':'') (tg_abi t) = [os, major, arch]"
    using safe_abi_plain(2) [OF v(1,2)] by blast
  have "tg_abi t = os @ '':'' @ major @ '':'' @ arch"
    using py_join_split [of "CHR '':''" "tg_abi t"] unfolding p by simp
  with p show "\<exists>os major arch. tg_abi t = os @ '':'' @ major @ '':'' @ arch \<and>
      package_abi t = Inr (os @ '':'' @ major @ '':*'')"
    by (auto simp: package_abi_def)
qed

definition sample_target :: target where
  "sample_target = \<lparr>tg_abi = ''FreeBSD:16:amd64'', tg_python = ''3.11'', tg_python_package = ''3.11.15_3'',
     tg_sqlite_package = ''3.11.15_10''\<rparr>"

lemma sample_target_valid: "validate_target sample_target = Inr ()" "numeric_version ''0.1.7''"
  by code_simp+

lemma validated_target_is_plain_witness:
  "py_repr (tg_abi sample_target) = sq @ ''FreeBSD:16:amd64'' @ sq \<and>
   (\<exists>filled. substitute ''0.1.7'' sample_target ''%%PKGVERSION%%'' = Inr filled)"
  using validated_target_is_plain [OF sample_target_valid, of "''%%PKGVERSION%%''"]
  by (simp add: sample_target_def)

subsection \<open>Nothing outside of the output changes\<close>

definition output_region :: "fpath \<Rightarrow> fpath \<Rightarrow> fpath set" where
  "output_region output archive = {q. strict_prefix output q \<or> q = archive}"

lemma region_below: "output @ x # q \<in> output_region output archive"
  by (simp add: output_region_def strict_prefix_def)

lemma region_parent: "p \<in> A \<Longrightarrow> may_make A (butlast p)"
  unfolding may_make_def using prefixeq_butlast by blast

lemma write_file_confined:
  assumes "p \<in> A" "p \<noteq> []"
  shows "keeps_confined A s (write_file env p data mode)"
  unfolding write_file_def using region_parent assms by (intro keeps_rules) auto

lemma stage_sources_confined:
  assumes "\<And>rel. stage @ rel \<in> A" "stage \<noteq> []"
  shows "keeps_confined A s (stage_sources env base stage version t sources)"
proof (induction sources)
  case (Cons source rest)
  show ?case
    unfolding stage_sources.simps Let_def
    by (intro keeps_rules write_file_confined Cons.IH assms(1)) (use assms(2) in simp)
qed (unfold stage_sources.simps, intro keeps_rules)

lemma stage_modules_confined:
  assumes "\<And>rel. stage @ rel \<in> A" "stage \<noteq> []"
  shows "keeps_confined A s (stage_modules env stage modules)"
proof (induction modules)
  case (Cons source rest)
  show ?case
    unfolding stage_modules.simps Let_def
    by (intro keeps_rules write_file_confined Cons.IH assms(1)) (use assms(2) in simp)
qed (unfold stage_modules.simps, intro keeps_rules)

lemma looks_total_size: "looks (total_size env stage paths)"
proof (induction paths)
  case (Cons p ps)
  show ?case unfolding total_size.simps by (intro looking Cons.IH)
qed (unfold total_size.simps, intro looking)

lemma looks_expected [looking]: "looks (expected_plist env repo)"
  unfolding expected_plist_def by (intro looking)

lemma looks_check [looking]: "looks (check_placeholders env bundle paths)"
proof (induction paths)
  case (Cons p ps)
  show ?case unfolding check_placeholders.simps by (intro looking Cons.IH)
qed (unfold check_placeholders.simps, intro looking)

lemma looks_validate: "looks (validate_stage env repo bundle paths)"
  unfolding validate_stage_def by (intro looking)

lemma looks_manifest: "looks (manifest env repo stage paths version t)"
  unfolding manifest_def Let_def by (intro looking looks_total_size)

lemmas build_reads = looks_total_size looks_expected looks_check looks_validate looks_manifest
lemmas confined_build_reads [keeps_rules] = build_reads [THEN confined_looks]

lemma add_members_confined:
  assumes "archive \<in> A" "archive \<noteq> []"
  shows "keeps_confined A s (add_members env bundle archive added ps)"
proof (induction ps arbitrary: added)
  case (Cons p ps)
  show ?case unfolding add_members.simps Let_def by (intro keeps_rules Cons.IH assms)
qed (unfold add_members.simps, intro keeps_rules)

lemma archive_confined:
  assumes "archive \<in> A" "archive \<noteq> []"
  shows "keeps_confined A s (deterministic_archive env bundle archive)"
  unfolding deterministic_archive_def using assms by (intro keeps_rules add_members_confined)

lemma payload_confined:
  assumes "\<And>rel. stage @ rel \<in> A" "stage \<noteq> []"
  shows "keeps_confined A s (payload env repo stage version t)"
  unfolding payload_def Let_def
  by (intro keeps_rules stage_sources_confined stage_modules_confined assms)

lemma build_steps_confined:
  assumes "output \<noteq> []" "archive_path output = Inr archive"
  shows "keeps_confined (output_region output archive) s (build_steps env repo output t version)"
proof -
  have archive: "archive \<noteq> []" "archive \<in> output_region output archive"
    using assms by (auto simp: archive_path_def with_suffix_def Let_def output_region_def)
  have below: "(output @ [''stage'']) @ q \<in> output_region output archive" for q by (simp add: region_below)
  have bind: "keeps_confined A s (sbind (slift (archive_path output)) f)" if "keeps_confined A s (f archive)"
    for A and f :: "fpath \<Rightarrow> (disk, 'b) action"
    using that by (simp add: assms(2) keeps_def)
  show ?thesis
    unfolding build_steps_def write_bundle_def Let_def
    by (intro keeps_rules bind write_file_confined payload_confined archive_confined archive below region_below) simp_all
qed

text \<open>The clean-up.\<close>

lemma clean_up_tree:
  assumes "clean_up env output e s = (u, r)"
  shows "trimmed output (dk_tree s) (dk_tree u)"
proof -
  obtain w x where q: "path_exists env output s = (w, x)" by fastforce
  then have "dk_tree w = dk_tree s" by (rule looksD [OF looks_ops(1)])
  with assms q show ?thesis
    by (auto simp: clean_up_def sbind_def split: prod.splits sum.splits if_splits dest: remove_tree_trimmed)
qed

text \<open>The clean-up's own calls succeed: the test of the output, and the removal of every node below it.\<close>

definition cleans :: "build_env \<Rightarrow> fpath \<Rightarrow> bool" where
  "cleans env output \<longleftrightarrow> (\<forall>n. \<not> be_fault env n (Query output) \<and> \<not> be_fault env n (RemoveTree output) \<and>
     (\<forall>q. prefix output q \<longrightarrow> \<not> be_fault env n (RemoveNode q)))"

lemma clean_up_removes:
  assumes "clean_up env output e s = (u, r)" "cleans env output"
    "tree_closed (dk_tree s)" "file_at (dk_tree s) output = None" "output \<noteq> []"
  shows "r = Inl e \<and> (prefix output q \<longrightarrow> node_at (dk_tree u) q = None)"
proof -
  let ?w = "s\<lparr>dk_calls := dk_calls s + 1\<rparr>"
  have asked: "path_exists env output s = (?w, Inr (node_at (dk_tree s) output \<noteq> None))"
    using assms(2) by (simp add: path_exists_def disk_op_def cleans_def)
  show ?thesis
  proof (cases "node_at (dk_tree s) output")
    case None
    then have "node_at (dk_tree s) q = None" if "prefix output q" using closed_below [OF assms(3) that] by blast
    with None assms(1) asked show ?thesis by (auto simp: clean_up_def sbind_def)
  next
    case (Some n)
    then obtain m where "node_at (dk_tree ?w) output = Some (Dir m)" using assms(4) by (cases n) (auto simp: file_at_def)
    from remove_tree_removes [OF this assms(5)] assms(2) obtain t where
        "remove_tree env output ?w = (t, Inr ())" "\<forall>q. prefix output q \<longrightarrow> node_at (dk_tree t) q = None"
      unfolding cleans_def by blast
    with Some assms(1) asked show ?thesis by (auto simp: clean_up_def sbind_def)
  qed
qed

lemma port_version_looks: "looks (port_version env repo)"
  unfolding port_version_def by (intro looking)

lemma output_taken_looks: "looks (output_taken env output)"
  unfolding output_taken_def by (intro looking)

lemma output_taken_False:
  assumes "output_taken env output s = (u, Inr False)"
  shows "node_at (dk_tree s) output = None"
    "\<exists>archive. archive_path output = Inr archive \<and> node_at (dk_tree s) archive = None"
proof -
  from assms obtain v archive where v: "path_exists env output s = (v, Inr False)" "archive_path output = Inr archive"
      "path_exists env archive v = (u, Inr False)"
    by (auto simp: output_taken_def sbind_Inr split: if_splits)
  from v(1) have "dk_tree v = dk_tree s" by (rule looksD [OF looks_ops(1)])
  with path_exists_Inr [OF v(1)] path_exists_Inr [OF v(3)] v(2)
  show "node_at (dk_tree s) output = None"
    "\<exists>archive. archive_path output = Inr archive \<and> node_at (dk_tree s) archive = None" by auto
qed

text \<open>The steps before the first write only look.\<close>

definition build_checks :: "build_env \<Rightarrow> fpath \<Rightarrow> fpath \<Rightarrow> target \<Rightarrow> (disk, pystr) action" where
  "build_checks env repo output t =
     sbind (slift (validate_target t)) (\<lambda>_.
     sbind (output_taken env output) (\<lambda>taken.
     sbind (slift (rguard (\<not> taken) (BuildError (''refusing to overwrite output: /'' @ posix output)))) (\<lambda>_.
     port_version env repo)))"

lemma build_bundle_checks:
  "build_bundle env repo output t =
     sbind (build_checks env repo output t)
       (\<lambda>version. scatch (build_steps env repo output t version) (clean_up env output))"
  by (auto simp: build_bundle_def build_checks_def sbind_def fun_eq_iff split: prod.splits sum.splits)

lemma build_checks_looks: "looks (build_checks env repo output t)"
  unfolding build_checks_def by (intro looking output_taken_looks port_version_looks)

lemma build_checks_Inr:
  assumes "build_checks env repo output t s = (u, Inr version)"
  shows "validate_target t = Inr ()" "node_at (dk_tree s) output = None"
    "\<exists>archive. archive_path output = Inr archive \<and> node_at (dk_tree s) archive = None"
    "\<exists>w v. port_version env repo w = (v, Inr version) \<and> dk_tree w = dk_tree s"
proof -
  from assms obtain w v where w: "validate_target t = Inr ()" "output_taken env output s = (w, Inr False)"
      "port_version env repo w = (v, Inr version)"
    by (auto simp: build_checks_def sbind_Inr rguard_eq_Inr)
  show "validate_target t = Inr ()" by (fact w(1))
  show "node_at (dk_tree s) output = None"
    "\<exists>archive. archive_path output = Inr archive \<and> node_at (dk_tree s) archive = None"
    using output_taken_False [OF w(2)] by blast+
  show "\<exists>w v. port_version env repo w = (v, Inr version) \<and> dk_tree w = dk_tree s"
    using w(3) looksD [OF output_taken_looks w(2)] by blast
qed

lemma path_suffix_suffix: "\<exists>a. name = a @ path_suffix name"
proof (cases "path_suffix name = ''''")
  case False
  let ?t = "takeWhile (\<lambda>c. c \<noteq> CHR ''.'') (rev name)"
  have s: "path_suffix name = CHR ''.'' # rev ?t" "length ?t + 1 < length name"
    using False by (auto simp: path_suffix_def Let_def split: if_splits)
  have "dropWhile (\<lambda>c. c \<noteq> CHR ''.'') (rev name) \<noteq> []"
    using s(2) by (metis add_lessD1 append_Nil2 length_rev less_irrefl takeWhile_dropWhile_id)
  then obtain d r where d: "dropWhile (\<lambda>c. c \<noteq> CHR ''.'') (rev name) = d # r"
    by (cases "dropWhile (\<lambda>c. c \<noteq> CHR ''.'') (rev name)") auto
  moreover have "d = CHR ''.''"
    using hd_dropWhile [of "\<lambda>c. c \<noteq> CHR ''.''" "rev name"] d by simp
  ultimately have "rev name = ?t @ CHR ''.'' # r" by (metis takeWhile_dropWhile_id)
  then have "name = rev r @ path_suffix name"
    unfolding s(1) by (metis append_Cons append_Nil append_assoc rev.simps(2) rev_append rev_rev_ident)
  then show ?thesis ..
qed simp

lemma archive_path_eq:
  assumes "output \<noteq> []"
  shows "archive_path output = Inr (butlast output @ [last output @ ''.tar.gz''])"
proof -
  obtain a where a: "last output = a @ path_suffix (last output)" using path_suffix_suffix by blast
  have "take (length (last output) - length (path_suffix (last output))) (last output) @ path_suffix (last output) = last output"
    by (metis a append_eq_conv_conj append_take_drop_id diff_add_inverse2 length_append)
  with assms show ?thesis by (simp add: archive_path_def with_suffix_def Let_def flip: append_assoc)
qed

lemma archive_shape:
  assumes "archive_path output = Inr archive" "output \<noteq> []"
  shows "archive \<noteq> output" "\<not> prefix output archive" "strict_prefix q archive \<longleftrightarrow> strict_prefix q output"
proof -
  have a: "archive = butlast output @ [last output @ ''.tar.gz'']" using assms archive_path_eq by simp
  have o: "output = butlast output @ [last output]" using assms(2) by simp
  show ne: "archive \<noteq> output" unfolding a by (subst o) simp
  have "length archive = length output" using a o by (metis length_append_singleton)
  then show "\<not> prefix output archive" using ne by (metis not_equal_is_parallel parallelD1)
  have "strict_prefix q (p @ [x]) \<longleftrightarrow> prefix q p" for p and x :: pystr
    by (auto simp: strict_prefix_def)
  then show "strict_prefix q archive \<longleftrightarrow> strict_prefix q output" by (metis a o)
qed

text \<open>
  Steps that are confined to a region below the output (and beside it), followed by the clean-up if they
  raise: nothing else changes, and after a failure nothing is left at or below the output, provided that
  the clean-up's own calls succeed.
\<close>

lemma kept_output:
  assumes "keeps_confined A (dk_tree v) steps" "tree_closed (dk_tree v)" "node_at (dk_tree v) output = None" "output \<noteq> []"
    "output \<notin> A" "\<And>q a. a \<in> A \<Longrightarrow> strict_prefix q a \<Longrightarrow> prefix output q \<or> strict_prefix q output"
    "scatch steps (clean_up env output) v = (u, r)"
  shows "(\<forall>q. \<not> prefix output q \<and> q \<notin> A \<longrightarrow>
      node_at (dk_tree u) q = node_at (dk_tree v) q \<or>
      node_at (dk_tree v) q = None \<and> strict_prefix q output \<and> (\<exists>m. node_at (dk_tree u) q = Some (Dir m))) \<and>
    (isl r \<and> cleans env output \<longrightarrow> (\<forall>q. prefix output q \<longrightarrow> node_at (dk_tree u) q = None))"
proof -
  obtain w x where steps: "steps v = (w, x)" by fastforce
  have c: "confined A (dk_tree v) (dk_tree w)"
    using keepsD [OF assms(1) confined_refl steps] assms(2) by blast
  have at: "node_at (dk_tree w) q = node_at (dk_tree v) q \<or>
      node_at (dk_tree v) q = None \<and> strict_prefix q output \<and> (\<exists>m. node_at (dk_tree w) q = Some (Dir m))"
    if "\<not> prefix output q" "q \<notin> A" for q
    using c that assms(6) unfolding confined_def by blast
  have no_file: "file_at (dk_tree w) output = None"
    using c assms(3,5) by (auto simp: confined_def file_at_def split: option.splits node.splits)
  show ?thesis
  proof (cases x)
    case (Inr y)
    with assms(7) steps have "u = w" "r = Inr y" by (simp_all add: scatch_def)
    with at show ?thesis by simp
  next
    case (Inl e)
    with assms(7) steps have clean: "clean_up env output e w = (u, r)" by (simp add: scatch_def)
    have "tree_closed (dk_tree w)" using c by (simp add: confined_def)
    from clean_up_removes [OF clean _ this no_file assms(4)]
    have gone: "cleans env output \<Longrightarrow> prefix output q \<Longrightarrow> node_at (dk_tree u) q = None" for q by blast
    moreover have "node_at (dk_tree u) q = node_at (dk_tree w) q" if "\<not> prefix output q" for q
      using clean_up_tree [OF clean] that unfolding trimmed_def by blast
    ultimately show ?thesis using at by simp
  qed
qed

text \<open>
  C38. Whatever fails on the way, the removals of the clean-up included, \<open>build_bundle\<close> changes nothing
  outside of its output directory and the archive beside it, except that it may create the missing
  directories above them: the sources of the repository and all other files stay as they are. When it
  raises, and the clean-up's own calls do not fail, either nothing has changed at all or nothing is left at
  or below the output path.
\<close>

theorem build_bundle_leaves:
  assumes "tree_ok (dk_tree s)" "output \<noteq> []" "archive_path output = Inr archive"
    "build_bundle env repo output t s = (u, r)"
  shows "(\<forall>q. \<not> prefix output q \<and> q \<noteq> archive \<longrightarrow>
      node_at (dk_tree u) q = node_at (dk_tree s) q \<or>
      node_at (dk_tree s) q = None \<and> strict_prefix q output \<and> (\<exists>m. node_at (dk_tree u) q = Some (Dir m))) \<and>
    (isl r \<and> cleans env output \<longrightarrow> dk_tree u = dk_tree s \<or> (\<forall>q. prefix output q \<longrightarrow> node_at (dk_tree u) q = None))"
proof -
  obtain v c where checks: "build_checks env repo output t s = (v, c)" by fastforce
  then have v: "dk_tree v = dk_tree s" by (rule looksD [OF build_checks_looks])
  show ?thesis
  proof (cases c)
    case (Inl e)
    with assms(4) checks v show ?thesis by (auto simp: build_bundle_checks sbind_def)
  next
    case (Inr version)
    have run: "scatch (build_steps env repo output t version) (clean_up env output) v = (u, r)"
      using assms(4) checks Inr by (simp add: build_bundle_checks sbind_def)
    have "tree_closed (dk_tree v)" "node_at (dk_tree v) output = None"
      unfolding v using tree_ok_closed [OF assms(1)] build_checks_Inr(2) [OF checks [unfolded Inr]] by blast+
    note none = this and shape = archive_shape [OF assms(3,2)]
    have "output \<notin> output_region output archive" using shape(1) by (auto simp: output_region_def)
    moreover have "prefix output q \<or> strict_prefix q output"
      if "a \<in> output_region output archive" "strict_prefix q a" for q a
    proof (cases "a = archive")
      case False
      with that have "prefix output a" "prefix q a" by (auto simp: output_region_def strict_prefix_def)
      then show ?thesis using prefix_same_cases by (auto simp: strict_prefix_def)
    qed (use that(2) shape(3) in simp)
    ultimately have "(\<forall>q. \<not> prefix output q \<and> q \<notin> output_region output archive \<longrightarrow>
        node_at (dk_tree u) q = node_at (dk_tree v) q \<or>
        node_at (dk_tree v) q = None \<and> strict_prefix q output \<and> (\<exists>m. node_at (dk_tree u) q = Some (Dir m))) \<and>
      (isl r \<and> cleans env output \<longrightarrow> (\<forall>q. prefix output q \<longrightarrow> node_at (dk_tree u) q = None))"
      by (rule kept_output [OF build_steps_confined [OF assms(2,3)] none assms(2) _ _ run])
    then show ?thesis unfolding v output_region_def strict_prefix_def by blast
  qed
qed

subsection \<open>What a bundle contains\<close>

text \<open>The file a path of the stage holds, given the repository's tree.\<close>

text \<open>
  The contents with the version, the interpreter of the target and the name of the package in the places of
  the three placeholders, in this order; the mode is 0555 for the rc script and 0644 for any other file.
\<close>

definition filled_in :: "pystr \<Rightarrow> pystr \<Rightarrow> pystr \<Rightarrow> pystr" where
  "filled_in version python b =
     py_replace ''%%PORTNAME%%'' ''pfSense-pkg-f2bguard''
       (py_replace ''%%PYTHON_CMD%%'' (''/usr/local/bin/python'' @ python)
         (py_replace ''%%PKGVERSION%%'' version b))"

definition staged_mode :: "fpath \<Rightarrow> nat" where
  "staged_mode rel = (if rel = [''usr'', ''local'', ''etc'', ''rc.d'', ''f2bguard''] then 5 * 64 + 5 * 8 + 5 else 6 * 64 + 4 * 8 + 4)"

definition payload_file :: "tree \<Rightarrow> fpath \<Rightarrow> pystr \<Rightarrow> target \<Rightarrow> fpath \<Rightarrow> (pystr \<times> nat) option" where
  "payload_file tr base version t rel =
     (case file_at tr (base @ rel) of
        Some (b, _) \<Rightarrow>
          if rel = [] \<or> last rel = ''pkg-install.in'' \<or> last rel = ''pkg-deinstall.in'' then None
          else Some (filled_in version (tg_python t) b, staged_mode rel)
      | None \<Rightarrow> None)"

lemma substitute_Inr: "substitute version t b = Inr data \<Longrightarrow> data = filled_in version (tg_python t) b"
  by (auto simp: substitute_def filled_in_def result_simps encode_ascii_def package_name_def python_command_def
      split: if_splits)

lemma payload_mode: "payload_mode rel = staged_mode rel"
  by (simp add: payload_mode_def staged_mode_def rc_path_def)

definition module_file :: "tree \<Rightarrow> fpath \<Rightarrow> fpath \<Rightarrow> (pystr \<times> nat) option" where
  "module_file tr dir rel =
     (if rel \<noteq> [] \<and> butlast rel = module_dir \<and> ends_with ''.py'' (last rel)
      then map_option (\<lambda>(b, _). (b, 420)) (file_at tr (dir @ [last rel])) else None)"

definition staged_file :: "tree \<Rightarrow> fpath \<Rightarrow> pystr \<Rightarrow> target \<Rightarrow> fpath \<Rightarrow> (pystr \<times> nat) option" where
  "staged_file tr repo version t rel =
     (case module_file tr (repo @ [''src'', ''f2bguard'']) rel of
        Some x \<Rightarrow> Some x
      | None \<Rightarrow> payload_file tr (repo @ [''pfsense'', ''files'']) version t rel)"

lemma write_file_Inr:
  assumes "write_file env p data mode s = (t, Inr ())" "p \<noteq> []"
  shows "file_at (dk_tree t) = (file_at (dk_tree s))(p := Some (data, mode))"
proof -
  obtain v w where v: "make_dirs env (butlast p) s = (v, Inr ())" "write_bytes env p data v = (w, Inr ())"
      "change_mode env p mode w = (t, Inr ())"
    using assms(1) by (auto simp: write_file_def sbind_Inr)
  from write_bytes_Inr [OF v(2) assms(2)] obtain m where
    w: "file_at (dk_tree w) = (file_at (dk_tree v))(p := Some (data, m))" by blast
  then have "file_at (dk_tree w) p = Some (data, m)" by simp
  from change_mode_file [OF v(3) this assms(2)] w make_dirs_files [OF v(1)] show ?thesis by simp
qed

lemma looked: "looks m \<Longrightarrow> m s = (t, r) \<Longrightarrow> file_at (dk_tree t) = file_at (dk_tree s)"
  by (simp add: looksD)

text \<open>Outside of the stage the loops leave the files alone; inside they add the file of every source.\<close>

definition staging :: "fpath \<Rightarrow> (fpath \<Rightarrow> (pystr \<times> nat) option) \<Rightarrow> fpath set \<Rightarrow> disk \<Rightarrow> disk \<Rightarrow> bool" where
  "staging stage g D s t \<longleftrightarrow>
     (\<forall>q. \<not> prefix stage q \<longrightarrow> file_at (dk_tree t) q = file_at (dk_tree s) q) \<and>
     (\<forall>rel. file_at (dk_tree t) (stage @ rel) = (if rel \<in> D then g rel else file_at (dk_tree s) (stage @ rel)))"

lemma staging_refl: "staging stage g {} s s"
  by (simp add: staging_def)

lemma staging_same: "file_at (dk_tree t) = file_at (dk_tree s) \<Longrightarrow> staging stage g {} s t"
  by (simp add: staging_def)

lemma staging_trans: "staging stage g D s t \<Longrightarrow> staging stage g E t u \<Longrightarrow> staging stage g (D \<union> E) s u"
  by (simp add: staging_def)

lemma staging_write:
  assumes "write_file env (stage @ rel) data mode s = (t, Inr ())" "stage \<noteq> []" "g rel = Some (data, mode)"
  shows "staging stage g {rel} s t"
  using write_file_Inr [OF assms(1)] assms(2,3) by (auto simp: staging_def)

lemma stage_sources_Inr:
  assumes "stage_sources env base stage version t sources s = (u, Inr paths)" "stage \<noteq> []"
    "\<And>q. q \<in> set sources \<Longrightarrow> strict_prefix base q \<and> \<not> prefix stage q"
    "\<And>q. q \<in> set sources \<Longrightarrow> file_at (dk_tree s) q = file_at tr q"
  shows "\<exists>rels. paths = map (\<lambda>rel. ''/'' @ posix rel) rels \<and>
    set rels = {rel. base @ rel \<in> set sources \<and> payload_file tr base version t rel \<noteq> None} \<and>
    staging stage (payload_file tr base version t) (set rels) s u"
  using assms(1,3,4)
proof (induction sources arbitrary: s paths)
  case Nil
  then show ?case by (intro exI [of _ "[]"]) (auto simp: staging_def)
next
  case (Cons source rest)
  let ?g = "payload_file tr base version t"
  from Cons.prems(2) [of source] obtain rel where rel: "source = base @ rel" "rel \<noteq> []"
    by (auto simp: strict_prefix_def elim: prefixE)
  have drop: "drop (length base) source = rel" by (simp add: rel)
  obtain v found where v: "is_file env source s = (v, Inr found)"
    using Cons.prems(1) by (auto simp: sbind_Inr)
  note found = is_file_Inr [OF v] Cons.prems(3) [of source]
  note same = looked [OF looks_ops(2) v]
  show ?case
  proof (cases "\<not> found \<or> port_script (last source)")
    case True
    with Cons.prems(1) v have "stage_sources env base stage version t rest v = (u, Inr paths)" by (auto simp: sbind_def)
    from Cons.IH [OF this] Cons.prems(2,3) same obtain rels where IH: "paths = map (\<lambda>rel. ''/'' @ posix rel) rels"
        "set rels = {rel. base @ rel \<in> set rest \<and> ?g rel \<noteq> None}" "staging stage ?g (set rels) v u"
      by auto
    have "?g rel = None" using True found rel by (auto simp: payload_file_def port_script_def split: option.splits)
    then have "set rels = {rel. base @ rel \<in> set (source # rest) \<and> ?g rel \<noteq> None}" using IH(2) rel(1) by auto
    moreover have "staging stage ?g (set rels) s u" using staging_trans [OF staging_same [OF same] IH(3)] by simp
    ultimately show ?thesis using IH(1) by blast
  next
    case False
    with Cons.prems(1) v drop obtain w b data x y more where w: "read_bytes env source v = (w, Inr b)"
        "substitute version t b = Inr data" "write_file env (stage @ rel) data (payload_mode rel) w = (x, Inr ())"
        "stage_sources env base stage version t rest x = (u, Inr more)" "paths = (''/'' @ posix rel) # more"
      by (auto simp: sbind_Inr Let_def)
    from read_bytes_Inr [OF w(1)] same found obtain m where "file_at tr source = Some (b, m)" by auto
    then have g: "?g rel = Some (data, payload_mode rel)"
      using False substitute_Inr [OF w(2)] rel by (simp add: payload_file_def port_script_def payload_mode)
    have files: "file_at (dk_tree w) = file_at (dk_tree s)" using looked [OF looks_ops(4) w(1)] same by simp
    have written: "staging stage ?g {rel} w x" by (rule staging_write [where rel = rel and g = ?g, OF w(3) assms(2) g])
    have "file_at (dk_tree x) q = file_at tr q" if "q \<in> set rest" for q
      using written that Cons.prems(2,3) [of q] files by (simp add: staging_def)
    from Cons.IH [OF w(4) _ this] Cons.prems(2) obtain rels where IH: "more = map (\<lambda>rel. ''/'' @ posix rel) rels"
        "set rels = {rel. base @ rel \<in> set rest \<and> ?g rel \<noteq> None}" "staging stage ?g (set rels) x u"
      by auto
    have "set (rel # rels) = {rel. base @ rel \<in> set (source # rest) \<and> ?g rel \<noteq> None}"
      using IH(2) g rel(1) by auto
    moreover have "staging stage ?g (set (rel # rels)) s u"
      using staging_trans [OF staging_trans [OF staging_same [OF files] written] IH(3)] by simp
    ultimately show ?thesis using IH(1) w(5) by (intro exI [of _ "rel # rels"]) simp
  qed
qed

lemma stage_modules_Inr:
  assumes "stage_modules env stage modules s = (u, Inr paths)" "stage \<noteq> []"
    "\<And>q. q \<in> set modules \<Longrightarrow> q \<noteq> [] \<and> butlast q = dir \<and> ends_with ''.py'' (last q) \<and> \<not> prefix stage q"
    "\<And>q. q \<in> set modules \<Longrightarrow> file_at (dk_tree s) q = file_at tr q"
  shows "\<exists>rels. paths = map (\<lambda>rel. ''/'' @ posix rel) rels \<and>
    set rels = {rel. rel \<noteq> [] \<and> dir @ [last rel] \<in> set modules \<and> module_file tr dir rel \<noteq> None} \<and>
    staging stage (module_file tr dir) (set rels) s u"
  using assms(1,3,4)
proof (induction modules arbitrary: s paths)
  case Nil
  then show ?case by (intro exI [of _ "[]"]) (auto simp: staging_def)
next
  case (Cons source rest)
  let ?g = "module_file tr dir" and ?rel = "module_dir @ [last source]"
  have source: "source = dir @ [last source]" using Cons.prems(2) [of source] by (metis append_butlast_last_id list.set_intros(1))
  obtain w b x more where w: "read_bytes env source s = (w, Inr b)" "write_file env (stage @ ?rel) b 420 w = (x, Inr ())"
      "stage_modules env stage rest x = (u, Inr more)" "paths = (''/'' @ posix ?rel) # more"
    using Cons.prems(1) by (auto simp: sbind_Inr Let_def)
  from read_bytes_Inr [OF w(1)] Cons.prems(3) [of source] obtain m where "file_at tr source = Some (b, m)" by auto
  then have g: "?g ?rel = Some (b, 420)"
    using Cons.prems(2) [of source] source by (simp add: module_file_def)
  note files = looked [OF looks_ops(4) w(1)]
  have written: "staging stage ?g {?rel} w x" by (rule staging_write [where rel = ?rel and g = ?g, OF w(2) assms(2) g])
  have "file_at (dk_tree x) q = file_at tr q" if "q \<in> set rest" for q
    using written that Cons.prems(2,3) [of q] files by (simp add: staging_def)
  from Cons.IH [OF w(3) _ this] Cons.prems(2) obtain rels where IH: "more = map (\<lambda>rel. ''/'' @ posix rel) rels"
      "set rels = {rel. rel \<noteq> [] \<and> dir @ [last rel] \<in> set rest \<and> ?g rel \<noteq> None}" "staging stage ?g (set rels) x u"
    by auto
  have "rel = ?rel" if "rel \<noteq> []" "dir @ [last rel] = source" "?g rel \<noteq> None" for rel
    using that source unfolding module_file_def by (metis append_butlast_last_id last_snoc)
  then have "set (?rel # rels) = {rel. rel \<noteq> [] \<and> dir @ [last rel] \<in> set (source # rest) \<and> ?g rel \<noteq> None}"
    using IH(2) g source by auto
  moreover have "staging stage ?g (set (?rel # rels)) s u"
    using staging_trans [OF staging_trans [OF staging_same [OF files] written] IH(3)] by simp
  ultimately show ?case using IH(1) w(4) by (intro exI [of _ "?rel # rels"]) simp
qed

text \<open>The payload.\<close>

lemma in_py_files:
  "d @ [n] \<in> {q. strict_prefix d q \<and> node_at tr q \<noteq> None \<and> butlast q = d \<and> E (last q)} \<longleftrightarrow> node_at tr (d @ [n]) \<noteq> None \<and> E n"
  by (auto simp: strict_prefix_def)

lemma file_node: "file_at tr q \<noteq> None \<Longrightarrow> node_at tr q \<noteq> None"
  by (auto simp: file_at_def split: option.splits)

lemma stage_not_above_module:
  assumes "prefix (output @ [''stage'']) (repo @ [''src'', ''f2bguard'', n])" "ends_with ''.py'' n"
  shows "prefix (output @ [''stage'']) repo"
proof -
  have "n \<noteq> ''stage''" using assms(2) by (auto simp: ends_with_def)
  have "prefix (output @ [''stage'']) (((repo @ [''src'']) @ [''f2bguard'']) @ [n])" using assms(1) by simp
  then show ?thesis using \<open>n \<noteq> ''stage''\<close> unfolding prefix_snoc by auto
qed

lemma payload_Inr:
  assumes "payload env repo stage version t s = (u, Inr paths)" "stage = output @ [''stage'']"
    "\<And>rel. node_at (dk_tree s) (stage @ rel) = None" "\<not> prefix stage repo"
  shows "\<exists>rels. paths = sort (map (\<lambda>rel. ''/'' @ posix rel) rels) \<and>
    set rels = {rel. staged_file (dk_tree s) repo version t rel \<noteq> None} \<and>
    staging stage (staged_file (dk_tree s) repo version t) UNIV s u"
proof -
  let ?tr = "dk_tree s" and ?base = "repo @ [''pfsense'', ''files'']" and ?dir = "repo @ [''src'', ''f2bguard'']"
  let ?g = "payload_file ?tr ?base version t" and ?h = "module_file ?tr ?dir"
  have "stage \<noteq> []" using assms(2) by simp
  obtain v sources w ps x modules qs where run: "list_tree env ?base s = (v, Inr sources)"
      "stage_sources env ?base stage version t sources v = (w, Inr ps)" "list_py env ?dir w = (x, Inr modules)"
      "stage_modules env stage modules x = (u, Inr qs)" "paths = sort (ps @ qs)"
    using assms(1) by (auto simp: payload_def Let_def sbind_Inr)
  note v = looksD [OF looks_ops(5) run(1)] and x = looksD [OF looks_ops(6) run(3)]
  have sources: "set sources = {q. strict_prefix ?base q \<and> node_at ?tr q \<noteq> None}"
    using list_tree_Inr [OF run(1)] by (simp add: descendants_set)
  have outside: "\<not> prefix stage q" if "node_at ?tr q \<noteq> None" for q
    using that assms(3) by (auto elim: prefixE)
  obtain rs where rs: "ps = map (\<lambda>rel. ''/'' @ posix rel) rs"
      "set rs = {rel. ?base @ rel \<in> set sources \<and> ?g rel \<noteq> None}" "staging stage ?g (set rs) v w"
    using stage_sources_Inr [OF run(2) \<open>stage \<noteq> []\<close>, of ?tr] sources outside v by auto
  have "?base @ rel \<in> set sources" if "?g rel \<noteq> None" for rel
  proof -
    from that have "rel \<noteq> []" "file_at ?tr (?base @ rel) \<noteq> None"
      by (auto simp: payload_file_def split: option.splits if_splits)
    then show ?thesis unfolding sources strict_prefix_def using file_node by simp
  qed
  then have rs': "set rs = {rel. ?g rel \<noteq> None}" unfolding rs(2) by blast
  have apart: "\<not> prefix stage (?dir @ [n])" if "ends_with ''.py'' n" for n
    using stage_not_above_module [of "output" "repo" "n"] assms(2,4) that by auto
  have modules: "set modules = {q. strict_prefix ?dir q \<and> node_at (dk_tree w) q \<noteq> None \<and> butlast q = ?dir \<and> ends_with ''.py'' (last q)}"
    using list_py_Inr [OF run(3)] by (auto simp: py_files_def descendants_set)
  have same: "file_at (dk_tree w) q = file_at ?tr q" if "\<not> prefix stage q" for q
    using rs(3) that v by (simp add: staging_def)
  have each: "q \<noteq> [] \<and> butlast q = ?dir \<and> ends_with ''.py'' (last q) \<and> \<not> prefix stage q" if "q \<in> set modules" for q
  proof -
    from that have q: "q \<noteq> []" "butlast q = ?dir" "ends_with ''.py'' (last q)"
      unfolding modules by (auto simp: strict_prefix_def)
    have "?dir @ [last q] = q" using append_butlast_last_id [OF q(1)] unfolding q(2) .
    with apart [OF q(3)] have "\<not> prefix stage q" by (simp only: simp_thms)
    with q show ?thesis by blast
  qed
  obtain ms where ms: "qs = map (\<lambda>rel. ''/'' @ posix rel) ms"
      "set ms = {rel. rel \<noteq> [] \<and> ?dir @ [last rel] \<in> set modules \<and> ?h rel \<noteq> None}" "staging stage ?h (set ms) x u"
    using stage_modules_Inr [OF run(4) \<open>stage \<noteq> []\<close>, of ?dir ?tr] each same x by auto
  have "?dir @ [last rel] \<in> set modules \<and> rel \<noteq> []" if "?h rel \<noteq> None" for rel
  proof -
    from that have r: "rel \<noteq> []" "ends_with ''.py'' (last rel)" "file_at ?tr (?dir @ [last rel]) \<noteq> None"
      by (auto simp: module_file_def split: if_splits)
    with same [OF apart] have "file_at (dk_tree w) (?dir @ [last rel]) \<noteq> None" by simp
    then have "node_at (dk_tree w) (?dir @ [last rel]) \<noteq> None" by (rule file_node)
    with r show ?thesis unfolding modules in_py_files by blast
  qed
  then have ms': "set ms = {rel. ?h rel \<noteq> None}" using ms(2) by auto
  have all: "staged_file ?tr repo version t rel = (if rel \<in> set ms then ?h rel else if rel \<in> set rs then ?g rel else None)" for rel
    unfolding ms' rs' by (cases "?h rel"; cases "?g rel") (simp_all add: staged_file_def)
  have empty: "file_at ?tr (stage @ rel) = None" for rel using assms(3) by (simp add: file_at_def)
  have files: "file_at (dk_tree v) = file_at ?tr" "file_at (dk_tree x) = file_at (dk_tree w)" using v x by simp_all
  have "staging stage (staged_file ?tr repo version t) UNIV s u"
    using rs(3) ms(3) unfolding staging_def all files by (simp add: empty)
  moreover have "set (rs @ ms) = {rel. staged_file ?tr repo version t rel \<noteq> None}"
    unfolding set_append ms' rs' by (auto simp: staged_file_def split: option.splits)
  ultimately show ?thesis using run(5) rs(1) ms(1) by (intro exI [of _ "rs @ ms"]) simp
qed

text \<open>The path of a staged file is read back from its text.\<close>

lemma relative_parts_posix:
  assumes "list_all good_name rel"
  shows "relative_parts (''/'' @ posix rel) = rel"
proof (cases rel)
  case Nil
  then show ?thesis by (simp add: relative_parts_def posix_def path_parts_def)
next
  case (Cons n ns)
  then have n: "n \<noteq> []" "CHR ''/'' \<notin> set n" using assms by (auto simp: good_name_def)
  have "posix rel = hd n # tl n @ (case ns of [] \<Rightarrow> [] | _ \<Rightarrow> ''/'' @ posix ns)"
    using n(1) unfolding Cons posix_def by (cases ns) (simp_all add: hd_append)
  then have "dropWhile (\<lambda>c. c = CHR ''/'') (''/'' @ posix rel) = posix rel"
    using n by (cases n) auto
  moreover have "py_split (CHR ''/'') (posix rel) = rel"
    unfolding posix_def using assms Cons by (intro py_split_join) (auto simp: list_all_iff good_name_def)
  moreover have "filter (\<lambda>x. x \<noteq> '''' \<and> x \<noteq> ''.'') rel = rel"
    using assms by (auto simp: list_all_iff good_name_def intro: filter_True)
  ultimately show ?thesis by (simp add: relative_parts_def path_parts_def)
qed

lemma staged_good_names:
  assumes "tree_ok tr" "staged_file tr repo version t rel \<noteq> None"
  shows "list_all good_name rel"
proof -
  have names: "list_all good_name p" if "file_at tr p \<noteq> None" for p
    using tree_ok_node(1) [OF assms(1)] file_node [OF that] by (cases "p = []") auto
  show ?thesis
proof (cases "module_file tr (repo @ [''src'', ''f2bguard'']) rel")
  case None
  then have "file_at tr (repo @ [''pfsense'', ''files''] @ rel) \<noteq> None"
    using assms(2) by (auto simp: staged_file_def payload_file_def split: option.splits if_splits)
  then show ?thesis using names by force
next
  case (Some x)
  then have "file_at tr (repo @ [''src'', ''f2bguard'', last rel]) \<noteq> None" "rel \<noteq> []" "butlast rel = module_dir"
    by (auto simp: module_file_def split: if_splits)
  moreover from this(1) have "good_name (last rel)" using names by force
  moreover have "list_all good_name module_dir" by (simp add: module_dir_def good_name_def)
  ultimately have "list_all good_name (module_dir @ [last rel])" by simp
  moreover have "module_dir @ [last rel] = rel"
    using append_butlast_last_id [OF \<open>rel \<noteq> []\<close>] \<open>butlast rel = module_dir\<close> by simp
  ultimately show ?thesis by simp
qed
qed

text \<open>The check of the stage.\<close>

lemma expected_plist_Inr:
  assumes "expected_plist env repo s = (u, Inr paths)"
  shows "\<exists>b m plist. file_at (dk_tree s) (repo @ [''pfsense'', ''pkg-plist'']) = Some (b, m) \<and> text_of b = Inr plist \<and>
    paths = sort (plist_entries ''/usr/local'' (py_splitlines plist))"
  using assms read_text_Inr by (fastforce simp: expected_plist_def sbind_Inr)

lemma check_placeholders_Inr:
  assumes "check_placeholders env bundle paths s = (u, Inr ())" "path \<in> set paths"
  shows "\<exists>b m. file_at (dk_tree s) (bundle_file bundle path) = Some (b, m) \<and> \<not> list_ex (\<lambda>m. contains m b) placeholders"
  using assms
proof (induction paths arbitrary: s)
  case (Cons p ps)
  then obtain v b where v: "read_bytes env (bundle_file bundle p) s = (v, Inr b)"
      "\<not> list_ex (\<lambda>m. contains m b) placeholders" "check_placeholders env bundle ps v = (u, Inr ())"
    by (auto simp: sbind_Inr split: if_splits)
  have "dk_tree v = dk_tree s" by (rule looksD [OF looks_ops(4) v(1)])
  with v(2) read_bytes_Inr [OF v(1)] Cons.IH [OF v(3)] Cons.prems(2) show ?case by auto
qed simp

definition text_at :: "tree \<Rightarrow> fpath \<Rightarrow> pystr option" where
  "text_at tr p = (case file_at tr p of Some (b, _) \<Rightarrow> (case text_of b of Inr x \<Rightarrow> Some x | Inl _ \<Rightarrow> None) | None \<Rightarrow> None)"

lemma read_text_at: "read_text env p s = (t, Inr x) \<Longrightarrow> text_at (dk_tree s) p = Some x"
  using read_text_Inr [of env p s t x] by (auto simp: text_at_def)

lemma validate_stage_Inr:
  assumes "validate_stage env repo bundle paths s = (u, Inr ())"
  shows "(\<exists>plist. text_at (dk_tree s) (repo @ [''pfsense'', ''pkg-plist'']) = Some plist \<and>
      paths = sort (plist_entries ''/usr/local'' (py_splitlines plist))) \<and>
    (\<forall>path\<in>set paths. \<exists>b m. file_at (dk_tree s) (bundle_file bundle path) = Some (b, m) \<and>
      \<not> list_ex (\<lambda>m. contains m b) placeholders) \<and>
    (\<exists>inc. text_at (dk_tree s) (bundle @ [''stage'', ''usr'', ''local'', ''pkg'', ''f2bguard.inc'']) = Some inc \<and>
      contains (sq @ ''enabled'' @ sq @ '' => false'') inc) \<and>
    (\<exists>rc. text_at (dk_tree s) (bundle @ ''stage'' # rc_path) = Some rc \<and> contains (''f2bguard_enable:='' @ dq @ ''NO'' @ dq) rc)"
proof -
  obtain v w x y inc rc where run: "expected_plist env repo s = (v, Inr paths)"
      "check_placeholders env bundle paths v = (w, Inr ())"
      "read_text env (bundle @ [''stage'', ''usr'', ''local'', ''pkg'', ''f2bguard.inc'']) w = (x, Inr inc)"
      "read_text env (bundle @ ''stage'' # rc_path) x = (y, Inr rc)"
      "contains (sq @ ''enabled'' @ sq @ '' => false'') inc" "contains (''f2bguard_enable:='' @ dq @ ''NO'' @ dq) rc"
    using assms by (auto simp: validate_stage_def sbind_Inr split: if_splits)
  have tree: "dk_tree v = dk_tree s" "dk_tree w = dk_tree s" "dk_tree x = dk_tree s"
    using looksD [OF looks_expected run(1)] looksD [OF looks_check run(2)] looksD [OF looks_text run(3)] by auto
  have "\<exists>plist. text_at (dk_tree s) (repo @ [''pfsense'', ''pkg-plist'']) = Some plist \<and>
      paths = sort (plist_entries ''/usr/local'' (py_splitlines plist))"
    using expected_plist_Inr [OF run(1)] by (auto simp: text_at_def)
  moreover have "\<forall>path\<in>set paths. \<exists>b m. file_at (dk_tree s) (bundle_file bundle path) = Some (b, m) \<and>
      \<not> list_ex (\<lambda>m. contains m b) placeholders"
    using check_placeholders_Inr [OF run(2)] tree by simp
  ultimately show ?thesis using read_text_at [OF run(3)] read_text_at [OF run(4)] run(5,6) tree by simp
qed

text \<open>The archive.\<close>

lemma add_members_files:
  assumes "add_members env bundle archive added ps s = (u, Inr entries)" "archive \<noteq> []"
    "file_at (dk_tree s) archive = Some (b, m)"
  shows "\<exists>c. file_at (dk_tree u) = (file_at (dk_tree s))(archive := Some (c, m))"
  using assms(1,3)
proof (induction ps arbitrary: s added b)
  case Nil
  then show ?case by (auto simp: fun_eq_iff)
next
  case (Cons p ps)
  obtain v w x y n found data more where run: "node_info env p s = (v, Inr n)" "is_file env p v = (w, Inr found)"
      "(if found then read_bytes env p else sret '''') w = (x, Inr data)"
      "fill env archive (be_partial env more) x = (y, Inr ())" "add_members env bundle archive more ps y = (u, Inr entries)"
    using Cons.prems(1) by (auto simp: sbind_Inr Let_def)
  have "looks (if found then read_bytes env p else sret '''')" by (intro looking)
  from looked [OF this run(3)] looked [OF looks_ops(7) run(1)] looked [OF looks_ops(2) run(2)]
  have x: "file_at (dk_tree x) = file_at (dk_tree s)" by simp
  from fill_Inr [OF run(4) assms(2)] Cons.prems(2) x
  have y: "file_at (dk_tree y) = (file_at (dk_tree s))(archive := Some (be_partial env more, m))" by auto
  then have "file_at (dk_tree y) archive = Some (be_partial env more, m)" by simp
  from Cons.IH [OF run(5) this] show ?case unfolding y fun_upd_upd .
qed

lemma deterministic_archive_Inr:
  assumes "deterministic_archive env bundle archive s = (u, Inr ())" "archive \<noteq> []"
  shows "\<exists>packed m. file_at (dk_tree u) = (file_at (dk_tree s))(archive := Some (packed, m))"
proof -
  obtain v w x members entries where run: "open_write env archive s = (v, Inr ())" "list_tree env bundle v = (w, Inr members)"
      "add_members env bundle archive [] (sort_key (\<lambda>p. posix (drop (length bundle) p)) members) w = (x, Inr entries)"
      "fill env archive (be_pack env entries) x = (u, Inr ())"
    using assms(1) by (auto simp: deterministic_archive_def sbind_Inr)
  obtain m where v: "file_at (dk_tree v) = (file_at (dk_tree s))(archive := Some ('''', m))"
    using open_write_Inr [OF run(1) assms(2)] by blast
  have w: "file_at (dk_tree w) = file_at (dk_tree v)" by (rule looked [OF looks_ops(5) run(2)])
  with v have "file_at (dk_tree w) archive = Some ('''', m)" by simp
  from add_members_files [OF run(3) assms(2) this] obtain c where
      "file_at (dk_tree x) = (file_at (dk_tree s))(archive := Some (c, m))" using v w by auto
  with fill_Inr [OF run(4) assms(2)] show ?thesis by auto
qed

lemma port_version_Inr:
  assumes "port_version env repo s = (u, Inr version)"
  shows "\<exists>makefile. text_at (dk_tree s) (repo @ [''pfsense'', ''Makefile'']) = Some makefile \<and>
    find_versions True makefile = [version] \<and> numeric_version version"
proof -
  obtain v makefile where run: "read_text env (repo @ [''pfsense'', ''Makefile'']) s = (v, Inr makefile)"
      "(case find_versions True makefile of
         [v] \<Rightarrow> (if numeric_version v then Inr v else Inl (BuildError ''pfsense/Makefile must define one numeric PORTVERSION''))
       | _ \<Rightarrow> Inl (BuildError ''pfsense/Makefile must define one numeric PORTVERSION'')) = (Inr version :: pystr result)"
    using assms by (auto simp: port_version_def sbind_Inr)
  from run(2) have "find_versions True makefile = [version]" "numeric_version version"
    by (auto split: list.splits if_splits)
  with read_text_at [OF run(1)] show ?thesis by blast
qed

text \<open>All the writes of a successful run.\<close>

lemma build_steps_Inr:
  assumes "build_steps env repo output t version s = (u, Inr (out, archive))" "output \<noteq> []"
  shows "out = output \<and> archive_path output = Inr archive \<and>
    (\<exists>v w paths details packed m n.
       payload env repo (output @ [''stage'']) version t s = (v, Inr paths) \<and>
       validate_stage env repo output paths v = (w, Inr ()) \<and> dk_tree w = dk_tree v \<and>
       file_at (dk_tree u) = (file_at (dk_tree v))
         (output @ [''metadata'', ''+MANIFEST''] \<mapsto> (n, 420), output @ [''plist''] \<mapsto> (encode_utf8 (plist_text paths), 420),
          output @ [''build-on-pfsense.sh''] \<mapsto> (encode_utf8 (remote_builder t version), 365),
          output @ [''BUILD-INFO.json''] \<mapsto> (details, 420), archive \<mapsto> (packed, m),
          output @ [''STAGING-SHA256''] \<mapsto> (be_sha env packed @ ''  '' @ last archive @ nl, 420)))"
proof -
  obtain v w x a b c d e f paths m details packed line where run:
      "payload env repo (output @ [''stage'']) version t s = (v, Inr paths)"
      "validate_stage env repo output paths v = (w, Inr ())"
      "manifest env repo (output @ [''stage'']) paths version t w = (x, Inr m)"
      "write_file env (output @ [''metadata'', ''+MANIFEST'']) (json_file m) 420 x = (a, Inr ())"
      "write_file env (output @ [''plist'']) (encode_utf8 (plist_text paths)) 420 a = (b, Inr ())"
      "write_file env (output @ [''build-on-pfsense.sh'']) (encode_utf8 (remote_builder t version)) 365 b = (c, Inr ())"
      "write_file env (output @ [''BUILD-INFO.json'']) details 420 c = (d, Inr ())"
      "archive_path output = Inr archive" "deterministic_archive env output archive d = (e, Inr ())"
      "read_bytes env archive e = (f, Inr packed)" "encode_ascii (be_sha env packed @ ''  '' @ last archive @ nl) = Inr line"
      "write_file env (output @ [''STAGING-SHA256'']) line 420 f = (u, Inr ())" "out = output"
    using assms(1) by (auto simp: build_steps_def write_bundle_def Let_def sbind_Inr)
  have "archive \<noteq> []" using run(8) by (auto simp: archive_path_def with_suffix_def Let_def split: if_splits)
  from deterministic_archive_Inr [OF run(9) this] obtain p k where
    e: "file_at (dk_tree e) = (file_at (dk_tree d))(archive := Some (p, k))" by blast
  with read_bytes_Inr [OF run(10)] have p: "p = packed" by auto
  have line: "line = be_sha env packed @ ''  '' @ last archive @ nl" using run(11) by (simp add: encode_ascii_def split: if_splits)
  have w: "dk_tree w = dk_tree v" by (rule looksD [OF looks_validate run(2)])
  have x: "file_at (dk_tree x) = file_at (dk_tree v)" using looked [OF looks_manifest run(3)] w by simp
  have f: "file_at (dk_tree f) = file_at (dk_tree e)" by (rule looked [OF looks_ops(4) run(10)])
  have "file_at (dk_tree u) = (file_at (dk_tree v))
         (output @ [''metadata'', ''+MANIFEST''] \<mapsto> (json_file m, 420),
          output @ [''plist''] \<mapsto> (encode_utf8 (plist_text paths), 420),
          output @ [''build-on-pfsense.sh''] \<mapsto> (encode_utf8 (remote_builder t version), 365),
          output @ [''BUILD-INFO.json''] \<mapsto> (details, 420), archive \<mapsto> (packed, k),
          output @ [''STAGING-SHA256''] \<mapsto> (be_sha env packed @ ''  '' @ last archive @ nl, 420))"
    using write_file_Inr [OF run(12)] f e p write_file_Inr [OF run(7)] write_file_Inr [OF run(6)]
      write_file_Inr [OF run(5)] write_file_Inr [OF run(4)] x line by simp
  then show ?thesis using run(1,2,8,13) w by blast
qed

lemma clean_up_raises: "clean_up env output e s = (u, r) \<Longrightarrow> isl r"
  by (auto simp: clean_up_def sbind_def split: prod.splits sum.splits if_splits)

lemma stage_not_above:
  assumes "prefix (output @ [''stage'']) (repo @ [a, b])" "a \<noteq> ''stage''" "b \<noteq> ''stage''"
  shows "prefix (output @ [''stage'']) repo"
proof -
  have "prefix (output @ [''stage'']) ((repo @ [a]) @ [b])" using assms(1) by simp
  then show ?thesis using assms(2,3) unfolding prefix_snoc by auto
qed

lemma build_bundle_Inr:
  assumes "tree_ok (dk_tree s)" "output \<noteq> []" "build_bundle env repo output t s = (u, Inr (out, archive))"
  shows "\<exists>makefile version v. text_at (dk_tree s) (repo @ [''pfsense'', ''Makefile'']) = Some makefile \<and>
    find_versions True makefile = [version] \<and> numeric_version version \<and> validate_target t = Inr () \<and>
    dk_tree v = dk_tree s \<and> build_steps env repo output t version v = (u, Inr (out, archive)) \<and>
    (\<forall>rel. node_at (dk_tree s) ((output @ [''stage'']) @ rel) = None) \<and> \<not> prefix (output @ [''stage'']) repo"
proof -
  obtain v version where checks: "build_checks env repo output t s = (v, Inr version)"
      "scatch (build_steps env repo output t version) (clean_up env output) v = (u, Inr (out, archive))"
    using assms(3) by (auto simp: build_bundle_checks sbind_Inr)
  from looksD [OF build_checks_looks checks(1)] have v: "dk_tree v = dk_tree s" .
  from build_checks_Inr [OF checks(1)] obtain w x where w: "port_version env repo w = (x, Inr version)"
      "dk_tree w = dk_tree s" "node_at (dk_tree s) output = None" "validate_target t = Inr ()" by blast
  obtain y r where y: "build_steps env repo output t version v = (y, r)" by fastforce
  have steps: "build_steps env repo output t version v = (u, Inr (out, archive))"
  proof (cases r)
    case (Inl e)
    with checks(2) y have "clean_up env output e y = (u, Inr (out, archive))" by (simp add: scatch_def)
    from clean_up_raises [OF this] show ?thesis by simp
  qed (use checks(2) y in \<open>simp add: scatch_def\<close>)
  from port_version_Inr [OF w(1)] w(2) obtain makefile where makefile:
      "text_at (dk_tree s) (repo @ [''pfsense'', ''Makefile'']) = Some makefile"
      "find_versions True makefile = [version]" "numeric_version version" by auto
  note below = closed_below [OF tree_ok_closed [OF assms(1)], of "output"]
  have "file_at (dk_tree s) (repo @ [''pfsense'', ''Makefile'']) \<noteq> None"
    using makefile(1) by (auto simp: text_at_def split: option.splits)
  then have "node_at (dk_tree s) (repo @ [''pfsense'', ''Makefile'']) \<noteq> None" by (rule file_node)
  with below w(3) have "\<not> prefix output (repo @ [''pfsense'', ''Makefile''])" by blast
  then have "\<not> prefix (output @ [''stage'']) repo" by (meson append_prefixD prefix_prefix)
  moreover have "node_at (dk_tree s) ((output @ [''stage'']) @ rel) = None" for rel
  proof (rule ccontr)
    assume "node_at (dk_tree s) ((output @ [''stage'']) @ rel) \<noteq> None"
    from below [OF _ this] w(3) show False by simp
  qed
  ultimately show ?thesis using makefile v w(4) steps by blast
qed

text \<open>
  C37. A bundle that was built holds exactly the package: under \<open>stage\<close> lie the files of the port, with the
  version of the Makefile in the place of \<open>%%PKGVERSION%%\<close>, the interpreter \<^verbatim>\<open>/usr/local/bin/python3.x\<close> of the
  target in that of \<open>%%PYTHON_CMD%%\<close> and the name \<^verbatim>\<open>pfSense-pkg-f2bguard\<close> in that of \<open>%%PORTNAME%%\<close> (mode 0555
  for the rc script, 0644 for every other file), and the receiver's modules unchanged with mode 0644, and no
  other file; their paths are those of \<^verbatim>\<open>pkg-plist\<close>; no placeholder is left in any of them; the integration
  file and the rc script are disabled by default; the script for the target is the generated one, and the
  checksum beside the archive is that of the archive as it was written.
\<close>

theorem build_bundle_stages:
  assumes "tree_ok (dk_tree s)" "output \<noteq> []" "build_bundle env repo output t s = (u, Inr (out, archive))"
  shows "\<exists>makefile plist version packed m inc rc.
    text_at (dk_tree s) (repo @ [''pfsense'', ''Makefile'']) = Some makefile \<and> find_versions True makefile = [version] \<and>
    (\<forall>rel. file_at (dk_tree u) (output @ ''stage'' # rel) = staged_file (dk_tree s) repo version t rel) \<and>
    text_at (dk_tree s) (repo @ [''pfsense'', ''pkg-plist'']) = Some plist \<and>
    {rel. staged_file (dk_tree s) repo version t rel \<noteq> None} =
      relative_parts ` set (plist_entries ''/usr/local'' (py_splitlines plist)) \<and>
    (\<forall>rel b k. staged_file (dk_tree s) repo version t rel = Some (b, k) \<longrightarrow> \<not> list_ex (\<lambda>m. contains m b) placeholders) \<and>
    text_at (dk_tree u) (output @ [''stage'', ''usr'', ''local'', ''pkg'', ''f2bguard.inc'']) = Some inc \<and>
    contains (sq @ ''enabled'' @ sq @ '' => false'') inc \<and>
    text_at (dk_tree u) (output @ ''stage'' # rc_path) = Some rc \<and> contains (''f2bguard_enable:='' @ dq @ ''NO'' @ dq) rc \<and>
    file_at (dk_tree u) (output @ [''build-on-pfsense.sh'']) = Some (encode_utf8 (remote_builder t version), 365) \<and>
    out = output \<and> archive = butlast output @ [last output @ ''.tar.gz''] \<and> file_at (dk_tree u) archive = Some (packed, m) \<and>
    file_at (dk_tree u) (output @ [''STAGING-SHA256'']) = Some (be_sha env packed @ ''  '' @ last archive @ nl, 420)"
proof -
  let ?stage = "output @ [''stage'']"
  from build_bundle_Inr [OF assms] obtain makefile version v where b:
      "text_at (dk_tree s) (repo @ [''pfsense'', ''Makefile'']) = Some makefile" "find_versions True makefile = [version]"
      "dk_tree v = dk_tree s" "build_steps env repo output t version v = (u, Inr (out, archive))"
      "\<And>rel. node_at (dk_tree s) (?stage @ rel) = None" "\<not> prefix ?stage repo" by blast
  let ?g = "staged_file (dk_tree s) repo version t"
  from build_steps_Inr [OF b(4) assms(2)] obtain w x paths details packed m n where st:
      "out = output" "archive_path output = Inr archive"
      "payload env repo ?stage version t v = (w, Inr paths)" "validate_stage env repo output paths w = (x, Inr ())"
      "file_at (dk_tree u) = (file_at (dk_tree w))
         (output @ [''metadata'', ''+MANIFEST''] \<mapsto> (n, 420), output @ [''plist''] \<mapsto> (encode_utf8 (plist_text paths), 420),
          output @ [''build-on-pfsense.sh''] \<mapsto> (encode_utf8 (remote_builder t version), 365),
          output @ [''BUILD-INFO.json''] \<mapsto> (details, 420), archive \<mapsto> (packed, m),
          output @ [''STAGING-SHA256''] \<mapsto> (be_sha env packed @ ''  '' @ last archive @ nl, 420))" by blast
  note shape = archive_shape [OF st(2) assms(2)]
  from payload_Inr [OF st(3) refl _ b(6)] b(3,5) obtain rels where rels:
      "paths = sort (map (\<lambda>rel. ''/'' @ posix rel) rels)" "set rels = {rel. ?g rel \<noteq> None}" "staging ?stage ?g UNIV v w"
    by auto
  have other: "archive \<noteq> output @ q" for q using shape(1,2) by auto
  have staged: "file_at (dk_tree u) (output @ ''stage'' # rel) = ?g rel" "file_at (dk_tree w) (output @ ''stage'' # rel) = ?g rel" for rel
    using rels(3) other [of "''stage'' # rel"] unfolding staging_def by (auto simp: st(5))
  have same_text: "text_at (dk_tree u) (output @ ''stage'' # rel) = text_at (dk_tree w) (output @ ''stage'' # rel)" for rel
    by (simp add: text_at_def staged)
  have files: "file_at (dk_tree u) (output @ [''build-on-pfsense.sh'']) = Some (encode_utf8 (remote_builder t version), 365)"
    "file_at (dk_tree u) archive = Some (packed, m)"
    "file_at (dk_tree u) (output @ [''STAGING-SHA256'']) = Some (be_sha env packed @ ''  '' @ last archive @ nl, 420)"
    unfolding st(5) using other other [symmetric] by simp_all
  from validate_stage_Inr [OF st(4)] obtain plist inc rc where val:
      "text_at (dk_tree w) (repo @ [''pfsense'', ''pkg-plist'']) = Some plist"
      "paths = sort (plist_entries ''/usr/local'' (py_splitlines plist))"
      "\<And>path. path \<in> set paths \<Longrightarrow> \<exists>b m. file_at (dk_tree w) (bundle_file output path) = Some (b, m) \<and>
        \<not> list_ex (\<lambda>m. contains m b) placeholders"
      "text_at (dk_tree w) (output @ [''stage'', ''usr'', ''local'', ''pkg'', ''f2bguard.inc'']) = Some inc"
      "contains (sq @ ''enabled'' @ sq @ '' => false'') inc"
      "text_at (dk_tree w) (output @ ''stage'' # rc_path) = Some rc"
      "contains (''f2bguard_enable:='' @ dq @ ''NO'' @ dq) rc" by blast
  have "\<not> prefix ?stage (repo @ [''pfsense'', ''pkg-plist''])"
    using stage_not_above [of "output" "repo" "''pfsense''" "''pkg-plist''"] b(6) by auto
  then have plist: "text_at (dk_tree s) (repo @ [''pfsense'', ''pkg-plist'']) = Some plist"
    using val(1) rels(3) b(3) by (simp add: text_at_def staging_def)
  have readback: "relative_parts (''/'' @ posix rel) = rel" if "rel \<in> set rels" for rel
    using relative_parts_posix [OF staged_good_names [OF assms(1)]] that rels(2) by blast
  have "set (plist_entries ''/usr/local'' (py_splitlines plist)) = (\<lambda>rel. ''/'' @ posix rel) ` set rels"
    using arg_cong [OF val(2), of set] unfolding rels(1) by (simp only: set_sort set_map)
  then have "relative_parts ` set (plist_entries ''/usr/local'' (py_splitlines plist)) =
      (\<lambda>rel. relative_parts (''/'' @ posix rel)) ` set rels" by (simp only: image_image)
  also have "\<dots> = set rels" using readback by (simp cong: image_cong)
  finally have names: "{rel. ?g rel \<noteq> None} = relative_parts ` set (plist_entries ''/usr/local'' (py_splitlines plist))"
    unfolding rels(2) by (rule sym)
  have clean: "\<not> list_ex (\<lambda>m. contains m b) placeholders" if "?g rel = Some (b, k)" for rel b k
  proof -
    from that rels(2) have r: "rel \<in> set rels" by simp
    then have "''/'' @ posix rel \<in> set paths" unfolding rels(1) by simp
    from val(3) [OF this] readback [OF r] staged(2) [of rel] that show ?thesis by (simp add: bundle_file_def)
  qed
  have name: "archive = butlast output @ [last output @ ''.tar.gz'']" using st(2) archive_path_eq [OF assms(2)] by simp
  show ?thesis
    by (intro exI [of _ makefile] exI [of _ plist] exI [of _ version] exI [of _ packed] exI [of _ m] exI [of _ inc]
          exI [of _ rc] conjI allI impI)
       (rule b(1,2) staged(1) plist names files st(1) name val(5,7) same_text [THEN trans, OF val(4)]
          same_text [THEN trans, OF val(6)] | erule clean)+
qed

end
