(* ===== verification/BuildRun.thy ===== *)
theory BuildRun
  imports BuildContract
begin

text \<open>Two runs of \<open>build_bundle\<close> on a small repository at the root of the disk: one that succeeds and one
  whose first write fails.\<close>

definition sample_repo :: tree where
  "sample_repo = [
     ([''pfsense''], Dir 493),
     ([''pfsense'', ''Makefile''], File (''PORTVERSION=0.1.7'') 420),
     ([''pfsense'', ''pkg-plist''], File (''pkg/f2bguard.inc'' @ nl @ ''etc/rc.d/f2bguard'') 420),
     ([''pfsense'', ''pkg-descr''], File (''Text.'') 420),
     ([''pfsense'', ''files''], Dir 493),
     ([''pfsense'', ''files'', ''usr''], Dir 493),
     ([''pfsense'', ''files'', ''usr'', ''local''], Dir 493),
     ([''pfsense'', ''files'', ''usr'', ''local'', ''pkg''], Dir 493),
     ([''pfsense'', ''files'', ''usr'', ''local'', ''pkg'', ''f2bguard.inc''], File (sq @ ''enabled'' @ sq @ '' => false'') 420),
     ([''pfsense'', ''files'', ''usr'', ''local'', ''etc''], Dir 493),
     ([''pfsense'', ''files'', ''usr'', ''local'', ''etc'', ''rc.d''], Dir 493),
     ([''pfsense'', ''files'', ''usr'', ''local'', ''etc'', ''rc.d'', ''f2bguard''], File (''%%PYTHON_CMD%% f2bguard_enable:='' @ dq @ ''NO'' @ dq) 420)]"

definition sample_disk :: disk where
  "sample_disk = \<lparr>dk_tree = sample_repo, dk_calls = 0\<rparr>"

definition sample_env :: build_env where
  "sample_env = \<lparr>be_fault = (\<lambda>_ _. False), be_umask = 18, be_sha = (\<lambda>_. ''ab12''), be_pack = (\<lambda>_. ''packed''),
     be_partial = (\<lambda>_. ''part'')\<rparr>"

lemma sample_repo_ok: "tree_ok (dk_tree sample_disk)"
  by code_simp

definition sample_build :: "disk \<times> (fpath \<times> fpath) result" where
  "sample_build = build_bundle sample_env [] [''o''] sample_target sample_disk"

text \<open>The stage after the payload; the run beyond it does not depend on the contents of the files.\<close>

definition staged_part :: "pystr \<Rightarrow> pystr \<Rightarrow> tree" where
  "staged_part inc rc = [
     ([''o'', ''stage'', ''usr'', ''local'', ''pkg'', ''f2bguard.inc''], File inc 420),
     ([''o'', ''stage'', ''usr'', ''local'', ''pkg''], Dir 493),
     ([''o'', ''stage'', ''usr'', ''local'', ''etc'', ''rc.d'', ''f2bguard''], File rc 365),
     ([''o'', ''stage'', ''usr'', ''local'', ''etc'', ''rc.d''], Dir 493),
     ([''o'', ''stage'', ''usr'', ''local'', ''etc''], Dir 493),
     ([''o'', ''stage'', ''usr'', ''local''], Dir 493),
     ([''o'', ''stage'', ''usr''], Dir 493), ([''o'', ''stage''], Dir 493), ([''o''], Dir 493)]"

definition sample_inc :: pystr where "sample_inc = sq @ ''enabled'' @ sq @ '' => false''"
definition sample_rc :: pystr where
  "sample_rc = ''/usr/local/bin/python3.11 f2bguard_enable:='' @ dq @ ''NO'' @ dq"

definition staged_disk :: "nat \<Rightarrow> disk" where
  "staged_disk n = \<lparr>dk_tree = staged_part sample_inc sample_rc @ sample_repo, dk_calls = n\<rparr>"

definition sample_paths :: "pystr list" where
  "sample_paths = [''/usr/local/etc/rc.d/f2bguard'', ''/usr/local/pkg/f2bguard.inc'']"

lemma sample_checks:
  "build_checks sample_env [] [''o''] sample_target sample_disk = (sample_disk\<lparr>dk_calls := 3\<rparr>, Inr ''0.1.7'')"
  by code_simp

lemma sample_payload:
  "payload sample_env [] [''o'', ''stage''] ''0.1.7'' sample_target (sample_disk\<lparr>dk_calls := 3\<rparr>) =
     (staged_disk 31, Inr sample_paths)"
  by code_simp

lemma sample_validate: "validate_stage sample_env [] [''o''] sample_paths (staged_disk 31) = (staged_disk 36, Inr ())"
  by code_simp

lemma sample_manifest:
  "\<exists>m. manifest sample_env [] [''o'', ''stage''] sample_paths ''0.1.7'' sample_target (staged_disk 36) = (staged_disk 39, Inr m)"
proof -
  have "case manifest sample_env [] [''o'', ''stage''] sample_paths ''0.1.7'' sample_target (staged_disk 36) of
      (d, r) \<Rightarrow> d = staged_disk 39 \<and> \<not> isl r" by code_simp
  then obtain r where "manifest sample_env [] [''o'', ''stage''] sample_paths ''0.1.7'' sample_target (staged_disk 36) =
      (staged_disk 39, r)" "\<not> isl r" by (auto split: prod.splits)
  then show ?thesis by (cases r) auto
qed

lemma sample_write:
  "snd (write_bundle sample_env [''o''] a b c (Inr d) \<lparr>dk_tree = staged_part inc rc @ sample_repo, dk_calls = 39\<rparr>) =
     Inr ([''o''], [''o.tar.gz''])"
  by code_simp

lemma sample_build_returns: "snd sample_build = Inr ([''o''], [''o.tar.gz''])"
proof -
  obtain m where m: "manifest sample_env [] [''o'', ''stage''] sample_paths ''0.1.7'' sample_target (staged_disk 36) =
      (staged_disk 39, Inr m)" using sample_manifest by blast
  have "package_abi sample_target = Inr ''FreeBSD:16:*''" by code_simp
  then obtain d where d: "build_details sample_target ''0.1.7'' = Inr d" by (simp add: build_details_def)
  note steps = sbind_def build_steps_def Let_def sample_payload sample_validate m d
  have stage: "[''o''] @ [''stage''] = [''o'', ''stage'']" by simp
  obtain t where t: "write_bundle sample_env [''o''] (json_file m) (encode_utf8 (plist_text sample_paths))
      (encode_utf8 (remote_builder sample_target ''0.1.7'')) (Inr (json_file d)) (staged_disk 39) =
      (t, Inr ([''o''], [''o.tar.gz'']))"
    using sample_write unfolding staged_disk_def by (metis prod.collapse)
  show ?thesis
    unfolding sample_build_def build_bundle_checks
    by (simp only: sbind_def sample_checks scatch_def build_steps_def Let_def stage sample_payload sample_validate m d
          rbind_simps t prod.case sum.case snd_conv)
qed

lemma sample_version: "text_at (dk_tree sample_disk) [''pfsense'', ''Makefile''] = Some ''PORTVERSION=0.1.7''"
    "find_versions True ''PORTVERSION=0.1.7'' = [''0.1.7'']"
    "staged_file (dk_tree sample_disk) [] ''0.1.7'' sample_target rc_path =
       Some (''/usr/local/bin/python3.11 f2bguard_enable:='' @ dq @ ''NO'' @ dq, 365)"
  by code_simp+

lemma build_bundle_stages_witness:
  "file_at (dk_tree (fst sample_build)) ([''o''] @ ''stage'' # rc_path) =
     Some (''/usr/local/bin/python3.11 f2bguard_enable:='' @ dq @ ''NO'' @ dq, 365)"
proof -
  obtain u where u: "build_bundle sample_env [] [''o''] sample_target sample_disk = (u, Inr ([''o''], [''o.tar.gz'']))"
    using sample_build_returns unfolding sample_build_def by (metis prod.collapse)
  have "[''o''] \<noteq> []" by simp
  from build_bundle_stages [OF sample_repo_ok this u] sample_version
  have "file_at (dk_tree u) ([''o''] @ ''stage'' # rc_path) = staged_file (dk_tree sample_disk) [] ''0.1.7'' sample_target rc_path"
    by auto
  then show ?thesis unfolding sample_build_def u fst_conv sample_version(3) .
qed

text \<open>The first write fails: the output directory is gone again.\<close>

definition failing_env :: build_env where
  "failing_env = \<lparr>be_fault = (\<lambda>_ c. case c of WriteFile _ \<Rightarrow> True | _ \<Rightarrow> False), be_umask = 18,
     be_sha = (\<lambda>_. ''ab12''), be_pack = (\<lambda>_. ''packed''), be_partial = (\<lambda>_. ''part'')\<rparr>"

definition failed_build :: "disk \<times> (fpath \<times> fpath) result" where
  "failed_build = build_bundle failing_env [] [''o''] sample_target sample_disk"

lemma failed_build_raises: "snd failed_build = Inl OSError" "dk_tree (fst failed_build) = sample_repo"
  by code_simp+

lemma build_bundle_leaves_witness:
  "node_at (dk_tree (fst failed_build)) [''pfsense'', ''Makefile''] = Some (File ''PORTVERSION=0.1.7'' 420) \<and>
   node_at (dk_tree (fst failed_build)) [''o''] = None \<and> isl (snd failed_build)"
proof -
  have name: "archive_path [''o''] = Inr [''o.tar.gz'']" by (simp add: archive_path_eq)
  have clean: "cleans failing_env [''o'']" by (simp add: cleans_def failing_env_def)
  have nonempty: "[''o''] \<noteq> []" by simp
  have path: "\<not> prefix [''o''] [''pfsense'', ''Makefile'']" "\<not> strict_prefix [''pfsense'', ''Makefile''] [''o'']"
    "[''pfsense'', ''Makefile''] \<noteq> [''o.tar.gz'']" by (simp_all add: strict_prefix_def)
  have run: "build_bundle failing_env [] [''o''] sample_target sample_disk = (fst failed_build, snd failed_build)"
    by (simp add: failed_build_def)
  note leaves = build_bundle_leaves [OF sample_repo_ok nonempty name run]
  from leaves path
  have "node_at (dk_tree (fst failed_build)) [''pfsense'', ''Makefile''] = node_at (dk_tree sample_disk) [''pfsense'', ''Makefile'']"
    by blast
  note same = this
  have start: "node_at (dk_tree sample_disk) [''pfsense'', ''Makefile''] = Some (File ''PORTVERSION=0.1.7'' 420)"
    "node_at (dk_tree sample_disk) [''o''] = None" by code_simp+
  have makefile: "node_at (dk_tree (fst failed_build)) [''pfsense'', ''Makefile''] = Some (File ''PORTVERSION=0.1.7'' 420)"
    by (rule trans [OF same start(1)])
  have raised: "isl (snd failed_build)" unfolding failed_build_raises(1) by simp
  with leaves clean have "dk_tree (fst failed_build) = dk_tree sample_disk \<or>
      (\<forall>q. prefix [''o''] q \<longrightarrow> node_at (dk_tree (fst failed_build)) q = None)" by blast
  then have "node_at (dk_tree (fst failed_build)) [''o''] = None"
  proof
    assume "dk_tree (fst failed_build) = dk_tree sample_disk"
    with start(2) show ?thesis by (simp only:)
  qed blast
  with makefile raised show ?thesis by (intro conjI)
qed

end
