(* ===== verification/PreparePort.thy ===== *)
theory PreparePort
  imports BuildContract
begin

text \<open>
  \<^verbatim>\<open>tools/prepare_port.py\<close>: the port directory is copied, the receiver's modules are put into it, and the
  copy is kept only if its Makefile installs them and refers to nothing outside. \<open>copytree\<close> goes through
  the entries that its source had when it was listed; an output inside of the port's own directory, where
  it would descend into its own copy, is not modelled.
\<close>

subsection \<open>Copying\<close>

text \<open>\<open>mkdir(parents=True)\<close> and \<open>os.makedirs\<close> without \<open>exist_ok\<close>.\<close>

definition make_new_dir :: "build_env \<Rightarrow> fpath \<Rightarrow> (disk, unit) action" where
  "make_new_dir env p = disk_op env (MakeDir p)
     (\<lambda>tr. case node_at tr p of
        Some _ \<Rightarrow> (tr, Inl OSError)
      | None \<Rightarrow> (case node_at tr (butlast p) of
            Some (Dir _) \<Rightarrow> (put p (Dir (default_mode env 511)) tr, Inr ())
          | _ \<Rightarrow> (tr, Inl OSError)))"

definition make_new_dirs :: "build_env \<Rightarrow> fpath \<Rightarrow> (disk, unit) action" where
  "make_new_dirs env p = sbind (make_dirs env (butlast p)) (\<lambda>_. make_new_dir env p)"

definition scan_dir :: "build_env \<Rightarrow> fpath \<Rightarrow> (disk, fpath list) action" where
  "scan_dir env p = disk_op env (ListTree p)
     (\<lambda>tr. (tr, case node_at tr p of Some (Dir _) \<Rightarrow> Inr (descendants tr p) | _ \<Rightarrow> Inl OSError))"

text \<open>\<open>copyfile\<close>, and \<open>copy2\<close> and \<open>copystat\<close>, which also copy the mode.\<close>

definition copy_file :: "build_env \<Rightarrow> fpath \<Rightarrow> fpath \<Rightarrow> (disk, unit) action" where
  "copy_file env q p = sbind (read_bytes env q) (\<lambda>b. write_bytes env p b)"

definition copy_mode :: "build_env \<Rightarrow> fpath \<Rightarrow> fpath \<Rightarrow> (disk, unit) action" where
  "copy_mode env q p =
     sbind (node_info env q) (\<lambda>n. change_mode env p (case n of Dir m \<Rightarrow> m | File _ m \<Rightarrow> m))"

definition copy_entry :: "build_env \<Rightarrow> fpath \<Rightarrow> fpath \<Rightarrow> (disk, unit) action" where
  "copy_entry env q p =
     sbind (is_file env q) (\<lambda>found.
     sbind (if found then copy_file env q p else make_new_dir env p) (\<lambda>_. copy_mode env q p))"

text \<open>An \<open>OSError\<close> of one entry is collected; the others are still copied.\<close>

definition collect :: "(disk, unit) action \<Rightarrow> (disk, bool) action" where
  "collect m = scatch (sbind m (\<lambda>_. sret True)) (\<lambda>e. if is_OSError e then sret False else slift (Inl e))"

fun copy_entries :: "build_env \<Rightarrow> fpath \<Rightarrow> fpath \<Rightarrow> fpath list \<Rightarrow> (disk, bool) action" where
  "copy_entries env src dst [] = sret True"
| "copy_entries env src dst (q # qs) =
     sbind (collect (copy_entry env q (dst @ drop (length src) q))) (\<lambda>ok.
     sbind (copy_entries env src dst qs) (\<lambda>rest. sret (ok \<and> rest)))"

definition copy_tree :: "build_env \<Rightarrow> fpath \<Rightarrow> fpath \<Rightarrow> (disk, unit) action" where
  "copy_tree env src dst =
     sbind (scan_dir env src) (\<lambda>entries.
     sbind (make_new_dirs env dst) (\<lambda>_.
     sbind (copy_entries env src dst entries) (\<lambda>copied.
     sbind (collect (copy_mode env src dst)) (\<lambda>mode.
       slift (if copied \<and> mode then Inr () else Inl OSError)))))"

subsection \<open>The port\<close>

definition port_module_dir :: fpath where
  "port_module_dir = [''files'', ''usr'', ''local'', ''share'', ''f2bguard'', ''f2bguard'']"

definition copy_module :: "build_env \<Rightarrow> fpath \<Rightarrow> fpath \<Rightarrow> (disk, unit) action" where
  "copy_module env dir q = copy_file env q (dir @ [last q])"

definition self_contained :: "pystr \<Rightarrow> unit result" where
  "self_contained makefile =
     rbind (rguard (contains ''${FILESDIR}${DATADIR}/f2bguard/*.py'' makefile)
       (PortError ''port Makefile does not install vendored Python modules from FILESDIR'')) (\<lambda>_.
     rguard (\<not> contains ''../src'' makefile) (PortError ''generated port references files outside its port directory''))"

definition port_steps :: "build_env \<Rightarrow> fpath \<Rightarrow> fpath \<Rightarrow> fpath list \<Rightarrow> (disk, fpath) action" where
  "port_steps env source_port output modules =
     sbind (copy_tree env source_port output) (\<lambda>_.
     sbind (make_new_dirs env (output @ port_module_dir)) (\<lambda>_.
     sbind (seach (copy_module env (output @ port_module_dir)) modules) (\<lambda>_.
     sbind (read_text env (output @ [''Makefile''])) (\<lambda>makefile.
     sbind (slift (self_contained makefile)) (\<lambda>_. sret output)))))"

definition prepare_port :: "build_env \<Rightarrow> fpath \<Rightarrow> fpath \<Rightarrow> (disk, fpath) action" where
  "prepare_port env repo output =
     sbind (path_exists env output) (\<lambda>taken.
     sbind (slift (rguard (\<not> taken) (PortError (''refusing to overwrite output: /'' @ posix output)))) (\<lambda>_.
     sbind (list_py env (repo @ [''src'', ''f2bguard''])) (\<lambda>modules.
     sbind (is_file env (repo @ [''pfsense'', ''Makefile''])) (\<lambda>found.
     sbind (slift (rguard (found \<and> modules \<noteq> []) (PortError ''repository does not contain the port and Python modules''))) (\<lambda>_.
       scatch (port_steps env (repo @ [''pfsense'']) output modules) (clean_up env output))))))"

definition port_main :: "build_env \<Rightarrow> fpath \<Rightarrow> fpath \<Rightarrow> (disk, int) action" where
  "port_main env repo output =
     scatch (sbind (prepare_port env repo output) (\<lambda>_. sret 0))
       (\<lambda>e. slift (Inl (if (case e of PortError _ \<Rightarrow> True | _ \<Rightarrow> False) \<or> is_OSError e then SystemExit 2 else e)))"

subsection \<open>What a prepared port holds\<close>

definition port_file :: "build_env \<Rightarrow> tree \<Rightarrow> fpath \<Rightarrow> fpath \<Rightarrow> (pystr \<times> nat) option" where
  "port_file env tr repo rel =
     (if rel \<noteq> [] \<and> butlast rel = port_module_dir \<and> ends_with ''.py'' (last rel) \<and>
         file_at tr (repo @ [''src'', ''f2bguard'', last rel]) \<noteq> None
      then map_option (\<lambda>(b, _). (b, default_mode env 438)) (file_at tr (repo @ [''src'', ''f2bguard'', last rel]))
      else file_at tr (repo @ [''pfsense''] @ rel))"

lemma make_new_dir_files:
  assumes "make_new_dir env p s = (t, r)"
  shows "file_at (dk_tree t) = file_at (dk_tree s)"
proof (cases "node_at (dk_tree s) p")
  case None
  then have "p \<noteq> []" "file_at (dk_tree s) p = None" by (auto simp: node_at_def file_at_def)
  with None disk_op_tree [OF assms [unfolded make_new_dir_def]] show ?thesis
    by (auto simp: file_at_put_dir split: option.splits node.splits)
next
  case (Some n)
  with disk_op_tree [OF assms [unfolded make_new_dir_def]] show ?thesis by auto
qed

lemma make_new_dirs_files: "make_new_dirs env p s = (t, r) \<Longrightarrow> file_at (dk_tree t) = file_at (dk_tree s)"
  using make_dirs_files [of env "butlast p" s] make_new_dir_files [of env p]
  by (fastforce simp: make_new_dirs_def sbind_def split: prod.splits sum.splits)

lemma make_new_dir_Inr:
  assumes "make_new_dir env p s = (t, Inr ())"
  shows "node_at (dk_tree s) p = None \<and> (\<exists>m. node_at (dk_tree t) p = Some (Dir m))"
proof (cases "node_at (dk_tree s) p")
  case None
  then have "p \<noteq> []" by (auto simp: node_at_def)
  with None disk_op_Inr [OF assms [unfolded make_new_dir_def]] show ?thesis
    by (auto simp: node_at_put split: option.splits node.splits)
next
  case (Some n)
  with disk_op_Inr [OF assms [unfolded make_new_dir_def]] show ?thesis by simp
qed

lemma copy_file_Inr:
  assumes "copy_file env q p s = (t, Inr ())" "p \<noteq> []"
  shows "\<exists>b m. file_at (dk_tree s) q = Some (b, m) \<and> file_at (dk_tree t) = (file_at (dk_tree s))(p := Some (b,
    case file_at (dk_tree s) p of Some (_, k) \<Rightarrow> k | None \<Rightarrow> default_mode env 438))"
proof -
  obtain u b where u: "read_bytes env q s = (u, Inr b)" "write_bytes env p b u = (t, Inr ())"
    using assms(1) by (auto simp: copy_file_def sbind_Inr)
  show ?thesis
    using read_bytes_Inr [OF u(1)] write_bytes_Inr [OF u(2) assms(2)] looked [OF looks_ops(4) u(1)] by auto
qed

lemma collect_True: "collect m s = (t, Inr True) \<Longrightarrow> m s = (t, Inr ())"
  by (auto simp: collect_def scatch_def sbind_def split: prod.splits sum.splits if_splits)

lemma node_info_Inr: "node_info env p s = (t, Inr n) \<Longrightarrow> node_at (dk_tree s) p = Some n"
  by (auto simp: node_info_def dest!: disk_op_Inr split: option.splits)

lemma change_mode_dir:
  assumes "change_mode env p m s = (t, Inr ())" "file_at (dk_tree s) p = None"
  shows "file_at (dk_tree t) = file_at (dk_tree s)"
  using disk_op_Inr [OF assms(1) [unfolded change_mode_def]] assms(2)
  by (auto simp: file_at_put_dir file_at_def split: option.splits node.splits if_splits)

lemma copy_entry_Inr:
  assumes "copy_entry env q p s = (t, Inr ())" "p \<noteq> []" "q \<noteq> p"
  shows "file_at (dk_tree t) = (case file_at (dk_tree s) q of Some x \<Rightarrow> (file_at (dk_tree s))(p := Some x) | None \<Rightarrow> file_at (dk_tree s))"
proof -
  obtain u v w found n where run: "is_file env q s = (u, Inr found)"
      "(if found then copy_file env q p else make_new_dir env p) u = (v, Inr ())"
      "node_info env q v = (w, Inr n)" "change_mode env p (case n of Dir m \<Rightarrow> m | File _ m \<Rightarrow> m) w = (t, Inr ())"
    using assms(1) by (auto simp: copy_entry_def copy_mode_def sbind_Inr)
  note found = is_file_Inr [OF run(1)]
  note u = looked [OF looks_ops(2) run(1)] and w = looked [OF looks_ops(7) run(3)]
  note n = node_info_Inr [OF run(3)]
  show ?thesis
  proof (cases found)
    case True
    with run(2) copy_file_Inr [OF _ assms(2)] obtain b m k where
      v: "file_at (dk_tree u) q = Some (b, m)" "file_at (dk_tree v) = (file_at (dk_tree u))(p := Some (b, k))" by fastforce
    then have "file_at (dk_tree v) q = Some (b, m)" using assms(3) by simp
    with n have "n = File b m" by (auto simp: file_at_def split: node.splits)
    moreover have "file_at (dk_tree w) p = Some (b, k)" using v w by simp
    ultimately have "file_at (dk_tree t) = (file_at (dk_tree w))(p := Some (b, m))"
      using change_mode_file [OF run(4) _ assms(2)] by simp
    with v w u show ?thesis by simp
  next
    case False
    with run(2) have make: "make_new_dir env p u = (v, Inr ())" by simp
    from make_new_dir_Inr [OF make] have "file_at (dk_tree v) p = None" by (auto simp: file_at_def)
    moreover have "file_at (dk_tree s) q = None"
      by (cases "file_at (dk_tree s) q") (use found False in auto)
    ultimately show ?thesis using change_mode_dir [OF run(4)] w make_new_dir_files [OF make] u by simp
  qed
qed

lemma copy_entries_Inr:
  assumes "copy_entries env src dst qs s = (u, Inr True)" "dst \<noteq> []"
    "\<And>q. q \<in> set qs \<Longrightarrow> strict_prefix src q \<and> \<not> prefix dst q"
    "\<And>q. q \<in> set qs \<Longrightarrow> file_at (dk_tree s) q = file_at tr q"
  shows "staging dst (\<lambda>rel. file_at tr (src @ rel)) {rel. src @ rel \<in> set qs \<and> file_at tr (src @ rel) \<noteq> None} s u"
  using assms(1,3,4)
proof (induction qs arbitrary: s)
  case (Cons q qs)
  let ?g = "\<lambda>rel. file_at tr (src @ rel)"
  obtain rel where rel: "q = src @ rel" using Cons.prems(2) [of q] by (auto simp: strict_prefix_def elim: prefixE)
  obtain v where "collect (copy_entry env q (dst @ rel)) s = (v, Inr True)" and rest: "copy_entries env src dst qs v = (u, Inr True)"
    using Cons.prems(1) by (auto simp: sbind_Inr rel)
  from collect_True [OF this(1)] rest
  have v: "copy_entry env q (dst @ rel) s = (v, Inr ())" "copy_entries env src dst qs v = (u, Inr True)" .
  have "q \<noteq> dst @ rel" using Cons.prems(2) [of q] by auto
  note entry = copy_entry_Inr [OF v(1) _ this]
  have step: "staging dst ?g (if ?g rel = None then {} else {rel}) s v"
    using entry assms(2) Cons.prems(3) [of q] rel by (auto simp: staging_def split: option.splits)
  have "file_at (dk_tree v) p = file_at tr p" if "p \<in> set qs" for p
    using step that Cons.prems(2,3) [of p] by (auto simp: staging_def)
  from Cons.IH [OF v(2) _ this] Cons.prems(2)
  have "staging dst ?g {rel. src @ rel \<in> set qs \<and> ?g rel \<noteq> None} v u" by simp
  from staging_trans [OF step this]
  have "staging dst ?g ((if ?g rel = None then {} else {rel}) \<union> {rel. src @ rel \<in> set qs \<and> ?g rel \<noteq> None}) s u" .
  moreover have "(if ?g rel = None then {} else {rel}) \<union> {rel. src @ rel \<in> set qs \<and> ?g rel \<noteq> None} =
      {rel. src @ rel \<in> set (q # qs) \<and> ?g rel \<noteq> None}" using rel by auto
  ultimately show ?case by simp
qed (simp add: staging_def)

lemma scan_dir_Inr: "scan_dir env p s = (t, Inr qs) \<Longrightarrow> qs = descendants (dk_tree s) p"
  by (auto simp: scan_dir_def dest!: disk_op_Inr split: option.splits node.splits)

lemma looks_scan [looking]: "looks (scan_dir env p)"
  by (simp add: scan_dir_def looks_op)

lemma copy_tree_Inr:
  assumes "copy_tree env src dst s = (u, Inr ())" "dst \<noteq> []" "\<And>rel. node_at (dk_tree s) (dst @ rel) = None"
  shows "staging dst (\<lambda>rel. file_at (dk_tree s) (src @ rel)) UNIV s u"
proof -
  let ?tr = "dk_tree s"
  obtain v w x entries where run: "scan_dir env src s = (v, Inr entries)" "make_new_dirs env dst v = (w, Inr ())"
      "copy_entries env src dst entries w = (x, Inr True)" "copy_mode env src dst x = (u, Inr ())"
    using assms(1) by (auto simp: copy_tree_def sbind_Inr split: if_splits dest!: collect_True)
  note v = looksD [OF looks_scan run(1)]
  have w: "file_at (dk_tree w) = file_at ?tr" using make_new_dirs_files [OF run(2)] v by simp
  have entries: "set entries = {q. strict_prefix src q \<and> node_at ?tr q \<noteq> None}"
    using scan_dir_Inr [OF run(1)] by (simp add: descendants_set)
  have out: "strict_prefix src q \<and> \<not> prefix dst q" if "q \<in> set entries" for q
    using that assms(3) unfolding entries by (auto elim: prefixE)
  have copied: "staging dst (\<lambda>rel. file_at ?tr (src @ rel)) {rel. src @ rel \<in> set entries \<and> file_at ?tr (src @ rel) \<noteq> None} w x"
    by (rule copy_entries_Inr [OF run(3) assms(2) out]) (simp_all add: w)
  have none: "file_at ?tr (dst @ rel) = None" for rel using assms(3) by (simp add: file_at_def)
  have src: "file_at ?tr src = None"
    using run(1) by (auto simp: scan_dir_def file_at_def dest!: disk_op_Inr split: option.splits node.splits)
  have all: "rel \<in> {rel. src @ rel \<in> set entries \<and> file_at ?tr (src @ rel) \<noteq> None}" if "file_at ?tr (src @ rel) \<noteq> None" for rel
    using that src file_node [OF that] unfolding entries by (cases "rel = []") (simp_all add: strict_prefix_def)
  have x: "file_at (dk_tree x) (dst @ rel) = file_at ?tr (src @ rel)" for rel
  proof (cases "file_at ?tr (src @ rel)")
    case None
    with copied show ?thesis unfolding staging_def by (simp add: w none)
  next
    case (Some y)
    with copied all [of rel] show ?thesis unfolding staging_def by simp
  qed
  obtain y n where y: "node_info env src x = (y, Inr n)" "change_mode env dst (case n of Dir m \<Rightarrow> m | File _ m \<Rightarrow> m) y = (u, Inr ())"
    using run(4) unfolding copy_mode_def by (auto simp: sbind_Inr)
  have "file_at (dk_tree u) = file_at (dk_tree x)"
    using change_mode_dir [OF y(2)] looked [OF looks_ops(7) y(1)] x [of "[]"] src by simp
  with copied x w show ?thesis by (simp add: staging_def)
qed

text \<open>The modules.\<close>

lemma copy_modules_Inr:
  assumes "seach (copy_module env (dst @ dir)) qs s = (u, Inr ())" "dst \<noteq> []"
    "\<And>q. q \<in> set qs \<Longrightarrow> q = src @ [last q] \<and> ends_with ''.py'' (last q) \<and> \<not> prefix dst q"
    "\<And>q. q \<in> set qs \<Longrightarrow> file_at (dk_tree s) q = file_at tr q"
    "\<And>n. case file_at (dk_tree s) (dst @ dir @ [n]) of Some (_, k) \<Rightarrow> k = default_mode env 438 | None \<Rightarrow> True"
  shows "(\<forall>q\<in>set qs. file_at tr q \<noteq> None) \<and>
    staging dst (\<lambda>rel. map_option (\<lambda>(b, _). (b, default_mode env 438)) (file_at tr (src @ [last rel])))
      ((\<lambda>q. dir @ [last q]) ` set qs) s u"
  using assms(1,3-5)
proof (induction qs arbitrary: s)
  case (Cons q qs)
  let ?g = "\<lambda>rel. map_option (\<lambda>(b, _). (b, default_mode env 438)) (file_at tr (src @ [last rel]))"
  let ?rel = "dir @ [last q]"
  obtain v where "copy_module env (dst @ dir) q s = (v, Inr ())" and rest: "seach (copy_module env (dst @ dir)) qs v = (u, Inr ())"
    using Cons.prems(1) by (auto simp: sbind_Inr)
  then have v: "copy_file env q (dst @ ?rel) s = (v, Inr ())" "seach (copy_module env (dst @ dir)) qs v = (u, Inr ())"
    by (simp_all add: copy_module_def)
  have "dst @ ?rel \<noteq> []" by simp
  from copy_file_Inr [OF v(1) this] obtain b m where b: "file_at (dk_tree s) q = Some (b, m)"
      "file_at (dk_tree v) = (file_at (dk_tree s))(dst @ ?rel := Some (b,
        case file_at (dk_tree s) (dst @ ?rel) of Some (_, k) \<Rightarrow> k | None \<Rightarrow> default_mode env 438))" by blast
  have q: "q = src @ [last q]" "\<not> prefix dst q" "file_at tr q = Some (b, m)"
    using Cons.prems(2,3) [of q] b(1) by auto
  have "(case file_at (dk_tree s) (dst @ ?rel) of Some (_, k) \<Rightarrow> k | None \<Rightarrow> default_mode env 438) = default_mode env 438"
    using Cons.prems(4) [of "last q"] by (auto split: option.splits)
  with b(2) have v': "file_at (dk_tree v) = (file_at (dk_tree s))(dst @ ?rel := Some (b, default_mode env 438))" by simp
  have g: "?g ?rel = Some (b, default_mode env 438)" using q(3) by (metis (no_types, lifting) case_prod_conv last_snoc option.simps(9) q(1))
  have step: "staging dst ?g {?rel} s v" using v' g by (auto simp: staging_def)
  have same: "file_at (dk_tree v) p = file_at tr p" if "p \<in> set qs" for p
    using that Cons.prems(2,3) [of p] v' by auto
  have modes: "case file_at (dk_tree v) (dst @ dir @ [n]) of Some (_, k) \<Rightarrow> k = default_mode env 438 | None \<Rightarrow> True" for n
    using Cons.prems(4) [of n] v' by auto
  from Cons.IH [OF v(2) _ same modes] Cons.prems(2)
  have IH: "(\<forall>q\<in>set qs. file_at tr q \<noteq> None) \<and> staging dst ?g ((\<lambda>q. dir @ [last q]) ` set qs) v u" by simp
  with staging_trans [OF step, of "(\<lambda>q. dir @ [last q]) ` set qs" u] q(3) show ?case by simp
qed (simp add: staging_def)

subsection \<open>Nothing outside of the output changes\<close>

definition below_output :: "fpath \<Rightarrow> fpath set" where
  "below_output output = {q. strict_prefix output q}"

lemma below_outputI: "rel \<noteq> [] \<Longrightarrow> output @ rel \<in> below_output output"
  by (simp add: below_output_def strict_prefix_def)

lemma confined_make_new_dir [keeps_rules]:
  assumes "may_make A p"
  shows "keeps_confined A s (make_new_dir env p)"
proof -
  have "dk_tree (fst (make_new_dir env p d)) = dk_tree d \<or>
      dk_tree (fst (make_new_dir env p d)) = dk_tree (fst (make_dir env p d))" for d
    by (auto simp: make_new_dir_def make_dir_def disk_op_def split: option.splits node.splits prod.splits)
  then show ?thesis using confined_make_dir [OF assms, of s env] unfolding keeps_def by metis
qed

lemma confined_make_new_dirs [keeps_rules]:
  assumes "may_make A p"
  shows "keeps_confined A s (make_new_dirs env p)"
proof -
  have "may_make A (butlast p)" using assms prefixeq_butlast prefix_order.trans unfolding may_make_def by blast
  with assms show ?thesis unfolding make_new_dirs_def by (intro keeps_rules)
qed

lemma confined_scan [keeps_rules]: "keeps_confined A s (scan_dir env p)"
  by (rule confined_looks [OF looks_scan])

lemma confined_copy_file [keeps_rules]: "p \<in> A \<Longrightarrow> p \<noteq> [] \<Longrightarrow> keeps_confined A s (copy_file env q p)"
  unfolding copy_file_def by (intro keeps_rules)

text \<open>The mode of a directory above the region.\<close>

lemma confined_mode_above:
  assumes "node_at s p = None" "\<exists>a\<in>A. strict_prefix p a" "p \<notin> A"
  shows "keeps_confined A s (change_mode env p mode)"
  unfolding change_mode_def
proof (rule confined_op)
  fix tr assume c: "confined A s tr"
  have p: "p \<noteq> []" using assms(1) by (auto simp: node_at_def)
  from c assms(1,3) have "node_at tr p = None \<or> (\<exists>k. node_at tr p = Some (Dir k))" unfolding confined_def by metis
  note kind = this
  show "confined A s (fst (case node_at tr p of Some (File b _) \<Rightarrow> (put p (File b mode) tr, Inr ())
      | Some (Dir _) \<Rightarrow> (if p = [] then tr else put p (Dir mode) tr, Inr ()) | None \<Rightarrow> (tr, Inl OSError)))"
  proof (cases "node_at tr p = None")
    case False
    with kind obtain k where k: "node_at tr p = Some (Dir k)" by blast
    have closed: "tree_closed tr" using c by (simp add: confined_def)
    then obtain m where "node_at tr (butlast p) = Some (Dir m)" using k p unfolding tree_closed_def by blast
    from closed_put [OF closed p this, of "Dir mode"] have "tree_closed (put p (Dir mode) tr)" by blast
    with c assms(1,2) p have "confined A s (put p (Dir mode) tr)" unfolding confined_def by (auto simp: node_at_put)
    with k p show ?thesis by simp
  qed (use c in simp)
qed

lemma confined_copy_mode [keeps_rules]: "p \<in> A \<Longrightarrow> p \<noteq> [] \<Longrightarrow> keeps_confined A s (copy_mode env q p)"
  unfolding copy_mode_def by (intro keeps_rules)

lemma confined_copy_entry [keeps_rules]: "p \<in> A \<Longrightarrow> p \<noteq> [] \<Longrightarrow> keeps_confined A s (copy_entry env q p)"
  unfolding copy_entry_def by (intro keeps_rules) (auto simp: may_make_def)

lemma confined_collect [keeps_rules]: "keeps_confined A s m \<Longrightarrow> keeps_confined A s (collect m)"
  unfolding collect_def by (intro keeps_rules)

lemma keeps_sbind_result:
  assumes "keeps P m" "\<And>s t x. m s = (t, Inr x) \<Longrightarrow> keeps P (f x)"
  shows "keeps P (sbind m f)"
  unfolding keeps_def
proof (intro allI impI)
  fix s assume "P s"
  obtain t r where m: "m s = (t, r)" by fastforce
  then have "P t" using assms(1) \<open>P s\<close> by (metis keepsD)
  show "P (fst (sbind m f s))"
  proof (cases r)
    case (Inr x)
    with assms(2) m have "keeps P (f x)" by blast
    with \<open>P t\<close> m Inr show ?thesis by (simp add: keeps_def sbind_def)
  qed (use m \<open>P t\<close> in \<open>simp add: sbind_def\<close>)
qed

lemma copy_entries_confined:
  assumes "\<And>q. q \<in> set qs \<Longrightarrow> strict_prefix src q"
  shows "keeps_confined (below_output output) s (copy_entries env src output qs)"
  using assms
proof (induction qs)
  case (Cons q qs)
  from Cons.prems [of q] have "drop (length src) q \<noteq> []"
    by (auto simp: strict_prefix_def elim: prefixE)
  then show ?case
    unfolding copy_entries.simps
    using Cons below_outputI by (intro keeps_rules) auto
qed (unfold copy_entries.simps, intro keeps_rules)

lemma copy_tree_confined:
  assumes "node_at s output = None"
  shows "keeps_confined (below_output output) s (copy_tree env src output)"
proof -
  have above: "\<exists>a\<in>below_output output. strict_prefix output a"
    by (rule bexI [of _ "output @ [''x'']"]) (auto simp: below_output_def strict_prefix_def)
  then have make: "may_make (below_output output) output" by (auto simp: may_make_def strict_prefix_def)
  have inside: "output \<notin> below_output output" by (simp add: below_output_def)
  then have mode: "keeps_confined (below_output output) s (copy_mode env src output)"
    unfolding copy_mode_def by (intro keeps_rules confined_mode_above assms above)
  have entries: "strict_prefix src q" if "scan_dir env src d = (t, Inr qs)" "q \<in> set qs" for d t qs q
    using that scan_dir_Inr [OF that(1)] by (simp add: descendants_set)
  show ?thesis
    unfolding copy_tree_def
  proof (rule keeps_sbind_result [OF confined_scan], goal_cases)
    case (1 d t qs)
    then show ?case by (intro keeps_rules make mode copy_entries_confined) (rule entries)
  qed
qed

lemma port_steps_confined:
  assumes "node_at s output = None"
  shows "keeps_confined (below_output output) s (port_steps env src output modules)"
proof -
  have "may_make (below_output output) (output @ port_module_dir)"
    using below_outputI [of port_module_dir "output"] by (auto simp: may_make_def port_module_dir_def)
  moreover have "keeps_confined (below_output output) s (copy_module env (output @ port_module_dir) q)" for q
    unfolding copy_module_def using below_outputI [of "port_module_dir @ [last q]" "output"]
    by (intro keeps_rules) auto
  ultimately show ?thesis
    unfolding port_steps_def using assms by (intro keeps_rules copy_tree_confined)
qed

subsection \<open>The outcome\<close>

lemma kept_below:
  assumes "a \<in> below_output output" "strict_prefix q a"
  shows "prefix output q \<or> strict_prefix q output"
  using assms prefix_same_cases [of "output" a q] by (auto simp: below_output_def strict_prefix_def)

text \<open>The checks before the first write.\<close>

lemma prepare_port_checks:
  assumes "prepare_port env repo output s = (u, r)"
  obtains "dk_tree u = dk_tree s" "isl r"
    | v where "dk_tree v = dk_tree s" "node_at (dk_tree s) output = None"
      "scatch (port_steps env (repo @ [''pfsense'']) output (py_files (dk_tree s) (repo @ [''src'', ''f2bguard''])))
         (clean_up env output) v = (u, r)"
proof -
  let ?dir = "repo @ [''src'', ''f2bguard'']" and ?make = "repo @ [''pfsense'', ''Makefile'']"
  let ?before = "sbind (path_exists env output) (\<lambda>taken.
      sbind (slift (rguard (\<not> taken) (PortError (''refusing to overwrite output: /'' @ posix output)))) (\<lambda>_.
      sbind (list_py env ?dir) (\<lambda>modules.
      sbind (is_file env ?make) (\<lambda>found.
      sbind (slift (rguard (found \<and> modules \<noteq> []) (PortError ''repository does not contain the port and Python modules''))) (\<lambda>_.
        sret modules)))))"
  have split: "prepare_port env repo output = sbind ?before
      (\<lambda>modules. scatch (port_steps env (repo @ [''pfsense'']) output modules) (clean_up env output))"
    by (auto simp: prepare_port_def sbind_def sret_def fun_eq_iff split: prod.splits sum.splits)
  have looks: "looks ?before" by (intro looking)
  obtain v x where v: "?before s = (v, x)" by fastforce
  note tree = looksD [OF looks v]
  show thesis
  proof (cases x)
    case (Inl e)
    with v assms have "u = v" "r = Inl e" by (simp_all add: split sbind_def)
    with tree show thesis by (intro that(1)) simp_all
  next
    case (Inr modules)
    with v obtain w y where w: "path_exists env output s = (w, Inr False)" "list_py env ?dir w = (y, Inr modules)"
      by (auto simp: sbind_Inr rguard_eq_Inr)
    have "node_at (dk_tree s) output = None" using path_exists_Inr [OF w(1)] by simp
    moreover have "modules = py_files (dk_tree s) ?dir"
      using list_py_Inr [OF w(2)] looksD [OF looks_ops(1) w(1)] by simp
    ultimately show thesis using v assms Inr tree by (intro that(2) [of v]) (simp_all add: split sbind_def)
  qed
qed

lemma port_steps_Inr:
  assumes "port_steps env (repo @ [''pfsense'']) output (py_files (dk_tree s) (repo @ [''src'', ''f2bguard''])) s = (u, Inr out)"
    "tree_ok (dk_tree s)" "output \<noteq> []" "node_at (dk_tree s) output = None"
  shows "out = output \<and> (\<forall>rel. file_at (dk_tree u) (output @ rel) = port_file env (dk_tree s) repo rel) \<and>
    (\<exists>makefile. text_at (dk_tree u) (output @ [''Makefile'']) = Some makefile \<and>
       contains ''${FILESDIR}${DATADIR}/f2bguard/*.py'' makefile \<and> \<not> contains ''../src'' makefile)"
proof -
  let ?tr = "dk_tree s" and ?src = "repo @ [''src'', ''f2bguard'']" and ?A = "below_output output"
  let ?modules = "py_files ?tr ?src"
  obtain v w x y makefile where run: "copy_tree env (repo @ [''pfsense'']) output s = (v, Inr ())"
      "make_new_dirs env (output @ port_module_dir) v = (w, Inr ())"
      "seach (copy_module env (output @ port_module_dir)) ?modules w = (x, Inr ())"
      "read_text env (output @ [''Makefile'']) x = (y, Inr makefile)" "self_contained makefile = Inr ()"
      "u = y" "out = output"
    using assms(1) by (auto simp: port_steps_def sbind_Inr)
  note closed = tree_ok_closed [OF assms(2)]
  have below: "node_at ?tr (output @ rel) = None" for rel
  proof (rule ccontr)
    assume "node_at ?tr (output @ rel) \<noteq> None"
    from closed_below [OF closed _ this, of "output"] assms(4) show False by simp
  qed
  note copied = copy_tree_Inr [OF run(1) assms(3) below]
  have v: "file_at (dk_tree v) (output @ rel) = file_at ?tr (repo @ [''pfsense''] @ rel)" for rel
    using copied by (simp add: staging_def)
  have w: "file_at (dk_tree w) = file_at (dk_tree v)" by (rule make_new_dirs_files [OF run(2)])
  have fresh: "file_at (dk_tree v) (output @ port_module_dir @ [n]) = None" for n
  proof -
    obtain z where z: "make_dirs env (butlast (output @ port_module_dir)) v = (z, Inr ())"
        "make_new_dir env (output @ port_module_dir) z = (w, Inr ())"
      using run(2) by (auto simp: make_new_dirs_def sbind_Inr)
    have "confined ?A ?tr (dk_tree v)"
      by (rule keepsD [OF copy_tree_confined [OF assms(4)] confined_refl [OF closed] run(1)])
    moreover have "may_make ?A (butlast (output @ port_module_dir))"
      using below_outputI [of "butlast port_module_dir" "output"] by (auto simp: may_make_def port_module_dir_def butlast_append)
    ultimately have "confined ?A ?tr (dk_tree z)" using keepsD [OF confined_make_dirs _ z(1)] by blast
    then have "tree_closed (dk_tree z)" by (simp add: confined_def)
    moreover have "node_at (dk_tree z) (output @ port_module_dir) = None" using make_new_dir_Inr [OF z(2)] by simp
    ultimately have "node_at (dk_tree z) ((output @ port_module_dir) @ [n]) = None"
      using closed_below [of "dk_tree z" "output @ port_module_dir" "(output @ port_module_dir) @ [n]"] by force
    then have "file_at (dk_tree z) (output @ port_module_dir @ [n]) = None" by (simp add: file_at_def)
    then show ?thesis unfolding make_dirs_files [OF z(1)] .
  qed
  have modules: "set ?modules = {q. strict_prefix ?src q \<and> node_at ?tr q \<noteq> None \<and> butlast q = ?src \<and> ends_with ''.py'' (last q)}"
    by (auto simp: py_files_def descendants_set)
  have each: "q = ?src @ [last q] \<and> ends_with ''.py'' (last q) \<and> \<not> prefix output q" if "q \<in> set ?modules" for q
  proof -
    from that have q: "q \<noteq> []" "butlast q = ?src" "ends_with ''.py'' (last q)" "node_at ?tr q \<noteq> None"
      unfolding modules by (auto simp: strict_prefix_def)
    have "?src @ [last q] = q" using append_butlast_last_id [OF q(1)] unfolding q(2) .
    moreover have "\<not> prefix output q" using closed_below [OF closed _ q(4)] assms(4) by blast
    ultimately show ?thesis using q(3) by simp
  qed
  have same: "file_at (dk_tree w) q = file_at ?tr q" if "q \<in> set ?modules" for q
    using each [OF that] copied w by (simp add: staging_def)
  let ?g = "\<lambda>rel. map_option (\<lambda>(b, _). (b, default_mode env 438)) (file_at ?tr (?src @ [last rel]))"
  let ?D = "(\<lambda>q. port_module_dir @ [last q]) ` set ?modules"
  from copy_modules_Inr [OF run(3) assms(3) each same] fresh w
  have mods: "\<forall>q\<in>set ?modules. file_at ?tr q \<noteq> None" "staging output ?g ?D w x" by auto
  have D: "rel \<in> ?D \<longleftrightarrow> rel \<noteq> [] \<and> butlast rel = port_module_dir \<and> ends_with ''.py'' (last rel) \<and> file_at ?tr (?src @ [last rel]) \<noteq> None" for rel
  proof
    assume "rel \<in> ?D"
    then obtain q where q: "q \<in> set ?modules" "rel = port_module_dir @ [last q]" by blast
    with each [OF q(1)] mods(1) show "rel \<noteq> [] \<and> butlast rel = port_module_dir \<and> ends_with ''.py'' (last rel) \<and> file_at ?tr (?src @ [last rel]) \<noteq> None"
      by (metis append_is_Nil_conv butlast_snoc last_snoc not_Cons_self2)
  next
    assume r: "rel \<noteq> [] \<and> butlast rel = port_module_dir \<and> ends_with ''.py'' (last rel) \<and> file_at ?tr (?src @ [last rel]) \<noteq> None"
    then have "file_at ?tr (?src @ [last rel]) \<noteq> None" by (elim conjE)
    then have "node_at ?tr (?src @ [last rel]) \<noteq> None" by (rule file_node)
    with r have "?src @ [last rel] \<in> set ?modules" unfolding modules in_py_files by blast
    moreover have "rel = port_module_dir @ [last (?src @ [last rel])]" using r append_butlast_last_id [of rel] by simp
    ultimately show "rel \<in> ?D" by blast
  qed
  have files: "file_at (dk_tree x) (output @ rel) = port_file env ?tr repo rel" for rel
  proof -
    have "file_at (dk_tree x) (output @ rel) = (if rel \<in> ?D then ?g rel else file_at (dk_tree w) (output @ rel))"
      using mods(2) unfolding staging_def by blast
    also have "\<dots> = port_file env ?tr repo rel" unfolding port_file_def D w v by auto
    finally show ?thesis .
  qed
  have "dk_tree u = dk_tree x" using looksD [OF looks_text run(4)] run(6) by simp
  moreover have "contains ''${FILESDIR}${DATADIR}/f2bguard/*.py'' makefile" "\<not> contains ''../src'' makefile"
    using run(5) by (auto simp: self_contained_def rbind_eq_Inr rguard_eq_Inr)
  ultimately show ?thesis using run(7) files read_text_at [OF run(4)] by auto
qed


text \<open>
  C39. What \<open>prepare_port\<close> leaves at an output that is not inside the port's own directory \<^verbatim>\<open>pfsense\<close>,
  whichever of its calls fail, the removals of the clean-up included: outside of the output only directories
  above it are added. A run that returns leaves the port's files with the modules put into \<open>files\<close>, at the
  mode of new files, and a Makefile that passes the check. A run that raises leaves the tree as it was, or
  nothing at the output, provided that the clean-up's own calls do not fail.
\<close>

theorem prepare_port_outcome:
  assumes "tree_ok (dk_tree s)" "output \<noteq> []"
    "\<not> prefix (repo @ [''pfsense'']) output" "prepare_port env repo output s = (u, r)"
  shows "(\<forall>q. \<not> prefix output q \<longrightarrow> node_at (dk_tree u) q = node_at (dk_tree s) q \<or>
      node_at (dk_tree s) q = None \<and> strict_prefix q output \<and> (\<exists>m. node_at (dk_tree u) q = Some (Dir m))) \<and>
    (case r of
       Inl e \<Rightarrow> cleans env output \<longrightarrow> dk_tree u = dk_tree s \<or> (\<forall>q. prefix output q \<longrightarrow> node_at (dk_tree u) q = None)
     | Inr out \<Rightarrow> out = output \<and> (\<forall>rel. file_at (dk_tree u) (output @ rel) = port_file env (dk_tree s) repo rel) \<and>
         (\<exists>makefile. text_at (dk_tree u) (output @ [''Makefile'']) = Some makefile \<and>
            contains ''${FILESDIR}${DATADIR}/f2bguard/*.py'' makefile \<and> \<not> contains ''../src'' makefile))"
  using assms(4)
proof (cases rule: prepare_port_checks)
  case 1
  then show ?thesis by (cases r) simp_all
next
  case (2 v)
  let ?steps = "port_steps env (repo @ [''pfsense'']) output (py_files (dk_tree v) (repo @ [''src'', ''f2bguard'']))"
  have run: "scatch ?steps (clean_up env output) v = (u, r)" using 2(1,3) by simp
  have closed: "tree_closed (dk_tree v)" "node_at (dk_tree v) output = None"
    using 2(1,2) tree_ok_closed [OF assms(1)] by simp_all
  have inside: "output \<notin> below_output output" by (simp add: below_output_def)
  have kept: "(\<forall>q. \<not> prefix output q \<and> q \<notin> below_output output \<longrightarrow>
      node_at (dk_tree u) q = node_at (dk_tree v) q \<or>
      node_at (dk_tree v) q = None \<and> strict_prefix q output \<and> (\<exists>m. node_at (dk_tree u) q = Some (Dir m))) \<and>
    (isl r \<and> cleans env output \<longrightarrow> (\<forall>q. prefix output q \<longrightarrow> node_at (dk_tree u) q = None))"
    by (rule kept_output [OF port_steps_confined [OF closed(2)] closed assms(2) inside _ run]) (rule kept_below)
  then have outside: "\<forall>q. \<not> prefix output q \<longrightarrow> node_at (dk_tree u) q = node_at (dk_tree s) q \<or>
      node_at (dk_tree s) q = None \<and> strict_prefix q output \<and> (\<exists>m. node_at (dk_tree u) q = Some (Dir m))"
    unfolding 2(1) below_output_def strict_prefix_def by blast
  show ?thesis
  proof (cases r)
    case (Inl e)
    with kept outside show ?thesis by simp
  next
    case (Inr out)
    obtain w x where steps: "?steps v = (w, x)" by fastforce
    have "\<not> isl x" using run Inr clean_up_raises [of env "output" _ w u r] steps by (cases x) (auto simp: scatch_def)
    with run steps Inr have "?steps v = (u, Inr out)" by (cases x) (simp_all add: scatch_def)
    from port_steps_Inr [OF this _ assms(2) closed(2)] assms(1) 2(1) outside Inr show ?thesis by simp
  qed
qed


subsection \<open>A run\<close>

definition sample_port :: disk where
  "sample_port = \<lparr>dk_tree = [
     ([''pfsense''], Dir 493),
     ([''pfsense'', ''Makefile''], File ''${FILESDIR}${DATADIR}/f2bguard/*.py'' 384),
     ([''src''], Dir 493), ([''src'', ''f2bguard''], Dir 493),
     ([''src'', ''f2bguard'', ''m.py''], File ''code'' 384)], dk_calls = 0\<rparr>"

definition port_env :: build_env where
  "port_env = \<lparr>be_fault = (\<lambda>_ _. False), be_umask = 18, be_sha = (\<lambda>b. b), be_pack = (\<lambda>_. []), be_partial = (\<lambda>_. [])\<rparr>"

lemma sample_port_run: "tree_ok (dk_tree sample_port)" "snd (prepare_port port_env [] [''o''] sample_port) = Inr [''o'']"
    "port_file port_env (dk_tree sample_port) [] (port_module_dir @ [''m.py'']) = Some (''code'', 420)"
  by code_simp+

lemma prepare_port_outcome_witness:
  "file_at (dk_tree (fst (prepare_port port_env [] [''o''] sample_port))) ([''o''] @ port_module_dir @ [''m.py'']) =
     Some (''code'', 420)"
proof -
  obtain u where u: "prepare_port port_env [] [''o''] sample_port = (u, Inr [''o''])"
    using sample_port_run(2) by (metis prod.collapse)
  have "[''o''] \<noteq> []" "\<not> prefix ([] @ [''pfsense'']) [''o'']" by simp_all
  from prepare_port_outcome [OF sample_port_run(1) this u] sample_port_run(3) u show ?thesis by simp
qed

end
