(* ===== verification/SenderCommands.thy ===== *)
theory SenderCommands
  imports SenderDelivery
begin

text \<open>
  The \<open>snapshot\<close> command of \<open>_cli\<close> in \<^verbatim>\<open>client/sender.py\<close> beside other processes on the same store: the
  bound of its retries, what makes it retry, and what it commits. Then the composition of the commands,
  each of which keeps the store's invariant.
\<close>

subsection \<open>Only the fence makes a snapshot race\<close>

abbreviation no_race :: "'a result \<Rightarrow> bool" where
  "no_race r \<equiv> rspec r (\<lambda>_. True) (\<lambda>e. \<not> snapshot_race e)"

named_theorems racing "computations that do not raise SnapshotRace"

lemma no_race_rbind [racing]: "no_race r \<Longrightarrow> (\<And>x. no_race (f x)) \<Longrightarrow> no_race (rbind r f)"
  by (rule rspec_bind)

lemma no_race_rfold [racing]: "(\<And>x s. no_race (f x s)) \<Longrightarrow> no_race (rfold f xs s)"
  by (induction xs arbitrary: s) (auto intro: racing rspec_InrI)

lemma no_race_pair [racing]: "(\<And>a b. no_race (f a b)) \<Longrightarrow> no_race (case p of (a, b) \<Rightarrow> f a b)"
  by (cases p) simp

lemma no_race_leaves [racing]:
  "no_race (Inr x)" "no_race (canonical_ip v)" "no_race (sender_jail v)" "no_race (sender_uuid t)"
  "no_race (current_seq s)" "no_race (check_capacity limit s)" "no_race (activate jail ip ban s)" "no_race (tinsert key r rs)"
  by (auto simp: rspec_def sender_uuid_def current_seq_def check_capacity_def activate_def tinsert_def Let_def
      split: sum.splits option.splits if_splits dest: canonical_ip_raises sender_jail_raises py_int10_raises)

lemma no_race_next [racing]: "no_race (next_seq s)"
  unfolding next_seq_def Let_def by (intro racing)

lemma no_race_insert [racing]: "no_race (insert_outbox seq kind eid payload now s)"
  unfolding insert_outbox_def Let_def by (intro racing rspec_ifI) (auto simp: rspec_def)

lemma no_race_claimed: "claimed_id given existing = Some r \<Longrightarrow> no_race r"
  using no_race_leaves(4) by (auto simp: claimed_id_def rspec_def split: if_splits option.splits)

lemma no_race_pair_of [racing]: "no_race (claim_pair claim taken)"
  unfolding claim_pair_def by (intro racing rspec_ifI) (simp_all add: rspec_def)

lemma no_race_add [racing]: "no_race (add_claim random claim k existing acc)"
  unfolding add_claim_def
  by (cases "claimed_id (get_item claim ''ban_id'') existing") (auto intro: racing no_race_claimed)

lemma no_race_body: "fence_ok expected s = Inr () \<Longrightarrow> no_race (snapshot_body limit random wanted expected now s)"
  unfolding snapshot_body_def Let_def by simp (intro racing)

text \<open>The transaction: it raises without a change, or it commits behind the fence.\<close>

lemma snapshot_transaction:
  assumes "transact (snapshot_body limit random wanted (Some n) now) s = (t, r)"
  shows "(case r of Inl e \<Rightarrow> t = s \<and> (snapshot_race e \<longrightarrow> current_seq s \<noteq> Inr n) | Inr _ \<Rightarrow> current_seq s = Inr n)"
proof (cases "current_seq s = Inr n")
  case True
  then have "fence_ok (Some n) s = Inr ()" by (simp add: fence_ok_def)
  then have "\<not> snapshot_race e" if "snapshot_body limit random wanted (Some n) now s = Inl e" for e
    using rspecD(2) [OF no_race_body that] by blast
  with True assms show ?thesis by (auto simp: transact_def split: sum.splits)
next
  case False
  then have "fence_ok (Some n) s \<noteq> Inr ()" by (auto simp: fence_ok_def result_simps)
  then obtain e where "snapshot_body limit random wanted (Some n) now s = Inl e"
    by (cases "fence_ok (Some n) s") (auto simp: snapshot_body_def)
  with False assms show ?thesis by (auto simp: transact_def)
qed

subsection \<open>The store between two calls\<close>

text \<open>The store as the other processes alone leave it at the \<open>n\<close>-th call.\<close>

definition others_until :: "'w sender_env \<Rightarrow> 'w sender \<Rightarrow> nat \<Rightarrow> sender_db" where
  "others_until env s n = fold (we_others env) [sn_tick s ..< n] (sn_db s)"

lemma others_until_Suc: "sn_tick s \<le> n \<Longrightarrow> others_until env s (Suc n) = we_others env n (others_until env s n)"
  by (simp add: others_until_def)

lemma others_until_start [simp]: "others_until env s (sn_tick s) = sn_db s"
  by (simp add: others_until_def)

text \<open>A state that has been reached without a change of the store by this process.\<close>

definition unchanged :: "'w sender_env \<Rightarrow> 'w sender \<Rightarrow> 'w sender \<Rightarrow> bool" where
  "unchanged env s v \<longleftrightarrow> sn_tick s \<le> sn_tick v \<and> sn_db v = others_until env s (sn_tick v)"

lemma unchanged_refl [simp]: "unchanged env s s"
  by (simp add: unchanged_def)

lemma unchanged_until:
  assumes "unchanged env s v" "sn_tick v \<le> n"
  shows "others_until env v n = others_until env s n"
proof -
  have "[sn_tick s ..< n] = [sn_tick s ..< sn_tick v] @ [sn_tick v ..< n]"
    using assms by (metis le_iff_add upt_add_eq_append unchanged_def)
  then show ?thesis using assms(1) by (simp add: others_until_def unchanged_def)
qed

lemma unchanged_trans: "unchanged env s v \<Longrightarrow> unchanged env v t \<Longrightarrow> unchanged env s t"
  using unchanged_until [of env s v "sn_tick t"] by (auto simp: unchanged_def)

lemma on_store_call:
  assumes "on_store env call s = (t, r)"
  shows "sn_tick t = Suc (sn_tick s) \<and> sn_world t = sn_world s \<and>
    (if we_fault env (sn_tick s) then (others_until env s (sn_tick t), Inl SqliteError)
     else call (sn_tick s) (others_until env s (sn_tick t))) = (sn_db t, r)"
  using assms by (auto simp: on_store_def Let_def others_until_Suc split: prod.splits if_splits)

lemma on_store_reads:
  assumes "on_store env (\<lambda>_ d. (d, f d)) s = (t, r)"
  shows "sn_tick t = Suc (sn_tick s) \<and> sn_world t = sn_world s \<and> unchanged env s t \<and> (r = f (sn_db t) \<or> r = Inl SqliteError)"
  using on_store_call [OF assms] by (auto simp: unchanged_def split: if_splits)

text \<open>Reading the claims: one call on the store for each, in their order.\<close>

lemma read_claim_run:
  assumes "read_claim env random claim acc s = (t, r)"
  shows "sn_tick s \<le> sn_tick t \<and> sn_world t = sn_world s \<and> unchanged env s t \<and>
    (case r of Inl e \<Rightarrow> \<not> snapshot_race e
     | Inr acc' \<Rightarrow> sn_tick t = Suc (sn_tick s) \<and>
         (\<forall>views. views (length (fst acc)) = sn_db t \<longrightarrow> normalize_claim views random claim acc = Inr acc') \<and>
         length (fst acc') = Suc (length (fst acc)))"
proof (cases "claim_pair claim (fst acc)")
  case (Inl e)
  with assms rspecD(2) [OF no_race_pair_of Inl] show ?thesis by (auto simp: read_claim_def sbind_def)
next
  case (Inr k)
  obtain u x where u: "on_store env (\<lambda>_ d. (d, Inr (current_claim (fst k) (snd k) d))) s = (u, x)" by fastforce
  note U = on_store_reads [OF u]
  have grow: "length (fst acc') = Suc (length (fst acc))" if "add_claim random claim k existing acc = Inr acc'" for existing acc'
    using that by (auto simp: add_claim_def result_simps split: option.splits)
  from assms Inr u U show ?thesis
    using rspecD(2) [OF no_race_add, of random claim k _ acc] grow
    by (cases x) (auto simp: read_claim_def sbind_def normalize_claim_def split: sum.splits)
qed

lemma read_claims_run:
  assumes "read_claims env random claims acc s = (t, r)"
  shows "sn_tick s \<le> sn_tick t \<and> sn_world t = sn_world s \<and> unchanged env s t \<and>
    (case r of Inl e \<Rightarrow> \<not> snapshot_race e
     | Inr acc' \<Rightarrow> sn_tick t = sn_tick s + length claims \<and>
         (\<forall>views. (\<forall>i < length claims. views (length (fst acc) + i) = others_until env s (sn_tick s + i + 1)) \<longrightarrow>
            rfold (normalize_claim views random) claims acc = Inr acc'))"
  using assms
proof (induction claims arbitrary: acc s)
  case (Cons claim claims)
  obtain u x where u: "read_claim env random claim acc s = (u, x)" by fastforce
  note U = read_claim_run [OF u]
  show ?case
  proof (cases x)
    case (Inl e)
    with u Cons.prems have "t = u" "r = Inl e" by (simp_all add: sbind_def)
    with U Inl show ?thesis by simp
  next
    case (Inr acc1)
    with u Cons.prems have rest: "read_claims env random claims acc1 u = (t, r)" by (simp add: sbind_def)
    note IH = Cons.IH [OF rest]
    have first: "sn_tick u = Suc (sn_tick s)" "length (fst acc1) = Suc (length (fst acc))"
        "views (length (fst acc)) = sn_db u \<Longrightarrow> normalize_claim views random claim acc = Inr acc1" for views
      using U Inr by auto
    have db: "sn_db u = others_until env s (Suc (sn_tick s))" using U first(1) by (simp add: unchanged_def)
    have same: "others_until env u n = others_until env s n" if "sn_tick u \<le> n" for n
      using unchanged_until that U by blast
    have fold: "rfold (normalize_claim views random) (claim # claims) acc = Inr acc'"
      if views: "\<forall>i < Suc (length claims). views (length (fst acc) + i) = others_until env s (sn_tick s + i + 1)"
        and r: "r = Inr acc'" for views acc'
    proof -
      have "views (length (fst acc)) = sn_db u" using spec [OF views, of 0] db by simp
      moreover have "views (length (fst acc1) + i) = others_until env u (sn_tick u + i + 1)" if "i < length claims" for i
        using spec [OF views, of "Suc i"] that same [of "sn_tick u + i + 1"] first by simp
      ultimately show ?thesis using IH first(3) r by simp
    qed
    show ?thesis
      using U IH Inr first(1) fold unchanged_trans by (auto split: sum.splits)
  qed
qed auto

subsection \<open>The rounds\<close>

text \<open>
  A round that starts at the \<open>n\<close>-th call, with the world \<open>w\<close>: the first call reads the fence, then
  Fail2Ban is asked, every enumerated claim is looked up in a call, and the last call is the transaction.
\<close>

definition enumerated ::
  "'w sender_env \<Rightarrow> 'w sender \<Rightarrow> nat \<times> 'w \<Rightarrow> int \<Rightarrow> (pystr \<times> json) list list \<Rightarrow> nat \<times> 'w \<Rightarrow> bool" where
  "enumerated env s p observed claims p' \<longleftrightarrow>
     current_seq (others_until env s (fst p + 1)) = Inr observed \<and>
     enumerate_permanent_jails (we_config env) (we_runner env (fst p + 1)) (snd p) = (snd p', Inr claims) \<and>
     fst p' = fst p + length claims + 2"

text \<open>A round that the fence ends: the counter has changed before the transaction.\<close>

definition raced :: "'w sender_env \<Rightarrow> 'w sender \<Rightarrow> nat \<times> 'w \<Rightarrow> nat \<times> 'w \<Rightarrow> bool" where
  "raced env s p p' \<longleftrightarrow> (\<exists>observed claims. enumerated env s p observed claims p' \<and>
     current_seq (others_until env s (fst p')) \<noteq> Inr observed)"

text \<open>The round that commits: the counter still has the value of the fence.\<close>

definition committed :: "'w sender_env \<Rightarrow> 'w sender \<Rightarrow> nat \<times> 'w \<Rightarrow> 'w sender \<Rightarrow> bool" where
  "committed env s p t \<longleftrightarrow> (\<exists>observed claims snapshot. enumerated env s p observed claims (sn_tick t, sn_world t) \<and>
     current_seq (others_until env s (sn_tick t)) = Inr observed \<and>
     enqueue_snapshot max_pending (we_random env (fst p + 1)) claims (we_clock env (fst p + 1)) (Some observed)
       (\<lambda>i. others_until env s (fst p + 2 + i)) (others_until env s (sn_tick t)) = (sn_db t, Inr snapshot))"

lemma snapshot_round:
  assumes "snapshot_rounds env (Suc k) s = (t, r)"
  obtains (commits) "r = Inr 0" "committed env s (sn_tick s, sn_world s) t"
    | (raises) e where "r = Inl e" "unchanged env s t"
    | (again) v where "snapshot_rounds env k v = (t, r)" "unchanged env s v" "raced env s (sn_tick s, sn_world s) (sn_tick v, sn_world v)"
proof -
  let ?n = "sn_tick s"
  obtain a x where a: "on_store env (\<lambda>_ d. (d, current_seq d)) s = (a, x)" by fastforce
  note A = on_store_reads [OF a]
  show thesis
  proof (cases x)
    case (Inl e)
    with a assms have "t = a" "r = Inl e" by (simp_all add: sbind_def)
    with A show thesis by (intro raises [of e]) simp_all
  next
    case observed: (Inr observed)
    with A have seen: "current_seq (others_until env s (?n + 1)) = Inr observed" by (auto simp: unchanged_def)
    obtain w y where y: "enumerate_permanent_jails (we_config env) (we_runner env (?n + 1)) (sn_world s) = (w, y)" by fastforce
    define b where "b = a\<lparr>sn_world := w\<rparr>"
    have b: "ask_fail2ban env a = (b, y)" using y A by (simp add: ask_fail2ban_def in_world_def b_def)
    have B: "sn_tick b = ?n + 1" "sn_world b = w" "unchanged env s b" using A by (auto simp: b_def unchanged_def)
    show thesis
    proof (cases y)
      case (Inl e)
      with a b observed assms have "t = b" "r = Inl e" by (simp_all add: sbind_def)
      with B show thesis by (intro raises [of e]) simp_all
    next
      case claims: (Inr claims)
      let ?random = "we_random env (?n + 1)" and ?now = "we_clock env (?n + 1)"
      obtain c q where c: "read_claims env ?random claims ([], 0) b = (c, q)" by fastforce
      note C = read_claims_run [OF c]
      have cs: "unchanged env s c" using unchanged_trans B(3) C by blast
      have run: "snapshot_rounds env (Suc k) s = scatch (sbind (take_snapshot env claims observed) (\<lambda>_. sret 0))
          (\<lambda>e. if snapshot_race e then snapshot_rounds env k else slift (Inl e)) b"
        using a b observed claims by (simp add: sbind_def)
      show thesis
      proof (cases q)
        case (Inl e)
        with run c C assms B(1) have "t = c" "r = Inl e"
          by (auto simp: scatch_def sbind_def take_snapshot_def Let_def)
        with cs show thesis by (intro raises [of e]) simp_all
      next
        case (Inr acc)
        obtain wanted drawn where acc: "acc = (wanted, drawn)" by fastforce
        let ?body = "snapshot_body max_pending (?random drawn) wanted (Some observed) ?now"
        obtain d z where d: "on_store env (\<lambda>_. transact ?body) c = (d, z)" by fastforce
        note D = on_store_call [OF d]
        have ticks: "sn_tick c = ?n + 1 + length claims" "sn_tick d = ?n + length claims + 2"
          using C D Inr B(1) by simp_all
        have last: "others_until env c (sn_tick d) = others_until env s (sn_tick d)"
          using unchanged_until [OF cs] ticks by simp
        have views: "others_until env b (sn_tick b + i + 1) = others_until env s (?n + 2 + i)" for i
          using unchanged_until [OF B(3), of "sn_tick b + i + 1"] B(1) by simp
        have norm: "normalize_claims (\<lambda>i. others_until env s (?n + 2 + i)) ?random claims = Inr (wanted, drawn)"
          using C views Inr acc by (simp add: normalize_claims_def)
        have round: "enumerated env s (?n, sn_world s) observed claims (sn_tick d, sn_world d)"
          using seen y claims ticks C D B(2) by (simp add: enumerated_def)
        have step: "snapshot_rounds env (Suc k) s = (case z of Inr _ \<Rightarrow> (d, Inr 0)
            | Inl e \<Rightarrow> (if snapshot_race e then snapshot_rounds env k else slift (Inl e)) d)"
          using run c d Inr acc B(1) by (simp add: scatch_def sbind_def take_snapshot_def Let_def split: sum.splits)
        show thesis
        proof (cases "we_fault env (sn_tick c)")
          case True
          with conjunct2 [OF conjunct2 [OF D]] have z: "z = Inl SqliteError" "sn_db d = others_until env c (sn_tick d)" by auto
          have "unchanged env s d" using z(2) last ticks by (simp add: unchanged_def)
          with z(1) step assms show thesis by (intro raises [of SqliteError]) simp_all
        next
          case False
          with conjunct2 [OF conjunct2 [OF D]] last have call: "transact ?body (others_until env s (sn_tick d)) = (sn_db d, z)" by simp
          note fence = snapshot_transaction [OF call]
          show thesis
          proof (cases z)
            case z: (Inr snapshot)
            have "enqueue_snapshot max_pending ?random claims ?now (Some observed) (\<lambda>i. others_until env s (?n + 2 + i))
                (others_until env s (sn_tick d)) = (sn_db d, Inr snapshot)"
              using norm call z by (simp add: enqueue_snapshot_def)
            then have "committed env s (?n, sn_world s) d"
              unfolding committed_def using round fence z by (intro exI conjI; simp)
            with step assms z show thesis by (intro commits) simp_all
          next
            case z: (Inl e)
            have same: "unchanged env s d" using fence z ticks by (simp add: unchanged_def)
            show thesis
            proof (cases "snapshot_race e")
              case True
              then have "raced env s (?n, sn_world s) (sn_tick d, sn_world d)"
                unfolding raced_def using round fence z by auto
              with True step assms z same show thesis by (intro again [of d]) simp_all
            next
              case False
              with step assms z same show thesis by (intro raises [of e]) simp_all
            qed
          qed
        qed
      qed
    qed
  qed
qed

lemma enumerated_later:
  assumes "unchanged env s v" "sn_tick v \<le> fst p"
  shows "enumerated env v p observed claims p' = enumerated env s p observed claims p'"
  using unchanged_until [OF assms(1), of "fst p + 1"] assms(2) by (simp add: enumerated_def)

lemma raced_later:
  assumes "unchanged env s v" "sn_tick v \<le> fst p"
  shows "raced env v p p' = raced env s p p'"
proof -
  have "others_until env v (fst p') = others_until env s (fst p')" if "enumerated env s p observed claims p'" for observed claims
    using unchanged_until [OF assms(1)] assms(2) that by (simp add: enumerated_def)
  then show ?thesis unfolding raced_def enumerated_later [OF assms] by (metis (no_types, lifting))
qed

lemma raced_power_later:
  assumes "unchanged env s v" "sn_tick v \<le> fst p" "(raced env v ^^ k) p p'"
  shows "(raced env s ^^ k) p p' \<and> fst p \<le> fst p'"
  using assms(3)
proof (induction k arbitrary: p')
  case (Suc k)
  then obtain q where q: "(raced env v ^^ k) p q" "raced env v q p'" by auto
  have "fst q \<le> fst p'" using q(2) by (auto simp: raced_def enumerated_def)
  moreover have "raced env s q p'" using Suc.IH [OF q(1)] q(2) raced_later [OF assms(1)] assms(2) by simp
  ultimately show ?case using Suc.IH [OF q(1)] by auto
qed simp

lemma committed_later:
  assumes "committed env v p t" "unchanged env s v" "sn_tick v \<le> fst p"
  shows "committed env s p t"
proof -
  from assms(1) obtain observed claims snapshot where c: "enumerated env v p observed claims (sn_tick t, sn_world t)"
      "current_seq (others_until env v (sn_tick t)) = Inr observed"
      "enqueue_snapshot max_pending (we_random env (fst p + 1)) claims (we_clock env (fst p + 1)) (Some observed)
         (\<lambda>i. others_until env v (fst p + 2 + i)) (others_until env v (sn_tick t)) = (sn_db t, Inr snapshot)"
    unfolding committed_def by blast
  have late: "sn_tick v \<le> sn_tick t" using c(1) assms(3) by (simp add: enumerated_def)
  have "others_until env v (fst p + 2 + i) = others_until env s (fst p + 2 + i)" for i
    using unchanged_until [OF assms(2)] assms(3) by simp
  then show ?thesis
    using c unchanged_until [OF assms(2) late] enumerated_later [OF assms(2,3)] unfolding committed_def by auto
qed

lemma snapshot_rounds_outcome:
  assumes "snapshot_rounds env k s = (t, r)"
  shows "\<exists>j p. j \<le> k \<and> (raced env s ^^ j) (sn_tick s, sn_world s) p \<and>
    (case r of
       Inl e \<Rightarrow> unchanged env s t \<and> fst p \<le> sn_tick t \<and>
         (j = k \<longrightarrow> p = (sn_tick t, sn_world t) \<and> e = RuntimeError ''Fail2Ban changed continuously; snapshot not created'')
     | Inr status \<Rightarrow> j < k \<and> status = 0 \<and> committed env s p t)"
  using assms
proof (induction k arbitrary: s)
  case (Suc k)
  let ?p = "(sn_tick s, sn_world s)"
  from Suc.prems show ?case
  proof (cases rule: snapshot_round)
    case (commits)
    then show ?thesis by (intro exI [of _ "0 :: nat"] exI [of _ ?p]) simp
  next
    case (raises e)
    then show ?thesis by (intro exI [of _ "0 :: nat"] exI [of _ ?p]) (simp add: unchanged_def)
  next
    case (again v)
    let ?q = "(sn_tick v, sn_world v)"
    from Suc.IH [OF again(1)] obtain j p where p: "j \<le> k" "(raced env v ^^ j) ?q p"
        "case r of
           Inl e \<Rightarrow> unchanged env v t \<and> fst p \<le> sn_tick t \<and>
             (j = k \<longrightarrow> p = (sn_tick t, sn_world t) \<and> e = RuntimeError ''Fail2Ban changed continuously; snapshot not created'')
         | Inr status \<Rightarrow> j < k \<and> status = 0 \<and> committed env v p t" by blast
    from raced_power_later [OF again(2) _ p(2)] have q: "(raced env s ^^ j) ?q p" "sn_tick v \<le> fst p" by simp_all
    have "(raced env s ^^ Suc j) ?p p" using again(3) q(1) by (rule relpowp_Suc_I2)
    then show ?thesis
      using p(1,3) unchanged_trans [OF again(2)] committed_later [OF _ again(2) q(2)]
      by (intro exI [of _ "Suc j"] exI [of _ p]) (auto split: sum.splits)
  qed
qed (intro exI [of _ "0 :: nat"], auto)




subsection \<open>The commands together\<close>

text \<open>
  \<open>_cli\<close> after the arguments are parsed: \<open>loaded\<close> is the configuration's outcome, \<open>isdir\<close> the directory
  test of the store's constructor, \<open>tls\<close> the outcome of \<open>HTTPSClient.__init__\<close>. The list of the worker
  holds what \<open>stop()\<close> returns.
\<close>

datatype sender_command =
    EnqueueClaim pystr pystr pystr "pystr option"
  | TakeSnapshot
  | RunWorker "bool list"

definition open_store :: "(pystr \<Rightarrow> bool) \<Rightarrow> 'w sender_env \<Rightarrow> ('w sender, unit) action" where
  "open_store isdir env = on_store env (\<lambda>_ d.
     case store_init isdir (sf_database (we_config env)) (int max_pending) d of Inl e \<Rightarrow> (d, Inl e) | Inr t \<Rightarrow> (t, Inr ()))"

definition run_command :: "unit result \<Rightarrow> sender_command \<Rightarrow> 'w sender_env \<Rightarrow> ('w sender, int) action" where
  "run_command tls cmd env =
     (case cmd of
        EnqueueClaim op jail ip bantime \<Rightarrow> cli_enqueue env op jail ip bantime
      | TakeSnapshot \<Rightarrow> cli_snapshot env
      | RunWorker stops \<Rightarrow> sbind (slift tls) (\<lambda>_. sbind (worker_run env stops) (\<lambda>_. sret 0)))"

definition sender_cli ::
  "sender_config result \<Rightarrow> (pystr \<Rightarrow> bool) \<Rightarrow> unit result \<Rightarrow> sender_command \<Rightarrow> 'w sender_env \<Rightarrow> ('w sender, int) action" where
  "sender_cli loaded isdir tls cmd env =
     sbind (slift loaded) (\<lambda>cfg. let e = env\<lparr>we_config := cfg\<rparr> in
     sbind (open_store isdir e) (\<lambda>_. run_command tls cmd e))"

text \<open>Every command keeps the store reachable, so that the store's invariant holds for the next one.\<close>

abbreviation keeps_store :: "('w sender, 'a) action \<Rightarrow> bool" where
  "keeps_store \<equiv> keeps (\<lambda>s. sender_reachable max_pending (sn_db s))"

lemma on_store_keeps:
  assumes "alone env" "\<And>n d t r. sender_reachable max_pending d \<Longrightarrow> call n d = (t, r) \<Longrightarrow> sender_reachable max_pending t"
  shows "keeps_store (on_store env call)"
  unfolding keeps_def using assms by (auto simp: on_store_alone split: prod.splits)

lemma open_store_keeps: "alone env \<Longrightarrow> keeps_store (open_store isdir env)"
  unfolding open_store_def by (rule on_store_keeps) (auto split: sum.splits intro: sender_reachable.Rejoin)

lemma cli_enqueue_keeps: "alone env \<Longrightarrow> keeps_store (cli_enqueue env op jail ip bantime)"
  unfolding cli_enqueue_def by (intro keeps_rules on_store_keeps) (auto intro: sender_reachable.Hook)

lemma cli_snapshot_keeps:
  fixes env :: "'w sender_env"
  shows "alone env \<Longrightarrow> keeps_store (cli_snapshot env)"
  unfolding keeps_def
proof (intro allI impI)
  fix s :: "'w sender"
  assume alone: "alone env" and reach: "sender_reachable max_pending (sn_db s)"
  have quiet: "others_until env s n = sn_db s" for n
  proof -
    have "fold (we_others env) ns d = d" for ns d using alone by (induction ns) (simp_all add: alone_def)
    then show ?thesis by (simp add: others_until_def)
  qed
  obtain t r where run: "cli_snapshot env s = (t, r)" by fastforce
  from snapshot_rounds_outcome [OF run [unfolded cli_snapshot_def]] reach have "sender_reachable max_pending (sn_db t)"
    unfolding committed_def unchanged_def quiet by (cases r) (auto intro: sender_reachable.Snapshot)
  with run show "sender_reachable max_pending (sn_db (fst (cli_snapshot env s)))" by simp
qed

lemma process_once_keeps:
  assumes "alone env" "sender_reachable max_pending (sn_db s)"
  shows "sender_reachable max_pending (sn_db (fst (process_once env now s)))"
proof -
  obtain t r where run: "process_once env now s = (t, r)" by fastforce
  have marks: "sender_reachable max_pending (marked env now sent row (sn_db s))" if "next_due now (sn_db s) = Some row" for sent row
    using sender_reachable.Delivered [OF assms(2) that] sender_reachable.Postponed [OF assms(2) that] by (simp add: marked_def)
  have noting: "sender_reachable max_pending (noted sent d)" if "sender_reachable max_pending d" for sent d
    using sender_reachable.Cleared [OF that] sender_reachable.Noted [OF that] by (simp add: noted_def)
  from assms(1) run have "sender_reachable max_pending (sn_db t)"
    by (cases rule: process_once_cases) (use assms(2) marks noting in auto)
  with run show ?thesis by simp
qed

lemma worker_run_keeps:
  fixes env :: "'w sender_env"
  shows "alone env \<Longrightarrow> keeps_store (worker_run env stops)"
  unfolding keeps_def
proof (intro allI impI)
  fix s :: "'w sender"
  assume "alone env" "sender_reachable max_pending (sn_db s)"
  then show "sender_reachable max_pending (sn_db (fst (worker_run env stops s)))"
  proof (induction stops arbitrary: s)
    case (Cons stop stops)
    with process_once_keeps [OF Cons.prems, of "we_clock env (sn_tick s)"] show ?case
      by (auto split: prod.splits sum.splits)
  qed simp
qed

theorem sender_cli_keeps_store:
  assumes "alone env" "sender_reachable max_pending (sn_db s)" "sender_cli loaded isdir tls cmd env s = (t, r)"
  shows "sender_reachable max_pending (sn_db t)"
proof -
  have alone: "alone (env\<lparr>we_config := cfg\<rparr>)" for cfg using assms(1) by (simp add: alone_def)
  have "keeps_store (sender_cli loaded isdir tls cmd env)"
    unfolding sender_cli_def Let_def run_command_def
    by (cases cmd; simp; intro keeps_rules open_store_keeps cli_enqueue_keeps cli_snapshot_keeps worker_run_keeps alone)
  from keepsD [OF this assms(2,3)] show ?thesis .
qed

end
